(* ===== verification/Prelude.thy ===== *)
theory Prelude
  imports Main "HOL-Library.Word" "HOL-Library.List_Lexorder" "HOL-Library.Char_ord"
    "HOL-Library.Option_ord" "HOL-Library.Product_Lexorder"
begin

text \<open>
  The vocabulary every component theory shares.

  \<^item> Machine integers: \<open>u8\<close> to \<open>u64\<close> are words of HOL-Library.Word (their \<open>+\<close> wraps, as
    Rust's \<open>wrapping_add\<close> does). Times in milliseconds or microseconds and counters that the
    code only adds to, compares, or subtracts with \<open>saturating_sub\<close> are \<open>nat\<close>: subtraction on
    \<open>nat\<close> stops at zero, which is \<open>saturating_sub\<close>.
  \<^item> Big-endian byte images of words (\<open>to_be_bytes\<close>, \<open>from_be_bytes\<close>).
  \<^item> Rust's \<open>String\<close>: a \<open>string\<close>, one \<open>char\<close> per byte of its UTF-8 image, with the standard
    library's \<open>as_bytes\<close>, \<open>from_utf8\<close> and \<open>from_utf8_lossy\<close>.
  \<^item> \<open>BTreeMap\<close> and \<open>BTreeSet\<close>: association lists and lists kept in key order, which is the
    order the code iterates over them.
  \<^item> Reachable states of a machine given by its steps, and invariants by rule induction.
\<close>

unbundle bit_operations_syntax

named_theorems bytes_simps \<open>byte images of words and strings\<close>
named_theorems btree_simps \<open>laws of the ordered maps and sets\<close>

section \<open>Machine integers\<close>

type_synonym u8 = "8 word"
type_synonym u16 = "16 word"
type_synonym u32 = "32 word"
type_synonym u64 = "64 word"

text \<open>Rust \<open>as i16\<close> on a difference of sequence numbers.\<close>

definition i16_of :: "u16 \<Rightarrow> int" where
  "i16_of w = sint w"

lemma shift16:
  "n < 65536 \<Longrightarrow> (int n + 32768) mod 65536 - 32768 = (if n < 32768 then int n else int n - 65536)"
proof (cases "n < 32768")
  case False
  assume "n < 65536"
  with False have "(int n - 32768) mod 65536 = int n - 32768" by (intro mod_pos_pos_trivial) auto
  moreover have "(int n + 32768) mod 65536 = (int n - 32768) mod 65536"
    using mod_add_self2 [of "int n - 32768" 65536] by (simp add: add.commute)
  ultimately show ?thesis using False by simp
qed simp

lemma i16_of_eq [code]: "i16_of w = (if unat w < 32768 then int (unat w) else int (unat w) - 65536)"
proof -
  have "unat w < 65536" using unsigned_less [where 'a = nat, of w] by simp
  moreover have "sint w = (int (unat w) + 32768) mod 65536 - 32768"
    by (simp add: sint_uint signed_take_bit_eq_take_bit_shift take_bit_eq_mod)
  ultimately show ?thesis by (simp only: i16_of_def shift16)
qed

definition be16 :: "u16 \<Rightarrow> u8 list" where
  "be16 w = [ucast (drop_bit 8 w), ucast w]"

definition be32 :: "u32 \<Rightarrow> u8 list" where
  "be32 w = [ucast (drop_bit 24 w), ucast (drop_bit 16 w), ucast (drop_bit 8 w), ucast w]"

definition be64 :: "u64 \<Rightarrow> u8 list" where
  "be64 w = be32 (ucast (drop_bit 32 w)) @ be32 (ucast w)"

definition of_be16 :: "u8 \<Rightarrow> u8 \<Rightarrow> u16" where
  "of_be16 a b = push_bit 8 (ucast a) OR ucast b"

definition of_be32 :: "u8 \<Rightarrow> u8 \<Rightarrow> u8 \<Rightarrow> u8 \<Rightarrow> u32" where
  "of_be32 a b c d =
     push_bit 24 (ucast a) OR push_bit 16 (ucast b) OR push_bit 8 (ucast c) OR ucast d"

lemma of_be16_be16 [bytes_simps]: "of_be16 (ucast (drop_bit 8 w)) (ucast w) = w"
  unfolding of_be16_def by (rule bit_word_eqI) (auto simp: bit_simps)

lemma of_be32_be32 [bytes_simps]:
  "of_be32 (ucast (drop_bit 24 w)) (ucast (drop_bit 16 w)) (ucast (drop_bit 8 w)) (ucast w) = w"
proof (rule bit_word_eqI)
  fix n assume "n < LENGTH(32)"
  then consider "n < 8" | "8 \<le> n" "n < 16" | "16 \<le> n" "n < 24" | "24 \<le> n" "n < 32"
    by fastforce
  then show "bit (of_be32 (ucast (drop_bit 24 w)) (ucast (drop_bit 16 w)) (ucast (drop_bit 8 w))
      (ucast w)) n = bit w n"
    by cases (auto simp: of_be32_def bit_simps)
qed

lemma be16_of_be16 [bytes_simps]: "be16 (of_be16 a b) = [a, b]"
  unfolding be16_def of_be16_def list.inject
  by (intro conjI bit_word_eqI refl) (auto simp: bit_simps dest: bit_imp_le_length)

lemma be32_of_be32 [bytes_simps]: "be32 (of_be32 a b c d) = [a, b, c, d]"
  unfolding be32_def of_be32_def list.inject
  by (intro conjI bit_word_eqI refl) (auto simp: bit_simps dest: bit_imp_le_length)

lemma length_be16 [simp]: "length (be16 w) = 2"
  by (simp add: be16_def)

lemma length_be32 [simp]: "length (be32 w) = 4"
  by (simp add: be32_def)

lemma length_be64 [simp]: "length (be64 w) = 8"
  by (simp add: be64_def)

lemma be16_inj [simp]: "be16 v = be16 w \<longleftrightarrow> v = w"
proof
  assume "be16 v = be16 w"
  then have "of_be16 (ucast (drop_bit 8 v)) (ucast v) = of_be16 (ucast (drop_bit 8 w)) (ucast w)"
    by (simp only: be16_def list.inject)
  then show "v = w" by (simp only: of_be16_be16)
qed simp

lemma be32_inj [simp]: "be32 v = be32 w \<longleftrightarrow> v = w"
proof
  assume "be32 v = be32 w"
  then have "of_be32 (ucast (drop_bit 24 v)) (ucast (drop_bit 16 v)) (ucast (drop_bit 8 v)) (ucast v)
      = of_be32 (ucast (drop_bit 24 w)) (ucast (drop_bit 16 w)) (ucast (drop_bit 8 w)) (ucast w)"
    by (simp only: be32_def list.inject)
  then show "v = w" by (simp only: of_be32_be32)
qed simp

lemma unat_u8_less [simp]: "unat (w :: u8) < 256"
  using unsigned_less [of w] by simp

lemma unat_u16_less [simp]: "unat (w :: u16) < 65536"
  using unsigned_less [of w] by simp

lemma bit_of_small:
  assumes "unat w < 2 ^ m" "bit w j"
  shows "j < m"
proof -
  have "take_bit m (unat w) = unat w" using assms(1) by (simp add: take_bit_nat_eq_self)
  moreover have "bit (unat w) j" using assms(2) by (simp add: bit_unsigned_iff bit_imp_le_length)
  ultimately show ?thesis by (metis bit_take_bit_iff)
qed

text \<open>Padding to a whole number of 32-bit words.\<close>

lemma pad4: "(4 - n mod 4) mod 4 \<le> 3 \<and> 4 dvd n + (4 - n mod 4) mod 4" for n :: nat
proof -
  have "n mod 4 < 4" by simp
  then consider "n mod 4 = 0" | "n mod 4 = 1" | "n mod 4 = 2" | "n mod 4 = 3" by fastforce
  then show ?thesis
    using mult_div_mod_eq [of 4 n] by cases (auto intro: dvdI [of _ _ "n div 4"] dvdI [of _ _ "Suc (n div 4)"])
qed

lemma unat_u16_of_nat: "n < 65536 \<Longrightarrow> unat (of_nat n :: u16) = n"
  by (simp add: unat_of_nat take_bit_eq_mod)

section \<open>Strings and UTF-8\<close>

text \<open>A \<open>char\<close> of the model is one byte of the string's UTF-8 image.\<close>

definition as_bytes :: "string \<Rightarrow> u8 list" where
  "as_bytes s = map of_char s"

definition of_bytes :: "u8 list \<Rightarrow> string" where
  "of_bytes bs = map (\<lambda>b. char_of (unat b)) bs"

lemma of_char_nat_less [simp]: "(of_char c :: nat) < 256"
  by (metis mod_less_divisor of_char_mod_256 zero_less_numeral)

lemma unat_of_char [simp]: "unat (of_char c :: u8) = of_char c"
proof -
  have "(of_char c :: u8) = word_of_nat (of_char c)"
    by (simp add: of_nat_of_char)
  then show ?thesis
    by (simp add: unat_of_nat take_bit_eq_mod)
qed

lemma of_bytes_as_bytes [bytes_simps, simp]: "of_bytes (as_bytes s) = s"
  by (simp add: of_bytes_def as_bytes_def comp_def)

lemma as_bytes_of_bytes [bytes_simps, simp]: "as_bytes (of_bytes bs) = bs"
proof -
  have "of_char (char_of (unat b)) = b" for b :: u8
  proof -
    have "unat (of_char (char_of (unat b)) :: u8) = unat b" by simp
    then show ?thesis by (simp only: unsigned_word_eqI)
  qed
  then show ?thesis by (simp add: of_bytes_def as_bytes_def comp_def)
qed

lemma length_as_bytes [simp]: "length (as_bytes s) = length s"
  by (simp add: as_bytes_def)

text \<open>
  Well-formed UTF-8 (Unicode table 3-7), as \<open>String::from_utf8\<close> checks it: the width of a sequence
  from its first byte, the range of the second byte from the first one, continuation bytes after.
\<close>

definition utf8_cont :: "u8 \<Rightarrow> bool" where
  "utf8_cont b \<longleftrightarrow> 0x80 \<le> b \<and> b \<le> 0xBF"

definition utf8_width :: "u8 \<Rightarrow> nat" where
  "utf8_width b = (if b < 0x80 then 1 else if 0xC2 \<le> b \<and> b \<le> 0xDF then 2
     else if 0xE0 \<le> b \<and> b \<le> 0xEF then 3 else if 0xF0 \<le> b \<and> b \<le> 0xF4 then 4 else 0)"

definition utf8_second :: "u8 \<Rightarrow> u8 \<Rightarrow> bool" where
  "utf8_second b0 b1 =
     (if b0 = 0xE0 then 0xA0 \<le> b1 \<and> b1 \<le> 0xBF else if b0 = 0xED then 0x80 \<le> b1 \<and> b1 \<le> 0x9F
      else if b0 = 0xF0 then 0x90 \<le> b1 \<and> b1 \<le> 0xBF else if b0 = 0xF4 then 0x80 \<le> b1 \<and> b1 \<le> 0x8F
      else utf8_cont b1)"

text \<open>The next chunk of a byte sequence: its length and whether it is one well-formed character.\<close>

definition utf8_chunk :: "u8 list \<Rightarrow> nat \<times> bool" where
  "utf8_chunk bs =
     (case bs of [] \<Rightarrow> (1, False)
      | b0 # r0 \<Rightarrow>
        if utf8_width b0 = 1 then (1, True)
        else if utf8_width b0 = 0 then (1, False)
        else (case r0 of [] \<Rightarrow> (1, False)
         | b1 # r1 \<Rightarrow>
           if \<not> utf8_second b0 b1 then (1, False)
           else if utf8_width b0 = 2 then (2, True)
           else (case r1 of [] \<Rightarrow> (2, False)
            | b2 # r2 \<Rightarrow>
              if \<not> utf8_cont b2 then (2, False)
              else if utf8_width b0 = 3 then (3, True)
              else (case r2 of [] \<Rightarrow> (3, False)
               | b3 # r3 \<Rightarrow> if \<not> utf8_cont b3 then (3, False) else (4, True)))))"

lemma utf8_chunk_pos [simp]: "0 < fst (utf8_chunk bs)"
  by (simp add: utf8_chunk_def split: list.split)

function utf8_valid :: "u8 list \<Rightarrow> bool" where
  "utf8_valid bs =
     (if bs = [] then True
      else snd (utf8_chunk bs) \<and> utf8_valid (drop (fst (utf8_chunk bs)) bs))"
  by pat_completeness auto
termination
  by (relation "measure length") auto

declare utf8_valid.simps [simp del]

definition from_utf8 :: "u8 list \<Rightarrow> string option" where
  "from_utf8 bs = (if utf8_valid bs then Some (of_bytes bs) else None)"

text \<open>The invariant of Rust's \<open>String\<close> type.\<close>

definition utf8 :: "string \<Rightarrow> bool" where
  "utf8 s \<longleftrightarrow> utf8_valid (as_bytes s)"

lemma from_utf8_as_bytes [bytes_simps]: "utf8 s \<Longrightarrow> from_utf8 (as_bytes s) = Some s"
  by (simp add: from_utf8_def utf8_def)

lemma from_utf8_Some: "from_utf8 bs = Some s \<longleftrightarrow> bs = as_bytes s \<and> utf8 s"
  by (auto simp: from_utf8_def utf8_def)

text \<open>\<open>from_utf8_lossy\<close>: each maximal ill-formed prefix becomes one U+FFFD.\<close>

definition replacement :: "u8 list" where
  "replacement = [0xEF, 0xBF, 0xBD]"

function utf8_lossy :: "u8 list \<Rightarrow> u8 list" where
  "utf8_lossy bs =
     (if bs = [] then []
      else (if snd (utf8_chunk bs) then take (fst (utf8_chunk bs)) bs else replacement)
        @ utf8_lossy (drop (fst (utf8_chunk bs)) bs))"
  by pat_completeness auto
termination
  by (relation "measure length") auto

declare utf8_lossy.simps [simp del]

definition from_utf8_lossy :: "u8 list \<Rightarrow> string" where
  "from_utf8_lossy bs = of_bytes (utf8_lossy bs)"

lemma utf8_lossy_valid: "utf8_valid bs \<Longrightarrow> utf8_lossy bs = bs"
proof (induction bs rule: utf8_valid.induct)
  case (1 bs)
  show ?case
  proof (cases "bs = []")
    case True
    then show ?thesis by (simp add: utf8_lossy.simps [of "[]"])
  next
    case False
    with "1.prems" have ok: "snd (utf8_chunk bs)" "utf8_valid (drop (fst (utf8_chunk bs)) bs)"
      by (simp_all add: utf8_valid.simps [of bs])
    with False "1.IH" show ?thesis by (simp add: utf8_lossy.simps [of bs])
  qed
qed

lemma from_utf8_lossy_as_bytes [bytes_simps]: "utf8 s \<Longrightarrow> from_utf8_lossy (as_bytes s) = s"
  by (simp add: from_utf8_lossy_def utf8_def utf8_lossy_valid)

lemma utf8_ascii: "(\<And>b. b \<in> set bs \<Longrightarrow> b < 0x80) \<Longrightarrow> utf8_valid bs"
proof (induction bs)
  case (Cons b bs)
  then have "utf8_width b = 1" by (simp add: utf8_width_def)
  with Cons show ?case by (simp add: utf8_valid.simps [of "b # bs"] utf8_chunk_def)
qed (simp add: utf8_valid.simps [of "[]"])

section \<open>Ordered maps and sets\<close>

text \<open>
  A \<open>BTreeMap\<close> is its list of entries in key order. \<open>bt_get\<close> reads an entry, \<open>bt_insert\<close> overwrites or
  adds one, \<open>bt_remove\<close> drops one and \<open>bt_retain\<close> keeps the entries a predicate accepts. The laws
  over \<open>bt_get\<close> need no hypothesis on the list; only the order of iteration needs \<open>bt_ok\<close>.
\<close>

type_synonym ('k, 'v) btree = "('k \<times> 'v) list"

definition bt_get :: "('k, 'v) btree \<Rightarrow> 'k \<Rightarrow> 'v option" where
  "bt_get m k = map_of m k"

fun bt_insert :: "'k::linorder \<Rightarrow> 'v \<Rightarrow> ('k, 'v) btree \<Rightarrow> ('k, 'v) btree" where
  "bt_insert k v [] = [(k, v)]"
| "bt_insert k v ((k', v') # m) =
     (if k < k' then (k, v) # (k', v') # m
      else if k = k' then (k, v) # m
      else (k', v') # bt_insert k v m)"

definition bt_remove :: "'k \<Rightarrow> ('k, 'v) btree \<Rightarrow> ('k, 'v) btree" where
  "bt_remove k m = filter (\<lambda>e. fst e \<noteq> k) m"

definition bt_retain :: "('k \<Rightarrow> 'v \<Rightarrow> bool) \<Rightarrow> ('k, 'v) btree \<Rightarrow> ('k, 'v) btree" where
  "bt_retain p m = filter (\<lambda>e. p (fst e) (snd e)) m"

definition bt_keys :: "('k, 'v) btree \<Rightarrow> 'k list" where
  "bt_keys m = map fst m"

definition bt_ok :: "('k::linorder, 'v) btree \<Rightarrow> bool" where
  "bt_ok m \<longleftrightarrow> sorted_wrt (<) (map fst m)"

lemma bt_get_Nil [simp]: "bt_get [] k = None"
  by (simp add: bt_get_def)

lemma bt_get_insert [btree_simps, simp]:
  "bt_get (bt_insert k v m) = (bt_get m)(k \<mapsto> v)"
  unfolding bt_get_def by (induction m) (auto simp: fun_eq_iff)

lemma bt_get_remove [btree_simps, simp]: "bt_get (bt_remove k m) = (bt_get m)(k := None)"
  unfolding bt_get_def bt_remove_def by (induction m) (auto simp: fun_eq_iff)

lemma bt_get_Some_key: "bt_get m k = Some v \<Longrightarrow> k \<in> set (bt_keys m)"
  by (auto simp: bt_get_def bt_keys_def dest: map_of_SomeD intro: rev_image_eqI)

lemma bt_keys_iff: "k \<in> set (bt_keys m) \<longleftrightarrow> bt_get m k \<noteq> None"
  by (auto simp: bt_get_def bt_keys_def map_of_eq_None_iff)

lemma bt_insert_keys [simp]: "fst ` set (bt_insert k v m) = insert k (fst ` set m)"
  by (induction k v m rule: bt_insert.induct) (auto simp: insert_commute)

lemma bt_ok_Nil [simp]: "bt_ok []"
  by (simp add: bt_ok_def)

lemma bt_ok_insert [intro, simp]: "bt_ok m \<Longrightarrow> bt_ok (bt_insert k v m)"
proof (induction m)
  case (Cons e m)
  obtain k' v' where e: "e = (k', v')" by (cases e)
  have ih: "bt_ok (bt_insert k v m)"
    using Cons by (auto simp: bt_ok_def)
  show ?case
    using Cons.prems ih by (auto simp: e bt_ok_def)
qed (simp add: bt_ok_def)

lemma bt_ok_filter: "bt_ok m \<Longrightarrow> bt_ok (filter p m)"
  by (induction m) (auto simp: bt_ok_def)

lemma bt_ok_remove [intro, simp]: "bt_ok m \<Longrightarrow> bt_ok (bt_remove k m)"
  by (simp add: bt_remove_def bt_ok_filter)

lemma bt_ok_retain [intro, simp]: "bt_ok m \<Longrightarrow> bt_ok (bt_retain p m)"
  by (simp add: bt_retain_def bt_ok_filter)

lemma bt_ok_distinct: "bt_ok m \<Longrightarrow> distinct (bt_keys m)"
  by (simp add: bt_ok_def bt_keys_def strict_sorted_iff)

lemma bt_get_retain [btree_simps]:
  "bt_ok m \<Longrightarrow> bt_get (bt_retain p m) k
     = (case bt_get m k of None \<Rightarrow> None | Some v \<Rightarrow> if p k v then Some v else None)"
proof (induction m)
  case (Cons e m)
  then have "bt_ok m" "\<forall>x \<in> fst ` set m. fst e < x" by (auto simp: bt_ok_def)
  then have "map_of m (fst e) = None" by (auto simp: map_of_eq_None_iff)
  then have "map_of (filter q m) (fst e) = None" for q
    by (auto simp: map_of_eq_None_iff)
  with Cons.IH [OF \<open>bt_ok m\<close>] show ?case
    by (cases e) (auto simp: bt_get_def bt_retain_def split: option.splits)
qed (simp add: bt_retain_def)

text \<open>A \<open>BTreeSet\<close>, as the list of its elements in order.\<close>

type_synonym 'k btset = "'k list"

fun bs_insert :: "'k::linorder \<Rightarrow> 'k btset \<Rightarrow> 'k btset" where
  "bs_insert k [] = [k]"
| "bs_insert k (x # xs) =
     (if k < x then k # x # xs else if k = x then x # xs else x # bs_insert k xs)"

definition bs_remove :: "'k \<Rightarrow> 'k btset \<Rightarrow> 'k btset" where
  "bs_remove k xs = filter (\<lambda>x. x \<noteq> k) xs"

lemma set_bs_insert [btree_simps, simp]: "set (bs_insert k xs) = insert k (set xs)"
  by (induction xs) auto

lemma set_bs_remove [btree_simps, simp]: "set (bs_remove k xs) = set xs - {k}"
  by (auto simp: bs_remove_def)

lemma sorted_bs_insert [intro, simp]:
  "sorted_wrt (<) xs \<Longrightarrow> sorted_wrt (<) (bs_insert k xs)"
  by (induction xs) auto

lemma sorted_bs_remove [intro, simp]:
  "sorted_wrt (<) xs \<Longrightarrow> sorted_wrt (<) (bs_remove k xs)"
  by (simp add: bs_remove_def sorted_wrt_filter)

section \<open>Machines and their reachable states\<close>

text \<open>
  A component with state is a machine: a start state and one step per event. \<open>machine\<close> is the
  contract a component discharges once, that every step keeps its invariant; every run then keeps it.
\<close>

definition run_from :: "('s \<Rightarrow> 'e \<Rightarrow> 's) \<Rightarrow> 's \<Rightarrow> 'e list \<Rightarrow> 's" where
  "run_from step s es = foldl step s es"

lemma run_from_Nil [simp]: "run_from step s [] = s"
  by (simp add: run_from_def)

lemma run_from_Cons [simp]: "run_from step s (e # es) = run_from step (step s e) es"
  by (simp add: run_from_def)

lemma run_from_append: "run_from step s (es @ fs) = run_from step (run_from step s es) fs"
  by (simp add: run_from_def)

lemma run_from_snoc: "run_from step s (es @ [e]) = step (run_from step s es) e"
  by (simp add: run_from_def)

locale machine =
  fixes start :: 's
    and step :: "'s \<Rightarrow> 'e \<Rightarrow> 's"
    and inv :: "'s \<Rightarrow> bool"
  assumes inv_start: "inv start"
    and inv_step: "inv s \<Longrightarrow> inv (step s e)"
begin

lemma inv_run_from: "inv s \<Longrightarrow> inv (run_from step s es)"
  by (induction es arbitrary: s) (auto intro: inv_step)

lemma inv_run: "inv (run_from step start es)"
  by (rule inv_run_from [OF inv_start])

end

text \<open>Some invariants need a condition on the events.\<close>

fun admits :: "('s \<Rightarrow> 'e \<Rightarrow> 's) \<Rightarrow> ('s \<Rightarrow> 'e \<Rightarrow> bool) \<Rightarrow> 's \<Rightarrow> 'e list \<Rightarrow> bool" where
  "admits step guard s [] = True"
| "admits step guard s (e # es) = (guard s e \<and> admits step guard (step s e) es)"

locale guarded_machine = machine start step inv
  for start :: 's and step :: "'s \<Rightarrow> 'e \<Rightarrow> 's" and inv :: "'s \<Rightarrow> bool" +
  fixes guard :: "'s \<Rightarrow> 'e \<Rightarrow> bool" and strict :: "'s \<Rightarrow> bool"
  assumes strict_start: "strict start"
    and strict_step: "inv s \<Longrightarrow> strict s \<Longrightarrow> guard s e \<Longrightarrow> strict (step s e)"
begin

lemma strict_run_from: "inv s \<Longrightarrow> strict s \<Longrightarrow> admits step guard s es \<Longrightarrow> strict (run_from step s es)"
  by (induction es arbitrary: s) (auto intro: inv_step strict_step)

lemma strict_run: "admits step guard start es \<Longrightarrow> strict (run_from step start es)"
  by (rule strict_run_from [OF inv_start strict_start])

end

section \<open>Kinds of media\<close>

datatype media_kind = KAudio | KVideo

end
