(* ===== verification/Codec.thy ===== *)
theory Codec
  imports Prelude
begin

text \<open>
  The interfaces the wire formats share.

  \<^item> \<open>byte_codec\<close>: a format that encodes a whole value into a byte string and decodes it back.
  \<^item> \<open>layered_codec\<close>: one format carried as the payload of another (a floor message in a data-channel
    frame), which is again a \<open>byte_codec\<close>.
  \<^item> \<open>prefix_codec\<close>: a format read from the front of a longer byte string, which hands the rest on; the
    pieces of a mesh message (\<open>Mesh_Wire\<close>) are such formats, and a counted list of them is one too.
\<close>

section \<open>Whole-string formats\<close>

locale byte_codec =
  fixes ok :: "'a \<Rightarrow> bool"
    and enc :: "'a \<Rightarrow> u8 list option"
    and dec :: "u8 list \<Rightarrow> 'a option"
  assumes enc_total: "ok x \<Longrightarrow> \<exists>b. enc x = Some b"
    and dec_enc: "ok x \<Longrightarrow> enc x = Some b \<Longrightarrow> dec b = Some x"
begin

lemma enc_inj: "ok x \<Longrightarrow> ok y \<Longrightarrow> enc x = enc y \<Longrightarrow> x = y"
  using dec_enc enc_total by (metis option.inject)

lemma roundtrip: "ok x \<Longrightarrow> Option.bind (enc x) dec = Some x"
  using dec_enc enc_total by fastforce

end

text \<open>The inner format's bytes as the payload of the outer one.\<close>

locale layered_codec = inner: byte_codec ok enc dec + outer: byte_codec okp encp decp
  for ok :: "'a \<Rightarrow> bool" and enc dec
    and okp :: "u8 list \<Rightarrow> bool" and encp decp +
  assumes fits: "ok x \<Longrightarrow> enc x = Some b \<Longrightarrow> okp b"
begin

lemma layered: "byte_codec ok (\<lambda>x. Option.bind (enc x) encp) (\<lambda>w. Option.bind (decp w) dec)"
proof
  fix x assume x: "ok x"
  then obtain b where b: "enc x = Some b" using inner.enc_total by blast
  with x have "okp b" by (rule fits)
  with b show "\<exists>w. Option.bind (enc x) encp = Some w" using outer.enc_total by simp
next
  fix x w assume x: "ok x" and w: "Option.bind (enc x) encp = Some w"
  then obtain b where b: "enc x = Some b" "encp b = Some w"
    by (auto simp: bind_eq_Some_conv)
  with x have "okp b" "dec b = Some x" using fits inner.dec_enc by blast+
  with b show "Option.bind (decp w) dec = Some x" using outer.dec_enc by simp
qed

end

section \<open>Formats read from the front\<close>

type_synonym 'a reader = "u8 list \<Rightarrow> ('a \<times> u8 list) option"

locale prefix_codec =
  fixes ok :: "'a \<Rightarrow> bool"
    and put :: "'a \<Rightarrow> u8 list"
    and get :: "'a reader"
  assumes get_put: "ok x \<Longrightarrow> get (put x @ rest) = Some (x, rest)"
begin

lemma get_put_exact: "ok x \<Longrightarrow> get (put x) = Some (x, [])"
  using get_put [of x "[]"] by simp

lemma put_prefix_free: "ok x \<Longrightarrow> ok y \<Longrightarrow> put x @ r = put y @ s \<Longrightarrow> x = y \<and> r = s"
  by (metis get_put option.inject prod.inject)

end

text \<open>One reader after another: Rust's \<open>?\<close> on a cursor.\<close>

definition rbind :: "'a reader \<Rightarrow> ('a \<Rightarrow> 'b reader) \<Rightarrow> 'b reader" where
  "rbind g h b = (case g b of None \<Rightarrow> None | Some (x, b') \<Rightarrow> h x b')"

definition rret :: "'a \<Rightarrow> 'a reader" where
  "rret x b = Some (x, b)"

definition rfail :: "'a reader" where
  "rfail b = None"

text \<open>A reader whose value must pass a conversion, \<open>None\<close> being a decoding failure.\<close>

definition rmap :: "'a reader \<Rightarrow> ('a \<Rightarrow> 'b option) \<Rightarrow> 'b reader" where
  "rmap g h = rbind g (\<lambda>x. case h x of None \<Rightarrow> rfail | Some y \<Rightarrow> rret y)"

text \<open>Reading \<open>n\<close> items in a row, as the counted loops of the decoders do.\<close>

fun get_many :: "'a reader \<Rightarrow> nat \<Rightarrow> 'a list reader" where
  "get_many get 0 b = Some ([], b)"
| "get_many get (Suc n) b =
     (case get b of None \<Rightarrow> None
      | Some (x, b') \<Rightarrow> (case get_many get n b' of None \<Rightarrow> None
         | Some (xs, b'') \<Rightarrow> Some (x # xs, b'')))"

context prefix_codec begin

lemma rbind_put: "ok x \<Longrightarrow> rbind get h (put x @ rest) = h x rest"
  by (simp add: rbind_def get_put)

lemma rbind_put_exact: "ok x \<Longrightarrow> rbind get h (put x) = h x []"
  using rbind_put [of x h "[]"] by simp

lemma put_nonempty: "ok x \<Longrightarrow> get [] = None \<Longrightarrow> put x \<noteq> []"
  using get_put_exact [of x] by auto

lemma get_many_put:
  "(\<And>x. x \<in> set xs \<Longrightarrow> ok x) \<Longrightarrow>
     get_many get (length xs) (concat (map put xs) @ rest) = Some (xs, rest)"
  by (induction xs) (auto simp: get_put)

end

end
