(* ===== verification/Sig_Frame.thy ===== *)
theory Sig_Frame
  imports Codec
begin

text \<open>
  The two frames of the client protocol: the WebSocket frame of \<open>oxsig/src/frame.rs\<close> (an 8-byte head of
  version, flags, op and pid, then the JSON body) and the data-channel frame of \<open>oxsig/src/dc.rs\<close> (a
  4-byte head of version, service and length, then the payload). The lemmas characterise both decoders
  completely: what a decoder accepts is exactly what the encoder writes.
\<close>

section \<open>WebSocket frames (frame.rs)\<close>

definition VER :: u8 where "VER = 1"
definition HEADER_LEN :: nat where "HEADER_LEN = 8"
definition MAX_FRAME_BYTES :: nat where "MAX_FRAME_BYTES = 1048576"
definition KIND_MASK :: u8 where "KIND_MASK = 3"

datatype frame_kind = KRequest | KOk | KFail

definition kind_bits :: "frame_kind \<Rightarrow> u8" where
  "kind_bits k = (case k of KRequest \<Rightarrow> 0 | KOk \<Rightarrow> 1 | KFail \<Rightarrow> 2)"

record header =
  h_flags :: u8
  h_op :: u16
  h_pid :: u32

definition header_kind :: "header \<Rightarrow> frame_kind" where
  "header_kind h = (let b = h_flags h AND KIND_MASK in
     if b = 0 then KRequest else if b = 1 then KOk else KFail)"

definition header_reserved :: "header \<Rightarrow> u8" where
  "header_reserved h = h_flags h AND NOT KIND_MASK"

record frame =
  f_header :: header
  f_body :: "u8 list"

datatype frame_error = TooShort | TooLarge | BadVersion | ReservedKind

definition frame_decode :: "u8 list \<Rightarrow> frame_error + frame" where
  "frame_decode buf =
     (if MAX_FRAME_BYTES < length buf then Inl TooLarge
      else if length buf < HEADER_LEN then Inl TooShort
      else if buf ! 0 \<noteq> VER then Inl BadVersion
      else (let flags = buf ! 1 in
        if flags AND KIND_MASK = KIND_MASK then Inl ReservedKind
        else (let op = of_be16 (buf ! 2) (buf ! 3);
                  pid = of_be32 (buf ! 4) (buf ! 5) (buf ! 6) (buf ! 7)
          in Inr \<lparr>f_header = \<lparr>h_flags = flags, h_op = op, h_pid = pid\<rparr>,
                  f_body = drop HEADER_LEN buf\<rparr>)))"

definition encode_flags :: "u8 \<Rightarrow> u16 \<Rightarrow> u32 \<Rightarrow> u8 list \<Rightarrow> u8 list" where
  "encode_flags flags op pid body = [VER, flags] @ be16 op @ be32 pid @ body"

definition frame_encode :: "frame_kind \<Rightarrow> u16 \<Rightarrow> u32 \<Rightarrow> u8 list \<Rightarrow> u8 list" where
  "frame_encode kind op pid body = encode_flags (kind_bits kind) op pid body"

definition reply_flags :: "header \<Rightarrow> frame_kind \<Rightarrow> u8" where
  "reply_flags req kind = header_reserved req OR kind_bits kind"

text \<open>An empty body reads as the JSON object \<open>{}\<close>; the JSON reader itself is a parameter.\<close>

definition parse_body :: "(u8 list \<Rightarrow> 'e + 'j) \<Rightarrow> u8 list \<Rightarrow> 'e + 'j" where
  "parse_body from_slice body =
     (if body = [] then from_slice (as_bytes ''{}'') else from_slice body)"

lemmas frame_defs = VER_def HEADER_LEN_def MAX_FRAME_BYTES_def KIND_MASK_def

lemma length_encode_flags [simp]: "length (encode_flags flags op pid body) = 8 + length body"
  by (simp add: encode_flags_def)

lemma length_ge_8E:
  assumes "8 \<le> length (buf :: u8 list)"
  obtains a b c d e f g h r where "buf = a # b # c # d # e # f # g # h # r"
proof -
  have "buf = take 8 buf @ drop 8 buf" by simp
  moreover obtain a b c d e f g h where "take 8 buf = [a, b, c, d, e, f, g, h]"
    using assms by (auto simp: length_Suc_conv numeral_eq_Suc Suc_le_length_iff)
  ultimately show thesis using that by (metis append_Cons append_Nil)
qed

lemma frame_decode_encode:
  assumes "h_flags (f_header f) AND 3 \<noteq> 3" and "length (f_body f) \<le> 1048568"
  shows "frame_decode (encode_flags (h_flags (f_header f)) (h_op (f_header f)) (h_pid (f_header f))
     (f_body f)) = Inr f"
  using assms
  by (simp add: frame_decode_def encode_flags_def frame_defs be16_def be32_def bytes_simps)

text \<open>
  The frame codec is exact (C40): a buffer decodes to a frame if and only if it is the encoding of that
  frame's header and body, within the size limit and with kind bits other than \<open>11\<close>.
\<close>

theorem frame_decode_iff:
  "frame_decode buf = Inr f \<longleftrightarrow>
     buf = encode_flags (h_flags (f_header f)) (h_op (f_header f)) (h_pid (f_header f)) (f_body f)
     \<and> length buf \<le> 1048576 \<and> h_flags (f_header f) AND 3 \<noteq> 3"
proof
  assume dec: "frame_decode buf = Inr f"
  then have len: "8 \<le> length buf" "length buf \<le> 1048576"
    by (auto simp: frame_decode_def frame_defs Let_def split: if_splits)
  from len(1) obtain a b c d e g h i r where buf: "buf = a # b # c # d # e # g # h # i # r"
    by (rule length_ge_8E)
  show "buf = encode_flags (h_flags (f_header f)) (h_op (f_header f)) (h_pid (f_header f)) (f_body f)
     \<and> length buf \<le> 1048576 \<and> h_flags (f_header f) AND 3 \<noteq> 3"
    using dec len by (auto simp: buf frame_decode_def encode_flags_def frame_defs bytes_simps
      split: if_splits)
next
  assume buf: "buf = encode_flags (h_flags (f_header f)) (h_op (f_header f)) (h_pid (f_header f))
      (f_body f) \<and> length buf \<le> 1048576 \<and> h_flags (f_header f) AND 3 \<noteq> 3"
  then have "8 + length (f_body f) \<le> 1048576" by (metis length_encode_flags)
  with buf show "frame_decode buf = Inr f" by (simp add: frame_decode_encode)
qed

text \<open>Replying keeps the request's reserved flag bits and sets the kind bits to the reply's kind.\<close>

theorem reply_flags_kind:
  assumes "h_flags h' = reply_flags h kind"
  shows "header_kind h' = kind \<and> header_reserved h' = header_reserved h"
proof -
  have "(header_reserved h OR kind_bits kind) AND 3 = kind_bits kind"
    by (cases kind) (simp_all add: header_reserved_def KIND_MASK_def kind_bits_def bit.conj_disj_distrib2
      and.assoc)
  moreover have "(header_reserved h OR kind_bits kind) AND NOT 3 = header_reserved h"
    by (cases kind) (simp_all add: header_reserved_def KIND_MASK_def kind_bits_def bit.conj_disj_distrib2
      and.assoc)
  ultimately show ?thesis
    using assms by (cases kind)
      (simp_all add: header_kind_def reply_flags_def kind_bits_def KIND_MASK_def header_reserved_def [of h'])
qed

text \<open>Every well-sized frame of a proper kind survives the trip over the socket.\<close>

definition frame_ok :: "frame \<Rightarrow> bool" where
  "frame_ok f \<longleftrightarrow> h_flags (f_header f) AND 3 \<noteq> 3 \<and> length (f_body f) \<le> 1048568"

interpretation ws_frame: byte_codec frame_ok
  "\<lambda>f. Some (encode_flags (h_flags (f_header f)) (h_op (f_header f)) (h_pid (f_header f)) (f_body f))"
  "\<lambda>b. case frame_decode b of Inl _ \<Rightarrow> None | Inr f \<Rightarrow> Some f"
  by unfold_locales (auto simp: frame_ok_def frame_decode_encode)

section \<open>Data-channel frames (dc.rs)\<close>

definition DC_HEADER_LEN :: nat where "DC_HEADER_LEN = 4"
definition MAX_PAYLOAD :: nat where "MAX_PAYLOAD = 65532"
definition SVC_FLOOR :: u8 where "SVC_FLOOR = 1"
definition SVC_VOICE_ACTIVITY :: u8 where "SVC_VOICE_ACTIVITY = 2"

record dc_frame =
  svc :: u8
  payload :: "u8 list"

definition dc_decode :: "u8 list \<Rightarrow> dc_frame option" where
  "dc_decode buf =
     (if length buf < DC_HEADER_LEN \<or> buf ! 0 \<noteq> VER then None
      else (let len = unat (of_be16 (buf ! 2) (buf ! 3)) in
        if length buf < DC_HEADER_LEN + len then None
        else Some \<lparr>svc = buf ! 1, payload = take len (drop DC_HEADER_LEN buf)\<rparr>))"

definition dc_encode :: "u8 \<Rightarrow> u8 list \<Rightarrow> u8 list option" where
  "dc_encode s p =
     (if MAX_PAYLOAD < length p then None
      else Some ([VER, s] @ be16 (word_of_nat (length p)) @ p))"

lemmas dc_defs = DC_HEADER_LEN_def MAX_PAYLOAD_def VER_def

lemma dc_frame_roundtrip:
  assumes "dc_encode s p = Some b"
  shows "dc_decode (b @ trail) = Some \<lparr>svc = s, payload = p\<rparr>" and "length b = 4 + length p"
proof -
  from assms have "\<not> 65532 < length p" by (auto simp: dc_encode_def MAX_PAYLOAD_def split: if_splits)
  then have "unat (word_of_nat (length p) :: u16) = length p"
    by (simp add: unat_of_nat take_bit_eq_mod)
  with assms show "dc_decode (b @ trail) = Some \<lparr>svc = s, payload = p\<rparr>" "length b = 4 + length p"
    by (auto simp: dc_encode_def dc_decode_def dc_defs be16_def bytes_simps split: if_splits)
qed

text \<open>
  A data-channel frame is refused only for being too long, and what is written is read back, whatever
  bytes follow it in the buffer.
\<close>

theorem dc_decode_encode:
  "(case dc_encode s p of
      None \<Rightarrow> 65532 < length p
    | Some b \<Rightarrow> dc_decode (b @ trail) = Some \<lparr>svc = s, payload = p\<rparr> \<and> length b = 4 + length p)"
proof (cases "dc_encode s p")
  case None
  then show ?thesis by (auto simp: dc_encode_def MAX_PAYLOAD_def split: if_splits)
next
  case (Some b)
  then show ?thesis using dc_frame_roundtrip [OF Some] by simp
qed

text \<open>A truncated frame is dropped, never read past its end.\<close>

theorem dc_decode_truncated:
  assumes "dc_encode s p = Some b" and "n < length b"
  shows "dc_decode (take n b) = None"
proof -
  from assms(1) have small: "length p \<le> 65532" and b: "b = [VER, s] @ be16 (word_of_nat (length p)) @ p"
    by (auto simp: dc_encode_def MAX_PAYLOAD_def split: if_splits)
  from small have len: "unat (word_of_nat (length p) :: u16) = length p"
    by (simp add: unat_of_nat take_bit_eq_mod)
  show ?thesis
  proof (cases "n < 4")
    case True
    then show ?thesis by (auto simp: dc_decode_def dc_defs)
  next
    case False
    then obtain m where n: "n = Suc (Suc (Suc (Suc m)))"
      by (metis Suc_eq_plus1 add_2_eq_Suc' le_Suc_ex linorder_not_less numeral_Bit0 numerals(1)
        plus_1_eq_Suc add.commute add_Suc_shift)
    with assms(2) show ?thesis
      by (simp add: b dc_decode_def dc_defs be16_def bytes_simps len)
  qed
qed

interpretation dc: byte_codec "\<lambda>p. length p \<le> 65532" "dc_encode s"
  "\<lambda>b. map_option payload (dc_decode b)"
proof
  fix p :: "u8 list" assume "length p \<le> 65532"
  then show "\<exists>b. dc_encode s p = Some b" by (simp add: dc_encode_def MAX_PAYLOAD_def)
next
  fix p b assume "dc_encode s p = Some b"
  then show "map_option payload (dc_decode b) = Some p"
    using dc_frame_roundtrip(1) [of s p b "[]"] by simp
qed

end
