(* ===== verification/Sig_Codes.thy ===== *)
theory Sig_Codes
  imports Prelude
begin

text \<open>
  The number spaces of the client protocol: error codes (\<open>oxsig/src/code.rs\<close>) and message numbers
  (\<open>oxsig/src/op.rs\<close>). Each is an enumeration with a table; the lemmas show that the table and the
  reverse lookup agree and that retired numbers stay unused.
\<close>

section \<open>Error codes (code.rs)\<close>

datatype code =
    UnknownOp
  | InvalidPayload
  | MissingField
  | VersionMismatch
  | CodecRequired
  | CodecMismatch
  | FieldConflict
  | ProtocolError
  | NotBound
  | TokenInvalid
  | TokenExpired
  | InvalidApiKey
  | ClaimNotAllowed
  | NotAuthorized
  | SessionNotFound
  | SessionRevoked
  | DuplicateSession
  | RoomNotFound
  | NotInRoom
  | RoomNotEmpty
  | TrackNotFound
  | TrackOpUnsupported
  | SsrcCollision
  | PreconditionFailed
  | PeerNotFound
  | NotPubRoom
  | RoomFull
  | TrackLimit
  | QuotaExceeded
  | ListenLimit
  | MidLimit
  | FlowTimeout
  | FlowOverflow
  | HeartbeatTimeout
  | Overloaded
  | SfuUnavailable
  | SfuError
  | InternalError
  | ServerShutdown

definition RETIRED :: "u16 list" where
  "RETIRED = [2007, 3003, 3007]"

definition ALL_codes :: "code list" where
  "ALL_codes =
    [UnknownOp, InvalidPayload, MissingField, VersionMismatch, CodecRequired, CodecMismatch,
     FieldConflict, ProtocolError, NotBound, TokenInvalid, TokenExpired, InvalidApiKey,
     ClaimNotAllowed, NotAuthorized, SessionNotFound, SessionRevoked, DuplicateSession, RoomNotFound,
     NotInRoom, RoomNotEmpty, TrackNotFound, TrackOpUnsupported, SsrcCollision, PreconditionFailed,
     PeerNotFound, NotPubRoom, RoomFull, TrackLimit, QuotaExceeded, ListenLimit, MidLimit,
     FlowTimeout, FlowOverflow, HeartbeatTimeout, Overloaded, SfuUnavailable, SfuError, InternalError,
     ServerShutdown]"

fun code_row :: "code \<Rightarrow> u16 \<times> string \<times> bool option" where
  "code_row UnknownOp = (1001, ''UNKNOWN_OP'', Some True)"
| "code_row InvalidPayload = (1002, ''INVALID_PAYLOAD'', Some True)"
| "code_row MissingField = (1003, ''MISSING_FIELD'', Some True)"
| "code_row VersionMismatch = (1004, ''VERSION_MISMATCH'', Some True)"
| "code_row CodecRequired = (1005, ''CODEC_REQUIRED'', Some True)"
| "code_row CodecMismatch = (1006, ''CODEC_MISMATCH'', Some True)"
| "code_row FieldConflict = (1007, ''FIELD_CONFLICT'', Some True)"
| "code_row ProtocolError = (1008, ''PROTOCOL_ERROR'', Some True)"
| "code_row NotBound = (2001, ''NOT_BOUND'', Some False)"
| "code_row TokenInvalid = (2002, ''TOKEN_INVALID'', Some True)"
| "code_row TokenExpired = (2003, ''TOKEN_EXPIRED'', Some False)"
| "code_row InvalidApiKey = (2004, ''INVALID_API_KEY'', Some True)"
| "code_row ClaimNotAllowed = (2005, ''CLAIM_NOT_ALLOWED'', Some True)"
| "code_row NotAuthorized = (2006, ''NOT_AUTHORIZED'', Some True)"
| "code_row SessionNotFound = (2008, ''SESSION_NOT_FOUND'', Some False)"
| "code_row SessionRevoked = (2009, ''SESSION_REVOKED'', None)"
| "code_row DuplicateSession = (2010, ''DUPLICATE_SESSION'', None)"
| "code_row RoomNotFound = (3001, ''ROOM_NOT_FOUND'', Some False)"
| "code_row NotInRoom = (3002, ''NOT_IN_ROOM'', Some False)"
| "code_row RoomNotEmpty = (3004, ''ROOM_NOT_EMPTY'', Some False)"
| "code_row TrackNotFound = (3005, ''TRACK_NOT_FOUND'', Some False)"
| "code_row TrackOpUnsupported = (3006, ''TRACK_OP_UNSUPPORTED'', Some True)"
| "code_row SsrcCollision = (3008, ''SSRC_COLLISION'', Some True)"
| "code_row PreconditionFailed = (3009, ''PRECONDITION_FAILED'', Some False)"
| "code_row PeerNotFound = (3010, ''PEER_NOT_FOUND'', Some False)"
| "code_row NotPubRoom = (3011, ''NOT_PUB_ROOM'', Some False)"
| "code_row RoomFull = (4001, ''ROOM_FULL'', Some False)"
| "code_row TrackLimit = (4002, ''TRACK_LIMIT'', Some False)"
| "code_row QuotaExceeded = (4003, ''QUOTA_EXCEEDED'', Some False)"
| "code_row ListenLimit = (4004, ''LISTEN_LIMIT'', Some False)"
| "code_row MidLimit = (4005, ''MID_LIMIT'', Some False)"
| "code_row FlowTimeout = (4006, ''FLOW_TIMEOUT'', None)"
| "code_row FlowOverflow = (4007, ''FLOW_OVERFLOW'', None)"
| "code_row HeartbeatTimeout = (4008, ''HEARTBEAT_TIMEOUT'', None)"
| "code_row Overloaded = (4009, ''OVERLOADED'', Some False)"
| "code_row SfuUnavailable = (5001, ''SFU_UNAVAILABLE'', Some False)"
| "code_row SfuError = (5002, ''SFU_ERROR'', Some False)"
| "code_row InternalError = (5003, ''INTERNAL_ERROR'', Some False)"
| "code_row ServerShutdown = (5004, ''SERVER_SHUTDOWN'', None)"

definition code_num :: "code \<Rightarrow> u16" where
  "code_num c = fst (code_row c)"

definition code_name :: "code \<Rightarrow> string" where
  "code_name c = fst (snd (code_row c))"

definition code_permanent :: "code \<Rightarrow> bool option" where
  "code_permanent c = snd (snd (code_row c))"

definition code_from_num :: "u16 \<Rightarrow> code option" where
  "code_from_num n = find (\<lambda>c. code_num c = n) ALL_codes"

record 'json failure =
  fl_code :: u16
  fl_name :: string
  fl_permanent :: bool
  fl_message :: "string option"
  fl_details :: "'json option"

definition code_failure :: "code \<Rightarrow> 'json failure" where
  "code_failure c =
     \<lparr>fl_code = code_num c, fl_name = code_name c,
      fl_permanent = (case code_permanent c of None \<Rightarrow> False | Some p \<Rightarrow> p),
      fl_message = None, fl_details = None\<rparr>"

definition with_message :: "'json failure \<Rightarrow> string \<Rightarrow> 'json failure" where
  "with_message f m = f\<lparr>fl_message := Some m\<rparr>"

definition with_details :: "'json failure \<Rightarrow> 'json \<Rightarrow> 'json failure" where
  "with_details f d = f\<lparr>fl_details := Some d\<rparr>"

definition failure_code :: "'json failure \<Rightarrow> code option" where
  "failure_code f = code_from_num (fl_code f)"

text \<open>
  Reading a field of a JSON object. The JSON library is a parameter: \<open>get\<close> looks a key up, \<open>is_null\<close>
  tells the null value, \<open>from_value\<close> converts a value (None when it does not fit).
\<close>

definition json_field ::
  "('json \<Rightarrow> string \<Rightarrow> 'json option) \<Rightarrow> ('json \<Rightarrow> bool) \<Rightarrow> ('json \<Rightarrow> 'a option)
     \<Rightarrow> 'json \<Rightarrow> string \<Rightarrow> 'json failure + 'a option" where
  "json_field get is_null from_value v k =
     (case get v k of
        None \<Rightarrow> Inr None
      | Some x \<Rightarrow>
          if is_null x then Inr None
          else (case from_value x of
             Some a \<Rightarrow> Inr (Some a)
           | None \<Rightarrow> Inl (with_message (code_failure InvalidPayload) k)))"

definition json_need ::
  "('json \<Rightarrow> string \<Rightarrow> 'json option) \<Rightarrow> ('json \<Rightarrow> bool) \<Rightarrow> ('json \<Rightarrow> 'a option)
     \<Rightarrow> 'json \<Rightarrow> string \<Rightarrow> 'json failure + 'a" where
  "json_need get is_null from_value v k =
     (case json_field get is_null from_value v k of
        Inl f \<Rightarrow> Inl f
      | Inr (Some a) \<Rightarrow> Inr a
      | Inr None \<Rightarrow> Inl (with_message (code_failure MissingField) k))"

section \<open>Message numbers (op.rs)\<close>

datatype lane = LaneRecovery | LaneSession | LaneData | LaneDiagnostic

datatype dir = C2S | S2C | Both

datatype op =
    OpBind
  | OpResume
  | OpHeartbeat
  | OpLeave
  | OpRoomJoin
  | OpRoomLeave
  | OpPublishTracks
  | OpReady
  | OpSubscribeLayer
  | OpTrackSet
  | OpIceRestart
  | OpAffiliation
  | OpMessage
  | OpTask
  | OpParticipantEvent
  | OpTrackEvent
  | OpTrackState
  | OpRoomEvent
  | OpParticipantState
  | OpLinkEvent
  | OpMlineEvent

definition ALL_ops :: "op list" where
  "ALL_ops =
    [OpBind, OpResume, OpHeartbeat, OpLeave, OpRoomJoin, OpRoomLeave, OpPublishTracks, OpReady,
     OpSubscribeLayer, OpTrackSet, OpIceRestart, OpAffiliation, OpMessage, OpTask, OpParticipantEvent,
     OpTrackEvent, OpTrackState, OpRoomEvent, OpParticipantState, OpLinkEvent, OpMlineEvent]"

fun op_as_u16 :: "op \<Rightarrow> u16" where
  "op_as_u16 OpBind = 0x0101"
| "op_as_u16 OpResume = 0x0102"
| "op_as_u16 OpHeartbeat = 0x0103"
| "op_as_u16 OpLeave = 0x0104"
| "op_as_u16 OpRoomJoin = 0x0201"
| "op_as_u16 OpRoomLeave = 0x0202"
| "op_as_u16 OpPublishTracks = 0x0301"
| "op_as_u16 OpReady = 0x0302"
| "op_as_u16 OpSubscribeLayer = 0x0303"
| "op_as_u16 OpTrackSet = 0x0304"
| "op_as_u16 OpIceRestart = 0x0305"
| "op_as_u16 OpAffiliation = 0x0401"
| "op_as_u16 OpMessage = 0x0501"
| "op_as_u16 OpTask = 0x0601"
| "op_as_u16 OpParticipantEvent = 0x0701"
| "op_as_u16 OpTrackEvent = 0x0702"
| "op_as_u16 OpTrackState = 0x0703"
| "op_as_u16 OpRoomEvent = 0x0704"
| "op_as_u16 OpParticipantState = 0x0705"
| "op_as_u16 OpLinkEvent = 0x0706"
| "op_as_u16 OpMlineEvent = 0x0707"

definition op_from_u16 :: "u16 \<Rightarrow> op option" where
  "op_from_u16 v = find (\<lambda>p. op_as_u16 p = v) ALL_ops"

fun op_name :: "op \<Rightarrow> string" where
  "op_name OpBind = ''BIND''"
| "op_name OpResume = ''RESUME''"
| "op_name OpHeartbeat = ''HEARTBEAT''"
| "op_name OpLeave = ''LEAVE''"
| "op_name OpRoomJoin = ''ROOM_JOIN''"
| "op_name OpRoomLeave = ''ROOM_LEAVE''"
| "op_name OpPublishTracks = ''PUBLISH_TRACKS''"
| "op_name OpReady = ''READY''"
| "op_name OpSubscribeLayer = ''SUBSCRIBE_LAYER''"
| "op_name OpTrackSet = ''TRACK_SET''"
| "op_name OpIceRestart = ''ICE_RESTART''"
| "op_name OpAffiliation = ''AFFILIATION''"
| "op_name OpMessage = ''MESSAGE''"
| "op_name OpTask = ''TASK''"
| "op_name OpParticipantEvent = ''PARTICIPANT_EVENT''"
| "op_name OpTrackEvent = ''TRACK_EVENT''"
| "op_name OpTrackState = ''TRACK_STATE''"
| "op_name OpRoomEvent = ''ROOM_EVENT''"
| "op_name OpParticipantState = ''PARTICIPANT_STATE''"
| "op_name OpLinkEvent = ''LINK_EVENT''"
| "op_name OpMlineEvent = ''MLINE_EVENT''"

definition op_dir :: "op \<Rightarrow> dir" where
  "op_dir p =
     (if p \<in> {OpHeartbeat, OpLeave, OpMessage, OpTask} then Both
      else if p \<in> {OpParticipantEvent, OpTrackEvent, OpTrackState, OpRoomEvent, OpParticipantState,
        OpLinkEvent, OpMlineEvent} then S2C
      else C2S)"

definition op_lane :: "op \<Rightarrow> lane" where
  "op_lane p = (case p of OpMessage \<Rightarrow> LaneData | OpTask \<Rightarrow> LaneDiagnostic | _ \<Rightarrow> LaneSession)"

definition outside_window :: "op \<Rightarrow> bool" where
  "outside_window p \<longleftrightarrow> p = OpHeartbeat"

definition carries_room_state :: "op \<Rightarrow> bool" where
  "carries_room_state p \<longleftrightarrow> p \<in> {OpRoomEvent, OpParticipantEvent, OpTrackEvent, OpTrackState,
     OpParticipantState, OpAffiliation}"

section \<open>The tables are consistent\<close>

lemma ALL_codes_complete: "c \<in> set ALL_codes"
  by (cases c) (simp_all add: ALL_codes_def)

lemma ALL_ops_complete: "p \<in> set ALL_ops"
  by (cases p) (simp_all add: ALL_ops_def)

lemma code_num_distinct: "distinct (map code_num ALL_codes)"
  by (simp add: ALL_codes_def code_num_def)

lemma op_as_u16_distinct: "distinct (map op_as_u16 ALL_ops)"
  by (simp add: ALL_ops_def)

text \<open>A reverse lookup by scanning a complete table without repeated keys is the inverse of the key.\<close>

lemma find_key_iff:
  assumes "distinct (map f xs)" and "\<And>x. x \<in> set xs"
  shows "find (\<lambda>x. f x = k) xs = Some y \<longleftrightarrow> f y = k"
proof -
  have "inj_on f (set xs)" using assms(1) by (simp add: distinct_map)
  then have inj: "f a = f b \<Longrightarrow> a = b" for a b using assms(2) by (meson inj_onD)
  show ?thesis
  proof
    assume "find (\<lambda>x. f x = k) xs = Some y"
    then show "f y = k" by (auto simp: find_Some_iff)
  next
    assume k: "f y = k"
    then have "find (\<lambda>x. f x = k) xs \<noteq> None"
      using assms(2) by (auto simp: find_None_iff)
    then obtain z where z: "find (\<lambda>x. f x = k) xs = Some z" by blast
    then have "f z = k" by (auto simp: find_Some_iff)
    with k inj [of z y] z show "find (\<lambda>x. f x = k) xs = Some y" by simp
  qed
qed

text \<open>
  One number, one meaning: a number resolves to a code exactly when it is that code's number, and
  no retired number resolves.
\<close>

theorem code_from_num_iff:
  "(code_from_num n = Some c \<longleftrightarrow> code_num c = n)
   \<and> (n \<in> set RETIRED \<longrightarrow> code_from_num n = None)"
proof
  show "code_from_num n = Some c \<longleftrightarrow> code_num c = n"
    unfolding code_from_num_def by (rule find_key_iff [OF code_num_distinct ALL_codes_complete])
  show "n \<in> set RETIRED \<longrightarrow> code_from_num n = None"
    by (auto simp: RETIRED_def code_from_num_def ALL_codes_def code_num_def)
qed

theorem code_from_num_iff_witness:
  "code_from_num 3001 = Some RoomNotFound \<and> code_from_num 2007 = None"
  using code_from_num_iff [of 3001 RoomNotFound] code_from_num_iff [of 2007 RoomNotFound]
  by (simp add: code_num_def RETIRED_def)

text \<open>
  Message numbers resolve exactly to their message, and every message that carries room state travels
  in the session lane, so room state is never reordered between lanes.
\<close>

theorem op_numbers:
  "(op_from_u16 v = Some p \<longleftrightarrow> op_as_u16 p = v)
   \<and> (carries_room_state p \<longrightarrow> op_lane p = LaneSession)"
proof
  show "op_from_u16 v = Some p \<longleftrightarrow> op_as_u16 p = v"
    unfolding op_from_u16_def by (rule find_key_iff [OF op_as_u16_distinct ALL_ops_complete])
  show "carries_room_state p \<longrightarrow> op_lane p = LaneSession"
    by (auto simp: carries_room_state_def op_lane_def)
qed

theorem op_numbers_witness:
  "op_from_u16 0x0704 = Some OpRoomEvent \<and> op_lane OpRoomEvent = LaneSession"
  using op_numbers [of "0x0704" OpRoomEvent] by (simp add: carries_room_state_def)

lemma failure_code_of: "failure_code (code_failure c) = Some c"
  unfolding failure_code_def code_failure_def code_from_num_def
  by (simp add: find_key_iff [OF code_num_distinct ALL_codes_complete])

end
