(* ===== verification/Mbcp.thy ===== *)
theory Mbcp
  imports Sig_Frame "HOL-Library.Sublist"
begin

text \<open>
  The floor-control message (MBCP) of \<open>oxsig/src/floor.rs\<close>: a head byte (version, reserved, ack bit,
  type), a TLV count, then the TLVs. Constants, the message record, the two codec functions, the field
  readers and the constructor of each message. The lemmas show that a written message is read back
  unchanged, alone and inside a data-channel frame, that a cut message loses only trailing TLVs, and
  that every message the server writes can be written.
\<close>

section \<open>Numbers\<close>

definition REQUEST :: u8 where "REQUEST = 0"
definition GRANTED :: u8 where "GRANTED = 1"
definition TAKEN :: u8 where "TAKEN = 2"
definition DENY :: u8 where "DENY = 3"
definition RELEASE :: u8 where "RELEASE = 4"
definition IDLE :: u8 where "IDLE = 5"
definition REVOKE :: u8 where "REVOKE = 6"
definition QPOS_REQ :: u8 where "QPOS_REQ = 8"
definition QINFO :: u8 where "QINFO = 9"
definition ACK :: u8 where "ACK = 10"

definition MBCP_RETIRED :: "u8 list" where "MBCP_RETIRED = [7, 28, 30]"
definition MAX_VALUE :: nat where "MAX_VALUE = 255"

definition TLV_PRIORITY :: u8 where "TLV_PRIORITY = 0"
definition TLV_DURATION :: u8 where "TLV_DURATION = 1"
definition TLV_CAUSE :: u8 where "TLV_CAUSE = 2"
definition TLV_QINFO :: u8 where "TLV_QINFO = 3"
definition TLV_SPEAKER :: u8 where "TLV_SPEAKER = 4"
definition TLV_SEQ :: u8 where "TLV_SEQ = 8"
definition TLV_ACKTYPE :: u8 where "TLV_ACKTYPE = 12"
definition TLV_PREV :: u8 where "TLV_PREV = 26"
definition TLV_REASON :: u8 where "TLV_REASON = 27"
definition TLV_ROOM :: u8 where "TLV_ROOM = 29"

text \<open>Causes and queue positions, as the \<open>u32\<close> values the floor arbiter carries them in.\<close>

definition DENY_ONLY_ONE :: nat where "DENY_ONLY_ONE = 3"
definition DENY_RETRY_AFTER :: nat where "DENY_RETRY_AFTER = 4"
definition DENY_RECV_ONLY :: nat where "DENY_RECV_ONLY = 5"
definition DENY_QUEUE_FULL :: nat where "DENY_QUEUE_FULL = 7"
definition DENY_NOT_PUBROOM :: nat where "DENY_NOT_PUBROOM = 101"
definition DENY_NO_PERMISSION :: nat where "DENY_NO_PERMISSION = 102"
definition DENY_OTHER_REASON :: nat where "DENY_OTHER_REASON = 255"

definition REVOKE_TOO_LONG :: nat where "REVOKE_TOO_LONG = 2"
definition REVOKE_NO_PERMISSION :: nat where "REVOKE_NO_PERMISSION = 3"
definition REVOKE_PREEMPTED :: nat where "REVOKE_PREEMPTED = 4"

definition QPOS_NOT_IN_QUEUE :: nat where "QPOS_NOT_IN_QUEUE = 254"

definition T1_MS :: nat where "T1_MS = 4000"
definition T3_MS :: nat where "T3_MS = 3000"
definition T7_MS :: nat where "T7_MS = 1000"
definition T8_MS :: nat where "T8_MS = 1000"
definition T20_MS :: nat where "T20_MS = 1000"
definition T9_MS :: nat where "T9_MS = 3000"
definition T21_MS :: nat where "T21_MS = 1000"
definition C7 :: nat where "C7 = 10"
definition C8 :: nat where "C8 = 3"
definition C20 :: nat where "C20 = 3"
definition C21 :: nat where "C21 = 3"

lemmas mt_defs = REQUEST_def GRANTED_def TAKEN_def DENY_def RELEASE_def IDLE_def REVOKE_def
  QPOS_REQ_def QINFO_def ACK_def
lemmas tlv_defs = TLV_PRIORITY_def TLV_DURATION_def TLV_CAUSE_def TLV_QINFO_def TLV_SPEAKER_def
  TLV_SEQ_def TLV_ACKTYPE_def TLV_PREV_def TLV_REASON_def TLV_ROOM_def

section \<open>Messages and their codec\<close>

type_synonym tlv = "u8 \<times> u8 list"

record mbcp_msg =
  msg_type :: u8
  ack_bit :: bool
  tlvs :: "tlv list"

definition adopted :: "u8 \<Rightarrow> bool" where
  "adopted t \<longleftrightarrow> t \<in> set [REQUEST, GRANTED, TAKEN, DENY, RELEASE, IDLE, REVOKE, QPOS_REQ, QINFO, ACK]"

definition ack_allowed :: "u8 \<Rightarrow> bool" where
  "ack_allowed t \<longleftrightarrow> t \<in> set [GRANTED, TAKEN, DENY, RELEASE, IDLE, QINFO]"

definition mbcp_name :: "u8 \<Rightarrow> string" where
  "mbcp_name t =
     (if t = REQUEST then ''REQUEST'' else if t = GRANTED then ''GRANTED''
      else if t = TAKEN then ''TAKEN'' else if t = DENY then ''DENY''
      else if t = RELEASE then ''RELEASE'' else if t = IDLE then ''IDLE''
      else if t = REVOKE then ''REVOKE'' else if t = QPOS_REQ then ''QPOS_REQ''
      else if t = QINFO then ''QINFO'' else if t = ACK then ''ACK'' else ''UNKNOWN'')"

definition put_tlv :: "tlv \<Rightarrow> u8 list" where
  "put_tlv x = fst x # word_of_nat (length (snd x)) # snd x"

definition mbcp_encode :: "mbcp_msg \<Rightarrow> u8 list option" where
  "mbcp_encode m =
     (if ack_bit m \<and> \<not> ack_allowed (msg_type m) then None
      else if 255 < length (tlvs m) \<or> list_ex (\<lambda>x. MAX_VALUE < length (snd x)) (tlvs m) then None
      else Some (((msg_type m AND 0x0f) OR (if ack_bit m then 0x10 else 0))
        # word_of_nat (length (tlvs m)) # concat (map put_tlv (tlvs m))))"

text \<open>One round of the decoder's loop reads a TLV or, when the rest is too short, breaks.\<close>

definition get_tlv :: "tlv reader" where
  "get_tlv rest =
     (if length rest < 2 then None
      else (let id = rest ! 0; len = unat (rest ! 1) in
        if length rest < 2 + len then None
        else Some ((id, take len (drop 2 rest)), drop (2 + len) rest)))"

fun decode_tlvs :: "nat \<Rightarrow> u8 list \<Rightarrow> tlv list" where
  "decode_tlvs 0 rest = []"
| "decode_tlvs (Suc n) rest =
     (case get_tlv rest of None \<Rightarrow> [] | Some (x, rest') \<Rightarrow> x # decode_tlvs n rest')"

definition mbcp_decode :: "u8 list \<Rightarrow> mbcp_msg option" where
  "mbcp_decode b =
     (if length b < 2 then None
      else (let head = b ! 0 in
        if head AND 0xc0 \<noteq> 0 then None
        else (let t = head AND 0x0f in
          if \<not> adopted t then None
          else Some \<lparr>msg_type = t, ack_bit = (head AND 0x10 \<noteq> 0),
                     tlvs = decode_tlvs (unat (b ! 1)) (drop 2 b)\<rparr>)))"

section \<open>Fields\<close>

definition mbcp_new :: "u8 \<Rightarrow> bool \<Rightarrow> mbcp_msg" where
  "mbcp_new t a = \<lparr>msg_type = t, ack_bit = a, tlvs = []\<rparr>"

definition mbcp_get :: "mbcp_msg \<Rightarrow> u8 \<Rightarrow> u8 list option" where
  "mbcp_get m i = map_option snd (List.find (\<lambda>x. fst x = i) (tlvs m))"

definition mbcp_text :: "mbcp_msg \<Rightarrow> u8 \<Rightarrow> string option" where
  "mbcp_text m i = map_option from_utf8_lossy (mbcp_get m i)"

definition mbcp_room :: "mbcp_msg \<Rightarrow> string option" where
  "mbcp_room m = map_option from_utf8_lossy (mbcp_get m TLV_ROOM)"

definition mbcp_priority :: "mbcp_msg \<Rightarrow> u8 option" where
  "mbcp_priority m = Option.bind (mbcp_get m TLV_PRIORITY)
     (\<lambda>b. if length b = 2 then Some (b ! 0) else None)"

definition mbcp_seq :: "mbcp_msg \<Rightarrow> u16 option" where
  "mbcp_seq m = Option.bind (mbcp_get m TLV_SEQ)
     (\<lambda>b. if length b = 2 then Some (of_be16 (b ! 0) (b ! 1)) else None)"

definition mbcp_ack_of :: "mbcp_msg \<Rightarrow> u8 option" where
  "mbcp_ack_of m = Option.bind (mbcp_get m TLV_ACKTYPE)
     (\<lambda>b. if length b = 2 then Some (b ! 0) else None)"

definition mbcp_cause :: "mbcp_msg \<Rightarrow> u8 option" where
  "mbcp_cause m = Option.bind (mbcp_get m TLV_CAUSE)
     (\<lambda>b. case b of [] \<Rightarrow> None | x # _ \<Rightarrow> Some x)"

definition mbcp_push :: "mbcp_msg \<Rightarrow> u8 \<Rightarrow> u8 list \<Rightarrow> mbcp_msg" where
  "mbcp_push m i v = m\<lparr>tlvs := tlvs m @ [(i, v)]\<rparr>"

definition u8spare :: "u8 \<Rightarrow> u8 list" where
  "u8spare v = [v, 0]"

section \<open>Constructors\<close>

definition mbcp_request :: "string \<Rightarrow> u8 option \<Rightarrow> mbcp_msg" where
  "mbcp_request room prio =
     (let m = mbcp_push (mbcp_new REQUEST False) TLV_ROOM (as_bytes room) in
      case prio of Some p \<Rightarrow> mbcp_push m TLV_PRIORITY (u8spare p) | None \<Rightarrow> m)"

definition mbcp_granted :: "u8 \<Rightarrow> u16 \<Rightarrow> string \<Rightarrow> mbcp_msg" where
  "mbcp_granted prio dur room =
     mbcp_push (mbcp_push (mbcp_push (mbcp_new GRANTED True) TLV_PRIORITY (u8spare prio))
       TLV_DURATION (be16 dur)) TLV_ROOM (as_bytes room)"

definition mbcp_taken :: "string \<Rightarrow> u16 \<Rightarrow> string \<Rightarrow> mbcp_msg" where
  "mbcp_taken speaker seq room =
     mbcp_push (mbcp_push (mbcp_push (mbcp_new TAKEN True) TLV_SPEAKER (as_bytes speaker))
       TLV_SEQ (be16 seq)) TLV_ROOM (as_bytes room)"

definition mbcp_deny :: "u8 \<Rightarrow> string \<Rightarrow> string option \<Rightarrow> mbcp_msg" where
  "mbcp_deny cause room reason =
     (let m = mbcp_push (mbcp_push (mbcp_new DENY True) TLV_CAUSE [cause]) TLV_ROOM (as_bytes room) in
      case reason of Some r \<Rightarrow> mbcp_push m TLV_REASON (as_bytes r) | None \<Rightarrow> m)"

definition mbcp_release :: "string \<Rightarrow> mbcp_msg" where
  "mbcp_release room = mbcp_push (mbcp_new RELEASE False) TLV_ROOM (as_bytes room)"

definition mbcp_idle :: "u16 \<Rightarrow> string \<Rightarrow> string option \<Rightarrow> mbcp_msg" where
  "mbcp_idle seq room prev =
     (let m = mbcp_push (mbcp_push (mbcp_new IDLE False) TLV_SEQ (be16 seq)) TLV_ROOM (as_bytes room) in
      case prev of Some p \<Rightarrow> mbcp_push m TLV_PREV (as_bytes p) | None \<Rightarrow> m)"

definition mbcp_revoke :: "u8 \<Rightarrow> string \<Rightarrow> string option \<Rightarrow> mbcp_msg" where
  "mbcp_revoke cause room reason =
     (let m = mbcp_push (mbcp_push (mbcp_new REVOKE False) TLV_CAUSE [cause]) TLV_ROOM (as_bytes room) in
      case reason of Some r \<Rightarrow> mbcp_push m TLV_REASON (as_bytes r) | None \<Rightarrow> m)"

definition mbcp_queue_pos_request :: "string \<Rightarrow> mbcp_msg" where
  "mbcp_queue_pos_request room = mbcp_push (mbcp_new QPOS_REQ False) TLV_ROOM (as_bytes room)"

definition mbcp_queue_info :: "u8 \<Rightarrow> u8 \<Rightarrow> string \<Rightarrow> mbcp_msg" where
  "mbcp_queue_info position prio room =
     mbcp_push (mbcp_push (mbcp_new QINFO False) TLV_QINFO [position, prio]) TLV_ROOM (as_bytes room)"

definition mbcp_ack :: "u8 \<Rightarrow> string \<Rightarrow> mbcp_msg" where
  "mbcp_ack of_type room =
     mbcp_push (mbcp_push (mbcp_new ACK False) TLV_ACKTYPE (u8spare of_type)) TLV_ROOM (as_bytes room)"

lemmas mbcp_ctor_defs = mbcp_request_def mbcp_granted_def mbcp_taken_def mbcp_deny_def mbcp_release_def
  mbcp_idle_def mbcp_revoke_def mbcp_queue_pos_request_def mbcp_queue_info_def mbcp_ack_def

section \<open>What is written is read back\<close>

definition tlv_ok :: "tlv \<Rightarrow> bool" where
  "tlv_ok x \<longleftrightarrow> length (snd x) \<le> 255"

lemma unat_len_u8 [simp]: "n \<le> 255 \<Longrightarrow> unat (word_of_nat n :: u8) = n"
  by (simp add: unat_of_nat take_bit_eq_mod)

lemma length_put_tlv [simp]: "length (put_tlv x) = 2 + length (snd x)"
  by (simp add: put_tlv_def)

interpretation tlv: prefix_codec tlv_ok put_tlv get_tlv
  by unfold_locales (auto simp: tlv_ok_def put_tlv_def get_tlv_def)

lemma decode_tlvs_put:
  "list_all tlv_ok xs \<Longrightarrow> decode_tlvs (length xs) (concat (map put_tlv xs) @ rest) = xs"
  by (induction xs) (auto simp: tlv.get_put)

lemma mbcp_encode_Some:
  "mbcp_encode m = Some b \<longleftrightarrow>
     (ack_bit m \<longrightarrow> ack_allowed (msg_type m)) \<and> length (tlvs m) \<le> 255 \<and> list_all tlv_ok (tlvs m) \<and>
     b = ((msg_type m AND 0x0f) OR (if ack_bit m then 0x10 else 0))
        # word_of_nat (length (tlvs m)) # concat (map put_tlv (tlvs m))"
proof -
  have "list_ex (\<lambda>x. MAX_VALUE < length (snd x)) (tlvs m) \<longleftrightarrow> \<not> list_all tlv_ok (tlvs m)"
    by (simp add: tlv_ok_def MAX_VALUE_def list_ex_iff list_all_iff not_le)
  then show ?thesis by (auto simp: mbcp_encode_def)
qed

lemma adopted_head:
  assumes "adopted t"
  shows "(t AND 0x0f OR (if a then 0x10 else 0)) AND 0x0f = t"
    and "(t AND 0x0f OR (if a then 0x10 else 0)) AND 0xc0 = 0"
    and "((t AND 0x0f OR (if a then 0x10 else 0)) AND 0x10 \<noteq> 0) = a"
  using assms by (auto simp: adopted_def mt_defs split: if_splits)

lemma mbcp_decode_written:
  assumes "adopted (msg_type m)" and "mbcp_encode m = Some b"
  shows "mbcp_decode (b @ trail) = Some m"
  using assms adopted_head [of "msg_type m" "ack_bit m"]
  by (simp add: mbcp_encode_Some mbcp_decode_def decode_tlvs_put)

text \<open>
  A floor message of an adopted type that can be written is read back unchanged, whatever bytes follow
  it.
\<close>

theorem mbcp_decode_encode:
  assumes "adopted (msg_type m)" and "mbcp_encode m = Some b"
  shows "mbcp_decode (b @ trail) = Some m"
  using assms by (rule mbcp_decode_written)

theorem mbcp_decode_encode_witness:
  "mbcp_decode ([0x11, 3, 0, 2, 5, 0, 1, 2, 0, 30, 29, 2, 114, 49] @ [9]) = Some (mbcp_granted 5 30 ''r1'')"
  by (rule mbcp_decode_encode)
    (simp_all add: mbcp_granted_def mbcp_encode_def mbcp_push_def mbcp_new_def adopted_def ack_allowed_def
      mt_defs tlv_defs MAX_VALUE_def put_tlv_def be16_def u8spare_def as_bytes_def)

lemma decode_tlvs_prefix:
  assumes "list_all tlv_ok xs"
  shows "prefix (decode_tlvs n (take k (concat (map put_tlv xs)))) xs"
  using assms
proof (induction xs arbitrary: n k)
  case Nil
  show ?case by (cases n) (simp_all add: get_tlv_def)
next
  case (Cons x xs)
  show ?case
  proof (cases n)
    case (Suc n')
    show ?thesis
    proof (cases "length (put_tlv x) \<le> k")
      case True
      then have "take k (concat (map put_tlv (x # xs)))
          = put_tlv x @ take (k - length (put_tlv x)) (concat (map put_tlv xs))"
        by simp
      then show ?thesis using Cons Suc by (simp add: tlv.get_put del: length_put_tlv)
    next
      case False
      then have short: "take k (concat (map put_tlv (x # xs))) = take k (put_tlv x)"
        by simp
      have "get_tlv (take k (put_tlv x)) = None"
        using False Cons.prems
        by (auto simp: get_tlv_def put_tlv_def tlv_ok_def Let_def take_Cons split: nat.splits)
      then show ?thesis by (simp only: short Suc) simp
    qed
  qed simp
qed

text \<open>
  A message cut anywhere after its two-byte head is still read, with the same type and ack bit and a
  prefix of its TLVs: the decoder never reads a value across the cut.
\<close>

theorem mbcp_decode_truncated:
  assumes "adopted (msg_type m)" and "mbcp_encode m = Some b" and "2 \<le> n"
  shows "\<exists>ts. prefix ts (tlvs m) \<and> mbcp_decode (take n b) = Some (m\<lparr>tlvs := ts\<rparr>)"
proof -
  obtain k where n: "n = Suc (Suc k)" using assms(3) by (metis add_2_eq_Suc le_Suc_ex)
  have ok: "list_all tlv_ok (tlvs m)" using assms(2) by (simp add: mbcp_encode_Some)
  have "mbcp_decode (take n b)
      = Some (m\<lparr>tlvs := decode_tlvs (length (tlvs m)) (take k (concat (map put_tlv (tlvs m))))\<rparr>)"
    using assms(1,2) adopted_head [of "msg_type m" "ack_bit m"]
    by (simp add: n mbcp_encode_Some mbcp_decode_def)
  then show ?thesis using decode_tlvs_prefix [OF ok] by blast
qed

theorem mbcp_decode_truncated_witness:
  "\<exists>ts. prefix ts (tlvs (mbcp_ack 4 ''r1''))
     \<and> mbcp_decode (take 7 [10, 2, 12, 2, 4, 0, 29, 2, 114, 49]) = Some ((mbcp_ack 4 ''r1'')\<lparr>tlvs := ts\<rparr>)"
  by (rule mbcp_decode_truncated)
    (simp_all add: mbcp_ack_def mbcp_encode_def mbcp_push_def mbcp_new_def adopted_def ack_allowed_def
      mt_defs tlv_defs MAX_VALUE_def put_tlv_def u8spare_def as_bytes_def)

section \<open>Floor messages in data-channel frames\<close>

definition mbcp_fits :: "mbcp_msg \<Rightarrow> bool" where
  "mbcp_fits m \<longleftrightarrow> adopted (msg_type m) \<and> (ack_bit m \<longrightarrow> ack_allowed (msg_type m))
     \<and> length (tlvs m) \<le> 200 \<and> list_all tlv_ok (tlvs m)"

lemma length_concat_put_tlv:
  "list_all tlv_ok xs \<Longrightarrow> length (concat (map put_tlv xs)) \<le> 257 * length xs"
  by (induction xs) (auto simp: tlv_ok_def)

interpretation mbcp: byte_codec mbcp_fits mbcp_encode mbcp_decode
proof
  fix m assume "mbcp_fits m"
  then show "\<exists>b. mbcp_encode m = Some b" by (simp add: mbcp_fits_def mbcp_encode_Some)
next
  fix m b assume "mbcp_fits m" "mbcp_encode m = Some b"
  then show "mbcp_decode b = Some m"
    using mbcp_decode_written [of m b "[]"] by (simp add: mbcp_fits_def)
qed

interpretation floor_dc: layered_codec mbcp_fits mbcp_encode mbcp_decode
  "\<lambda>p. length p \<le> 65532" "dc_encode SVC_FLOOR" "\<lambda>b. map_option payload (dc_decode b)"
proof
  fix m b assume ok: "mbcp_fits m" and "mbcp_encode m = Some b"
  then have "length b = 2 + length (concat (map put_tlv (tlvs m)))"
    by (auto simp: mbcp_encode_Some)
  moreover have "length (concat (map put_tlv (tlvs m))) \<le> 257 * length (tlvs m)"
    using ok by (simp add: mbcp_fits_def length_concat_put_tlv)
  moreover have "length (tlvs m) \<le> 200" using ok by (simp add: mbcp_fits_def)
  ultimately show "length b \<le> 65532" by linarith
qed

lemma mbcp_new_sel [simp]:
  "msg_type (mbcp_push m i v) = msg_type m" "ack_bit (mbcp_push m i v) = ack_bit m"
  "tlvs (mbcp_push m i v) = tlvs m @ [(i, v)]"
  "msg_type (mbcp_new t a) = t" "ack_bit (mbcp_new t a) = a" "tlvs (mbcp_new t a) = []"
  by (simp_all add: mbcp_push_def mbcp_new_def)

lemma mbcp_ctor_fits:
  assumes "length room \<le> 255"
  shows "mbcp_fits (mbcp_granted p d room)"
    and "length sp \<le> 255 \<Longrightarrow> mbcp_fits (mbcp_taken sp sq room)"
    and "pred_option (\<lambda>r. length r \<le> 255) reason \<Longrightarrow> mbcp_fits (mbcp_deny c room reason)"
    and "pred_option (\<lambda>r. length r \<le> 255) prev \<Longrightarrow> mbcp_fits (mbcp_idle sq room prev)"
    and "pred_option (\<lambda>r. length r \<le> 255) reason \<Longrightarrow> mbcp_fits (mbcp_revoke c room reason)"
    and "mbcp_fits (mbcp_queue_info q p room)"
    and "mbcp_fits (mbcp_ack t room)"
    and "mbcp_fits (mbcp_request room prio)" and "mbcp_fits (mbcp_release room)"
    and "mbcp_fits (mbcp_queue_pos_request room)"
  using assms
  by (auto simp: mbcp_fits_def mbcp_ctor_defs tlv_ok_def adopted_def ack_allowed_def mt_defs u8spare_def
      Let_def split: option.split)

lemma mbcp_ctor_room:
  assumes "utf8 room"
  shows "mbcp_room (mbcp_granted p d room) = Some room"
    and "mbcp_room (mbcp_taken sp sq room) = Some room"
    and "mbcp_room (mbcp_deny c room reason) = Some room"
    and "mbcp_room (mbcp_idle sq room prev) = Some room"
    and "mbcp_room (mbcp_revoke c room reason) = Some room"
    and "mbcp_room (mbcp_queue_info q q' room) = Some room"
    and "mbcp_room (mbcp_ack t room) = Some room"
    and "mbcp_room (mbcp_request room prio) = Some room" and "mbcp_room (mbcp_release room) = Some room"
    and "mbcp_room (mbcp_queue_pos_request room) = Some room"
  using assms
  by (auto simp: mbcp_room_def mbcp_get_def mbcp_ctor_defs tlv_defs bytes_simps Let_def split: option.split)

text \<open>
  A client's floor message crosses the data channel: a request written for a room of at most 255
  bytes is framed, and the server's reading of the frame gives back its type, its room and its priority.
\<close>

theorem request_over_dc:
  assumes "utf8 room" and "length room \<le> 255"
  shows "\<exists>w fr m. Option.bind (mbcp_encode (mbcp_request room prio)) (dc_encode SVC_FLOOR) = Some w
     \<and> dc_decode w = Some fr \<and> svc fr = SVC_FLOOR \<and> mbcp_decode (payload fr) = Some m
     \<and> msg_type m = REQUEST \<and> mbcp_room m = Some room \<and> mbcp_priority m = prio"
proof -
  let ?m = "mbcp_request room prio"
  have fits: "mbcp_fits ?m" using assms(2) by (rule mbcp_ctor_fits)
  obtain b where b: "mbcp_encode ?m = Some b" using mbcp.enc_total [OF fits] by blast
  have len: "length b \<le> 65532" by (rule floor_dc.fits [OF fits b])
  then obtain w where w: "dc_encode SVC_FLOOR b = Some w" using dc.enc_total by blast
  have "dc_decode w = Some \<lparr>svc = SVC_FLOOR, payload = b\<rparr>"
    using w dc_frame_roundtrip(1) [of SVC_FLOOR b w "[]"] by simp
  moreover have "mbcp_decode b = Some ?m" by (rule mbcp.dec_enc [OF fits b])
  moreover have "msg_type ?m = REQUEST" "mbcp_priority ?m = prio"
    by (auto simp: mbcp_request_def mbcp_priority_def mbcp_get_def tlv_defs u8spare_def Let_def
      split: option.split)
  ultimately show ?thesis
    using b w mbcp_ctor_room(8) [OF assms(1)] by auto
qed

theorem request_over_dc_witness:
  "\<exists>w fr m. Option.bind (mbcp_encode (mbcp_request ''r1'' (Some 5))) (dc_encode SVC_FLOOR) = Some w
     \<and> dc_decode w = Some fr \<and> svc fr = SVC_FLOOR \<and> mbcp_decode (payload fr) = Some m
     \<and> msg_type m = REQUEST \<and> mbcp_room m = Some ''r1'' \<and> mbcp_priority m = Some 5"
  by (rule request_over_dc) (simp_all add: utf8_def as_bytes_def utf8_valid.simps utf8_chunk_def utf8_width_def)

end
