(* ===== verification/Floor_Core.thy ===== *)
theory Floor_Core
  imports Mbcp
begin

text \<open>
  The floor arbiter of one room (\<open>oxsfud/src/flr/core.rs\<close>): who may speak, who waits, what each
  participant has been told. A step takes the ledger (\<open>floor\<close>) and an event and returns the new ledger
  together with what to send, the labels of the cases it went through, and the media effects (\<open>step\<close>).
  Rust's \<open>&mut self\<close> and \<open>&mut Step\<close> are the two fields of the record \<open>ctx\<close> that every function takes
  and returns; \<open>let c = \<dots> in\<close> is the sequence of its statements.

  \<open>u32\<close> counters and priorities are \<open>nat\<close>; \<open>Floor_Inv\<close> bounds every one of them, so none overflows.
  The labels are named constants, one per string of the source.
\<close>

section \<open>Data\<close>

type_synonym user = string

definition SEQ_WRAP :: nat where "SEQ_WRAP = 65536"
definition RELEASE_TYPE :: nat where "RELEASE_TYPE = 4"

datatype g = GIdle | GTaken | GPrevoke

definition g_as_str :: "g \<Rightarrow> string" where
  "g_as_str x = (case x of GIdle \<Rightarrow> ''IDLE'' | GTaken \<Rightarrow> ''TAKEN'' | GPrevoke \<Rightarrow> ''PREVOKE'')"

datatype p = NpIdle | NpTaken | Permitted | PPrevoke | NpSends | Releasing

definition p_as_str :: "p \<Rightarrow> string" where
  "p_as_str x = (case x of NpIdle \<Rightarrow> ''NP_IDLE'' | NpTaken \<Rightarrow> ''NP_TAKEN'' | Permitted \<Rightarrow> ''PERMITTED''
     | PPrevoke \<Rightarrow> ''PREVOKE'' | NpSends \<Rightarrow> ''NPSENDS'' | Releasing \<Rightarrow> ''RELEASING'')"

datatype mt = MRequest | MGranted | MTaken | MDeny | MRelease | MIdle | MRevoke | MQposReq | MQinfo
  | MAck | MRtp

record msg =
  mt :: mt
  ma :: "user option"
  mn :: nat
  md :: nat
  mq :: nat

definition msg_new :: "mt \<Rightarrow> user option \<Rightarrow> nat \<Rightarrow> nat \<Rightarrow> msg" where
  "msg_new t a n d = \<lparr>mt = t, ma = a, mn = n, md = d, mq = 0\<rparr>"

record out_msg =
  o_to :: user
  o_m :: msg

datatype fx = Bind user | Release "user option"

record step =
  out :: "out_msg list"
  labels :: "string list"
  fx :: "fx list"

definition step_default :: step where
  "step_default = \<lparr>out = [], labels = [], fx = []\<rparr>"

record waiter =
  w_u :: user
  w_p :: nat
  w_pre :: bool

record part =
  part :: "p option"
  pub_room :: bool
  perm :: bool
  retry :: bool
  released :: bool
  g_taken :: bool
  c8 :: nat
  c21 :: nat
  rcause :: nat

definition part_default :: part where
  "part_default = \<lparr>part = None, pub_room = False, perm = False, retry = False, released = False,
     g_taken = False, c8 = 0, c21 = 0, rcause = 0\<rparr>"

record floor =
  g :: g
  speaker :: "user option"
  sprio :: nat
  revoking :: "user option"
  rprio :: nat
  rcause_g :: nat
  queue :: "waiter list"
  succ :: bool
  rtp_seen :: bool
  first_rtp :: bool
  c20 :: nat
  c7 :: nat
  idle_bcast :: bool
  prev :: "user option"
  members :: "user btset"
  parts :: "(user, part) btree"
  seq :: nat
  qmax :: nat
  t2_secs :: nat

definition floor_new :: "nat \<Rightarrow> nat \<Rightarrow> floor" where
  "floor_new qm t2 = \<lparr>g = GIdle, speaker = None, sprio = 0, revoking = None, rprio = 0, rcause_g = 0,
     queue = [], succ = False, rtp_seen = False, first_rtp = False, c20 = 0, c7 = 0, idle_bcast = False,
     prev = None, members = [], parts = [], seq = 0, qmax = qm, t2_secs = t2\<rparr>"

record ctx =
  fl :: floor
  st :: step

definition begin_step :: "floor \<Rightarrow> ctx" where
  "begin_step f = \<lparr>fl = f, st = step_default\<rparr>"

text \<open>One assignment to the ledger, one push on each of the step's lists.\<close>

definition upd :: "(floor \<Rightarrow> floor) \<Rightarrow> ctx \<Rightarrow> ctx" where
  "upd h c = c\<lparr>fl := h (fl c)\<rparr>"

definition lab :: "string \<Rightarrow> ctx \<Rightarrow> ctx" where
  "lab l c = c\<lparr>st := (st c)\<lparr>labels := labels (st c) @ [l]\<rparr>\<rparr>"

definition push_out :: "out_msg \<Rightarrow> ctx \<Rightarrow> ctx" where
  "push_out o' c = c\<lparr>st := (st c)\<lparr>out := out (st c) @ [o']\<rparr>\<rparr>"

definition push_fx :: "fx \<Rightarrow> ctx \<Rightarrow> ctx" where
  "push_fx e c = c\<lparr>st := (st c)\<lparr>fx := fx (st c) @ [e]\<rparr>\<rparr>"

subsection \<open>Labels\<close>

definition L_G_TAKEN_enter :: string where "L_G_TAKEN_enter = ''FLR.S.G.TAKEN.enter''"
definition L_G_IDLE_enter_empty :: string where "L_G_IDLE_enter_empty = ''FLR.S.G.IDLE.enter_empty''"
definition L_G_IDLE_enter_succession :: string where "L_G_IDLE_enter_succession = ''FLR.S.G.IDLE.enter_succession''"
definition L_G_PREVOKE_enter :: string where "L_G_PREVOKE_enter = ''FLR.S.G.PREVOKE.enter''"
definition L_G_any_req_discard :: string where "L_G_any_req_discard = ''FLR.S.G.any.req_discard''"
definition L_G_IDLE_req_alone :: string where "L_G_IDLE_req_alone = ''FLR.S.G.IDLE.req_alone''"
definition L_G_IDLE_req_retry_after :: string where "L_G_IDLE_req_retry_after = ''FLR.S.G.IDLE.req_retry_after''"
definition L_G_IDLE_req_grant :: string where "L_G_IDLE_req_grant = ''FLR.S.G.IDLE.req_grant''"
definition L_G_TAKEN_req_regrant :: string where "L_G_TAKEN_req_regrant = ''FLR.S.G.TAKEN.req_regrant''"
definition L_G_any_regrant_discard :: string where "L_G_any_regrant_discard = ''FLR.S.G.any.regrant_discard''"
definition L_G_TAKEN_preempt :: string where "L_G_TAKEN_preempt = ''FLR.S.G.TAKEN.preempt''"
definition L_G_PREVOKE_preempt_discard :: string where "L_G_PREVOKE_preempt_discard = ''FLR.S.G.PREVOKE.preempt_discard''"
definition L_G_TAKEN_rel_speaker :: string where "L_G_TAKEN_rel_speaker = ''FLR.S.G.TAKEN.rel_speaker''"
definition L_G_PREVOKE_rel_revoked :: string where "L_G_PREVOKE_rel_revoked = ''FLR.S.G.PREVOKE.rel_revoked''"
definition L_G_any_rel_discard :: string where "L_G_any_rel_discard = ''FLR.S.G.any.rel_discard''"
definition L_G_TAKEN_rtp :: string where "L_G_TAKEN_rtp = ''FLR.S.G.TAKEN.rtp''"
definition L_G_PREVOKE_rtp :: string where "L_G_PREVOKE_rtp = ''FLR.S.G.PREVOKE.rtp''"
definition L_G_any_rtp_discard :: string where "L_G_any_rtp_discard = ''FLR.S.G.any.rtp_discard''"
definition L_gate_ack_drop :: string where "L_gate_ack_drop = ''FLR.S.gate.ack_drop''"
definition L_gate_not_in_room :: string where "L_gate_not_in_room = ''FLR.S.gate.not_in_room''"
definition L_gate_not_in_room_drop :: string where "L_gate_not_in_room_drop = ''FLR.S.gate.not_in_room_drop''"
definition L_gate_recv_only :: string where "L_gate_recv_only = ''FLR.S.gate.recv_only''"
definition L_gate_not_pubroom :: string where "L_gate_not_pubroom = ''FLR.S.gate.not_pubroom''"
definition L_gate_no_permission :: string where "L_gate_no_permission = ''FLR.S.gate.no_permission''"
definition L_P_join_self :: string where "L_P_join_self = ''FLR.S.P.join.self''"
definition L_P_join_taken :: string where "L_P_join_taken = ''FLR.S.P.join.taken''"
definition L_P_join_idle :: string where "L_P_join_idle = ''FLR.S.P.join.idle''"
definition L_perm_speaker :: string where "L_perm_speaker = ''FLR.S.perm.speaker''"
definition L_perm_queued :: string where "L_perm_queued = ''FLR.S.perm.queued''"
definition L_perm_other :: string where "L_perm_other = ''FLR.S.perm.other''"
definition L_perm_up :: string where "L_perm_up = ''FLR.S.perm.up''"
definition L_G_TAKEN_client_release :: string where "L_G_TAKEN_client_release = ''FLR.S.G.TAKEN.client_release''"
definition L_G_PREVOKE_client_release :: string where "L_G_PREVOKE_client_release = ''FLR.S.G.PREVOKE.client_release''"
definition L_away_queued :: string where "L_away_queued = ''FLR.S.away.queued''"
definition L_away_other :: string where "L_away_other = ''FLR.S.away.other''"
definition L_ws_pub_select :: string where "L_ws_pub_select = ''FLR.S.ws.pub_select''"
definition L_ws_pub_away :: string where "L_ws_pub_away = ''FLR.S.ws.pub_away''"
definition L_ws_leave :: string where "L_ws_leave = ''FLR.S.ws.leave''"
definition L_ws_join_revoking :: string where "L_ws_join_revoking = ''FLR.S.ws.join_revoking''"
definition L_ws_join :: string where "L_ws_join = ''FLR.S.ws.join''"
definition L_P_NP_IDLE_enter :: string where "L_P_NP_IDLE_enter = ''FLR.S.P.NP_IDLE.enter''"
definition L_P_NP_TAKEN_enter :: string where "L_P_NP_TAKEN_enter = ''FLR.S.P.NP_TAKEN.enter''"
definition L_P_PERMITTED_enter :: string where "L_P_PERMITTED_enter = ''FLR.S.P.PERMITTED.enter''"
definition L_P_PREVOKE_enter :: string where "L_P_PREVOKE_enter = ''FLR.S.P.PREVOKE.enter''"
definition L_P_NPSENDS_enter :: string where "L_P_NPSENDS_enter = ''FLR.S.P.NPSENDS.enter''"
definition L_P_any_a_QINFO :: string where "L_P_any_a_QINFO = ''FLR.S.P.any.a_QINFO''"
definition L_P_any_a_DENY :: string where "L_P_any_a_DENY = ''FLR.S.P.any.a_DENY''"
definition L_P_NP_IDLE_a_GRANTED :: string where "L_P_NP_IDLE_a_GRANTED = ''FLR.S.P.NP_IDLE.a_GRANTED''"
definition L_P_NP_IDLE_a_TAKEN :: string where "L_P_NP_IDLE_a_TAKEN = ''FLR.S.P.NP_IDLE.a_TAKEN''"
definition L_P_NP_IDLE_a_IDLE :: string where "L_P_NP_IDLE_a_IDLE = ''FLR.S.P.NP_IDLE.a_IDLE''"
definition L_P_NP_IDLE_a_other :: string where "L_P_NP_IDLE_a_other = ''FLR.S.P.NP_IDLE.a_other''"
definition L_P_NP_TAKEN_a_GRANTED :: string where "L_P_NP_TAKEN_a_GRANTED = ''FLR.S.P.NP_TAKEN.a_GRANTED''"
definition L_P_NP_TAKEN_a_TAKEN :: string where "L_P_NP_TAKEN_a_TAKEN = ''FLR.S.P.NP_TAKEN.a_TAKEN''"
definition L_P_NP_TAKEN_a_IDLE :: string where "L_P_NP_TAKEN_a_IDLE = ''FLR.S.P.NP_TAKEN.a_IDLE''"
definition L_P_NP_TAKEN_a_other :: string where "L_P_NP_TAKEN_a_other = ''FLR.S.P.NP_TAKEN.a_other''"
definition L_P_PERMITTED_a_GRANTED :: string where "L_P_PERMITTED_a_GRANTED = ''FLR.S.P.PERMITTED.a_GRANTED''"
definition L_P_PERMITTED_a_IDLE :: string where "L_P_PERMITTED_a_IDLE = ''FLR.S.P.PERMITTED.a_IDLE''"
definition L_P_PERMITTED_a_TAKEN :: string where "L_P_PERMITTED_a_TAKEN = ''FLR.S.P.PERMITTED.a_TAKEN''"
definition L_P_PERMITTED_a_REVOKE :: string where "L_P_PERMITTED_a_REVOKE = ''FLR.S.P.PERMITTED.a_REVOKE''"
definition L_P_PERMITTED_a_other :: string where "L_P_PERMITTED_a_other = ''FLR.S.P.PERMITTED.a_other''"
definition L_P_PREVOKE_a_IDLE :: string where "L_P_PREVOKE_a_IDLE = ''FLR.S.P.PREVOKE.a_IDLE''"
definition L_P_PREVOKE_a_TAKEN :: string where "L_P_PREVOKE_a_TAKEN = ''FLR.S.P.PREVOKE.a_TAKEN''"
definition L_P_PREVOKE_a_other :: string where "L_P_PREVOKE_a_other = ''FLR.S.P.PREVOKE.a_other''"
definition L_P_RELEASING_a_any :: string where "L_P_RELEASING_a_any = ''FLR.S.P.RELEASING.a_any''"
definition L_P_NPSENDS_a_IDLE :: string where "L_P_NPSENDS_a_IDLE = ''FLR.S.P.NPSENDS.a_IDLE''"
definition L_P_NPSENDS_a_TAKEN :: string where "L_P_NPSENDS_a_TAKEN = ''FLR.S.P.NPSENDS.a_TAKEN''"
definition L_P_NPSENDS_a_other :: string where "L_P_NPSENDS_a_other = ''FLR.S.P.NPSENDS.a_other''"
definition L_P_NP_TAKEN_req_retry_after :: string where "L_P_NP_TAKEN_req_retry_after = ''FLR.S.P.NP_TAKEN.req_retry_after''"
definition L_P_NP_TAKEN_req_renotify :: string where "L_P_NP_TAKEN_req_renotify = ''FLR.S.P.NP_TAKEN.req_renotify''"
definition L_P_NP_TAKEN_req_preempt :: string where "L_P_NP_TAKEN_req_preempt = ''FLR.S.P.NP_TAKEN.req_preempt''"
definition L_P_NP_TAKEN_req_preempt_blocked :: string where "L_P_NP_TAKEN_req_preempt_blocked = ''FLR.S.P.NP_TAKEN.req_preempt_blocked''"
definition L_P_NP_TAKEN_req_full :: string where "L_P_NP_TAKEN_req_full = ''FLR.S.P.NP_TAKEN.req_full''"
definition L_P_NP_TAKEN_req_enqueue :: string where "L_P_NP_TAKEN_req_enqueue = ''FLR.S.P.NP_TAKEN.req_enqueue''"
definition L_P_NP_IDLE_rx_REQUEST :: string where "L_P_NP_IDLE_rx_REQUEST = ''FLR.S.P.NP_IDLE.rx_REQUEST''"
definition L_P_NP_IDLE_rx_RELEASE :: string where "L_P_NP_IDLE_rx_RELEASE = ''FLR.S.P.NP_IDLE.rx_RELEASE''"
definition L_P_NP_IDLE_rx_RTP_after_release :: string where "L_P_NP_IDLE_rx_RTP_after_release = ''FLR.S.P.NP_IDLE.rx_RTP_after_release''"
definition L_P_NP_IDLE_rx_RTP_drop :: string where "L_P_NP_IDLE_rx_RTP_drop = ''FLR.S.P.NP_IDLE.rx_RTP_drop''"
definition L_P_NP_IDLE_rx_other :: string where "L_P_NP_IDLE_rx_other = ''FLR.S.P.NP_IDLE.rx_other''"
definition L_P_NP_TAKEN_rx_REQUEST :: string where "L_P_NP_TAKEN_rx_REQUEST = ''FLR.S.P.NP_TAKEN.rx_REQUEST''"
definition L_P_NP_TAKEN_rx_RELEASE :: string where "L_P_NP_TAKEN_rx_RELEASE = ''FLR.S.P.NP_TAKEN.rx_RELEASE''"
definition L_P_NP_TAKEN_rx_ACK_taken :: string where "L_P_NP_TAKEN_rx_ACK_taken = ''FLR.S.P.NP_TAKEN.rx_ACK_taken''"
definition L_P_NP_TAKEN_rx_ACK_other :: string where "L_P_NP_TAKEN_rx_ACK_other = ''FLR.S.P.NP_TAKEN.rx_ACK_other''"
definition L_P_NP_TAKEN_rx_QPOS_REQ :: string where "L_P_NP_TAKEN_rx_QPOS_REQ = ''FLR.S.P.NP_TAKEN.rx_QPOS_REQ''"
definition L_P_NP_TAKEN_rx_RTP :: string where "L_P_NP_TAKEN_rx_RTP = ''FLR.S.P.NP_TAKEN.rx_RTP''"
definition L_P_NP_TAKEN_rx_other :: string where "L_P_NP_TAKEN_rx_other = ''FLR.S.P.NP_TAKEN.rx_other''"
definition L_P_PERMITTED_rx_RELEASE :: string where "L_P_PERMITTED_rx_RELEASE = ''FLR.S.P.PERMITTED.rx_RELEASE''"
definition L_P_PERMITTED_rx_REQUEST :: string where "L_P_PERMITTED_rx_REQUEST = ''FLR.S.P.PERMITTED.rx_REQUEST''"
definition L_P_PERMITTED_rx_RTP :: string where "L_P_PERMITTED_rx_RTP = ''FLR.S.P.PERMITTED.rx_RTP''"
definition L_P_PERMITTED_rx_other :: string where "L_P_PERMITTED_rx_other = ''FLR.S.P.PERMITTED.rx_other''"
definition L_P_PREVOKE_rx_RELEASE :: string where "L_P_PREVOKE_rx_RELEASE = ''FLR.S.P.PREVOKE.rx_RELEASE''"
definition L_P_PREVOKE_rx_RTP :: string where "L_P_PREVOKE_rx_RTP = ''FLR.S.P.PREVOKE.rx_RTP''"
definition L_P_PREVOKE_rx_other :: string where "L_P_PREVOKE_rx_other = ''FLR.S.P.PREVOKE.rx_other''"
definition L_P_NPSENDS_rx_RELEASE_taken :: string where "L_P_NPSENDS_rx_RELEASE_taken = ''FLR.S.P.NPSENDS.rx_RELEASE_taken''"
definition L_P_NPSENDS_rx_RELEASE_idle :: string where "L_P_NPSENDS_rx_RELEASE_idle = ''FLR.S.P.NPSENDS.rx_RELEASE_idle''"
definition L_P_NPSENDS_rx_RTP :: string where "L_P_NPSENDS_rx_RTP = ''FLR.S.P.NPSENDS.rx_RTP''"
definition L_P_NPSENDS_rx_other :: string where "L_P_NPSENDS_rx_other = ''FLR.S.P.NPSENDS.rx_other''"
definition L_G_TAKEN_T1 :: string where "L_G_TAKEN_T1 = ''FLR.S.G.TAKEN.T1''"
definition L_G_PREVOKE_T1 :: string where "L_G_PREVOKE_T1 = ''FLR.S.G.PREVOKE.T1''"
definition L_G_TAKEN_T2 :: string where "L_G_TAKEN_T2 = ''FLR.S.G.TAKEN.T2''"
definition L_G_PREVOKE_T3 :: string where "L_G_PREVOKE_T3 = ''FLR.S.G.PREVOKE.T3''"
definition L_G_IDLE_T7 :: string where "L_G_IDLE_T7 = ''FLR.S.G.IDLE.T7''"
definition L_G_TAKEN_T20 :: string where "L_G_TAKEN_T20 = ''FLR.S.G.TAKEN.T20''"
definition L_G_TAKEN_T20_exhaust :: string where "L_G_TAKEN_T20_exhaust = ''FLR.S.G.TAKEN.T20_exhaust''"
definition L_P_PREVOKE_T8 :: string where "L_P_PREVOKE_T8 = ''FLR.S.P.PREVOKE.T8''"
definition L_P_NPSENDS_T8 :: string where "L_P_NPSENDS_T8 = ''FLR.S.P.NPSENDS.T8''"
definition L_P_NP_TAKEN_T21 :: string where "L_P_NP_TAKEN_T21 = ''FLR.S.P.NP_TAKEN.T21''"
definition L_P_NP_TAKEN_T21_exhaust :: string where "L_P_NP_TAKEN_T21_exhaust = ''FLR.S.P.NP_TAKEN.T21_exhaust''"
definition L_T9_expire :: string where "L_T9_expire = ''FLR.S.T9.expire''"

section \<open>Reading the ledger\<close>

text \<open>\<open>get_part\<close> is \<open>parts.get(u).cloned().unwrap_or_default()\<close>; \<open>set_part\<close> is a write through
  \<open>self.p(u)\<close>, which creates the entry when there is none.\<close>

definition get_part :: "floor \<Rightarrow> user \<Rightarrow> part" where
  "get_part f u = (case bt_get (parts f) u of None \<Rightarrow> part_default | Some x \<Rightarrow> x)"

definition set_part :: "user \<Rightarrow> (part \<Rightarrow> part) \<Rightarrow> floor \<Rightarrow> floor" where
  "set_part u h f = f\<lparr>parts := bt_insert u (h (get_part f u)) (parts f)\<rparr>"

definition part_of :: "floor \<Rightarrow> user \<Rightarrow> p option" where
  "part_of f u = Option.bind (bt_get (parts f) u) part"

definition holder :: "floor \<Rightarrow> user option" where
  "holder f = (case g f of GTaken \<Rightarrow> speaker f | GPrevoke \<Rightarrow> revoking f | GIdle \<Rightarrow> None)"

definition holder_prio :: "floor \<Rightarrow> nat" where
  "holder_prio f = (if g f = GTaken then sprio f else rprio f)"

definition alone :: "floor \<Rightarrow> bool" where
  "alone f \<longleftrightarrow> length (members f) \<le> 1"

definition in_q :: "floor \<Rightarrow> user \<Rightarrow> bool" where
  "in_q f u \<longleftrightarrow> list_ex (\<lambda>w. w_u w = u) (queue f)"

fun position :: "('a \<Rightarrow> bool) \<Rightarrow> 'a list \<Rightarrow> nat option" where
  "position P [] = None"
| "position P (x # xs) = (if P x then Some 0 else map_option Suc (position P xs))"

definition pos :: "floor \<Rightarrow> user \<Rightarrow> nat" where
  "pos f u = (case position (\<lambda>w. w_u w = u) (queue f) of Some i \<Rightarrow> i + 1 | None \<Rightarrow> QPOS_NOT_IN_QUEUE)"

definition qprio :: "floor \<Rightarrow> user \<Rightarrow> nat" where
  "qprio f u = (case List.find (\<lambda>w. w_u w = u) (queue f) of Some w \<Rightarrow> w_p w | None \<Rightarrow> 0)"

definition dequeue :: "user \<Rightarrow> floor \<Rightarrow> floor" where
  "dequeue u f = f\<lparr>queue := filter (\<lambda>w. w_u w \<noteq> u) (queue f)\<rparr>"

definition pre_q :: "floor \<Rightarrow> bool" where
  "pre_q f \<longleftrightarrow> list_ex w_pre (queue f)"

definition q_before :: "waiter \<Rightarrow> waiter \<Rightarrow> bool" where
  "q_before w x \<longleftrightarrow> (w_pre w \<and> \<not> w_pre x) \<or> (w_pre w = w_pre x \<and> w_p x < w_p w)"

definition insert_q :: "waiter \<Rightarrow> floor \<Rightarrow> floor" where
  "insert_q w f = f\<lparr>queue := (case position (q_before w) (queue f) of
       Some i \<Rightarrow> take i (queue f) @ w # drop i (queue f)
     | None \<Rightarrow> queue f @ [w])\<rparr>"

definition t2_full :: "floor \<Rightarrow> nat" where
  "t2_full f = t2_secs f"

section \<open>Sending and the participant's side\<close>

definition bump_seq :: "floor \<Rightarrow> floor" where
  "bump_seq f = f\<lparr>seq := (seq f + 1) mod SEQ_WRAP\<rparr>"

definition send :: "user \<Rightarrow> mt \<Rightarrow> user option \<Rightarrow> nat \<Rightarrow> nat \<Rightarrow> ctx \<Rightarrow> ctx" where
  "send u t a n d c =
     (let seqd = (t = MTaken \<or> t = MIdle);
          bump = (seqd \<and> d = 0);
          c = (if bump then upd bump_seq c else c);
          q = (if bump then seq (fl c) else if seqd then d else 0)
      in push_out \<lparr>o_to = u, o_m = \<lparr>mt = t, ma = a, mn = n, md = (if seqd then 0 else d), mq = q\<rparr>\<rparr> c)"

definition enter_r :: "user \<Rightarrow> p \<Rightarrow> ctx \<Rightarrow> ctx" where
  "enter_r u to c =
     (case to of
        NpIdle \<Rightarrow> upd (set_part u (\<lambda>x. x\<lparr>g_taken := False, c21 := 0, part := Some to\<rparr>)) (lab L_P_NP_IDLE_enter c)
      | NpTaken \<Rightarrow> upd (set_part u (\<lambda>x. x\<lparr>g_taken := True, c21 := 1, part := Some to\<rparr>)) (lab L_P_NP_TAKEN_enter c)
      | Permitted \<Rightarrow> upd (set_part u (\<lambda>x. x\<lparr>released := False, c21 := 0, part := Some to\<rparr>)) (lab L_P_PERMITTED_enter c)
      | PPrevoke \<Rightarrow> upd (set_part u (\<lambda>x. x\<lparr>c8 := 1, c21 := 0, part := Some to\<rparr>)) (lab L_P_PREVOKE_enter c)
      | _ \<Rightarrow> upd (set_part u (\<lambda>x. x\<lparr>c8 := 1, c21 := 0, part := Some to\<rparr>)) (lab L_P_NPSENDS_enter c))"

definition send_e :: "user \<Rightarrow> p \<Rightarrow> msg \<Rightarrow> ctx \<Rightarrow> ctx" where
  "send_e u to m c = (let c = enter_r u to c in send u (mt m) (ma m) (mn m) (md m) c)"

definition part_a :: "user \<Rightarrow> msg \<Rightarrow> ctx \<Rightarrow> ctx" where
  "part_a u ev c =
     (let s = part_of (fl c) u in
      case (mt ev, s) of
        (MQinfo, _) \<Rightarrow> send u MQinfo None (mn ev) (md ev) (lab L_P_any_a_QINFO c)
      | (MDeny, _) \<Rightarrow> send u MDeny None (mn ev) 0 (lab L_P_any_a_DENY c)
      | (MGranted, Some NpIdle) \<Rightarrow>
          send_e u Permitted (msg_new MGranted None (mn ev) (md ev)) (lab L_P_NP_IDLE_a_GRANTED c)
      | (MTaken, Some NpIdle) \<Rightarrow>
          send_e u NpTaken (msg_new MTaken (ma ev) 0 (mq ev)) (lab L_P_NP_IDLE_a_TAKEN c)
      | (MIdle, Some NpIdle) \<Rightarrow> send u MIdle (ma ev) 0 (mq ev) (lab L_P_NP_IDLE_a_IDLE c)
      | (_, Some NpIdle) \<Rightarrow> lab L_P_NP_IDLE_a_other c
      | (MGranted, Some NpTaken) \<Rightarrow>
          send_e u Permitted (msg_new MGranted None (mn ev) (md ev)) (lab L_P_NP_TAKEN_a_GRANTED c)
      | (MTaken, Some NpTaken) \<Rightarrow>
          send u MTaken (ma ev) 0 (mq ev)
            (upd (set_part u (\<lambda>x. x\<lparr>c21 := 1\<rparr>)) (lab L_P_NP_TAKEN_a_TAKEN c))
      | (MIdle, Some NpTaken) \<Rightarrow>
          send_e u NpIdle (msg_new MIdle (ma ev) 0 (mq ev)) (lab L_P_NP_TAKEN_a_IDLE c)
      | (_, Some NpTaken) \<Rightarrow> lab L_P_NP_TAKEN_a_other c
      | (MGranted, Some Permitted) \<Rightarrow> send u MGranted None (mn ev) (md ev) (lab L_P_PERMITTED_a_GRANTED c)
      | (MIdle, Some Permitted) \<Rightarrow> enter_r u NpIdle (lab L_P_PERMITTED_a_IDLE c)
      | (MTaken, Some Permitted) \<Rightarrow>
          send_e u NpTaken (msg_new MTaken (ma ev) 0 (mq ev)) (lab L_P_PERMITTED_a_TAKEN c)
      | (MRevoke, Some Permitted) \<Rightarrow>
          send_e u PPrevoke (msg_new MRevoke None (mn ev) 0)
            (upd (set_part u (\<lambda>x. x\<lparr>rcause := mn ev\<rparr>)) (lab L_P_PERMITTED_a_REVOKE c))
      | (_, Some Permitted) \<Rightarrow> lab L_P_PERMITTED_a_other c
      | (MIdle, Some PPrevoke) \<Rightarrow>
          send_e u NpIdle (msg_new MIdle (ma ev) 0 (mq ev)) (lab L_P_PREVOKE_a_IDLE c)
      | (MTaken, Some PPrevoke) \<Rightarrow>
          send_e u NpTaken (msg_new MTaken (ma ev) 0 (mq ev)) (lab L_P_PREVOKE_a_TAKEN c)
      | (_, Some PPrevoke) \<Rightarrow> lab L_P_PREVOKE_a_other c
      | (_, Some Releasing) \<Rightarrow> lab L_P_RELEASING_a_any c
      | (MIdle, _) \<Rightarrow> upd (set_part u (\<lambda>x. x\<lparr>g_taken := False\<rparr>)) (lab L_P_NPSENDS_a_IDLE c)
      | (MTaken, _) \<Rightarrow> upd (set_part u (\<lambda>x. x\<lparr>g_taken := True\<rparr>)) (lab L_P_NPSENDS_a_TAKEN c)
      | _ \<Rightarrow> lab L_P_NPSENDS_a_other c)"

definition fan :: "msg \<Rightarrow> user option \<Rightarrow> ctx \<Rightarrow> ctx" where
  "fan ev skip c =
     (let rest = filter (\<lambda>x. Some x \<noteq> skip) (members (fl c));
          seqd = (mt ev = MTaken \<or> mt ev = MIdle);
          c = (if seqd then upd bump_seq c else c);
          ev = (if seqd then ev\<lparr>mq := seq (fl c)\<rparr> else ev)
      in fold (\<lambda>u. part_a u ev) rest c)"

section \<open>The arbiter\<close>

text \<open>\<open>unwrap_or_default\<close> on an absent user name gives the empty string.\<close>

definition or_default :: "user option \<Rightarrow> user" where
  "or_default x = (case x of Some u \<Rightarrow> u | None \<Rightarrow> [])"

definition enter_taken :: "ctx \<Rightarrow> ctx" where
  "enter_taken c =
     (let c = lab L_G_TAKEN_enter c;
          c = upd (\<lambda>f. f\<lparr>idle_bcast := False\<rparr>) c;
          sp = or_default (speaker (fl c));
          m = msg_new MGranted None (sprio (fl c)) (t2_full (fl c));
          c = part_a sp m c;
          c = fan (msg_new MTaken (Some sp) 0 0) (Some sp) c
      in push_fx (Bind sp) c)"

definition idle_enter :: "ctx \<Rightarrow> ctx" where
  "idle_enter c =
     (case queue (fl c) of
        [] \<Rightarrow>
          (let c = lab L_G_IDLE_enter_empty c;
               c = upd (\<lambda>f. f\<lparr>g := GIdle, speaker := None, revoking := None, first_rtp := False,
                      idle_bcast := True, c7 := 1\<rparr>) c;
               pv = prev (fl c);
               c = fan (msg_new MIdle pv 0 0) None c
           in push_fx (Release pv) c)
      | w # ws \<Rightarrow>
          (let c = lab L_G_IDLE_enter_succession c;
               c = upd (\<lambda>f. f\<lparr>queue := ws, g := GTaken, speaker := Some (w_u w), sprio := w_p w,
                      revoking := None, succ := True, rtp_seen := False, first_rtp := False, c20 := 1\<rparr>) c
           in enter_taken c))"

definition prevoke_enter :: "user \<Rightarrow> nat \<Rightarrow> ctx \<Rightarrow> ctx" where
  "prevoke_enter u cause c =
     (let c = lab L_G_PREVOKE_enter c;
          c = upd (\<lambda>f. f\<lparr>g := GPrevoke, revoking := Some u, rprio := sprio f, rcause_g := cause,
                 speaker := None\<rparr>) c
      in part_a u (msg_new MRevoke None cause 0) c)"

definition arb_req_idle :: "user \<Rightarrow> nat \<Rightarrow> ctx \<Rightarrow> ctx" where
  "arb_req_idle u p c =
     (if g (fl c) \<noteq> GIdle then lab L_G_any_req_discard c
      else if alone (fl c) then
        part_a u (msg_new MDeny None DENY_ONLY_ONE 0) (lab L_G_IDLE_req_alone c)
      else if retry (get_part (fl c) u) then
        part_a u (msg_new MDeny None DENY_RETRY_AFTER 0) (lab L_G_IDLE_req_retry_after c)
      else
        (let c = lab L_G_IDLE_req_grant c;
             c = upd (\<lambda>f. f\<lparr>g := GTaken, speaker := Some u, sprio := p, succ := False,
                    rtp_seen := False, first_rtp := False, c20 := 0\<rparr>) c
         in enter_taken c))"

definition arb_req_permitted :: "user \<Rightarrow> nat \<Rightarrow> ctx \<Rightarrow> ctx" where
  "arb_req_permitted u t2_left c =
     (if g (fl c) = GTaken \<and> speaker (fl c) = Some u then
        (let c = lab L_G_TAKEN_req_regrant c;
             d = (if first_rtp (fl c) then t2_left else t2_full (fl c));
             m = msg_new MGranted None (sprio (fl c)) d
         in part_a u m c)
      else lab L_G_any_regrant_discard c)"

definition arb_preempt :: "user \<Rightarrow> nat \<Rightarrow> ctx \<Rightarrow> ctx" where
  "arb_preempt u p c =
     (if g (fl c) = GTaken then
        (let c = lab L_G_TAKEN_preempt c;
             c = upd (\<lambda>f. f\<lparr>queue := \<lparr>w_u = u, w_p = p, w_pre = True\<rparr> # queue f\<rparr>) c;
             sp = or_default (speaker (fl c));
             c = prevoke_enter sp REVOKE_PREEMPTED c
         in part_a u (msg_new MQinfo None 1 p) c)
      else lab L_G_PREVOKE_preempt_discard c)"

definition arb_rel :: "user \<Rightarrow> ctx \<Rightarrow> ctx" where
  "arb_rel u c =
     (if g (fl c) = GTaken \<and> speaker (fl c) = Some u then
        idle_enter (upd (\<lambda>f. f\<lparr>prev := Some u\<rparr>) (lab L_G_TAKEN_rel_speaker c))
      else if g (fl c) = GPrevoke \<and> revoking (fl c) = Some u then
        idle_enter (upd (\<lambda>f. f\<lparr>prev := Some u\<rparr>) (lab L_G_PREVOKE_rel_revoked c))
      else lab L_G_any_rel_discard c)"

definition arb_rtp :: "user \<Rightarrow> ctx \<Rightarrow> ctx" where
  "arb_rtp u c =
     (if g (fl c) = GTaken \<and> speaker (fl c) = Some u then
        upd (\<lambda>f. f\<lparr>rtp_seen := True, first_rtp := True\<rparr>) (lab L_G_TAKEN_rtp c)
      else if g (fl c) = GPrevoke \<and> revoking (fl c) = Some u then lab L_G_PREVOKE_rtp c
      else lab L_G_any_rtp_discard c)"

section \<open>Messages from a participant\<close>

definition revoke3 :: "user \<Rightarrow> ctx \<Rightarrow> ctx" where
  "revoke3 u c =
     (let c = upd (set_part u (\<lambda>x. x\<lparr>rcause := REVOKE_NO_PERMISSION\<rparr>)) c
      in send_e u NpSends (msg_new MRevoke None REVOKE_NO_PERMISSION 0) c)"

definition taken_req :: "user \<Rightarrow> nat \<Rightarrow> ctx \<Rightarrow> ctx" where
  "taken_req u p c =
     (if retry (get_part (fl c) u) then
        send u MDeny None DENY_RETRY_AFTER 0 (lab L_P_NP_TAKEN_req_retry_after c)
      else if in_q (fl c) u then
        send u MQinfo None (pos (fl c) u) (qprio (fl c) u) (lab L_P_NP_TAKEN_req_renotify c)
      else if holder_prio (fl c) < p \<and> \<not> pre_q (fl c) then
        arb_preempt u p (lab L_P_NP_TAKEN_req_preempt c)
      else if holder_prio (fl c) < p then lab L_P_NP_TAKEN_req_preempt_blocked c
      else if qmax (fl c) \<le> length (queue (fl c)) then
        send u MDeny None DENY_QUEUE_FULL 0 (lab L_P_NP_TAKEN_req_full c)
      else
        (let c = lab L_P_NP_TAKEN_req_enqueue c;
             c = upd (insert_q \<lparr>w_u = u, w_p = p, w_pre = False\<rparr>) c
         in send u MQinfo None (pos (fl c) u) p c))"

definition part_c :: "user \<Rightarrow> msg \<Rightarrow> nat \<Rightarrow> ctx \<Rightarrow> ctx" where
  "part_c u ev t2_left c =
     (let s = part_of (fl c) u; pp = get_part (fl c) u in
      case s of
        Some NpIdle \<Rightarrow>
          (case mt ev of
             MRequest \<Rightarrow> arb_req_idle u (mn ev) (lab L_P_NP_IDLE_rx_REQUEST c)
           | MRelease \<Rightarrow>
               (let c = send u MAck None RELEASE_TYPE 0 (lab L_P_NP_IDLE_rx_RELEASE c);
                    c = upd (dequeue u) c
                in send u MIdle (prev (fl c)) 0 0 c)
           | MRtp \<Rightarrow> if released pp then revoke3 u (lab L_P_NP_IDLE_rx_RTP_after_release c)
               else lab L_P_NP_IDLE_rx_RTP_drop c
           | _ \<Rightarrow> lab L_P_NP_IDLE_rx_other c)
      | Some NpTaken \<Rightarrow>
          (case mt ev of
             MRequest \<Rightarrow> taken_req u (mn ev) (lab L_P_NP_TAKEN_rx_REQUEST c)
           | MRelease \<Rightarrow>
               (let c = send u MAck None RELEASE_TYPE 0 (lab L_P_NP_TAKEN_rx_RELEASE c);
                    c = upd (set_part u (\<lambda>x. x\<lparr>c21 := 1\<rparr>)) c;
                    c = upd (dequeue u) c
                in send u MTaken (holder (fl c)) 0 0 c)
           | MAck \<Rightarrow> if mn ev = 2 then upd (set_part u (\<lambda>x. x\<lparr>c21 := 0\<rparr>)) (lab L_P_NP_TAKEN_rx_ACK_taken c)
               else lab L_P_NP_TAKEN_rx_ACK_other c
           | MQposReq \<Rightarrow>
               send u MQinfo None (pos (fl c) u) (qprio (fl c) u) (lab L_P_NP_TAKEN_rx_QPOS_REQ c)
           | MRtp \<Rightarrow> revoke3 u (lab L_P_NP_TAKEN_rx_RTP c)
           | _ \<Rightarrow> lab L_P_NP_TAKEN_rx_other c)
      | Some Permitted \<Rightarrow>
          (case mt ev of
             MRelease \<Rightarrow>
               (let c = upd (set_part u (\<lambda>x. x\<lparr>released := True\<rparr>)) (lab L_P_PERMITTED_rx_RELEASE c);
                    c = send u MAck None RELEASE_TYPE 0 c
                in arb_rel u c)
           | MRequest \<Rightarrow> arb_req_permitted u t2_left (lab L_P_PERMITTED_rx_REQUEST c)
           | MRtp \<Rightarrow> arb_rtp u (lab L_P_PERMITTED_rx_RTP c)
           | _ \<Rightarrow> lab L_P_PERMITTED_rx_other c)
      | Some PPrevoke \<Rightarrow>
          (case mt ev of
             MRelease \<Rightarrow> arb_rel u (send u MAck None RELEASE_TYPE 0 (lab L_P_PREVOKE_rx_RELEASE c))
           | MRtp \<Rightarrow> arb_rtp u (lab L_P_PREVOKE_rx_RTP c)
           | _ \<Rightarrow> lab L_P_PREVOKE_rx_other c)
      | _ \<Rightarrow>
          (case mt ev of
             MRelease \<Rightarrow>
               if g_taken pp then
                 (let c = send u MAck None RELEASE_TYPE 0 (lab L_P_NPSENDS_rx_RELEASE_taken c)
                  in send_e u NpTaken (msg_new MTaken (holder (fl c)) 0 0) c)
               else
                 (let c = send u MAck None RELEASE_TYPE 0 (lab L_P_NPSENDS_rx_RELEASE_idle c)
                  in send_e u NpIdle (msg_new MIdle (prev (fl c)) 0 0) c)
           | MRtp \<Rightarrow> lab L_P_NPSENDS_rx_RTP c
           | _ \<Rightarrow> lab L_P_NPSENDS_rx_other c))"

section \<open>Entry points\<close>

definition server_rx :: "user \<Rightarrow> msg \<Rightarrow> bool \<Rightarrow> nat \<Rightarrow> floor \<Rightarrow> ctx" where
  "server_rx u m half t2_left f =
     (let c = begin_step f; pp = get_part f u in
      if mt m = MAck \<and> part_of f u \<noteq> Some NpTaken then lab L_gate_ack_drop c
      else if u \<notin> set (members f) \<and> mt m = MRequest then
        send u MDeny None DENY_OTHER_REASON 0 (lab L_gate_not_in_room c)
      else if u \<notin> set (members f) then lab L_gate_not_in_room_drop c
      else if mt m = MRequest \<and> \<not> half then
        send u MDeny None DENY_RECV_ONLY 0 (lab L_gate_recv_only c)
      else if mt m = MRequest \<and> \<not> pub_room pp then
        send u MDeny None DENY_NOT_PUBROOM 0 (lab L_gate_not_pubroom c)
      else if mt m = MRequest \<and> \<not> perm pp then
        send u MDeny None DENY_NO_PERMISSION 0 (lab L_gate_no_permission c)
      else part_c u m t2_left c)"

definition ready :: "user \<Rightarrow> floor \<Rightarrow> ctx" where
  "ready u f =
     (let c = begin_step f; h = holder f in
      if h = Some u then lab L_P_join_self c
      else if h \<noteq> None then send u MTaken h 0 0 (lab L_P_join_taken c)
      else send u MIdle (prev f) 0 0 (lab L_P_join_idle c))"

definition perm_down :: "user \<Rightarrow> floor \<Rightarrow> ctx" where
  "perm_down u f =
     (let c = upd (set_part u (\<lambda>x. x\<lparr>perm := False\<rparr>)) (begin_step f) in
      if g (fl c) = GTaken \<and> speaker (fl c) = Some u then
        prevoke_enter u REVOKE_NO_PERMISSION (lab L_perm_speaker c)
      else if in_q (fl c) u then
        part_a u (msg_new MDeny None DENY_NO_PERMISSION 0) (upd (dequeue u) (lab L_perm_queued c))
      else lab L_perm_other c)"

definition perm_up :: "user \<Rightarrow> floor \<Rightarrow> ctx" where
  "perm_up u f = upd (set_part u (\<lambda>x. x\<lparr>perm := True\<rparr>)) (lab L_perm_up (begin_step f))"

definition away :: "user \<Rightarrow> ctx \<Rightarrow> ctx" where
  "away u c =
     (if g (fl c) = GTaken \<and> speaker (fl c) = Some u then
        idle_enter (upd (\<lambda>f. f\<lparr>prev := Some u\<rparr>) (lab L_G_TAKEN_client_release c))
      else if g (fl c) = GPrevoke \<and> revoking (fl c) = Some u then lab L_G_PREVOKE_client_release c
      else if in_q (fl c) u then upd (dequeue u) (lab L_away_queued c)
      else lab L_away_other c)"

definition ws_pub_select :: "user \<Rightarrow> floor \<Rightarrow> ctx" where
  "ws_pub_select u f = upd (set_part u (\<lambda>x. x\<lparr>pub_room := True\<rparr>)) (lab L_ws_pub_select (begin_step f))"

definition ws_pub_away :: "user \<Rightarrow> floor \<Rightarrow> ctx" where
  "ws_pub_away u f =
     away u (upd (set_part u (\<lambda>x. x\<lparr>pub_room := False\<rparr>)) (lab L_ws_pub_away (begin_step f)))"

definition ws_leave :: "user \<Rightarrow> floor \<Rightarrow> ctx" where
  "ws_leave u f =
     (let c = lab L_ws_leave (begin_step f);
          c = upd (set_part u (\<lambda>x. x\<lparr>pub_room := False\<rparr>)) c;
          c = away u c;
          c = upd (\<lambda>f. f\<lparr>members := bs_remove u (members f)\<rparr>) c
      in upd (set_part u (\<lambda>x. x\<lparr>retry := False, part := Some Releasing\<rparr>)) c)"

definition ws_join :: "user \<Rightarrow> bool \<Rightarrow> floor \<Rightarrow> ctx" where
  "ws_join u pm f =
     (let c = begin_step f;
          c = (if g (fl c) = GPrevoke \<and> revoking (fl c) = Some u then
                 idle_enter (upd (\<lambda>f. f\<lparr>prev := revoking f\<rparr>) (lab L_ws_join_revoking c))
               else lab L_ws_join c);
          c = upd (\<lambda>f. f\<lparr>members := bs_insert u (members f)\<rparr>) c;
          taken = (holder (fl c) \<noteq> None)
      in upd (set_part u (\<lambda>x. x\<lparr>part := Some (if taken then NpTaken else NpIdle), g_taken := taken,
            pub_room := False, perm := pm, retry := False, released := False, rcause := 0\<rparr>)) c)"

definition rtp :: "user \<Rightarrow> floor \<Rightarrow> ctx" where
  "rtp u f =
     (if u \<notin> set (members f) then lab L_gate_not_in_room_drop (begin_step f)
      else part_c u (msg_new MRtp None 0 0) 0 (begin_step f))"

section \<open>Timers\<close>

definition t1 :: "floor \<Rightarrow> ctx" where
  "t1 f =
     (let c = begin_step f;
          c = (if g f = GTaken then upd (\<lambda>f. f\<lparr>prev := speaker f\<rparr>) (lab L_G_TAKEN_T1 c)
               else upd (\<lambda>f. f\<lparr>prev := revoking f\<rparr>) (lab L_G_PREVOKE_T1 c))
      in idle_enter c)"

definition t2 :: "floor \<Rightarrow> ctx" where
  "t2 f =
     (let c = lab L_G_TAKEN_T2 (begin_step f);
          u = or_default (speaker f);
          c = upd (set_part u (\<lambda>x. x\<lparr>retry := True\<rparr>)) c
      in prevoke_enter u REVOKE_TOO_LONG c)"

definition t3 :: "floor \<Rightarrow> ctx" where
  "t3 f = idle_enter (upd (\<lambda>f. f\<lparr>prev := revoking f\<rparr>) (lab L_G_PREVOKE_T3 (begin_step f)))"

definition t7 :: "floor \<Rightarrow> ctx" where
  "t7 f =
     (let c = upd (\<lambda>f. f\<lparr>c7 := c7 f + 1\<rparr>) (lab L_G_IDLE_T7 (begin_step f))
      in fan (msg_new MIdle (prev (fl c)) 0 0) None c)"

definition t20 :: "floor \<Rightarrow> ctx" where
  "t20 f =
     (if c20 f < C20 then
        (let c = upd (\<lambda>f. f\<lparr>c20 := c20 f + 1\<rparr>) (lab L_G_TAKEN_T20 (begin_step f));
             sp = or_default (speaker (fl c));
             m = msg_new MGranted None (sprio (fl c)) (t2_full (fl c))
         in part_a sp m c)
      else upd (\<lambda>f. f\<lparr>c20 := c20 f + 1\<rparr>) (lab L_G_TAKEN_T20_exhaust (begin_step f)))"

definition t8 :: "user \<Rightarrow> floor \<Rightarrow> ctx" where
  "t8 u f =
     (let s = part_of f u;
          c = upd (set_part u (\<lambda>x. x\<lparr>c8 := c8 x + 1\<rparr>)) (begin_step f);
          rc = rcause (get_part (fl c) u)
      in if s = Some PPrevoke then send u MRevoke None rc 0 (lab L_P_PREVOKE_T8 c)
         else send u MRevoke None REVOKE_NO_PERMISSION 0 (lab L_P_NPSENDS_T8 c))"

definition t21 :: "user \<Rightarrow> floor \<Rightarrow> ctx" where
  "t21 u f =
     (let k = c21 (get_part f u);
          c = upd (set_part u (\<lambda>x. x\<lparr>c21 := c21 x + 1\<rparr>)) (begin_step f)
      in if k < C21 then send u MTaken (holder (fl c)) 0 0 (lab L_P_NP_TAKEN_T21 c)
         else lab L_P_NP_TAKEN_T21_exhaust c)"

definition t9 :: "user \<Rightarrow> floor \<Rightarrow> ctx" where
  "t9 u f = upd (set_part u (\<lambda>x. x\<lparr>retry := False\<rparr>)) (lab L_T9_expire (begin_step f))"

definition armed_server :: "floor \<Rightarrow> string list" where
  "armed_server f =
     (if g f = GTaken \<or> g f = GPrevoke then [''T1''] else []) @
     (if g f = GTaken \<and> first_rtp f then [''T2''] else []) @
     (if g f = GPrevoke then [''T3''] else []) @
     (if g f = GIdle \<and> idle_bcast f \<and> c7 f < C7 then [''T7''] else []) @
     (if g f = GTaken \<and> succ f \<and> \<not> rtp_seen f \<and> c20 f \<le> C20 then [''T20''] else [])"

definition armed_participant :: "floor \<Rightarrow> user \<Rightarrow> string list" where
  "armed_participant f u =
     (case bt_get (parts f) u of None \<Rightarrow> []
      | Some x \<Rightarrow>
        (if (part x = Some PPrevoke \<or> part x = Some NpSends) \<and> c8 x < C8 then [''T8''] else []) @
        (if retry x then [''T9''] else []) @
        (if part x = Some NpTaken \<and> 1 \<le> c21 x \<and> c21 x \<le> C21 then [''T21''] else []))"

definition part_name :: "floor \<Rightarrow> user \<Rightarrow> string" where
  "part_name f u = (case part_of f u of Some x \<Rightarrow> p_as_str x | None \<Rightarrow> ''-'')"

end
