(* ===== verification/Floor_Frame.thy ===== *)
theory Floor_Frame
  imports Floor_Core
begin

text \<open>
  What each function of the floor arbiter leaves alone. Labels, messages and effects never touch the
  ledger; telling a participant something (\<open>part_a\<close>, \<open>fan\<close>) changes only that participant's entry
  (as \<open>a_part\<close> says) and the broadcast number; everything else is an assignment written in
  \<open>Floor_Core\<close>. The later theories reason over these equations only.
\<close>

named_theorems frame_simps \<open>effects on the ledger and on the step\<close>

section \<open>The context\<close>

lemma fl_simps [simp, frame_simps]:
  "fl (lab l c) = fl c" "fl (push_out o' c) = fl c" "fl (push_fx e c) = fl c" "fl (upd h c) = h (fl c)"
  "fl (begin_step f) = f"
  by (simp_all add: lab_def push_out_def push_fx_def upd_def begin_step_def)

lemma fx_simps [simp]:
  "fx (st (lab l c)) = fx (st c)" "fx (st (push_out o' c)) = fx (st c)"
  "fx (st (push_fx e c)) = fx (st c) @ [e]" "fx (st (upd h c)) = fx (st c)" "fx (st (begin_step f)) = []"
  by (simp_all add: lab_def push_out_def push_fx_def upd_def begin_step_def step_default_def)

lemma out_simps [simp]:
  "out (st (lab l c)) = out (st c)" "out (st (push_out o' c)) = out (st c) @ [o']"
  "out (st (push_fx e c)) = out (st c)" "out (st (upd h c)) = out (st c)" "out (st (begin_step f)) = []"
  by (simp_all add: lab_def push_out_def push_fx_def upd_def begin_step_def step_default_def)

section \<open>Entries of participants\<close>

lemma part_of_get: "part_of f u = part (get_part f u)"
  by (simp add: part_of_def get_part_def part_default_def split: option.split)

lemma get_part_set [simp]: "get_part (set_part u h f) = (get_part f)(u := h (get_part f u))"
  by (auto simp: fun_eq_iff set_part_def get_part_def)

lemma set_part_sel [simp]:
  "g (set_part u h f) = g f" "speaker (set_part u h f) = speaker f" "sprio (set_part u h f) = sprio f"
  "revoking (set_part u h f) = revoking f" "rprio (set_part u h f) = rprio f"
  "rcause_g (set_part u h f) = rcause_g f" "queue (set_part u h f) = queue f"
  "succ (set_part u h f) = succ f" "rtp_seen (set_part u h f) = rtp_seen f"
  "first_rtp (set_part u h f) = first_rtp f" "c20 (set_part u h f) = c20 f" "c7 (set_part u h f) = c7 f"
  "idle_bcast (set_part u h f) = idle_bcast f" "prev (set_part u h f) = prev f"
  "members (set_part u h f) = members f" "seq (set_part u h f) = seq f" "qmax (set_part u h f) = qmax f"
  "t2_secs (set_part u h f) = t2_secs f"
  by (simp_all add: set_part_def)

lemma bump_seq_sel [simp]:
  "g (bump_seq f) = g f" "speaker (bump_seq f) = speaker f" "sprio (bump_seq f) = sprio f"
  "revoking (bump_seq f) = revoking f" "rprio (bump_seq f) = rprio f"
  "rcause_g (bump_seq f) = rcause_g f" "queue (bump_seq f) = queue f"
  "succ (bump_seq f) = succ f" "rtp_seen (bump_seq f) = rtp_seen f"
  "first_rtp (bump_seq f) = first_rtp f" "c20 (bump_seq f) = c20 f" "c7 (bump_seq f) = c7 f"
  "idle_bcast (bump_seq f) = idle_bcast f" "prev (bump_seq f) = prev f"
  "members (bump_seq f) = members f" "parts (bump_seq f) = parts f" "qmax (bump_seq f) = qmax f"
  "t2_secs (bump_seq f) = t2_secs f" "seq (bump_seq f) = (seq f + 1) mod SEQ_WRAP"
  "get_part (bump_seq f) = get_part f"
  by (simp_all add: bump_seq_def get_part_def fun_eq_iff)

text \<open>Assignments to other fields of the ledger do not touch the entries.\<close>

lemma get_part_cong: "parts f = parts f' \<Longrightarrow> get_part f = get_part f'"
  by (simp add: get_part_def fun_eq_iff)

lemma get_part_upd [simp]:
  "get_part (f\<lparr>g := a1\<rparr>) = get_part f" "get_part (f\<lparr>speaker := a2\<rparr>) = get_part f"
  "get_part (f\<lparr>sprio := a3\<rparr>) = get_part f" "get_part (f\<lparr>revoking := a4\<rparr>) = get_part f"
  "get_part (f\<lparr>rprio := a5\<rparr>) = get_part f" "get_part (f\<lparr>rcause_g := a6\<rparr>) = get_part f"
  "get_part (f\<lparr>queue := a7\<rparr>) = get_part f" "get_part (f\<lparr>succ := a8\<rparr>) = get_part f"
  "get_part (f\<lparr>rtp_seen := a9\<rparr>) = get_part f" "get_part (f\<lparr>first_rtp := a10\<rparr>) = get_part f"
  "get_part (f\<lparr>c20 := a11\<rparr>) = get_part f" "get_part (f\<lparr>c7 := a12\<rparr>) = get_part f"
  "get_part (f\<lparr>idle_bcast := a13\<rparr>) = get_part f" "get_part (f\<lparr>prev := a14\<rparr>) = get_part f"
  "get_part (f\<lparr>members := a15\<rparr>) = get_part f"
  by (simp_all add: get_part_def fun_eq_iff)

section \<open>Frames\<close>

text \<open>\<open>f'\<close> differs from \<open>f\<close> in the entries and the broadcast number only.\<close>

definition told :: "floor \<Rightarrow> floor \<Rightarrow> bool" where
  "told f f' \<longleftrightarrow> f' = f\<lparr>parts := parts f', seq := seq f'\<rparr>"

lemma told_refl [simp]: "told f f"
  by (simp add: told_def)

lemma told_trans: "told f f' \<Longrightarrow> told f' f'' \<Longrightarrow> told f f''"
  unfolding told_def by (metis (no_types, lifting) floor.surjective floor.update_convs(16,17))

lemma told_set_part [simp]: "told f f' \<Longrightarrow> told f (set_part u h f')"
  by (erule told_trans) (simp add: told_def set_part_def)

lemma told_bump [simp]: "told f f' \<Longrightarrow> told f (bump_seq f')"
  by (erule told_trans) (simp add: told_def bump_seq_def)

lemma told_sel:
  assumes "told f f'"
  shows "g f' = g f" "speaker f' = speaker f" "sprio f' = sprio f" "revoking f' = revoking f"
    "rprio f' = rprio f" "rcause_g f' = rcause_g f" "queue f' = queue f" "succ f' = succ f"
    "rtp_seen f' = rtp_seen f" "first_rtp f' = first_rtp f" "c20 f' = c20 f" "c7 f' = c7 f"
    "idle_bcast f' = idle_bcast f" "prev f' = prev f" "members f' = members f" "qmax f' = qmax f"
    "t2_secs f' = t2_secs f"
  by (subst assms [unfolded told_def], simp)+

lemma fl_send: "fl (send u t a n d c) = (if (t = MTaken \<or> t = MIdle) \<and> d = 0 then bump_seq (fl c) else fl c)"
  by (simp add: send_def Let_def)

lemma fx_send [simp]: "fx (st (send u t a n d c)) = fx (st c)"
  by (simp add: send_def Let_def)

lemma told_send [simp]: "told (fl c) (fl (send u t a n d c))"
  by (simp add: fl_send)

text \<open>The entry a participant's state enters with.\<close>

definition enter_part :: "p \<Rightarrow> part \<Rightarrow> part" where
  "enter_part to x =
     (case to of NpIdle \<Rightarrow> x\<lparr>g_taken := False, c21 := 0, part := Some to\<rparr>
      | NpTaken \<Rightarrow> x\<lparr>g_taken := True, c21 := 1, part := Some to\<rparr>
      | Permitted \<Rightarrow> x\<lparr>released := False, c21 := 0, part := Some to\<rparr>
      | _ \<Rightarrow> x\<lparr>c8 := 1, c21 := 0, part := Some to\<rparr>)"

lemma fl_enter_r [simp]: "fl (enter_r u to c) = set_part u (enter_part to) (fl c)"
  by (cases to) (simp_all add: enter_r_def enter_part_def set_part_def)

lemma fx_enter_r [simp]: "fx (st (enter_r u to c)) = fx (st c)"
  by (cases to) (simp_all add: enter_r_def)

lemma out_enter_r [simp]: "out (st (enter_r u to c)) = out (st c)"
  by (cases to) (simp_all add: enter_r_def)

lemma fl_send_e: "fl (send_e u to m c) = (if (mt m = MTaken \<or> mt m = MIdle) \<and> md m = 0
    then bump_seq (set_part u (enter_part to) (fl c)) else set_part u (enter_part to) (fl c))"
  by (simp add: send_e_def fl_send)

lemma fx_send_e [simp]: "fx (st (send_e u to m c)) = fx (st c)"
  by (simp add: send_e_def)

text \<open>What a participant's entry becomes when it is told \<open>ev\<close>.\<close>

definition a_part :: "msg \<Rightarrow> part \<Rightarrow> part" where
  "a_part ev x =
     (case (mt ev, part x) of
        (MGranted, Some NpIdle) \<Rightarrow> enter_part Permitted x
      | (MTaken, Some NpIdle) \<Rightarrow> enter_part NpTaken x
      | (MGranted, Some NpTaken) \<Rightarrow> enter_part Permitted x
      | (MTaken, Some NpTaken) \<Rightarrow> x\<lparr>c21 := 1\<rparr>
      | (MIdle, Some NpTaken) \<Rightarrow> enter_part NpIdle x
      | (MIdle, Some Permitted) \<Rightarrow> enter_part NpIdle x
      | (MTaken, Some Permitted) \<Rightarrow> enter_part NpTaken x
      | (MRevoke, Some Permitted) \<Rightarrow> enter_part PPrevoke (x\<lparr>rcause := mn ev\<rparr>)
      | (MIdle, Some PPrevoke) \<Rightarrow> enter_part NpIdle x
      | (MTaken, Some PPrevoke) \<Rightarrow> enter_part NpTaken x
      | (MIdle, None) \<Rightarrow> x\<lparr>g_taken := False\<rparr>
      | (MIdle, Some NpSends) \<Rightarrow> x\<lparr>g_taken := False\<rparr>
      | (MTaken, None) \<Rightarrow> x\<lparr>g_taken := True\<rparr>
      | (MTaken, Some NpSends) \<Rightarrow> x\<lparr>g_taken := True\<rparr>
      | _ \<Rightarrow> x)"

lemma p_option_cases:
  assumes "x = None \<Longrightarrow> P" "x = Some NpIdle \<Longrightarrow> P" "x = Some NpTaken \<Longrightarrow> P"
    "x = Some Permitted \<Longrightarrow> P" "x = Some PPrevoke \<Longrightarrow> P" "x = Some NpSends \<Longrightarrow> P"
    "x = Some Releasing \<Longrightarrow> P"
  shows P
  using assms by (metis option.exhaust p.exhaust)

text \<open>Side conditions every telling keeps: the order of the entries and the range of the number.\<close>

definition tidy :: "floor \<Rightarrow> bool" where
  "tidy f \<longleftrightarrow> bt_ok (parts f) \<and> seq f < 65536"

lemma tidy_set_part [simp]: "tidy f \<Longrightarrow> tidy (set_part u h f)"
  by (simp add: tidy_def set_part_def)

lemma tidy_bump [simp]: "tidy f \<Longrightarrow> tidy (bump_seq f)"
  by (simp add: tidy_def SEQ_WRAP_def)

lemma tidy_upd [simp]:
  "tidy (f\<lparr>g := a1\<rparr>) = tidy f" "tidy (f\<lparr>speaker := a2\<rparr>) = tidy f"
  "tidy (f\<lparr>sprio := a3\<rparr>) = tidy f" "tidy (f\<lparr>revoking := a4\<rparr>) = tidy f"
  "tidy (f\<lparr>rprio := a5\<rparr>) = tidy f" "tidy (f\<lparr>rcause_g := a6\<rparr>) = tidy f"
  "tidy (f\<lparr>queue := a7\<rparr>) = tidy f" "tidy (f\<lparr>succ := a8\<rparr>) = tidy f"
  "tidy (f\<lparr>rtp_seen := a9\<rparr>) = tidy f" "tidy (f\<lparr>first_rtp := a10\<rparr>) = tidy f"
  "tidy (f\<lparr>c20 := a11\<rparr>) = tidy f" "tidy (f\<lparr>c7 := a12\<rparr>) = tidy f"
  "tidy (f\<lparr>idle_bcast := a13\<rparr>) = tidy f" "tidy (f\<lparr>prev := a14\<rparr>) = tidy f"
  "tidy (f\<lparr>members := a15\<rparr>) = tidy f"
  by (simp_all add: tidy_def)

lemma tidy_send [simp]: "tidy (fl c) \<Longrightarrow> tidy (fl (send u t a n d c))"
  by (simp add: fl_send)

lemma part_a_all:
  "told (fl c) (fl (part_a u ev c)) \<and>
   get_part (fl (part_a u ev c)) = (get_part (fl c))(u := a_part ev (get_part (fl c) u)) \<and>
   fx (st (part_a u ev c)) = fx (st c) \<and> (tidy (fl c) \<longrightarrow> tidy (fl (part_a u ev c)))"
  unfolding part_a_def Let_def part_of_get a_part_def
  by (rule p_option_cases [of "part (get_part (fl c) u)"]; cases "mt ev";
      simp add: fl_send_e fl_send msg_new_def)

lemma part_a_cases:
  "told (fl c) (fl (part_a u ev c))"
  "get_part (fl (part_a u ev c)) = (get_part (fl c))(u := a_part ev (get_part (fl c) u))"
  "fx (st (part_a u ev c)) = fx (st c)"
  "tidy (fl c) \<Longrightarrow> tidy (fl (part_a u ev c))"
  using part_a_all by blast+

lemmas part_a_told [simp] = part_a_cases(1)
lemmas get_part_part_a [simp] = part_a_cases(2)
lemmas fx_part_a [simp] = part_a_cases(3)
lemmas part_a_sel [simp] = told_sel [OF part_a_told]

lemmas tidy_part_a [simp] = part_a_cases(4)

lemma fold_part_a:
  "told (fl c) (fl (fold (\<lambda>u. part_a u ev) us c))"
  "fx (st (fold (\<lambda>u. part_a u ev) us c)) = fx (st c)"
  "tidy (fl c) \<Longrightarrow> tidy (fl (fold (\<lambda>u. part_a u ev) us c))"
  by (induction us arbitrary: c) (auto intro: told_trans [OF part_a_told])

lemma fold_part_a_get:
  "distinct us \<Longrightarrow> get_part (fl (fold (\<lambda>u. part_a u ev) us c)) v
     = (if v \<in> set us then a_part ev (get_part (fl c) v) else get_part (fl c) v)"
  by (induction us arbitrary: c) auto

lemma a_part_mq [simp]: "a_part (ev\<lparr>mq := k\<rparr>) = a_part ev"
proof (rule ext)
  fix x show "a_part (ev\<lparr>mq := k\<rparr>) x = a_part ev x"
    unfolding a_part_def by (rule p_option_cases [of "part x"]; cases "mt ev"; simp)
qed

lemma fan_cases:
  "told (fl c) (fl (fan ev skip c))"
  "fx (st (fan ev skip c)) = fx (st c)"
  "tidy (fl c) \<Longrightarrow> tidy (fl (fan ev skip c))"
  "distinct (members (fl c)) \<Longrightarrow> get_part (fl (fan ev skip c)) v
     = (if v \<in> set (members (fl c)) \<and> Some v \<noteq> skip then a_part ev (get_part (fl c) v)
        else get_part (fl c) v)"
  using told_trans [OF told_bump [OF told_refl] fold_part_a(1) [of "upd bump_seq c", simplified]]
  by (auto simp: fan_def Let_def fold_part_a fold_part_a_get)

lemmas fan_told [simp] = fan_cases(1)
lemmas fx_fan [simp] = fan_cases(2)
lemmas tidy_fan [simp] = fan_cases(3)
lemmas get_part_fan = fan_cases(4)
lemmas fan_sel [simp] = told_sel [OF fan_told]

end
