(* ===== verification/Floor_Inv.thy ===== *)
theory Floor_Inv
  imports Floor_Frame
begin

text \<open>
  The arbiter as a machine: one event per entry point of \<open>Floor\<close> and one per timer, a timer firing only
  while it is armed (as \<open>fire_due\<close> in \<open>oxsfud/src/ops/floor.rs\<close> checks under the room lock). The
  invariant \<open>floor_inv\<close> ties the arbiter's state, the queue and every participant's state together; it
  holds after any sequence of events, and the properties below are read off it.
\<close>

section \<open>Events\<close>

datatype event =
    ServerRx user msg bool nat
  | Ready user
  | PermDown user
  | PermUp user
  | PubSelect user
  | PubAway user
  | Leave user
  | Join user bool
  | RtpIn user
  | Timer string "user option"

definition fire :: "string \<Rightarrow> user \<Rightarrow> floor \<Rightarrow> ctx" where
  "fire name u f =
     (if name = ''T1'' then t1 f
      else if name = ''T2'' then t2 f
      else if name = ''T3'' then t3 f
      else if name = ''T7'' then t7 f
      else if name = ''T20'' then t20 f
      else if name = ''T8'' then t8 u f
      else if name = ''T21'' then t21 u f
      else if name = ''T9'' then t9 u f
      else begin_step f)"

definition fire_armed :: "string \<Rightarrow> user option \<Rightarrow> floor \<Rightarrow> ctx option" where
  "fire_armed name user f =
     (let u = or_default user;
          armed = (if user \<noteq> None then armed_participant f u else armed_server f)
      in if name \<notin> set armed then None else Some (fire name u f))"

definition floor_ctx :: "floor \<Rightarrow> event \<Rightarrow> ctx" where
  "floor_ctx f e =
     (case e of
        ServerRx u m half t2_left \<Rightarrow> server_rx u m half t2_left f
      | Ready u \<Rightarrow> ready u f
      | PermDown u \<Rightarrow> perm_down u f
      | PermUp u \<Rightarrow> perm_up u f
      | PubSelect u \<Rightarrow> ws_pub_select u f
      | PubAway u \<Rightarrow> ws_pub_away u f
      | Leave u \<Rightarrow> ws_leave u f
      | Join u pm \<Rightarrow> ws_join u pm f
      | RtpIn u \<Rightarrow> rtp u f
      | Timer name user \<Rightarrow> (case fire_armed name user f of Some c \<Rightarrow> c | None \<Rightarrow> begin_step f))"

definition floor_step :: "floor \<Rightarrow> event \<Rightarrow> floor" where
  "floor_step f e = fl (floor_ctx f e)"

section \<open>The invariant\<close>

text \<open>The participant's state, as the room's state allows it.\<close>

definition agrees :: "g \<Rightarrow> user option \<Rightarrow> user option \<Rightarrow> user \<Rightarrow> part \<Rightarrow> bool" where
  "agrees gg sp rv u x =
     (case part x of
        Some NpIdle \<Rightarrow> gg = GIdle \<and> \<not> g_taken x
      | Some NpTaken \<Rightarrow> gg \<noteq> GIdle \<and> g_taken x
      | Some Permitted \<Rightarrow> gg = GTaken \<and> sp = Some u
      | Some PPrevoke \<Rightarrow> (gg = GPrevoke \<and> rv = Some u) \<or> (gg = GTaken \<and> sp = Some u)
      | Some NpSends \<Rightarrow> g_taken x = (gg \<noteq> GIdle)
      | _ \<Rightarrow> False)"

definition outside :: "part \<Rightarrow> bool" where
  "outside x \<longleftrightarrow> part x = None \<or> part x = Some Releasing"

definition counts :: "part \<Rightarrow> bool" where
  "counts x \<longleftrightarrow> c8 x \<le> 3 \<and> c21 x \<le> 4"

definition arb_ok :: "floor \<Rightarrow> bool" where
  "arb_ok f \<longleftrightarrow> (g f = GTaken) = (speaker f \<noteq> None) \<and> (g f = GPrevoke) = (revoking f \<noteq> None)"

definition queue_ok :: "waiter list \<Rightarrow> nat \<Rightarrow> bool" where
  "queue_ok q m \<longleftrightarrow> distinct (map w_u q) \<and> sorted_wrt (\<lambda>x y. \<not> q_before y x) q
     \<and> length (filter (\<lambda>w. \<not> w_pre w) q) \<le> m \<and> length (filter w_pre q) \<le> 1"

definition parts_ok :: "floor \<Rightarrow> bool" where
  "parts_ok f \<longleftrightarrow> (\<forall>u. counts (get_part f u) \<and>
     (if u \<in> set (members f)
      then agrees (g f) (speaker f) (revoking f) u (get_part f u)
      else outside (get_part f u)))"

definition floor_inv :: "floor \<Rightarrow> bool" where
  "floor_inv f \<longleftrightarrow> arb_ok f \<and> queue_ok (queue f) (qmax f) \<and> (g f = GIdle \<longrightarrow> queue f = [])
     \<and> parts_ok f \<and> tidy f \<and> sorted_wrt (<) (members f) \<and> c7 f \<le> 10 \<and> c20 f \<le> 4"

lemma in_q_iff: "in_q f u \<longleftrightarrow> u \<in> w_u ` set (queue f)"
  by (auto simp: in_q_def list_ex_iff)

lemma floor_inv_distinct: "floor_inv f \<Longrightarrow> distinct (members f)"
  by (simp add: floor_inv_def strict_sorted_iff)

lemma floor_inv_parts:
  assumes "floor_inv f"
  shows floor_inv_agrees: "u \<in> set (members f) \<Longrightarrow>
      agrees (g f) (speaker f) (revoking f) u (get_part f u)"
    and floor_inv_outside: "u \<notin> set (members f) \<Longrightarrow> outside (get_part f u)"
    and floor_inv_counts: "counts (get_part f u)"
  using assms by (auto simp: floor_inv_def parts_ok_def split: if_splits)

lemma floor_invI:
  assumes "arb_ok f" "queue_ok (queue f) (qmax f)" "g f = GIdle \<Longrightarrow> queue f = []" "tidy f"
    "sorted_wrt (<) (members f)" "c7 f \<le> 10" "c20 f \<le> 4" "\<And>u. counts (get_part f u)"
    "\<And>u. u \<in> set (members f) \<Longrightarrow> agrees (g f) (speaker f) (revoking f) u (get_part f u)"
    "\<And>u. u \<notin> set (members f) \<Longrightarrow> outside (get_part f u)"
  shows "floor_inv f"
  using assms by (simp add: floor_inv_def parts_ok_def)

lemma floor_inv_ledger:
  assumes "floor_inv f"
  shows "arb_ok f" "queue_ok (queue f) (qmax f)" "g f = GIdle \<Longrightarrow> queue f = []" "tidy f"
    "sorted_wrt (<) (members f)" "c7 f \<le> 10" "c20 f \<le> 4"
  using assms by (simp_all add: floor_inv_def)

section \<open>What each telling does to a participant's agreement\<close>

lemmas a_part_all = a_part_def enter_part_def

lemma counts_enter [simp]: "counts x \<Longrightarrow> counts (enter_part to x)"
  by (cases to) (simp_all add: counts_def enter_part_def)

lemma counts_a_part [simp]: "counts x \<Longrightarrow> counts (a_part ev x)"
  unfolding a_part_def
  by (rule p_option_cases [of "part x"]; cases "mt ev"; simp add: counts_def enter_part_def)

lemma agrees_told_taken:
  "agrees gg' sp' rv' u x \<Longrightarrow> mt ev = MTaken \<Longrightarrow> gg \<noteq> GIdle \<Longrightarrow> agrees gg sp rv u (a_part ev x)"
  by (rule p_option_cases [of "part x"]) (simp_all add: agrees_def a_part_all)

lemma agrees_told_idle:
  "agrees gg' sp' rv' u x \<Longrightarrow> mt ev = MIdle \<Longrightarrow> agrees GIdle sp rv u (a_part ev x)"
  by (rule p_option_cases [of "part x"]) (simp_all add: agrees_def a_part_all)

lemma agrees_flag:
  "part y = part x \<Longrightarrow> g_taken y = g_taken x \<Longrightarrow> agrees gg sp rv u y = agrees gg sp rv u x"
  unfolding agrees_def by (simp split: option.split p.split)

lemma agrees_told_granted:
  "agrees gg sp rv u x \<Longrightarrow> gg \<noteq> GIdle \<or> part x = Some NpIdle \<Longrightarrow> mt ev = MGranted
     \<Longrightarrow> agrees GTaken (Some u) rv' u (a_part ev x)"
  by (rule p_option_cases [of "part x"]) (auto simp: agrees_def a_part_all)

lemma outside_told_granted: "outside x \<Longrightarrow> mt ev = MGranted \<Longrightarrow> a_part ev x = x"
  by (auto simp: outside_def a_part_def)

lemma agrees_told_revoke:
  "agrees GTaken (Some u) rv u x \<Longrightarrow> mt ev = MRevoke
     \<Longrightarrow> agrees GPrevoke None (Some u) u (a_part ev x)"
  by (rule p_option_cases [of "part x"]) (auto simp: agrees_def a_part_all)

lemma agrees_other_prevoke:
  "agrees GTaken (Some v) rv u x \<Longrightarrow> u \<noteq> v \<Longrightarrow> agrees GPrevoke None (Some v) u x"
  by (rule p_option_cases [of "part x"]) (auto simp: agrees_def)

lemma outside_told_revoke: "outside x \<Longrightarrow> mt ev = MRevoke \<Longrightarrow> outside (a_part ev x)"
  by (auto simp: outside_def a_part_def)

section \<open>Steps that keep the invariant\<close>

lemma floor_inv_bump [simp]: "floor_inv f \<Longrightarrow> floor_inv (bump_seq f)"
  by (simp add: floor_inv_def arb_ok_def parts_ok_def)

lemma floor_inv_send [simp]: "floor_inv (fl c) \<Longrightarrow> floor_inv (fl (send u t a n d c))"
  by (simp add: fl_send)

text \<open>Rewriting one entry in place.\<close>

lemma floor_inv_set_part:
  assumes "floor_inv f" and "counts (get_part f u) \<Longrightarrow> counts (h (get_part f u))"
    and "u \<in> set (members f) \<Longrightarrow>
      agrees (g f) (speaker f) (revoking f) u (get_part f u) \<Longrightarrow>
      agrees (g f) (speaker f) (revoking f) u (h (get_part f u))"
    and "outside (get_part f u) \<Longrightarrow> outside (h (get_part f u))"
  shows "floor_inv (set_part u h f)"
  using assms by (auto simp: floor_inv_def arb_ok_def parts_ok_def)

lemma floor_inv_flag:
  assumes "floor_inv f" and "\<And>x. part (h x) = part x" and "\<And>x. g_taken (h x) = g_taken x"
    and "counts (get_part f u) \<Longrightarrow> counts (h (get_part f u))"
  shows "floor_inv (set_part u h f)"
proof (rule floor_inv_set_part)
  let ?x = "get_part f u"
  show "floor_inv f" by (fact assms(1))
  show "counts (h ?x)" if "counts ?x" using that by (fact assms(4))
  show "agrees (g f) (speaker f) (revoking f) u (h ?x)"
    if "agrees (g f) (speaker f) (revoking f) u ?x"
    using that agrees_flag [of "h ?x" ?x] assms(2,3) by blast
  show "outside (h ?x)" if "outside ?x"
    using that assms(2) by (simp add: outside_def)
qed

lemma queue_ok_filter:
  assumes "queue_ok q m"
  shows "queue_ok (filter P q) m"
proof -
  have le: "length (filter Q (filter P q)) \<le> length (filter Q q)" for Q
    by (induction q) auto
  show ?thesis
    using assms order_trans [OF le] unfolding queue_ok_def
    by (auto simp: distinct_map_filter sorted_wrt_filter simp del: filter_filter)
qed

text \<open>Any change to the queue that keeps it in order.\<close>

lemma floor_inv_queue:
  assumes "floor_inv f" and "queue_ok q (qmax f)" and "g f = GIdle \<Longrightarrow> q = []"
  shows "floor_inv (f\<lparr>queue := q\<rparr>)"
  using assms by (simp add: floor_inv_def parts_ok_def arb_ok_def)

lemma floor_inv_dequeue: "floor_inv f \<Longrightarrow> floor_inv (dequeue u f)"
  unfolding dequeue_def
  by (rule floor_inv_queue) (auto simp: queue_ok_filter floor_inv_def)

lemma get_part_enter_taken:
  assumes "distinct (members (fl c))"
  shows "get_part (fl (enter_taken c)) v =
    (let sp = or_default (speaker (fl c)) in
     if v = sp then a_part (msg_new MGranted None (sprio (fl c)) (t2_full (fl c))) (get_part (fl c) v)
     else if v \<in> set (members (fl c)) then a_part (msg_new MTaken (Some sp) 0 0) (get_part (fl c) v)
     else get_part (fl c) v)"
  using assms by (simp add: enter_taken_def Let_def get_part_fan t2_full_def)

lemma enter_taken_sel [simp]:
  "told ((fl c)\<lparr>idle_bcast := False\<rparr>) (fl (enter_taken c))"
  "tidy (fl c) \<Longrightarrow> tidy (fl (enter_taken c))"
  "fx (st (enter_taken c)) = fx (st c) @ [Bind (or_default (speaker (fl c)))]"
proof -
  show "told ((fl c)\<lparr>idle_bcast := False\<rparr>) (fl (enter_taken c))"
    by (auto simp: enter_taken_def Let_def intro!: told_trans [OF _ fan_told] told_trans [OF _ part_a_told])
qed (simp_all add: enter_taken_def Let_def)

lemmas enter_taken_fields [simp] = told_sel [OF enter_taken_sel(1), simplified]

lemma or_default_Some [simp]: "or_default (Some u) = u"
  by (simp add: or_default_def)

text \<open>Granting the floor to the user just written into \<open>speaker\<close>.\<close>

lemma floor_inv_enter_taken:
  assumes f: "fl c = f\<lparr>queue := q, g := GTaken, speaker := Some u, sprio := pr, revoking := None,
      succ := sc, rtp_seen := False, first_rtp := False, c20 := k\<rparr>"
    and inv: "floor_inv f" and k: "k \<le> 4" and q: "queue_ok q (qmax f)"
    and u: "u \<in> set (members f) \<Longrightarrow> g f \<noteq> GIdle \<or> part (get_part f u) = Some NpIdle"
  shows "floor_inv (fl (enter_taken c))"
proof -
  let ?f' = "fl (enter_taken c)"
  have dist: "distinct (members (fl c))" using inv f by (simp add: floor_inv_distinct)
  have ag: "agrees (g f) (speaker f) (revoking f) v (get_part f v)"
    if "v \<in> set (members f)" for v using inv that by (rule floor_inv_agrees)
  have cn: "counts (get_part f v)" and nm: "v \<notin> set (members f) \<Longrightarrow> outside (get_part f v)" for v
    using floor_inv_parts [OF inv] by blast+
  have "counts (get_part ?f' v)" for v
    using cn by (simp add: get_part_enter_taken [OF dist] f Let_def)
  moreover have "agrees GTaken (Some u) None v (get_part ?f' v)"
    if v: "v \<in> set (members f)" for v
    using agrees_told_granted [OF ag u] agrees_told_taken [OF ag [OF v]] v
    by (cases "v = u") (simp_all add: get_part_enter_taken [OF dist] f Let_def msg_new_def)
  moreover have "outside (get_part ?f' v)" if "v \<notin> set (members f)" for v
    using nm [OF that] that outside_told_granted [OF nm [OF that]]
    by (cases "v = u") (simp_all add: get_part_enter_taken [OF dist] f Let_def msg_new_def)
  moreover have "tidy (fl c)" using inv by (simp add: f floor_inv_def)
  ultimately show ?thesis
    using inv k q by (simp add: floor_inv_def parts_ok_def arb_ok_def f)
qed

lemma queue_ok_tl:
  assumes "queue_ok (w # ws) m"
  shows "queue_ok ws m"
  using assms by (auto simp: queue_ok_def split: if_splits)

lemma floor_inv_idle_enter:
  assumes inv: "floor_inv (fl c)"
  shows "floor_inv (fl (idle_enter c))"
proof (cases "queue (fl c)")
  case Nil
  let ?f' = "fl (idle_enter c)"
  have dist: "distinct (members (fl c))" using inv by (rule floor_inv_distinct)
  have get: "get_part ?f' v = (if v \<in> set (members (fl c))
      then a_part (msg_new MIdle (prev (fl c)) 0 0) (get_part (fl c) v) else get_part (fl c) v)" for v
    using Nil dist by (simp add: idle_enter_def Let_def get_part_fan)
  have "agrees GIdle None None v (get_part ?f' v)" if v: "v \<in> set (members (fl c))" for v
    using v agrees_told_idle [OF floor_inv_agrees [OF inv v]] by (simp add: get msg_new_def)
  moreover have "counts (get_part ?f' v)" "v \<notin> set (members (fl c)) \<Longrightarrow> outside (get_part ?f' v)" for v
    using inv by (auto simp: get floor_inv_def parts_ok_def)
  moreover have "tidy ?f'" using inv Nil by (simp add: idle_enter_def Let_def floor_inv_def)
  ultimately show ?thesis
    using inv Nil unfolding floor_inv_def parts_ok_def arb_ok_def
    by (simp add: idle_enter_def Let_def queue_ok_def)
next
  case (Cons w ws)
  have q: "queue_ok (w # ws) (qmax (fl c))" and g: "g (fl c) \<noteq> GIdle"
    using inv Cons by (auto simp: floor_inv_def)
  show ?thesis
    unfolding idle_enter_def Let_def Cons list.case
    by (rule floor_inv_enter_taken [where f = "fl c" and u = "w_u w" and k = 1, OF _ inv _ queue_ok_tl [OF q]])
      (use g Cons in simp_all)
qed

lemma floor_inv_prevoke_enter:
  assumes inv: "floor_inv (fl c)" and g: "g (fl c) = GTaken" and sp: "speaker (fl c) = Some u"
  shows "floor_inv (fl (prevoke_enter u cause c))"
proof -
  let ?f' = "fl (prevoke_enter u cause c)" and ?ev = "msg_new MRevoke None cause 0"
  have get: "get_part ?f' v = (if v = u then a_part ?ev (get_part (fl c) v) else get_part (fl c) v)" for v
    by (simp add: prevoke_enter_def Let_def)
  have "agrees GPrevoke None (Some u) v (get_part ?f' v)"
    if v: "v \<in> set (members (fl c))" for v
  proof -
    have "agrees GTaken (Some u) (revoking (fl c)) v (get_part (fl c) v)"
      using floor_inv_agrees [OF inv v] g sp by simp
    then show ?thesis
      by (cases "v = u") (auto simp: get msg_new_def intro: agrees_told_revoke agrees_other_prevoke)
  qed
  moreover have "counts (get_part ?f' v)" for v
    using inv by (auto simp: get floor_inv_def parts_ok_def)
  moreover have "outside (get_part ?f' v)" if "v \<notin> set (members (fl c))" for v
    using floor_inv_outside [OF inv that] by (auto simp: get msg_new_def intro: outside_told_revoke)
  moreover have "tidy ?f'" using inv by (simp add: prevoke_enter_def Let_def floor_inv_def)
  ultimately show ?thesis
    using inv g unfolding floor_inv_def parts_ok_def arb_ok_def
    by (simp add: prevoke_enter_def Let_def)
qed

section \<open>Every entry point keeps the invariant\<close>

text \<open>Fields the invariant does not speak of.\<close>

lemma floor_inv_misc [simp]:
  "floor_inv (f\<lparr>prev := a1\<rparr>) = floor_inv f" "floor_inv (f\<lparr>rtp_seen := a2\<rparr>) = floor_inv f"
  "floor_inv (f\<lparr>first_rtp := a3\<rparr>) = floor_inv f" "floor_inv (f\<lparr>idle_bcast := a4\<rparr>) = floor_inv f"
  by (simp_all add: floor_inv_def arb_ok_def parts_ok_def)

lemma floor_inv_counters:
  "floor_inv f \<Longrightarrow> k \<le> 10 \<Longrightarrow> floor_inv (f\<lparr>c7 := k\<rparr>)"
  "floor_inv f \<Longrightarrow> k \<le> 4 \<Longrightarrow> floor_inv (f\<lparr>c20 := k\<rparr>)"
  by (simp_all add: floor_inv_def arb_ok_def parts_ok_def)

text \<open>Telling one participant something that does not depend on the floor's state.\<close>

lemma floor_inv_told_same:
  assumes "floor_inv (fl c)" and "a_part ev (get_part (fl c) u) = get_part (fl c) u"
  shows "floor_inv (fl (part_a u ev c))"
proof -
  have "get_part (fl (part_a u ev c)) = get_part (fl c)" using assms(2) by simp
  then show ?thesis using assms(1) unfolding floor_inv_def arb_ok_def parts_ok_def by simp
qed

lemma a_part_deny [simp]:
  "a_part (msg_new MDeny a n d) x = x" "a_part (msg_new MQinfo a n d) x = x"
  by (simp_all add: a_part_def msg_new_def)

text \<open>Repeating \<open>GRANTED\<close> to the speaker.\<close>

lemma floor_inv_repeat_granted:
  assumes inv: "floor_inv (fl c)" and g: "g (fl c) = GTaken" "speaker (fl c) = Some u"
    and ev: "mt ev = MGranted"
  shows "floor_inv (fl (part_a u ev c))"
proof -
  have "agrees (g (fl c)) (speaker (fl c)) (revoking (fl c)) u (a_part ev (get_part (fl c) u))"
    if "u \<in> set (members (fl c))"
    using floor_inv_agrees [OF inv that] g agrees_told_granted [OF _ _ ev] by simp
  moreover have "outside (a_part ev (get_part (fl c) u))" if "u \<notin> set (members (fl c))"
    using floor_inv_outside [OF inv that] outside_told_granted ev by simp
  moreover have "tidy (fl (part_a u ev c))" using inv by (simp add: floor_inv_def)
  ultimately show ?thesis
    using inv unfolding floor_inv_def arb_ok_def parts_ok_def by simp
qed

lemma floor_inv_arb_req_idle:
  assumes inv: "floor_inv (fl c)" and u: "part (get_part (fl c) u) = Some NpIdle"
  shows "floor_inv (fl (arb_req_idle u p c))"
proof (cases "g (fl c) = GIdle \<and> \<not> alone (fl c) \<and> \<not> retry (get_part (fl c) u)")
  case True
  let ?f = "fl c"
  have "floor_inv (fl (enter_taken (upd (\<lambda>f. f\<lparr>g := GTaken, speaker := Some u, sprio := p, succ := False,
      rtp_seen := False, first_rtp := False, c20 := 0\<rparr>) (lab L_G_IDLE_req_grant c))))"
  proof (rule floor_inv_enter_taken [where f = ?f and q = "queue ?f" and k = 0, OF _ inv])
    have "revoking ?f = None" using inv True by (auto simp: floor_inv_def arb_ok_def)
    then show "fl (upd (\<lambda>f. f\<lparr>g := GTaken, speaker := Some u, sprio := p, succ := False,
        rtp_seen := False, first_rtp := False, c20 := 0\<rparr>) (lab L_G_IDLE_req_grant c))
      = ?f\<lparr>queue := queue ?f, g := GTaken, speaker := Some u, sprio := p, revoking := None,
        succ := False, rtp_seen := False, first_rtp := False, c20 := 0\<rparr>" by simp
  qed (use inv u in \<open>simp_all add: floor_inv_def\<close>)
  then show ?thesis using True by (simp add: arb_req_idle_def)
qed (auto simp: arb_req_idle_def inv intro!: floor_inv_told_same)

lemma floor_inv_arb_req_permitted:
  "floor_inv (fl c) \<Longrightarrow> floor_inv (fl (arb_req_permitted u k c))"
  by (auto simp: arb_req_permitted_def Let_def msg_new_def intro!: floor_inv_repeat_granted)

lemma queue_ok_pre:
  assumes "queue_ok q m" and "u \<notin> w_u ` set q" and "\<not> list_ex w_pre q"
  shows "queue_ok (\<lparr>w_u = u, w_p = p, w_pre = True\<rparr> # q) m"
  using assms by (auto simp: queue_ok_def q_before_def list_ex_iff filter_empty_conv)

lemma floor_inv_arb_preempt:
  assumes inv: "floor_inv (fl c)" and "\<not> in_q (fl c) u" and "\<not> pre_q (fl c)"
  shows "floor_inv (fl (arb_preempt u p c))"
proof (cases "g (fl c) = GTaken")
  case True
  let ?w = "\<lparr>w_u = u, w_p = p, w_pre = True\<rparr>"
  have "queue_ok (?w # queue (fl c)) (qmax (fl c))"
    using assms by (intro queue_ok_pre) (auto simp: floor_inv_def in_q_iff pre_q_def)
  with inv True have "floor_inv ((fl c)\<lparr>queue := ?w # queue (fl c)\<rparr>)"
    by (intro floor_inv_queue) auto
  moreover obtain sp where "speaker (fl c) = Some sp"
    using inv True by (auto simp: floor_inv_def arb_ok_def)
  ultimately show ?thesis
    using True unfolding arb_preempt_def
    by (auto simp: Let_def intro!: floor_inv_told_same floor_inv_prevoke_enter)
qed (simp add: arb_preempt_def inv)

lemma floor_inv_arb_rel: "floor_inv (fl c) \<Longrightarrow> floor_inv (fl (arb_rel u c))"
  by (auto simp: arb_rel_def intro!: floor_inv_idle_enter)

lemma floor_inv_arb_rtp: "floor_inv (fl c) \<Longrightarrow> floor_inv (fl (arb_rtp u c))"
  by (simp add: arb_rtp_def)

section \<open>The queue's order\<close>

lemma position_spec:
  "position P xs = Some i \<Longrightarrow> i < length xs \<and> P (xs ! i) \<and> (\<forall>x \<in> set (take i xs). \<not> P x)"
proof (induction xs arbitrary: i)
  case (Cons x xs)
  then show ?case by (cases i) (auto split: if_splits)
qed simp

lemma position_None: "position P xs = None \<longleftrightarrow> (\<forall>x \<in> set xs. \<not> P x)"
  by (induction xs) auto

lemma q_before_trans_le: "q_before w x \<Longrightarrow> \<not> q_before y x \<Longrightarrow> \<not> q_before y w \<and> q_before w y"
  by (auto simp: q_before_def)

lemma q_before_asym: "q_before w x \<Longrightarrow> \<not> q_before x w"
  by (auto simp: q_before_def)

lemma queue_ok_insert:
  assumes ok: "queue_ok (queue f) m" and new: "u \<notin> w_u ` set (queue f)" and room: "length (queue f) < m"
  shows "queue_ok (queue (insert_q \<lparr>w_u = u, w_p = p, w_pre = False\<rparr> f)) m"
proof -
  let ?w = "\<lparr>w_u = u, w_p = p, w_pre = False\<rparr>" and ?q = "queue f"
  obtain xs ys where q: "?q = xs @ ys" and q': "queue (insert_q ?w f) = xs @ ?w # ys"
    and xs: "\<forall>x \<in> set xs. \<not> q_before ?w x" and ys: "\<forall>y \<in> set ys. q_before ?w y"
  proof (cases "position (q_before ?w) ?q")
    case None
    then have "\<forall>x \<in> set ?q. \<not> q_before ?w x" by (simp only: position_None)
    then show thesis using that [of ?q "[]"] None by (simp add: insert_q_def)
  next
    case (Some i)
    note sp = position_spec [OF Some]
    have "drop i ?q = ?q ! i # drop (Suc i) ?q" using sp Cons_nth_drop_Suc by metis
    moreover have srt: "sorted_wrt (\<lambda>x y. \<not> q_before y x) (drop i ?q)"
      using ok by (simp add: queue_ok_def sorted_wrt_drop)
    ultimately have "\<forall>y \<in> set (drop i ?q). q_before ?w y"
      using sp by (auto simp: dest: q_before_trans_le)
    then show thesis using that [of "take i ?q" "drop i ?q"] sp Some by (simp add: insert_q_def)
  qed
  have len: "length (filter w_pre xs) + length (filter w_pre ys) \<le> 1"
    "length (filter (\<lambda>w. \<not> w_pre w) xs) + length (filter (\<lambda>w. \<not> w_pre w) ys) < m"
  proof -
    show "length (filter w_pre xs) + length (filter w_pre ys) \<le> 1" using ok q by (simp add: queue_ok_def)
    have "length (filter P xs) + length (filter P ys) \<le> length xs + length ys" for P :: "waiter \<Rightarrow> bool"
      by (simp add: add_mono)
    then show "length (filter (\<lambda>w. \<not> w_pre w) xs) + length (filter (\<lambda>w. \<not> w_pre w) ys) < m"
      using room q by (metis le_less_trans length_append)
  qed
  have "sorted_wrt (\<lambda>x y. \<not> q_before y x) (xs @ ?w # ys)"
    using ok xs ys by (auto simp: q queue_ok_def sorted_wrt_append q_before_asym)
  moreover have "distinct (map w_u (xs @ ?w # ys))" using ok new by (auto simp: q queue_ok_def)
  ultimately show ?thesis using len by (simp add: q' queue_ok_def)
qed

lemma insert_q_queue: "insert_q w f = f\<lparr>queue := queue (insert_q w f)\<rparr>"
  by (simp add: insert_q_def)

lemma floor_inv_taken_req:
  assumes inv: "floor_inv (fl c)" and g: "g (fl c) \<noteq> GIdle"
  shows "floor_inv (fl (taken_req u p c))"
proof -
  have "floor_inv (insert_q \<lparr>w_u = u, w_p = p, w_pre = False\<rparr> (fl c))"
    if "\<not> in_q (fl c) u" "length (queue (fl c)) < qmax (fl c)"
    using inv that g by (subst insert_q_queue, intro floor_inv_queue queue_ok_insert)
      (auto simp: floor_inv_def in_q_iff)
  then show ?thesis
    using inv by (auto simp: taken_req_def Let_def intro!: floor_inv_arb_preempt)
qed

section \<open>The machine keeps the invariant\<close>

lemma floor_inv_idle_bcast:
  assumes inv: "floor_inv (fl c)" and g: "g (fl c) = GIdle" and ev: "mt ev = MIdle"
  shows "floor_inv (fl (fan ev None c))"
  using floor_inv_ledger [OF inv] floor_inv_parts [OF inv] g
  by (intro floor_invI)
    (auto simp: arb_ok_def get_part_fan [OF floor_inv_distinct [OF inv]] intro: agrees_told_idle [OF _ ev])

lemma floor_inv_revoke3:
  assumes inv: "floor_inv (fl c)" and u: "u \<in> set (members (fl c))"
    and st: "part (get_part (fl c) u) = Some NpIdle \<or> part (get_part (fl c) u) = Some NpTaken"
  shows "floor_inv (fl (revoke3 u c))"
proof -
  have "floor_inv (set_part u (\<lambda>x. x\<lparr>rcause := REVOKE_NO_PERMISSION\<rparr>) (fl c))"
    using inv by (rule floor_inv_flag) (simp_all add: counts_def)
  then have "floor_inv (set_part u (enter_part NpSends)
      (set_part u (\<lambda>x. x\<lparr>rcause := REVOKE_NO_PERMISSION\<rparr>) (fl c)))"
    by (rule floor_inv_set_part) (use st u in \<open>auto simp: agrees_def outside_def enter_part_def counts_def\<close>)
  then show ?thesis by (simp add: revoke3_def fl_send_e msg_new_def)
qed

lemma floor_inv_npsends_release:
  assumes inv: "floor_inv (fl c)" and u: "u \<in> set (members (fl c))"
    and st: "part (get_part (fl c) u) = Some NpSends"
    and to: "to = (if g_taken (get_part (fl c) u) then NpTaken else NpIdle)"
  shows "floor_inv (fl (send_e u to m c))"
proof -
  have "floor_inv (set_part u (enter_part to) (fl c))"
    using inv by (rule floor_inv_set_part)
      (use st u to in \<open>auto simp: agrees_def outside_def enter_part_def counts_def split: if_splits\<close>)
  then show ?thesis by (simp add: fl_send_e)
qed

lemma floor_inv_part_c:
  assumes inv: "floor_inv (fl c)" and u: "u \<in> set (members (fl c))"
  shows "floor_inv (fl (part_c u ev k c))"
proof -
  note ag = floor_inv_agrees [OF inv u]
  have flag: "floor_inv (set_part u (\<lambda>x. x\<lparr>c21 := j\<rparr>) (fl c))" if "j \<le> 1" for j
    using inv by (rule floor_inv_flag) (use that in \<open>simp_all add: counts_def\<close>)
  have rel: "floor_inv (set_part u (\<lambda>x. x\<lparr>released := True\<rparr>) (fl c))"
    using inv by (rule floor_inv_flag) (simp_all add: counts_def)
  show ?thesis
  proof (rule p_option_cases [of "part (get_part (fl c) u)"])
    assume st: "part (get_part (fl c) u) = Some NpIdle"
    then show ?thesis using inv u
      by (cases "mt ev") (simp_all add: part_c_def part_of_get Let_def floor_inv_arb_req_idle
        floor_inv_dequeue floor_inv_revoke3)
  next
    assume st: "part (get_part (fl c) u) = Some NpTaken"
    moreover from st ag have "g (fl c) \<noteq> GIdle" by (simp add: agrees_def)
    ultimately show ?thesis using inv u flag
      by (cases "mt ev") (simp_all add: part_c_def part_of_get Let_def floor_inv_taken_req
        floor_inv_dequeue floor_inv_revoke3 fl_send)
  next
    assume st: "part (get_part (fl c) u) = Some Permitted"
    then show ?thesis using inv rel
      by (cases "mt ev") (simp_all add: part_c_def part_of_get Let_def floor_inv_arb_rel
        floor_inv_arb_req_permitted floor_inv_arb_rtp)
  next
    assume st: "part (get_part (fl c) u) = Some PPrevoke"
    then show ?thesis using inv
      by (cases "mt ev") (simp_all add: part_c_def part_of_get Let_def floor_inv_arb_rel floor_inv_arb_rtp)
  next
    assume st: "part (get_part (fl c) u) = Some NpSends"
    have snd: "fl (send u MAck None RELEASE_TYPE 0 (lab l c)) = fl c" for l by (simp add: fl_send)
    show ?thesis using inv u st
      by (cases "mt ev") (simp_all add: part_c_def part_of_get Let_def floor_inv_npsends_release snd)
  qed (use ag in \<open>simp_all add: agrees_def\<close>)
qed

lemma floor_inv_server_rx: "floor_inv f \<Longrightarrow> floor_inv (fl (server_rx u m half k f))"
  by (auto simp: server_rx_def Let_def intro!: floor_inv_part_c)

lemma floor_inv_rtp: "floor_inv f \<Longrightarrow> floor_inv (fl (rtp u f))"
  by (auto simp: rtp_def intro!: floor_inv_part_c)

lemma floor_inv_ready: "floor_inv f \<Longrightarrow> floor_inv (fl (ready u f))"
  by (simp add: ready_def Let_def)

lemma floor_inv_set_flags:
  assumes "floor_inv f"
  shows "floor_inv (set_part u (\<lambda>x. x\<lparr>perm := b\<rparr>) f)" "floor_inv (set_part u (\<lambda>x. x\<lparr>pub_room := b\<rparr>) f)"
    "floor_inv (set_part u (\<lambda>x. x\<lparr>retry := b\<rparr>) f)"
  by (rule floor_inv_flag [OF assms]; simp add: counts_def)+

lemma floor_inv_perm_down: "floor_inv f \<Longrightarrow> floor_inv (fl (perm_down u f))"
  by (auto simp: perm_down_def Let_def in_q_iff
    intro!: floor_inv_prevoke_enter floor_inv_told_same floor_inv_set_flags floor_inv_dequeue)

lemma floor_inv_away: "floor_inv (fl c) \<Longrightarrow> floor_inv (fl (away u c))"
  by (auto simp: away_def intro!: floor_inv_idle_enter floor_inv_dequeue)

lemma floor_inv_pub:
  assumes "floor_inv f"
  shows "floor_inv (fl (perm_up u f))" "floor_inv (fl (ws_pub_select u f))" "floor_inv (fl (ws_pub_away u f))"
  using assms by (simp_all add: perm_up_def ws_pub_select_def ws_pub_away_def floor_inv_away floor_inv_set_flags)

lemma floor_inv_leave_room:
  assumes "floor_inv f"
  shows "floor_inv (set_part u (\<lambda>x. x\<lparr>retry := False, part := Some Releasing\<rparr>)
    (f\<lparr>members := bs_remove u (members f)\<rparr>))"
  using floor_inv_ledger [OF assms] floor_inv_parts [OF assms]
  by (intro floor_invI) (auto simp: arb_ok_def counts_def outside_def)

lemma floor_inv_ws_leave: "floor_inv f \<Longrightarrow> floor_inv (fl (ws_leave u f))"
  by (simp add: ws_leave_def Let_def floor_inv_leave_room floor_inv_away floor_inv_set_flags)

lemma holder_None_iff: "arb_ok f \<Longrightarrow> holder f = None \<longleftrightarrow> g f = GIdle"
  by (cases "g f") (auto simp: arb_ok_def holder_def)

lemma floor_inv_join_room:
  assumes "floor_inv f" and "taken = (holder f \<noteq> None)"
  shows "floor_inv (set_part u (\<lambda>x. x\<lparr>part := Some (if taken then NpTaken else NpIdle), g_taken := taken,
      pub_room := False, perm := pm, retry := False, released := False, rcause := 0\<rparr>)
      (f\<lparr>members := bs_insert u (members f)\<rparr>))"
proof -
  have "taken = (g f \<noteq> GIdle)" using assms holder_None_iff by (auto simp: floor_inv_def)
  then have "agrees (g f) (speaker f) (revoking f) u (x\<lparr>part := Some (if taken then NpTaken else NpIdle),
      g_taken := taken, pub_room := False, perm := pm, retry := False, released := False, rcause := 0\<rparr>)" for x
    by (simp add: agrees_def)
  then show ?thesis
    using floor_inv_ledger [OF assms(1)] floor_inv_parts [OF assms(1)]
    by (intro floor_invI) (auto simp: arb_ok_def counts_def)
qed

lemma holder_members [simp]: "holder (f\<lparr>members := ms\<rparr>) = holder f"
  by (simp add: holder_def split: g.split)

lemma floor_inv_ws_join: "floor_inv f \<Longrightarrow> floor_inv (fl (ws_join u pm f))"
  by (simp add: ws_join_def Let_def floor_inv_join_room floor_inv_idle_enter)

lemma floor_inv_fire_server:
  assumes inv: "floor_inv f" and "name \<in> set (armed_server f)"
  shows "floor_inv (fl (fire name u f))"
proof -
  have sp: "\<exists>sp. speaker f = Some sp" if "g f = GTaken"
    using inv that by (auto simp: floor_inv_def arb_ok_def)
  have "floor_inv (fl (t1 f))" using inv by (simp add: t1_def Let_def floor_inv_idle_enter)
  moreover have "floor_inv (fl (t2 f))" if "g f = GTaken"
    using sp [OF that] that inv
    by (auto simp: t2_def Let_def intro!: floor_inv_prevoke_enter floor_inv_set_flags)
  moreover have "floor_inv (fl (t3 f))" using inv by (simp add: t3_def floor_inv_idle_enter)
  moreover have "floor_inv (fl (t7 f))" if "c7 f < 10" "g f = GIdle"
    using that inv by (auto simp: t7_def Let_def msg_new_def intro!: floor_inv_idle_bcast floor_inv_counters)
  moreover have "floor_inv (fl (t20 f))" if "g f = GTaken" "c20 f \<le> 3"
    using sp [OF that(1)] that inv
    by (auto simp: t20_def Let_def C20_def msg_new_def intro!: floor_inv_repeat_granted floor_inv_counters)
  ultimately show ?thesis
    using assms(2) by (auto simp: fire_def armed_server_def C7_def C20_def split: if_splits)
qed

lemma armed_participant_iff:
  "name \<in> set (armed_participant f u) \<longleftrightarrow>
     (let x = get_part f u in
      name = ''T8'' \<and> (part x = Some PPrevoke \<or> part x = Some NpSends) \<and> c8 x < 3 \<or>
      name = ''T9'' \<and> retry x \<or> name = ''T21'' \<and> part x = Some NpTaken \<and> 1 \<le> c21 x \<and> c21 x \<le> 3)"
  by (cases "bt_get (parts f) u")
    (auto simp: armed_participant_def get_part_def part_default_def C8_def C21_def)

lemma floor_inv_fire_participant:
  assumes inv: "floor_inv f" and "name \<in> set (armed_participant f u)"
  shows "floor_inv (fl (fire name u f))"
proof -
  have "floor_inv (fl (t8 u f))" if "c8 (get_part f u) < 3"
    using that inv floor_inv_flag [OF inv, of "\<lambda>x. x\<lparr>c8 := c8 x + 1\<rparr>" u]
    by (simp add: t8_def Let_def counts_def)
  moreover have "floor_inv (fl (t21 u f))" if "c21 (get_part f u) \<le> 3"
    using that inv floor_inv_flag [OF inv, of "\<lambda>x. x\<lparr>c21 := c21 x + 1\<rparr>" u]
    by (simp add: t21_def Let_def counts_def)
  moreover have "floor_inv (fl (t9 u f))" using inv by (simp add: t9_def floor_inv_set_flags)
  ultimately show ?thesis
    using assms(2) by (auto simp: fire_def armed_participant_iff Let_def)
qed

lemma floor_inv_fire_armed: "floor_inv f \<Longrightarrow> fire_armed name user f = Some c \<Longrightarrow> floor_inv (fl c)"
  by (auto simp: fire_armed_def Let_def intro: floor_inv_fire_server floor_inv_fire_participant
    split: if_splits)

lemma floor_inv_step: "floor_inv f \<Longrightarrow> floor_inv (floor_step f e)"
  by (cases e) (auto simp: floor_step_def floor_ctx_def floor_inv_server_rx floor_inv_ready
    floor_inv_perm_down floor_inv_pub floor_inv_ws_leave floor_inv_ws_join floor_inv_rtp
    intro: floor_inv_fire_armed split: option.split)

lemma floor_inv_new: "floor_inv (floor_new qm t)"
  by (rule floor_invI) (simp_all add: floor_new_def arb_ok_def queue_ok_def tidy_def counts_def outside_def
    get_part_def part_default_def)

interpretation arbiter: machine "floor_new qm t" floor_step floor_inv for qm t
  by unfold_locales (simp_all add: floor_inv_new floor_inv_step)

abbreviation floor_run :: "nat \<Rightarrow> nat \<Rightarrow> event list \<Rightarrow> floor" where
  "floor_run qm t es \<equiv> run_from floor_step (floor_new qm t) es"

section \<open>Every change of the holder is announced as an effect\<close>

lemma holder_told: "told f f' \<Longrightarrow> holder f' = holder f"
  by (simp add: holder_def told_sel split: g.split)

lemma holder_sel [simp]:
  "holder (set_part u h f) = holder f" "holder (bump_seq f) = holder f" "holder (dequeue u f) = holder f"
  "holder (insert_q w f) = holder f" "holder (f\<lparr>prev := x1\<rparr>) = holder f"
  "holder (f\<lparr>queue := x2\<rparr>) = holder f" "holder (f\<lparr>rtp_seen := x3\<rparr>) = holder f"
  "holder (f\<lparr>first_rtp := x4\<rparr>) = holder f" "holder (f\<lparr>c7 := x5\<rparr>) = holder f"
  "holder (f\<lparr>c20 := x6\<rparr>) = holder f" "holder (f\<lparr>idle_bcast := x7\<rparr>) = holder f"
  by (simp_all add: holder_def dequeue_def insert_q_def split: g.split)

lemma holder_part_a [simp]: "holder (fl (part_a u ev c)) = holder (fl c)"
  by (rule holder_told) simp

lemma holder_fan [simp]: "holder (fl (fan ev skip c)) = holder (fl c)"
  by (rule holder_told) simp

lemma holder_send [simp]: "holder (fl (send u t a n d c)) = holder (fl c)"
  by (simp add: fl_send)

text \<open>The step's effects, and what they say of the holder before (\<open>h\<close>) and after.\<close>

definition announced :: "user option \<Rightarrow> ctx \<Rightarrow> bool" where
  "announced h c \<longleftrightarrow>
     (case fx (st c) of
        [] \<Rightarrow> holder (fl c) = h
      | [Bind u] \<Rightarrow> holder (fl c) = Some u
      | [Release _] \<Rightarrow> holder (fl c) = None
      | _ \<Rightarrow> False)"

definition quiet :: "user option \<Rightarrow> ctx \<Rightarrow> bool" where
  "quiet h c \<longleftrightarrow> fx (st c) = [] \<and> holder (fl c) = h"

lemma quiet_announced: "quiet h c \<Longrightarrow> announced h c"
  by (simp add: quiet_def announced_def)

lemma quiet_simps [simp]:
  "quiet h (lab l c) = quiet h c" "quiet h (send u t a n d c) = quiet h c"
  "quiet h (part_a u ev c) = quiet h c" "quiet h (fan ev skip c) = quiet h c"
  "quiet h (upd (set_part u k) c) = quiet h c" "quiet h (upd (dequeue u) c) = quiet h c"
  "quiet h (upd (insert_q w) c) = quiet h c" "quiet h (enter_r u to c) = quiet h c"
  "quiet h (begin_step f) = (holder f = h)"
  by (auto simp: quiet_def)

lemma quiet_send_e [simp]: "quiet h (send_e u to m c) = quiet h c"
  by (simp add: send_e_def)

lemma announced_enter_taken:
  "fx (st c) = [] \<Longrightarrow> g (fl c) = GTaken \<Longrightarrow> speaker (fl c) = Some u \<Longrightarrow> announced h (enter_taken c)"
  by (simp add: announced_def holder_def)

lemma announced_idle_enter: "fx (st c) = [] \<Longrightarrow> announced h (idle_enter c)"
  by (cases "queue (fl c)")
    (auto simp: idle_enter_def Let_def announced_def holder_def intro!: announced_enter_taken)

lemma quiet_prevoke_enter:
  "quiet h c \<Longrightarrow> g (fl c) = GTaken \<Longrightarrow> speaker (fl c) = Some u \<Longrightarrow> quiet h (prevoke_enter u cause c)"
  by (auto simp: prevoke_enter_def Let_def quiet_def holder_def)

lemma quiet_fx: "quiet h c \<Longrightarrow> fx (st c) = []"
  by (simp add: quiet_def)

lemma announced_arb:
  assumes "quiet h c" and "arb_ok (fl c)"
  shows "announced h (arb_rel u c)" "announced h (arb_req_idle u p c)" "announced h (away u c)"
    and "quiet h (arb_req_permitted u k c)" "quiet h (arb_rtp u c)" "quiet h (arb_preempt u p c)"
proof -
  show "announced h (arb_rel u c)" "announced h (away u c)"
    using assms by (auto simp: arb_rel_def away_def quiet_announced quiet_fx intro!: announced_idle_enter)
  show "announced h (arb_req_idle u p c)"
    using assms by (auto simp: arb_req_idle_def quiet_announced quiet_fx intro!: announced_enter_taken)
  show "quiet h (arb_req_permitted u k c)" "quiet h (arb_rtp u c)"
    using assms by (auto simp: arb_req_permitted_def arb_rtp_def Let_def quiet_def)
  show "quiet h (arb_preempt u p c)"
    using assms by (auto simp: arb_preempt_def Let_def arb_ok_def intro!: quiet_prevoke_enter)
      (auto simp: quiet_def)
qed

lemma arb_ok_sel [simp]:
  "arb_ok (set_part u k f) = arb_ok f" "arb_ok (dequeue u f) = arb_ok f" "arb_ok (bump_seq f) = arb_ok f"
  by (simp_all add: arb_ok_def dequeue_def)

lemma announced_part_c:
  assumes q: "quiet h c" and "arb_ok (fl c)"
  shows "announced h (part_c u ev k c)"
proof -
  have "announced h (taken_req u p c')" if "quiet h c'" "arb_ok (fl c')" for c' p
    using that by (auto simp: taken_req_def Let_def quiet_announced announced_arb)
  moreover have "announced h (revoke3 u c')" if "quiet h c'" for c'
    using that by (simp add: revoke3_def Let_def quiet_announced)
  ultimately show ?thesis
    using assms
    by (rule_tac p_option_cases [of "part (get_part (fl c) u)"]; cases "mt ev")
      (simp_all add: part_c_def part_of_get Let_def quiet_announced announced_arb fl_send)
qed

lemma announced_fire:
  assumes inv: "floor_inv f" and "fire_armed name user f = Some c"
  shows "announced (holder f) c"
proof -
  have sp: "\<exists>sp. speaker f = Some sp" if "g f = GTaken"
    using inv that by (auto simp: floor_inv_def arb_ok_def)
  have "announced (holder f) (t1 f)" "announced (holder f) (t3 f)"
    by (auto simp: t1_def t3_def Let_def intro!: announced_idle_enter)
  moreover have "announced (holder f) (t2 f)" if "g f = GTaken"
    using sp [OF that] that
    by (auto simp: t2_def Let_def intro!: quiet_announced quiet_prevoke_enter)
  moreover have "announced (holder f) (t7 f)" "announced (holder f) (t20 f)" "announced (holder f) (t8 u f)"
      "announced (holder f) (t21 u f)" "announced (holder f) (t9 u f)" for u
    by (auto simp: t7_def t20_def t8_def t21_def t9_def Let_def intro!: quiet_announced)
      (simp_all add: quiet_def)
  ultimately show ?thesis
    using assms(2)
    by (auto simp: fire_armed_def fire_def Let_def armed_server_def armed_participant_iff
      split: if_splits)
qed

lemma announced_ctx:
  assumes inv: "floor_inv f"
  shows "announced (holder f) (floor_ctx f e)"
proof -
  have arb: "arb_ok f" using inv by (simp add: floor_inv_def)
  have away: "announced (holder f) (away u c)" if "fl c = set_part u k f" "fx (st c) = []" for u c k
    using announced_arb(3) [of "holder f" c] that arb by (simp add: quiet_def)
  have upd: "announced h (upd k c) = announced h c" if "holder (k (fl c)) = holder (fl c)" for h k c
    using that by (simp add: announced_def split: list.split fx.split)
  show ?thesis
  proof (cases e)
    case (PermDown u)
    then show ?thesis
      by (auto simp: floor_ctx_def perm_down_def Let_def intro!: quiet_announced quiet_prevoke_enter)
  next
    case (Join u pm)
    then show ?thesis
      by (auto simp: floor_ctx_def ws_join_def Let_def upd quiet_announced intro!: announced_idle_enter)
  next
    case (Timer name user)
    then show ?thesis
      using announced_fire [OF inv] by (auto simp: floor_ctx_def quiet_announced split: option.split)
  qed (use arb in \<open>auto simp: floor_ctx_def server_rx_def ready_def perm_up_def ws_pub_select_def
    ws_pub_away_def ws_leave_def rtp_def Let_def upd quiet_announced intro!: announced_part_c away\<close>)
qed

end
