(* ===== verification/Floor_Clean.thy ===== *)
theory Floor_Clean
  imports Floor_Inv
begin

text \<open>
  Runs in which no participant sends media while it waits in the queue and nobody joins twice. In these
  runs the ledger is stricter than \<open>floor_inv\<close>: the speaker is a member in \<open>Permitted\<close>, every waiter is a
  member in \<open>NpTaken\<close>, and a member being revoked is in \<open>PPrevoke\<close>. The interface is \<open>guarded_machine\<close>
  of the prelude.
\<close>

section \<open>The strict ledger\<close>

definition strict :: "floor \<Rightarrow> bool" where
  "strict f \<longleftrightarrow>
     (\<forall>u. speaker f = Some u \<longrightarrow> u \<in> set (members f) \<and> part (get_part f u) = Some Permitted) \<and>
     (\<forall>u. u \<in> w_u ` set (queue f) \<longrightarrow> u \<in> set (members f) \<and> part (get_part f u) = Some NpTaken) \<and>
     (\<forall>u. revoking f = Some u \<longrightarrow> u \<in> set (members f) \<longrightarrow> part (get_part f u) = Some PPrevoke)"

definition behaves :: "floor \<Rightarrow> event \<Rightarrow> bool" where
  "behaves f e =
     (case e of
        RtpIn u \<Rightarrow> \<not> in_q f u
      | ServerRx u m _ _ \<Rightarrow> mt m = MRtp \<longrightarrow> \<not> in_q f u
      | Join u _ \<Rightarrow> u \<notin> set (members f)
      | _ \<Rightarrow> True)"

lemma strict_told:
  assumes "strict f" and "told f f'" and "\<And>u. part (get_part f' u) = part (get_part f u)"
  shows "strict f'"
  using assms(1,3) by (simp add: strict_def told_sel [OF assms(2)])

lemma strict_send [simp]: "strict (fl (send u t a n d c)) = strict (fl c)"
  by (simp add: fl_send strict_def)

lemma strict_misc [simp]:
  "strict (f\<lparr>prev := a1\<rparr>) = strict f" "strict (f\<lparr>rtp_seen := a2\<rparr>) = strict f"
  "strict (f\<lparr>first_rtp := a3\<rparr>) = strict f" "strict (f\<lparr>idle_bcast := a4\<rparr>) = strict f"
  "strict (f\<lparr>c7 := a5\<rparr>) = strict f" "strict (f\<lparr>c20 := a6\<rparr>) = strict f" "strict (bump_seq f) = strict f"
  by (simp_all add: strict_def)

lemma strict_flag: "strict f \<Longrightarrow> (\<And>x. part (h x) = part x) \<Longrightarrow> strict (set_part u h f)"
  by (auto simp: strict_def)

lemma strict_dequeue: "strict f \<Longrightarrow> strict (dequeue u f)"
  by (auto simp: strict_def dequeue_def)

lemma strict_queue:
  assumes "strict f" and "\<And>v. v \<in> w_u ` set q \<Longrightarrow> v \<in> w_u ` set (queue f) \<or>
      v \<in> set (members f) \<and> part (get_part f v) = Some NpTaken"
  shows "strict (f\<lparr>queue := q\<rparr>)"
  using assms by (auto simp: strict_def)

lemma strict_told_same:
  assumes "strict (fl c)" and "part (a_part ev (get_part (fl c) u)) = part (get_part (fl c) u)"
  shows "strict (fl (part_a u ev c))"
  using assms(1) by (rule strict_told) (use assms(2) in simp_all)

text \<open>Handing the floor over.\<close>

lemma part_told:
  "mt ev = MTaken \<Longrightarrow> part x = Some NpTaken \<Longrightarrow> part (a_part ev x) = Some NpTaken"
  "mt ev = MGranted \<Longrightarrow> part x \<in> {Some NpIdle, Some NpTaken, Some Permitted} \<Longrightarrow> part (a_part ev x) = Some Permitted"
  "mt ev = MRevoke \<Longrightarrow> part x = Some Permitted \<Longrightarrow> part (a_part ev x) = Some PPrevoke"
  by (auto simp: a_part_all)

lemma strict_enter_taken:
  assumes f: "fl c = f\<lparr>queue := q, g := GTaken, speaker := Some u, sprio := pr, revoking := None,
      succ := sc, rtp_seen := False, first_rtp := False, c20 := k\<rparr>"
    and inv: "floor_inv f" and st: "strict f" and q: "set q \<subseteq> set (queue f)" "u \<notin> w_u ` set q"
    and u: "u \<in> set (members f)" "part (get_part f u) \<in> {Some NpIdle, Some NpTaken}"
  shows "strict (fl (enter_taken c))"
proof -
  have dist: "distinct (members (fl c))" using inv f by (simp add: floor_inv_distinct)
  have wait: "v \<in> set (members f) \<and> part (get_part f v) = Some NpTaken" if "v \<in> w_u ` set q" for v
    using st q that by (auto simp: strict_def)
  show ?thesis
    using u q(2) wait
    by (auto simp: strict_def f get_part_enter_taken [OF dist] Let_def part_told msg_new_def)
qed

lemma strict_idle_enter:
  assumes inv: "floor_inv (fl c)" and st: "strict (fl c)"
  shows "strict (fl (idle_enter c))"
proof (cases "queue (fl c)")
  case Nil
  then show ?thesis by (simp add: idle_enter_def Let_def strict_def)
next
  case (Cons w ws)
  have q: "queue_ok (w # ws) (qmax (fl c))" using inv Cons by (simp add: floor_inv_def)
  have w: "w_u w \<in> set (members (fl c))" "part (get_part (fl c) (w_u w)) = Some NpTaken"
    using st Cons by (auto simp: strict_def)
  show ?thesis
    unfolding idle_enter_def Let_def Cons list.case
    by (rule strict_enter_taken [where f = "fl c" and u = "w_u w" and q = ws, OF _ inv st])
      (use q w Cons in \<open>auto simp: queue_ok_def\<close>)
qed

lemma strict_prevoke_enter:
  assumes st: "strict (fl c)" and sp: "speaker (fl c) = Some u"
  shows "strict (fl (prevoke_enter u cause c))"
  using assms by (auto simp: strict_def prevoke_enter_def Let_def part_told msg_new_def)

section \<open>Every entry point keeps the strict ledger\<close>

lemma strict_arb_req_idle:
  assumes inv: "floor_inv (fl c)" and st: "strict (fl c)" and u: "u \<in> set (members (fl c))"
    "part (get_part (fl c) u) = Some NpIdle"
  shows "strict (fl (arb_req_idle u p c))"
proof (cases "g (fl c) = GIdle \<and> \<not> alone (fl c) \<and> \<not> retry (get_part (fl c) u)")
  case True
  let ?f = "fl c"
  have none: "revoking ?f = None" "queue ?f = []" using inv True by (auto simp: floor_inv_def arb_ok_def)
  have "strict (fl (enter_taken (upd (\<lambda>f. f\<lparr>g := GTaken, speaker := Some u, sprio := p, succ := False,
      rtp_seen := False, first_rtp := False, c20 := 0\<rparr>) (lab L_G_IDLE_req_grant c))))"
  proof (rule strict_enter_taken [where f = ?f and q = "queue ?f" and k = 0, OF _ inv st])
    show "fl (upd (\<lambda>f. f\<lparr>g := GTaken, speaker := Some u, sprio := p, succ := False,
        rtp_seen := False, first_rtp := False, c20 := 0\<rparr>) (lab L_G_IDLE_req_grant c))
      = ?f\<lparr>queue := queue ?f, g := GTaken, speaker := Some u, sprio := p, revoking := None,
        succ := False, rtp_seen := False, first_rtp := False, c20 := 0\<rparr>" using none by simp
  qed (use none u in simp_all)
  then show ?thesis using True by (simp add: arb_req_idle_def)
qed (auto simp: arb_req_idle_def st intro!: strict_told_same)

lemma strict_arb_req_permitted:
  "strict (fl c) \<Longrightarrow> strict (fl (arb_req_permitted u k c))"
  by (auto simp: arb_req_permitted_def Let_def intro!: strict_told_same)
    (simp_all add: strict_def part_told msg_new_def)

lemma strict_arb_preempt:
  assumes "floor_inv (fl c)" and "strict (fl c)" and "u \<in> set (members (fl c))"
    and "part (get_part (fl c) u) = Some NpTaken"
  shows "strict (fl (arb_preempt u p c))"
proof (cases "g (fl c) = GTaken")
  case True
  then obtain sp where "speaker (fl c) = Some sp" using assms(1) by (auto simp: floor_inv_def arb_ok_def)
  moreover have "strict ((fl c)\<lparr>queue := \<lparr>w_u = u, w_p = p, w_pre = True\<rparr> # queue (fl c)\<rparr>)"
    using assms by (intro strict_queue) auto
  ultimately show ?thesis
    using True unfolding arb_preempt_def
    by (auto simp: Let_def intro!: strict_told_same strict_prevoke_enter)
qed (simp add: arb_preempt_def assms)

lemma strict_arb_rel: "floor_inv (fl c) \<Longrightarrow> strict (fl c) \<Longrightarrow> strict (fl (arb_rel u c))"
  by (auto simp: arb_rel_def intro!: strict_idle_enter)

lemma strict_arb_rtp: "strict (fl c) \<Longrightarrow> strict (fl (arb_rtp u c))"
  by (simp add: arb_rtp_def)

lemma set_insert_q: "set (queue (insert_q w f)) = insert w (set (queue f))"
proof (cases "position (q_before w) (queue f)")
  case (Some i)
  have "set (take i (queue f)) \<union> set (drop i (queue f)) = set (queue f)"
    by (metis append_take_drop_id set_append)
  then show ?thesis using Some by (auto simp: insert_q_def)
qed (simp add: insert_q_def)

lemma strict_taken_req:
  assumes "floor_inv (fl c)" and "strict (fl c)" and "u \<in> set (members (fl c))"
    and "part (get_part (fl c) u) = Some NpTaken"
  shows "strict (fl (taken_req u p c))"
proof -
  have "strict (insert_q \<lparr>w_u = u, w_p = p, w_pre = False\<rparr> (fl c))"
    using assms by (subst insert_q_queue, intro strict_queue) (auto simp: set_insert_q)
  then show ?thesis using assms by (auto simp: taken_req_def Let_def intro!: strict_arb_preempt)
qed

text \<open>A participant who neither holds the floor nor waits may change state freely.\<close>

lemma strict_free_part:
  assumes "strict f" and "speaker f \<noteq> Some u" and "u \<notin> w_u ` set (queue f)" and "revoking f \<noteq> Some u"
  shows "strict (set_part u h f)"
  using assms by (auto simp: strict_def)

lemma strict_free:
  assumes "strict f" and "u \<in> set (members f)" and "part (get_part f u) \<in> {Some NpIdle, Some NpSends} \<or>
      part (get_part f u) = Some NpTaken \<and> \<not> in_q f u"
  shows "speaker f \<noteq> Some u" and "u \<notin> w_u ` set (queue f)" and "revoking f \<noteq> Some u"
  using assms by (auto simp: strict_def in_q_iff)

lemma strict_revoke3:
  assumes "strict (fl c)" and "u \<in> set (members (fl c))" and "part (get_part (fl c) u) = Some NpIdle \<or>
      part (get_part (fl c) u) = Some NpTaken \<and> \<not> in_q (fl c) u"
  shows "strict (fl (revoke3 u c))"
proof -
  have "speaker (fl c) \<noteq> Some u" "u \<notin> w_u ` set (queue (fl c))" "revoking (fl c) \<noteq> Some u"
    using strict_free [OF assms(1,2)] assms(3) by auto
  then show ?thesis using assms(1)
    by (simp add: revoke3_def fl_send_e Let_def strict_free_part)
qed

lemma strict_part_c:
  assumes inv: "floor_inv (fl c)" and st: "strict (fl c)" and u: "u \<in> set (members (fl c))"
    and ok: "mt ev = MRtp \<Longrightarrow> \<not> in_q (fl c) u"
  shows "strict (fl (part_c u ev k c))"
proof (rule p_option_cases [of "part (get_part (fl c) u)"])
  note ag = floor_inv_agrees [OF inv u]
  assume p: "part (get_part (fl c) u) = Some NpIdle"
  then show ?thesis using inv st u
    by (cases "mt ev") (simp_all add: part_c_def part_of_get Let_def strict_arb_req_idle strict_dequeue
      strict_revoke3)
next
  assume p: "part (get_part (fl c) u) = Some NpTaken"
  then show ?thesis using inv st u ok
    by (cases "mt ev") (simp_all add: part_c_def part_of_get Let_def strict_taken_req strict_dequeue
      strict_flag strict_revoke3 fl_send)
next
  assume p: "part (get_part (fl c) u) = Some Permitted"
  have "floor_inv (set_part u (\<lambda>x. x\<lparr>released := True\<rparr>) (fl c))"
    using inv by (rule floor_inv_flag) (simp_all add: counts_def)
  then show ?thesis using inv st p
    by (cases "mt ev") (simp_all add: part_c_def part_of_get Let_def strict_arb_rel strict_flag
      strict_arb_req_permitted strict_arb_rtp)
next
  assume p: "part (get_part (fl c) u) = Some PPrevoke"
  then show ?thesis using inv st
    by (cases "mt ev") (simp_all add: part_c_def part_of_get Let_def strict_arb_rel strict_arb_rtp)
next
  assume p: "part (get_part (fl c) u) = Some NpSends"
  then have "strict (set_part u h (fl c))" for h
    using strict_free [OF st u] st by (intro strict_free_part) auto
  then show ?thesis using st p
    by (cases "mt ev") (simp_all add: part_c_def part_of_get Let_def fl_send_e fl_send)
qed (use floor_inv_agrees [OF inv u] in \<open>simp_all add: agrees_def\<close>)

lemma strict_away: "floor_inv (fl c) \<Longrightarrow> strict (fl c) \<Longrightarrow> strict (fl (away u c))"
  by (auto simp: away_def intro!: strict_idle_enter strict_dequeue)

text \<open>Whoever goes away neither speaks nor waits afterwards.\<close>

lemma speaker_idle_enter: "speaker (fl (idle_enter c)) = Some u \<Longrightarrow> u \<in> w_u ` set (queue (fl c))"
  by (auto simp: idle_enter_def Let_def split: list.splits)

lemma queue_idle_enter: "set (queue (fl (idle_enter c))) \<subseteq> set (queue (fl c))"
  by (auto simp: idle_enter_def Let_def split: list.splits)

lemma away_gone:
  assumes inv: "floor_inv (fl c)" and st: "strict (fl c)"
  shows "speaker (fl (away u c)) \<noteq> Some u \<and> u \<notin> w_u ` set (queue (fl (away u c)))"
proof -
  have "u \<notin> w_u ` set (queue (fl c))" if "speaker (fl c) = Some u" using st that by (auto simp: strict_def)
  moreover have "speaker (fl c) \<noteq> Some u" if "g (fl c) \<noteq> GTaken"
    using inv that by (auto simp: floor_inv_def arb_ok_def)
  moreover have "u \<notin> w_u ` set (queue (fl c))" if "revoking (fl c) = Some u"
    using inv st that floor_inv_agrees [OF inv, of u] floor_inv_outside [OF inv, of u]
    by (auto simp: strict_def outside_def)
  ultimately show ?thesis
    using queue_idle_enter speaker_idle_enter
    by (auto simp: away_def in_q_iff dequeue_def dest!: speaker_idle_enter subsetD [OF queue_idle_enter])
qed

lemma strict_ws_leave:
  assumes inv: "floor_inv f" and st: "strict f"
  shows "strict (fl (ws_leave u f))"
proof -
  define c where "c = away u (upd (set_part u (\<lambda>x. x\<lparr>pub_room := False\<rparr>)) (lab L_ws_leave (begin_step f)))"
  have inv0: "floor_inv (set_part u (\<lambda>x. x\<lparr>pub_room := False\<rparr>) f)"
    and st0: "strict (set_part u (\<lambda>x. x\<lparr>pub_room := False\<rparr>) f)"
    using inv st by (simp_all add: floor_inv_set_flags strict_flag)
  have stc: "strict (fl c)" using inv0 st0 by (simp add: c_def strict_away)
  have gone: "speaker (fl c) \<noteq> Some u \<and> u \<notin> w_u ` set (queue (fl c))"
    unfolding c_def by (rule away_gone) (simp_all add: inv0 st0)
  have "strict (set_part u h ((fl c)\<lparr>members := bs_remove u (members (fl c))\<rparr>))" for h
    using stc gone by (auto simp: strict_def)
  then show ?thesis by (simp add: ws_leave_def Let_def c_def)
qed

lemma strict_ws_join:
  assumes inv: "floor_inv f" and st: "strict f" and new: "u \<notin> set (members f)"
  shows "strict (fl (ws_join u pm f))"
proof -
  define c where "c = (if g f = GPrevoke \<and> revoking f = Some u
      then idle_enter (upd (\<lambda>f. f\<lparr>prev := revoking f\<rparr>) (lab L_ws_join_revoking (begin_step f)))
      else lab L_ws_join (begin_step f))"
  have stc: "strict (fl c)" using inv st by (simp add: c_def strict_idle_enter)
  have mem: "members (fl c) = members f"
    by (simp add: c_def idle_enter_def Let_def split: list.split)
  have rev: "revoking (fl c) \<noteq> Some u"
    using inv by (auto simp: c_def floor_inv_def arb_ok_def idle_enter_def Let_def split: list.split)
  have "u \<notin> set (members (fl c))" using mem new by simp
  then have "speaker (fl c) \<noteq> Some u" "u \<notin> w_u ` set (queue (fl c))"
    using stc by (auto simp: strict_def)
  then have "strict (set_part u h ((fl c)\<lparr>members := bs_insert u (members (fl c))\<rparr>))" for h
    using stc rev by (auto simp: strict_def)
  then show ?thesis by (simp add: ws_join_def Let_def c_def)
qed

lemma strict_fire:
  assumes inv: "floor_inv f" and st: "strict f" and "fire_armed name user f = Some c"
  shows "strict (fl c)"
proof -
  have sp: "\<exists>sp. speaker f = Some sp" if "g f = GTaken"
    using inv that by (auto simp: floor_inv_def arb_ok_def)
  have "strict (fl (t1 f))" "strict (fl (t3 f))"
    using inv st by (simp_all add: t1_def t3_def Let_def strict_idle_enter)
  moreover have "strict (fl (t2 f))" if "g f = GTaken"
    using sp [OF that] st by (auto simp: t2_def Let_def intro!: strict_prevoke_enter strict_flag)
  moreover have "strict (fl (t7 f))" if "g f = GIdle"
    using inv that by (auto simp: t7_def Let_def strict_def floor_inv_def arb_ok_def)
  moreover have "strict (fl (t20 f))" if taken: "g f = GTaken"
  proof -
    obtain s where s: "speaker f = Some s" using sp [OF taken] by blast
    then have "part (get_part f s) = Some Permitted" using st by (simp add: strict_def)
    then show ?thesis
      using st s by (auto simp: t20_def Let_def part_told msg_new_def intro!: strict_told_same)
  qed
  moreover have "strict (fl (t8 u f))" "strict (fl (t21 u f))" "strict (fl (t9 u f))" for u
    using st by (simp_all add: t8_def t21_def t9_def Let_def strict_flag)
  ultimately show ?thesis
    using assms(3)
    by (auto simp: fire_armed_def fire_def Let_def armed_server_def armed_participant_iff split: if_splits)
qed

lemma strict_floor_step:
  assumes inv: "floor_inv f" and st: "strict f" and ok: "behaves f e"
  shows "strict (floor_step f e)"
proof (cases e)
  case (PermDown u)
  then show ?thesis using st
    by (auto simp: floor_step_def floor_ctx_def perm_down_def Let_def
      intro!: strict_prevoke_enter strict_told_same strict_flag strict_dequeue)
next
  case (Timer name user)
  then show ?thesis
    using strict_fire [OF inv st] st by (auto simp: floor_step_def floor_ctx_def split: option.split)
qed (use assms in \<open>auto simp: floor_step_def floor_ctx_def behaves_def server_rx_def ready_def perm_up_def
    ws_pub_select_def ws_pub_away_def rtp_def Let_def strict_ws_leave strict_ws_join msg_new_def
    intro!: strict_part_c strict_flag strict_away floor_inv_set_flags\<close>)

interpretation orderly: guarded_machine "floor_new qm t" floor_step floor_inv behaves strict for qm t
proof
  show "strict (floor_new qm t)" by (simp add: strict_def floor_new_def)
qed (rule strict_floor_step)

end
