(* ===== verification/Floor_Props.thy ===== *)
theory Floor_Props
  imports Floor_Clean
begin

text \<open>
  Properties of the floor arbiter over any sequence of events, read off \<open>floor_inv\<close> and \<open>strict\<close>, and
  the exact behaviour of requests, releases and the hand-over of the floor.
\<close>

text \<open>Evaluation of concrete runs: every definition, arguments first.\<close>

lemmas floor_exec = floor_step_def floor_ctx_def server_rx_def ready_def perm_down_def perm_up_def
  ws_pub_select_def ws_pub_away_def ws_leave_def ws_join_def rtp_def part_c_def taken_req_def revoke3_def
  away_def arb_rtp_def arb_rel_def arb_preempt_def arb_req_permitted_def arb_req_idle_def
  prevoke_enter_def idle_enter_def enter_taken_def or_default_def fan_def part_a_def send_e_def
  enter_r_def send_def bump_seq_def t2_full_def insert_q_def q_before_def pre_q_def dequeue_def qprio_def
  pos_def in_q_def alone_def holder_prio_def holder_def part_of_def set_part_def get_part_def upd_def
  lab_def push_out_def push_fx_def begin_step_def floor_new_def step_default_def part_default_def
  msg_new_def fire_armed_def fire_def t1_def t2_def t3_def t7_def t8_def t9_def t20_def t21_def
  armed_server_def armed_participant_def SEQ_WRAP_def C7_def C8_def C20_def C21_def
  bt_get_def less_char_def bs_remove_def Let_def

lemmas floor_exec_cong = let_weak_cong if_weak_cong

section \<open>Fields that never change\<close>

lemma qmax_simps [simp]:
  "qmax (fl (send u t a n d c)) = qmax (fl c)" "qmax (fl (send_e u to m c)) = qmax (fl c)"
  "qmax (dequeue u f) = qmax f" "qmax (insert_q w f) = qmax f"
  by (simp_all add: fl_send fl_send_e dequeue_def insert_q_def)

lemma qmax_arb [simp]:
  "qmax (fl (idle_enter c)) = qmax (fl c)" "qmax (fl (prevoke_enter u cause c)) = qmax (fl c)"
  by (simp_all add: idle_enter_def prevoke_enter_def Let_def split: list.split)

lemma qmax_arb2 [simp]:
  "qmax (fl (arb_rel u c)) = qmax (fl c)" "qmax (fl (away u c)) = qmax (fl c)"
  "qmax (fl (arb_req_idle u p c)) = qmax (fl c)" "qmax (fl (arb_req_permitted u k c)) = qmax (fl c)"
  "qmax (fl (arb_rtp u c)) = qmax (fl c)" "qmax (fl (arb_preempt u p c)) = qmax (fl c)"
  "qmax (fl (revoke3 u c)) = qmax (fl c)"
  by (simp_all add: arb_rel_def away_def arb_req_idle_def arb_req_permitted_def arb_rtp_def arb_preempt_def
    revoke3_def Let_def)

lemma qmax_part_c [simp]: "qmax (fl (part_c u ev k c)) = qmax (fl c)"
proof -
  have "qmax (fl (taken_req u p c')) = qmax (fl c')" for p c' by (simp add: taken_req_def Let_def)
  then show ?thesis
    by (rule_tac p_option_cases [of "part (get_part (fl c) u)"]; cases "mt ev")
      (simp_all add: part_c_def part_of_get Let_def)
qed

lemma qmax_step: "qmax (floor_step f e) = qmax f"
  by (cases e) (auto simp: floor_step_def floor_ctx_def server_rx_def ready_def perm_down_def perm_up_def
    ws_pub_select_def ws_pub_away_def ws_leave_def ws_join_def rtp_def Let_def fire_armed_def fire_def t1_def
    t2_def t3_def t7_def t8_def t9_def t20_def t21_def split: option.split)

lemma qmax_run: "qmax (floor_run qm t es) = qm"
proof -
  have "qmax (run_from floor_step f es) = qmax f" for f
    by (induction es arbitrary: f) (simp_all add: qmax_step)
  then show ?thesis by (simp add: floor_new_def)
qed

section \<open>Who may speak\<close>

lemma speaking_is_holder:
  assumes "floor_inv f" and "part_of f u \<in> {Some Permitted, Some PPrevoke}"
  shows "holder f = Some u"
proof -
  have "u \<in> set (members f)"
    using floor_inv_outside [OF assms(1), of u] assms(2) by (fastforce simp: part_of_get outside_def)
  from floor_inv_agrees [OF assms(1) this] assms(2) show ?thesis
    by (auto simp: part_of_get agrees_def holder_def)
qed

text \<open>
  Mutual exclusion (C1): after any sequence of events, at most one participant of a room has been
  granted the floor and not yet been told it is gone, and that participant is the holder.
\<close>

theorem floor_one_voice:
  assumes "f = floor_run qm t es" and "part_of f u \<in> {Some Permitted, Some PPrevoke}"
    and "part_of f v \<in> {Some Permitted, Some PPrevoke}"
  shows "u = v \<and> holder f = Some u"
proof -
  have "floor_inv f" unfolding assms(1) by (rule arbiter.inv_run)
  then have "holder f = Some u" "holder f = Some v" using assms(2,3) by (auto intro: speaking_is_holder)
  then show ?thesis by simp
qed

definition demo_grant :: "event list" where
  "demo_grant = [Join ''a'' True, Join ''b'' True, PubSelect ''a'', PubSelect ''b'',
     ServerRx ''a'' (msg_new MRequest None 5 0) True 0]"

theorem floor_one_voice_witness:
  "''a'' = ''a'' \<and> holder (floor_run 10 30 demo_grant) = Some ''a''"
  by (rule floor_one_voice [OF refl, where v = "''a''"])
    (simp_all add: demo_grant_def floor_exec cong: floor_exec_cong del: get_part_set get_part_upd)

text \<open>
  The ledger agrees with the room: exactly the members have a live state, one in \<open>NpIdle\<close> sees an idle floor, one
  in \<open>NpTaken\<close> a held one, and one whose \<open>RELEASE\<close> is awaited has the right notion of which of the two to be told.
  What the members were actually sent is the subject of \<open>Floor_News\<close>.
\<close>

theorem floor_participants_agree:
  "let f = floor_run qm t es; x = get_part f u in
     (u \<in> set (members f) \<longleftrightarrow> part x \<notin> {None, Some Releasing}) \<and>
     (part x = Some NpIdle \<longrightarrow> holder f = None) \<and>
     (part x = Some NpTaken \<longrightarrow> holder f \<noteq> None) \<and>
     (part x = Some NpSends \<longrightarrow> g_taken x = (holder f \<noteq> None))"
proof -
  let ?f = "floor_run qm t es"
  have inv: "floor_inv ?f" by (rule arbiter.inv_run)
  have h: "holder ?f = None \<longleftrightarrow> g ?f = GIdle" using inv by (intro holder_None_iff) (simp add: floor_inv_def)
  show ?thesis
  proof (cases "u \<in> set (members ?f)")
    case True
    from floor_inv_agrees [OF inv True] True h show ?thesis
      by (rule_tac p_option_cases [of "part (get_part ?f u)"]) (auto simp: agrees_def Let_def)
  next
    case False
    with floor_inv_outside [OF inv False] show ?thesis by (auto simp: outside_def Let_def)
  qed
qed

theorem floor_participants_agree_witness:
  "part (get_part (floor_run 10 30 demo_grant) ''b'') = Some NpTaken \<and> holder (floor_run 10 30 demo_grant) \<noteq> None"
proof -
  have b: "part (get_part (floor_run 10 30 demo_grant) ''b'') = Some NpTaken"
    by (simp add: demo_grant_def floor_exec cong: floor_exec_cong del: get_part_set get_part_upd)
  with floor_participants_agree [of 10 30 demo_grant "''b''"] show ?thesis by (simp add: Let_def)
qed

section \<open>The queue and the counters\<close>

lemma queue_ok_pre_head:
  assumes "queue_ok q m" and "i < length q" and "w_pre (q ! i)"
  shows "i = 0"
proof (rule ccontr)
  assume "i \<noteq> 0"
  with assms(1,2) have "\<not> q_before (q ! i) (q ! 0)"
    by (auto simp: queue_ok_def sorted_wrt_iff_nth_less)
  with assms(3) have "w_pre (q ! 0)" by (auto simp: q_before_def)
  moreover have "q = take i q @ q ! i # drop (Suc i) q" using assms(2) by (simp add: id_take_nth_drop)
  then have "filter w_pre q = filter w_pre (take i q) @ q ! i # filter w_pre (drop (Suc i) q)"
    using assms(3) by (metis filter.simps(2) filter_append)
  moreover have "q ! 0 \<in> set (take i q)" using assms(2) \<open>i \<noteq> 0\<close> by (simp add: in_set_conv_nth exI [of _ 0])
  ultimately have "filter w_pre (take i q) \<noteq> []" by (auto simp: filter_empty_conv)
  with \<open>filter w_pre q = _\<close> have "2 \<le> length (filter w_pre q)" by (cases "filter w_pre (take i q)") auto
  then show False using assms(1) by (simp add: queue_ok_def)
qed

lemma queue_ok_length:
  assumes "queue_ok q m"
  shows "length q \<le> m + 1"
proof -
  have "length q = length (filter w_pre q) + length (filter (\<lambda>w. \<not> w_pre w) q)"
    by (rule sum_length_filter_compl [symmetric])
  with assms show ?thesis by (simp add: queue_ok_def)
qed

text \<open>
  The queue (C4): nobody waits twice, waiters stand in order of priority and of arrival within a
  priority, a preempting waiter stands first and alone, and the queue holds at most one waiter more than
  the configured maximum (the preempting one, which is not subject to the limit).
\<close>

theorem floor_queue_discipline:
  "let q = queue (floor_run qm t es) in
     distinct (map w_u q) \<and> length q \<le> qm + 1 \<and>
     (\<forall>i j. i < j \<and> j < length q \<longrightarrow> w_pre (q ! i) \<or> w_p (q ! j) \<le> w_p (q ! i)) \<and>
     (\<forall>i < length q. w_pre (q ! i) \<longrightarrow> i = 0)"
proof -
  let ?q = "queue (floor_run qm t es)"
  have ok: "queue_ok ?q qm"
    using floor_inv_ledger(2) [OF arbiter.inv_run [of qm t es]] by (simp add: qmax_run)
  have "w_pre (?q ! i) \<or> w_p (?q ! j) \<le> w_p (?q ! i)" if "i < j" "j < length ?q" for i j
  proof -
    have "\<not> q_before (?q ! j) (?q ! i)" using ok that by (simp add: queue_ok_def sorted_wrt_iff_nth_less)
    then show ?thesis by (auto simp: q_before_def)
  qed
  then show ?thesis
    using ok queue_ok_pre_head [OF ok] queue_ok_length [OF ok] by (simp add: Let_def queue_ok_def)
qed

text \<open>
  The counters: the broadcast number, the repetition counters of the room and those of every
  participant stay within these bounds for ever, so no addition in the arbiter overflows.
\<close>

theorem floor_counters_bounded:
  "let f = floor_run qm t es; x = get_part f u in
     seq f < 65536 \<and> c7 f \<le> 10 \<and> c20 f \<le> 4 \<and> c8 x \<le> 3 \<and> c21 x \<le> 4"
  using floor_inv_ledger [OF arbiter.inv_run [of qm t es]]
    floor_inv_counts [OF arbiter.inv_run [of qm t es], of u]
  by (simp add: Let_def tidy_def counts_def)

text \<open>
  Every change of the holder is announced to the media plane: a step has at most one effect; without
  one the holder is the same as before, with \<open>Bind u\<close> it is \<open>u\<close>, with \<open>Release\<close> there is none.
\<close>

theorem floor_effects_complete:
  "let f = floor_run qm t es; c = floor_ctx f e in
     case fx (st c) of
       [] \<Rightarrow> holder (fl c) = holder f
     | [Bind u] \<Rightarrow> holder (fl c) = Some u
     | [Release _] \<Rightarrow> holder (fl c) = None
     | _ \<Rightarrow> False"
  using announced_ctx [OF arbiter.inv_run [of qm t es], of e] by (simp add: announced_def Let_def)

section \<open>Messages\<close>

lemma out_send: "\<exists>m. out (st (send u t a n d c)) = out (st c) @ [\<lparr>o_to = u, o_m = m\<rparr>] \<and> mt m = t \<and> mn m = n"
  by (simp add: send_def Let_def)

lemma out_send_subset [simp]: "set (out (st c)) \<subseteq> set (out (st (send u t a n d c)))"
  using out_send [of u t a n d c] by auto

lemma out_part_a_subset [simp]: "set (out (st c)) \<subseteq> set (out (st (part_a u ev c)))"
proof -
  have e: "set (out (st c)) \<subseteq> set (out (st (send_e v to m (lab l c))))" for v to m l
    using out_send_subset [of "enter_r v to (lab l c)"] by (simp add: send_e_def)
  have s: "set (out (st c)) \<subseteq> set (out (st (send v t a n d (lab l c))))" for v t a n d l
    using out_send_subset [of "lab l c"] by simp
  have e2: "set (out (st c)) \<subseteq> set (out (st (send_e v to m (upd k (lab l c)))))" for v to m l k
    using out_send_subset [of "enter_r v to (upd k (lab l c))"] by (simp add: send_e_def)
  have s2: "set (out (st c)) \<subseteq> set (out (st (send v t a n d (upd k (lab l c)))))" for v t a n d l k
    using out_send_subset [of "upd k (lab l c)"] by simp
  show ?thesis
    unfolding part_a_def Let_def
    by (rule p_option_cases [of "part_of (fl c) u"]; cases "mt ev"; simp add: e s e2 s2)
qed

lemma out_fan_subset [simp]: "set (out (st c)) \<subseteq> set (out (st (fan ev skip c)))"
proof -
  have "set (out (st c)) \<subseteq> set (out (st (fold (\<lambda>u. part_a u ev) us c)))" for us ev and c :: ctx
    by (induction us arbitrary: c) (auto dest: subsetD [OF out_part_a_subset])
  from this [of "upd bump_seq c"] this [of c] show ?thesis by (simp add: fan_def Let_def)
qed

lemma out_enter_taken_subset: "set (out (st c)) \<subseteq> set (out (st (enter_taken c)))"
  by (simp add: enter_taken_def Let_def)
    (use out_fan_subset out_part_a_subset in \<open>fastforce\<close>)

lemma out_idle_enter_subset: "set (out (st c)) \<subseteq> set (out (st (idle_enter c)))"
proof (cases "queue (fl c)")
  case Nil
  then show ?thesis
    by (simp add: idle_enter_def Let_def) (rule subset_trans [OF _ out_fan_subset], simp)
next
  case (Cons w ws)
  then show ?thesis
    by (simp add: idle_enter_def Let_def) (rule subset_trans [OF _ out_enter_taken_subset], simp)
qed

text \<open>
  \<open>RELEASE\<close> is always acknowledged: whatever the room's and the member's state, the answer to a
  member's \<open>RELEASE\<close> contains an \<open>ACK\<close> of it.
\<close>

theorem release_acked:
  assumes "u \<in> set (members f)" and "mt m = MRelease"
  shows "\<exists>o' \<in> set (out (st (server_rx u m half k f))). o_to o' = u \<and> mt (o_m o') = MAck \<and> mn (o_m o') = 4"
proof -
  define acked where "acked c \<longleftrightarrow> (\<exists>o' \<in> set (out (st c)). o_to o' = u \<and> mt (o_m o') = MAck \<and> mn (o_m o') = 4)"
    for c :: ctx
  have sent: "acked (send u MAck None RELEASE_TYPE 0 c)" for c
    using out_send [of u MAck None RELEASE_TYPE 0 c] by (auto simp: acked_def RELEASE_TYPE_def)
  have mono: "acked c'" if "acked c" "set (out (st c)) \<subseteq> set (out (st c'))" for c c'
    using that by (auto simp: acked_def)
  have keep: "acked (send u t a n d c)" "acked (upd h c)" "acked (lab l c)" "acked (send_e u to m' c)"
      "acked (arb_rel u c)" if "acked c" for c t a n d h l to m'
  proof -
    show *: "acked (send u t a n d c)" "acked (upd h c)" "acked (lab l c)" for t a n d h l
      using that by (auto intro: mono simp: acked_def dest: subsetD [OF out_send_subset])
    have "acked (enter_r u to c)" using that by (simp add: acked_def)
    then show "acked (send_e u to m' c)"
      unfolding send_e_def Let_def by (rule mono) (rule out_send_subset)
    have "acked (idle_enter c')" if "acked c'" for c' using that by (rule mono) (rule out_idle_enter_subset)
    then show "acked (arb_rel u c)"
      using that by (auto simp: arb_rel_def acked_def)
  qed
  have "acked (part_c u m k c)" for c
    using assms(2) by (rule_tac p_option_cases [of "part_of (fl c) u"]) (simp_all add: part_c_def Let_def keep sent)
  then show ?thesis using assms by (simp add: server_rx_def acked_def Let_def)
qed

theorem release_acked_witness:
  "\<exists>o' \<in> set (out (st (server_rx ''b'' (msg_new MRelease None 0 0) True 0 (floor_run 10 30 demo_grant)))).
     o_to o' = ''b'' \<and> mt (o_m o') = MAck \<and> mn (o_m o') = 4"
  by (rule release_acked)
    (simp_all add: demo_grant_def floor_exec cong: floor_exec_cong del: get_part_set get_part_upd)

section \<open>Requests\<close>

text \<open>The gates in front of a request, in one condition.\<close>

definition may_request :: "floor \<Rightarrow> user \<Rightarrow> bool \<Rightarrow> bool" where
  "may_request f u half \<longleftrightarrow> u \<in> set (members f) \<and> half \<and> pub_room (get_part f u) \<and> perm (get_part f u)"

lemma server_rx_request:
  assumes "mt m = MRequest"
  shows "may_request f u half \<Longrightarrow> server_rx u m half k f = part_c u m k (begin_step f)"
    and "\<not> may_request f u half \<Longrightarrow> fl (server_rx u m half k f) = f"
  using assms by (auto simp: server_rx_def may_request_def Let_def fl_send)

text \<open>
  Requesting an idle floor: the requester holds the floor afterwards if and only if it passes the
  gates, is not sending out of turn, is not alone in the room and is not held back for having spoken too
  long; otherwise the floor stays idle.
\<close>

theorem request_idle_floor:
  assumes "f = floor_run qm t es" and "holder f = None" and "mt m = MRequest"
  shows "holder (fl (server_rx u m half k f)) =
    (if may_request f u half \<and> part_of f u = Some NpIdle \<and> 2 \<le> length (members f) \<and> \<not> retry (get_part f u)
     then Some u else None)"
proof -
  have inv: "floor_inv f" using arbiter.inv_run assms(1) by simp
  have idle: "g f = GIdle" using assms(2) inv holder_None_iff by (simp add: floor_inv_def)
  show ?thesis
  proof (cases "may_request f u half")
    case True
    then have u: "u \<in> set (members f)" by (simp add: may_request_def)
    from floor_inv_agrees [OF inv u] idle have "part_of f u = Some NpIdle \<or> part_of f u = Some NpSends"
      by (rule_tac p_option_cases [of "part (get_part f u)"]) (auto simp: agrees_def part_of_get)
    moreover have "alone f \<longleftrightarrow> \<not> 2 \<le> length (members f)" by (auto simp: alone_def)
    ultimately show ?thesis
      using True idle assms(2,3)
      by (auto simp: server_rx_request part_c_def arb_req_idle_def Let_def holder_def)
  next
    case False
    then show ?thesis using assms(2,3) by (simp add: server_rx_request)
  qed
qed

theorem request_idle_floor_witness:
  "holder (fl (server_rx ''a'' (msg_new MRequest None 5 0) True 0 (floor_run 10 30 (take 4 demo_grant)))) = Some ''a''"
proof -
  have "holder (floor_run 10 30 (take 4 demo_grant)) = None"
    "may_request (floor_run 10 30 (take 4 demo_grant)) ''a'' True \<and>
     part_of (floor_run 10 30 (take 4 demo_grant)) ''a'' = Some NpIdle \<and>
     2 \<le> length (members (floor_run 10 30 (take 4 demo_grant))) \<and>
     \<not> retry (get_part (floor_run 10 30 (take 4 demo_grant)) ''a'')"
    by (simp_all add: demo_grant_def may_request_def floor_exec cong: floor_exec_cong del: get_part_set get_part_upd)
  then show ?thesis
    using request_idle_floor [OF refl, of 10 30 "take 4 demo_grant" "msg_new MRequest None 5 0" "''a''" True 0]
    by (simp add: msg_new_def)
qed

text \<open>
  Requesting a held floor: the speaker is never replaced at once. It is asked to stop if and only if
  the request passes the gates, comes from a participant told the floor is taken that neither waits nor is
  held back, has a strictly higher priority than the speaker, and no other preemption is pending; the
  preempting participant then stands first in the queue.
\<close>

theorem request_held_floor:
  assumes "f = floor_run qm t es" and "g f = GTaken" and "speaker f = Some s" and "mt m = MRequest"
    and "f' = fl (server_rx u m half k f)"
  shows "holder f' = Some s \<and> (g f' = GPrevoke \<longleftrightarrow> may_request f u half \<and> part_of f u = Some NpTaken
      \<and> \<not> retry (get_part f u) \<and> \<not> in_q f u \<and> sprio f < mn m \<and> \<not> pre_q f)
      \<and> (g f' = GPrevoke \<longrightarrow> queue f' = \<lparr>w_u = u, w_p = mn m, w_pre = True\<rparr> # queue f)"
proof (cases "may_request f u half")
  case True
  have inv: "floor_inv f" using arbiter.inv_run assms(1) by simp
  have u: "u \<in> set (members f)" using True by (simp add: may_request_def)
  have f': "f' = fl (part_c u m k (begin_step f))" using True assms(4,5) by (simp add: server_rx_request)
  show ?thesis
  proof (rule p_option_cases [of "part (get_part f u)"])
    assume "part (get_part f u) = Some NpTaken"
    with True show ?thesis unfolding f' using assms(2-4)
      by (auto simp: part_c_def part_of_get Let_def taken_req_def arb_preempt_def prevoke_enter_def
        holder_prio_def fl_send holder_def insert_q_def)
  qed (use True floor_inv_agrees [OF inv u] assms(2-4) in
    \<open>auto simp: f' part_c_def part_of_get Let_def agrees_def arb_req_permitted_def holder_def\<close>)
next
  case False
  then show ?thesis using assms by (simp add: server_rx_request holder_def)
qed

theorem request_held_floor_witness:
  "\<exists>f'. f' = fl (server_rx ''b'' (msg_new MRequest None 9 0) True 0 (floor_run 10 30 demo_grant)) \<and>
     holder f' = Some ''a'' \<and> g f' = GPrevoke"
proof -
  let ?f = "floor_run 10 30 demo_grant"
  have "g ?f = GTaken" "speaker ?f = Some ''a''" "mt (msg_new MRequest None 9 0) = MRequest"
    "may_request ?f ''b'' True \<and> part_of ?f ''b'' = Some NpTaken \<and> \<not> retry (get_part ?f ''b'')
      \<and> \<not> in_q ?f ''b'' \<and> sprio ?f < mn (msg_new MRequest None 9 0) \<and> \<not> pre_q ?f"
    by (simp_all add: demo_grant_def may_request_def floor_exec cong: floor_exec_cong del: get_part_set get_part_upd)
  from request_held_floor [OF refl this(1-3) refl, of "''b''" True 0] this(4) show ?thesis by blast
qed

section \<open>Handing the floor on\<close>

text \<open>
  The events by which a holder gives the floor up or loses it: its \<open>RELEASE\<close> while it is permitted or asked to
  stop, \<open>T1\<close>, \<open>T3\<close> while it is asked to stop, its leaving or moving its publishing elsewhere while it speaks, and
  its joining again while it is asked to stop.
\<close>

definition gives_up :: "floor \<Rightarrow> user \<Rightarrow> event \<Rightarrow> bool" where
  "gives_up f h e =
     (case e of
        Timer n u \<Rightarrow> u = None \<and> (n = ''T1'' \<or> n = ''T3'' \<and> g f = GPrevoke)
      | ServerRx u m _ _ \<Rightarrow> u = h \<and> mt m = MRelease \<and> part_of f h \<in> {Some Permitted, Some PPrevoke}
      | Leave u \<Rightarrow> u = h \<and> g f = GTaken
      | PubAway u \<Rightarrow> u = h \<and> g f = GTaken
      | Join u _ \<Rightarrow> u = h \<and> g f = GPrevoke
      | _ \<Rightarrow> False)"

text \<open>What the hand-over must do.\<close>

definition hands_on :: "waiter list \<Rightarrow> user \<Rightarrow> ctx \<Rightarrow> bool" where
  "hands_on q h c =
     (case q of
        [] \<Rightarrow> holder (fl c) = None \<and> queue (fl c) = [] \<and> fx (st c) = [Release (Some h)]
      | w # ws \<Rightarrow> holder (fl c) = Some (w_u w) \<and> queue (fl c) = ws \<and> fx (st c) = [Bind (w_u w)])"

lemma hands_on_idle_enter:
  assumes "fx (st c) = []" and "prev (fl c) = Some h"
  shows "hands_on (queue (fl c)) h (idle_enter c)"
  using assms by (cases "queue (fl c)") (simp_all add: hands_on_def idle_enter_def Let_def holder_def)

lemma hands_on_cong:
  "fx (st c') = fx (st c) \<Longrightarrow> holder (fl c') = holder (fl c) \<Longrightarrow> queue (fl c') = queue (fl c)
    \<Longrightarrow> hands_on q h c' = hands_on q h c"
  by (simp add: hands_on_def split: list.split)

text \<open>Every other event leaves the floor where it is.\<close>

lemma quiet_part_c:
  assumes inv: "floor_inv (fl c)" and u: "u \<in> set (members (fl c))" and q: "quiet (Some h) c"
    and no: "\<not> (u = h \<and> mt ev = MRelease \<and> part_of (fl c) h \<in> {Some Permitted, Some PPrevoke})"
  shows "quiet (Some h) (part_c u ev k c)"
proof -
  have arb: "arb_ok (fl c)" using inv by (simp add: floor_inv_def)
  have g: "g (fl c) \<noteq> GIdle" using q by (auto simp: quiet_def holder_def)
  have h: "u = h" if "part (get_part (fl c) u) = Some Permitted \<or> part (get_part (fl c) u) = Some PPrevoke"
    using speaking_is_holder [OF inv, of u] that q by (auto simp: part_of_get quiet_def)
  have tr: "quiet (Some h) (taken_req u p c')" if "quiet (Some h) c'" "arb_ok (fl c')" for c' p
    using that by (auto simp: taken_req_def Let_def announced_arb)
  show ?thesis
  proof (rule p_option_cases [of "part (get_part (fl c) u)"])
    assume "part (get_part (fl c) u) = Some NpIdle"
    then show ?thesis using floor_inv_agrees [OF inv u] g by (simp add: agrees_def)
  next
    assume "part (get_part (fl c) u) = Some NpTaken"
    then show ?thesis using q arb tr
      by (cases "mt ev") (simp_all add: part_c_def part_of_get Let_def revoke3_def)
  next
    assume st: "part (get_part (fl c) u) = Some Permitted"
    then have "mt ev \<noteq> MRelease" using h no by (auto simp: part_of_get)
    then show ?thesis using st q arb
      by (cases "mt ev") (simp_all add: part_c_def part_of_get Let_def announced_arb)
  next
    assume st: "part (get_part (fl c) u) = Some PPrevoke"
    then have "mt ev \<noteq> MRelease" using h no by (auto simp: part_of_get)
    then show ?thesis using st q arb
      by (cases "mt ev") (simp_all add: part_c_def part_of_get Let_def announced_arb)
  next
    assume "part (get_part (fl c) u) = Some NpSends"
    then show ?thesis using q by (cases "mt ev") (simp_all add: part_c_def part_of_get Let_def)
  qed (use floor_inv_agrees [OF inv u] in \<open>simp_all add: agrees_def\<close>)
qed

lemma quiet_fire:
  assumes inv: "floor_inv f" and h: "holder f = Some h" and "fire_armed name user f = Some c" and no: "\<not> gives_up f h (Timer name user)"
  shows "quiet (Some h) c"
proof -
  have sp: "\<exists>sp. speaker f = Some sp" if "g f = GTaken"
    using inv that by (auto simp: floor_inv_def arb_ok_def)
  have "quiet (Some h) (t2 f)" if "g f = GTaken"
    using sp [OF that] that h by (auto simp: t2_def Let_def intro!: quiet_prevoke_enter)
  moreover have "quiet (Some h) (t20 f)" "quiet (Some h) (t7 f)" "quiet (Some h) (t8 u f)" "quiet (Some h) (t21 u f)"
      "quiet (Some h) (t9 u f)" for u
    using h by (simp_all add: t7_def t20_def t8_def t21_def t9_def Let_def) (simp_all add: quiet_def)
  ultimately show ?thesis
    using assms(3) no by (auto simp: fire_armed_def fire_def Let_def armed_server_def armed_participant_iff gives_up_def
      split: if_splits)
qed

lemma quiet_ctx:
  assumes inv: "floor_inv f" and h: "holder f = Some h" and no: "\<not> gives_up f h e"
  shows "quiet (Some h) (floor_ctx f e)"
proof -
  have gsp: "g f = GTaken \<and> speaker f = Some h \<or> g f = GPrevoke \<and> revoking f = Some h"
    using h by (auto simp: holder_def split: g.splits)
  show ?thesis
  proof (cases e)
    case (Timer name user)
    then show ?thesis using quiet_fire [OF inv h] no h by (auto simp: floor_ctx_def split: option.split)
  next
    case (PermDown u)
    then show ?thesis using h by (auto simp: floor_ctx_def perm_down_def Let_def intro!: quiet_prevoke_enter)
  next
    case (Join u pm)
    then have "\<not> (g f = GPrevoke \<and> revoking f = Some u)" using no gsp by (auto simp: gives_up_def)
    then have no: "(if g (fl (begin_step f)) = GPrevoke \<and> revoking (fl (begin_step f)) = Some u then c else c') = c'" for c c' :: ctx
      by auto
    have "quiet (Some h) (ws_join u pm f)"
      unfolding ws_join_def Let_def no using h by (simp add: quiet_def)
    with Join show ?thesis by (simp add: floor_ctx_def)
  next
    case (ServerRx u m half k)
    show ?thesis
    proof (cases "u \<in> set (members f)")
      case True
      have "quiet (Some h) (part_c u m k (begin_step f))"
        by (rule quiet_part_c) (use inv h no True ServerRx in \<open>auto simp: gives_up_def\<close>)
      then show ?thesis using h ServerRx by (simp add: floor_ctx_def server_rx_def Let_def)
    qed (use h ServerRx in \<open>simp add: floor_ctx_def server_rx_def Let_def\<close>)
  next
    case (RtpIn u)
    have "quiet (Some h) (part_c u (msg_new MRtp None 0 0) 0 (begin_step f))" if "u \<in> set (members f)"
      by (rule quiet_part_c) (use inv h that in \<open>simp_all add: msg_new_def\<close>)
    then show ?thesis using h RtpIn by (simp add: floor_ctx_def rtp_def)
  next
    case (Leave u)
    then have "\<not> (g f = GTaken \<and> speaker f = Some u)" using no gsp by (auto simp: gives_up_def)
    with h Leave show ?thesis by (auto simp: floor_ctx_def ws_leave_def away_def Let_def quiet_def)
  next
    case (PubAway u)
    then have "\<not> (g f = GTaken \<and> speaker f = Some u)" using no gsp by (auto simp: gives_up_def)
    with h PubAway show ?thesis by (auto simp: floor_ctx_def ws_pub_away_def away_def quiet_def)
  qed (use h in \<open>simp_all add: floor_ctx_def ready_def perm_up_def ws_pub_select_def Let_def\<close>)
qed

text \<open>
  Hand-over (C38): the floor changes hands exactly by the holder's \<open>RELEASE\<close> while it is permitted or asked to stop,
  by \<open>T1\<close>, by \<open>T3\<close> while it is asked to stop, by its leaving or moving its publishing while it speaks and by its
  joining again while it is asked to stop; then the first waiter holds the floor, is removed from the queue and is
  bound to the media slot, and with nobody waiting the floor is idle and the slot is released. Every other event
  leaves the holder and the slot as they are; in particular a holder asked to stop that leaves the room or moves its
  publishing keeps the floor until a timer or its return ends it.
\<close>

theorem floor_handed_on:
  assumes "f = floor_run qm t es" and "holder f = Some h"
  shows "if gives_up f h e then hands_on (queue f) h (floor_ctx f e)
    else holder (floor_step f e) = Some h \<and> fx (st (floor_ctx f e)) = []"
proof (cases "gives_up f h e")
  case gu: True
  have inv: "floor_inv f" using arbiter.inv_run assms(1) by simp
  then have gsp: "g f = GTaken \<and> speaker f = Some h \<or> g f = GPrevoke \<and> revoking f = Some h"
    using assms(2) by (auto simp: holder_def split: g.splits)
  have idle: "hands_on (queue f) h (idle_enter c)"
    if "fx (st c) = []" "prev (fl c) = Some h" "queue (fl c) = queue f" for c
    using hands_on_idle_enter [of c h] that by simp
  have "hands_on (queue f) h (floor_ctx f e)"
  proof (cases e)
    case (ServerRx u m half k)
    then have u: "u = h" "mt m = MRelease" "part_of f h = Some Permitted \<or> part_of f h = Some PPrevoke"
      using gu by (auto simp: gives_up_def)
    then have "h \<in> set (members f)"
      using floor_inv_outside [OF inv, of h] by (fastforce simp: part_of_get outside_def)
    with u gsp ServerRx show ?thesis
      by (auto simp: floor_ctx_def server_rx_def part_c_def arb_rel_def Let_def fl_send intro!: idle)
  next
    case (Leave u)
    have "hands_on (queue f) h (away h (upd (set_part h (\<lambda>x. x\<lparr>pub_room := False\<rparr>)) (lab l (begin_step f))))" for l
      using gsp gu Leave by (auto simp: away_def gives_up_def intro!: idle)
    from this [of L_ws_leave] show ?thesis
      using gu Leave by (subst hands_on_cong) (simp_all add: floor_ctx_def ws_leave_def Let_def gives_up_def)
  next
    case (Join u pm)
    then have u: "u = h" "g f = GPrevoke" "revoking f = Some h" using gu gsp by (auto simp: gives_up_def)
    have "hands_on (queue f) h (idle_enter (upd (\<lambda>f. f\<lparr>prev := revoking f\<rparr>) (lab L_ws_join_revoking (begin_step f))))"
      by (rule idle) (simp_all add: u)
    then show ?thesis
      using u Join by (subst hands_on_cong) (simp_all add: floor_ctx_def ws_join_def Let_def)
  next
    case (PubAway u)
    then show ?thesis
      using gsp gu by (auto simp: floor_ctx_def ws_pub_away_def away_def gives_up_def intro!: idle)
  next
    case (Timer n u)
    then show ?thesis
      using gsp gu
      by (auto simp: floor_ctx_def fire_armed_def fire_def armed_server_def t1_def t3_def gives_up_def Let_def
        intro!: idle)
  qed (use gu in \<open>simp_all add: gives_up_def\<close>)
  with gu show ?thesis by simp
next
  case False
  have "floor_inv f" using arbiter.inv_run assms(1) by simp
  from quiet_ctx [OF this assms(2) False] False show ?thesis by (simp add: quiet_def floor_step_def)
qed

text \<open>The silent speaker \<open>a\<close> hands on; asked to stop, it keeps the floor although it leaves the room.\<close>

theorem floor_handed_on_witness:
  "hands_on (queue (floor_run 10 30 demo_grant)) ''a'' (floor_ctx (floor_run 10 30 demo_grant) (Timer ''T1'' None))
   \<and> holder (floor_step (floor_run 10 30 (demo_grant @ [PermDown ''a''])) (Leave ''a'')) = Some ''a''"
proof -
  have "holder (floor_run 10 30 demo_grant) = Some ''a''" "holder (floor_run 10 30 (demo_grant @ [PermDown ''a''])) = Some ''a''"
    "gives_up (floor_run 10 30 demo_grant) ''a'' (Timer ''T1'' None)"
    "\<not> gives_up (floor_run 10 30 (demo_grant @ [PermDown ''a''])) ''a'' (Leave ''a'')"
    by (simp_all add: gives_up_def demo_grant_def floor_exec cong: floor_exec_cong del: get_part_set get_part_upd)
  with floor_handed_on [OF refl this(1), of "Timer ''T1'' None"] floor_handed_on [OF refl this(2), of "Leave ''a''"]
  show ?thesis by (auto split: if_splits)
qed

text \<open>
  Who holds the floor is there and knows it: as long as no queued participant sends media and nobody
  joins a room it is in, the speaker is always a member in \<open>Permitted\<close> and every waiter a member in
  \<open>NpTaken\<close>.
\<close>

theorem floor_holder_speaks:
  assumes "admits floor_step behaves (floor_new qm t) es" and "f = floor_run qm t es"
  shows "(\<forall>u. speaker f = Some u \<longrightarrow> u \<in> set (members f) \<and> part_of f u = Some Permitted)
    \<and> (\<forall>w \<in> set (queue f). w_u w \<in> set (members f) \<and> part_of f (w_u w) = Some NpTaken)"
  using orderly.strict_run [OF assms(1)] by (auto simp: assms(2) strict_def part_of_get)

theorem floor_holder_speaks_witness:
  "\<exists>f. f = floor_run 10 30 demo_grant \<and> speaker f = Some ''a'' \<and> part_of f ''a'' = Some Permitted"
proof -
  have "admits floor_step behaves (floor_new 10 30) demo_grant" "speaker (floor_run 10 30 demo_grant) = Some ''a''"
    by (simp_all add: demo_grant_def behaves_def floor_exec cong: floor_exec_cong del: get_part_set get_part_upd)
  from floor_holder_speaks [OF this(1) refl] this(2) show ?thesis by blast
qed

text \<open>
  Without the condition on queued participants the above fails: \<open>b\<close> is queued, sends media (it is
  told \<open>REVOKE\<close> but stays in the queue), is handed the floor without being told so, queues again behind
  itself, and when it leaves the room the floor is handed back to it: the speaker is not a member.
\<close>

definition demo_queued_rtp :: "event list" where
  "demo_queued_rtp = [Join ''a'' True, Join ''b'' True, Join ''c'' True, PubSelect ''a'', PubSelect ''b'',
     ServerRx ''a'' (msg_new MRequest None 5 0) True 0,
     ServerRx ''b'' (msg_new MRequest None 5 0) True 0,
     RtpIn ''b'',
     ServerRx ''a'' (msg_new MRelease None 0 0) True 0,
     ServerRx ''b'' (msg_new MRelease None 0 0) True 0,
     ServerRx ''b'' (msg_new MRequest None 5 0) True 0,
     Leave ''b'']"

theorem floor_speaker_outside_room:
  "let f = floor_run 10 30 demo_queued_rtp in speaker f = Some ''b'' \<and> members f = [''a'', ''c'']"
  by (simp add: demo_queued_rtp_def floor_exec cong: floor_exec_cong del: get_part_set get_part_upd)

text \<open>
  The queue can exceed its configured maximum: with room for one waiter, a normal request and then a
  preempting one leave two in the queue.
\<close>

definition demo_full_queue :: "event list" where
  "demo_full_queue = [Join ''a'' True, Join ''b'' True, Join ''c'' True, PubSelect ''a'', PubSelect ''b'',
     PubSelect ''c'', ServerRx ''a'' (msg_new MRequest None 5 0) True 0,
     ServerRx ''b'' (msg_new MRequest None 5 0) True 0,
     ServerRx ''c'' (msg_new MRequest None 9 0) True 0]"

theorem floor_queue_over_limit:
  "let f = floor_run 1 30 demo_full_queue in qmax f = 1 \<and> length (queue f) = 2"
  by (simp add: demo_full_queue_def floor_exec cong: floor_exec_cong del: get_part_set get_part_upd)

theorem floor_queue_discipline_witness:
  "let q = queue (floor_run 1 30 demo_full_queue) in
     length q = 2 \<and> (w_pre (q ! 0) \<or> w_p (q ! 1) \<le> w_p (q ! 0)) \<and> \<not> w_pre (q ! 1)"
proof -
  define q where "q = queue (floor_run 1 30 demo_full_queue)"
  have len: "length q = 2"
    by (simp add: q_def demo_full_queue_def floor_exec cong: floor_exec_cong del: get_part_set get_part_upd)
  have disc: "\<forall>i j. i < j \<and> j < length q \<longrightarrow> w_pre (q ! i) \<or> w_p (q ! j) \<le> w_p (q ! i)"
    "\<forall>i < length q. w_pre (q ! i) \<longrightarrow> i = 0"
    using floor_queue_discipline [of 1 30 demo_full_queue] unfolding Let_def q_def by blast+
  have "w_pre (q ! 0) \<or> w_p (q ! 1) \<le> w_p (q ! 0)"
    by (rule disc(1) [rule_format]) (simp add: len)
  moreover have "\<not> w_pre (q ! 1)"
  proof
    assume "w_pre (q ! 1)"
    from disc(2) [rule_format, OF _ this] show False by (simp add: len)
  qed
  ultimately show ?thesis unfolding Let_def q_def [symmetric] using len by blast
qed

section \<open>Broadcast numbers\<close>

lemma out_told:
  assumes "mt ev = MTaken \<or> mt ev = MIdle" and "mq ev \<noteq> 0"
  shows "seq (fl (part_a u ev c)) = seq (fl c)"
    and "\<forall>o' \<in> set (out (st (part_a u ev c))). o' \<in> set (out (st c)) \<or> mt (o_m o') = mt ev \<and> mq (o_m o') = mq ev"
  using assms
  by (rule_tac [!] p_option_cases [of "part (get_part (fl c) u)"])
    (auto simp: part_a_def part_of_get Let_def send_e_def send_def msg_new_def)

lemma out_told_fold:
  assumes "mt ev = MTaken \<or> mt ev = MIdle" and "mq ev \<noteq> 0"
  shows "seq (fl (fold (\<lambda>u. part_a u ev) us c)) = seq (fl c)"
    and "\<forall>o' \<in> set (out (st (fold (\<lambda>u. part_a u ev) us c))).
      o' \<in> set (out (st c)) \<or> mt (o_m o') = mt ev \<and> mq (o_m o') = mq ev"
proof (induction us arbitrary: c)
  case (Cons u us)
  {
    case 1
    then show ?case using Cons(1) out_told(1) [OF assms] by simp
  next
    case 2
    then show ?case using Cons(2) [of "part_a u ev c"] out_told(2) [OF assms, of u c] by auto
  }
qed simp_all

text \<open>
  One broadcast, one number: as long as the number does not wrap, every \<open>TAKEN\<close> or \<open>IDLE\<close> of one
  broadcast carries the same, next number, and the room's number advances by exactly one.
\<close>

theorem fan_one_number:
  assumes "mt ev = MTaken \<or> mt ev = MIdle" and "seq (fl c) + 1 < 65536"
  shows "seq (fl (fan ev skip c)) = seq (fl c) + 1 \<and>
    (\<forall>o' \<in> set (out (st (fan ev skip c))). o' \<in> set (out (st c)) \<or>
       mt (o_m o') = mt ev \<and> mq (o_m o') = seq (fl c) + 1)"
  using assms out_told_fold [of "ev\<lparr>mq := seq (fl c) + 1\<rparr>" _ "upd bump_seq c"]
  by (simp add: fan_def Let_def SEQ_WRAP_def)

theorem fan_one_number_witness:
  "seq (fl (fan (msg_new MIdle None 0 0) None (begin_step (floor_run 10 30 demo_grant)))) =
     seq (floor_run 10 30 demo_grant) + 1"
proof -
  have "seq (fl (begin_step (floor_run 10 30 demo_grant))) + 1 < 65536"
    by (simp add: demo_grant_def floor_exec cong: floor_exec_cong del: get_part_set get_part_upd)
  from fan_one_number [OF _ this, of "msg_new MIdle None 0 0" None] show ?thesis by (simp add: msg_new_def)
qed

lemma ready_run:
  assumes "holder f = None" and "seq f < 65536"
  shows "run_from floor_step f (replicate n (Ready u)) = f\<lparr>seq := (seq f + n) mod 65536\<rparr>"
  using assms
proof (induction n arbitrary: f)
  case (Suc n)
  have "floor_step f (Ready u) = bump_seq f"
    using Suc.prems by (simp add: floor_step_def floor_ctx_def ready_def fl_send)
  moreover have "run_from floor_step (bump_seq f) (replicate n (Ready u))
      = (bump_seq f)\<lparr>seq := (seq (bump_seq f) + n) mod 65536\<rparr>"
    by (rule Suc.IH) (use Suc.prems in \<open>simp_all add: SEQ_WRAP_def\<close>)
  ultimately show ?case
    by (simp add: bump_seq_def SEQ_WRAP_def mod_simps)
qed simp

text \<open>
  At the wrap one broadcast carries several numbers: in a room of three whose number has reached
  65535, the grant to \<open>a\<close> tells \<open>b\<close> number 1 and \<open>c\<close> number 2, and nobody number 0.
\<close>

definition demo_wrap :: "event list" where
  "demo_wrap = [Join ''a'' True, Join ''b'' True, Join ''c'' True, PubSelect ''a''] @ replicate 65535 (Ready ''a'')"

theorem floor_wrap_splits_broadcast:
  "map (\<lambda>o'. (o_to o', mt (o_m o'), mq (o_m o')))
     (out (st (floor_ctx (floor_run 10 30 demo_wrap) (ServerRx ''a'' (msg_new MRequest None 5 0) True 0))))
   = [(''a'', MGranted, 0), (''b'', MTaken, 1), (''c'', MTaken, 2)]"
proof -
  define f0 where "f0 = floor_run 10 30 [Join ''a'' True, Join ''b'' True, Join ''c'' True, PubSelect ''a'']"
  have f0: "holder f0 = None" "seq f0 = 0"
    by (simp_all add: f0_def floor_exec cong: floor_exec_cong del: get_part_set get_part_upd)
  have "floor_run 10 30 demo_wrap = f0\<lparr>seq := 65535\<rparr>"
    unfolding demo_wrap_def run_from_append f0_def [symmetric] using f0 by (subst ready_run) simp_all
  then show ?thesis
    by (simp add: f0_def floor_exec cong: floor_exec_cong del: get_part_set get_part_upd)
qed

end
