(* ===== verification/Floor_Bind.thy ===== *)
theory Floor_Bind
  imports Main
begin

text \<open>
  The media slot of a room (\<open>oxsfud/src/flr/bind.rs\<close>): which user's media the slot carries. Effects are
  decided under the room lock, each with the number of the grant it belongs to, and applied outside it,
  in any order. The lemmas show that the order does not matter.
\<close>

section \<open>The slot\<close>

datatype 'u effect = EBind 'u nat | ERelease nat

record 'u slot =
  bound :: "('u \<times> nat) option"
  max_seen :: "nat option"

definition slot_default :: "'u slot" where
  "slot_default = \<lparr>bound = None, max_seen = None\<rparr>"

definition slot_apply :: "'u effect \<Rightarrow> 'u slot \<Rightarrow> 'u slot \<times> bool" where
  "slot_apply e s =
     (case e of
        EBind user g \<Rightarrow>
          if (case max_seen s of Some m \<Rightarrow> g \<le> m | None \<Rightarrow> False) then (s, False)
          else (s\<lparr>max_seen := Some g, bound := Some (user, g)\<rparr>, True)
      | ERelease g \<Rightarrow>
          (let s' = s\<lparr>max_seen := Some (case max_seen s of None \<Rightarrow> g | Some m \<Rightarrow> max m g)\<rparr> in
           case bound s' of
             Some (_, b) \<Rightarrow> if b \<le> g then (s'\<lparr>bound := None\<rparr>, True) else (s', False)
           | None \<Rightarrow> (s', False)))"

definition slot_speaker :: "'u slot \<Rightarrow> 'u option" where
  "slot_speaker s = map_option fst (bound s)"

definition apply_all :: "'u effect list \<Rightarrow> 'u slot" where
  "apply_all es = fold (\<lambda>e s. fst (slot_apply e s)) es slot_default"

lemma apply_all_snoc [simp]: "apply_all (es @ [e]) = fst (slot_apply e (apply_all es))"
  by (simp add: apply_all_def)

lemma apply_all_Nil [simp]: "apply_all [] = slot_default"
  by (simp add: apply_all_def)

section \<open>What the slot holds, from the set of effects alone\<close>

fun grant_of :: "'u effect \<Rightarrow> nat" where
  "grant_of (EBind _ g) = g"
| "grant_of (ERelease g) = g"

text \<open>A grant number belongs to one user.\<close>

definition consistent :: "'u effect set \<Rightarrow> bool" where
  "consistent E \<longleftrightarrow> (\<forall>u v g. EBind u g \<in> E \<longrightarrow> EBind v g \<in> E \<longrightarrow> u = v)"

text \<open>The slot holds the user of the last grant, unless that grant was released.\<close>

definition wins :: "'u effect set \<Rightarrow> 'u \<Rightarrow> nat \<Rightarrow> bool" where
  "wins E u b \<longleftrightarrow> EBind u b \<in> E \<and> (\<forall>e \<in> E. grant_of e \<le> b) \<and> ERelease b \<notin> E"

lemma slot_apply_max:
  "max_seen (fst (slot_apply e s)) = Some (case max_seen s of None \<Rightarrow> grant_of e | Some m \<Rightarrow> max m (grant_of e))"
  by (cases e) (auto simp: slot_apply_def Let_def max_def split: option.split prod.split)

lemma apply_all_max:
  "max_seen (apply_all es) = (if es = [] then None else Some (Max (grant_of ` set es)))"
proof (induction es rule: rev_induct)
  case (snoc e es)
  show ?case
  proof (cases "es = []")
    case False
    then have "Max (insert (grant_of e) (grant_of ` set es)) = max (grant_of e) (Max (grant_of ` set es))"
      by (intro Max_insert) auto
    then show ?thesis using snoc False by (simp add: slot_apply_max max.commute del: Max_insert)
  qed (simp add: slot_apply_max slot_default_def apply_all_def)
qed (simp add: slot_default_def)

lemma apply_all_max_le: "e \<in> set es \<Longrightarrow> \<exists>m. max_seen (apply_all es) = Some m \<and> grant_of e \<le> m"
  by (auto simp: apply_all_max intro: Max_ge)

lemma apply_all_max_attained: "max_seen (apply_all es) = Some m \<Longrightarrow> \<exists>e \<in> set es. grant_of e = m"
proof -
  assume m: "max_seen (apply_all es) = Some m"
  then have "es \<noteq> []" "m = Max (grant_of ` set es)" by (auto simp: apply_all_max split: if_splits)
  then have "m \<in> grant_of ` set es" by (simp add: Max_in)
  then show ?thesis by blast
qed

lemma apply_all_bound:
  assumes "consistent (set es)"
  shows "bound (apply_all es) = Some (u, b) \<longleftrightarrow> wins (set es) u b"
  using assms
proof (induction es arbitrary: u b rule: rev_induct)
  case Nil
  then show ?case by (simp add: slot_default_def wins_def)
next
  case (snoc e es)
  let ?s = "apply_all es"
  have con: "consistent (set es)" using snoc.prems by (auto simp: consistent_def)
  note IH = snoc.IH [OF con]
  show ?case
  proof (cases e)
    case (EBind v g)
    show ?thesis
    proof (cases "\<exists>m. max_seen ?s = Some m \<and> g \<le> m")
      case True
      then obtain m where m: "max_seen ?s = Some m" "g \<le> m" by blast
      from apply_all_max_attained [OF m(1)] obtain e' where e': "e' \<in> set es" "grant_of e' = m" by blast
      have "EBind v g \<in> set es" if "\<forall>e \<in> set es. grant_of e \<le> g" "ERelease g \<notin> set es"
      proof -
        have "m = g" using that(1) e' m(2) by force
        with that(2) e' obtain w where "EBind w g \<in> set es" by (cases e') auto
        with snoc.prems EBind show ?thesis by (auto simp: consistent_def)
      qed
      then have "wins (set (es @ [e])) u b \<longleftrightarrow> wins (set es) u b"
        using m e' EBind by (auto simp: wins_def intro: order_trans)
      moreover have "apply_all (es @ [e]) = ?s" using m by (simp add: EBind slot_apply_def)
      ultimately show ?thesis using IH by simp
    next
      case False
      then have less: "grant_of e' < g" if "e' \<in> set es" for e'
        using apply_all_max_le [OF that] by fastforce
      then have "wins (set (es @ [e])) u b \<longleftrightarrow> u = v \<and> b = g"
        by (fastforce simp: EBind wins_def)
      moreover have "bound (apply_all (es @ [e])) = Some (v, g)"
        using False by (auto simp: EBind slot_apply_def split: option.split)
      ultimately show ?thesis by auto
    qed
  next
    case (ERelease g)
    have bound': "bound (apply_all (es @ [e])) = (case bound ?s of None \<Rightarrow> None
        | Some (w, c) \<Rightarrow> if c \<le> g then None else Some (w, c))"
      by (auto simp: ERelease slot_apply_def Let_def split: option.split prod.split)
    have "wins (set (es @ [e])) u b \<longleftrightarrow> wins (set es) u b \<and> g < b"
      by (auto simp: ERelease wins_def)
    moreover have "bound (apply_all (es @ [e])) = Some (u, b) \<longleftrightarrow> bound ?s = Some (u, b) \<and> g < b"
      unfolding bound' by (auto split: option.splits prod.splits if_splits)
    ultimately show ?thesis using IH by simp
  qed
qed

lemma apply_all_cong:
  assumes "consistent (set es)" and "set es' = set es"
  shows "apply_all es' = apply_all es"
proof -
  have "bound (apply_all es') = bound (apply_all es)"
  proof (cases "bound (apply_all es)")
    case None
    then show ?thesis using apply_all_bound [of es] apply_all_bound [of es'] assms
      by (metis not_None_eq surj_pair)
  next
    case (Some p)
    then have "wins (set es) (fst p) (snd p)"
      using apply_all_bound [OF assms(1), of "fst p" "snd p"] by simp
    then show ?thesis using Some apply_all_bound [of es' "fst p" "snd p"] assms by simp
  qed
  moreover have "max_seen (apply_all es') = max_seen (apply_all es)"
    using assms(2) by (auto simp: apply_all_max)
  ultimately show ?thesis by (simp add: slot.equality)
qed

text \<open>
  The order of execution does not matter: effects decided under the lock and applied outside it, in
  any order and any number of times, leave the slot in the same state.
\<close>

theorem slot_order_independent:
  assumes "consistent (set es)" and "set es' = set es"
  shows "apply_all es' = apply_all es"
  using assms by (rule apply_all_cong)

theorem slot_order_independent_witness:
  "apply_all [ERelease 1, EBind ''b'' 2, EBind ''a'' 1] = apply_all [EBind ''a'' 1, ERelease 1, EBind ''b'' 2]"
  by (rule slot_order_independent) (auto simp: consistent_def)

end
