(* ===== verification/Floor_Exec.thy ===== *)
theory Floor_Exec
  imports Floor_Props Floor_Bind
begin

text \<open>
  Execution of the floor's decisions (\<open>oxsfud/src/ops/floor.rs\<close>): the room's clock with its timers and
  grant numbers, the decision taken under the room lock (\<open>decide\<close>, the locked part of \<open>run\<close>), re-arming
  the timers, firing those due, converting messages to and from MBCP, taking a client's data-channel
  frame in, and applying effects to the media slots. The wall clock and the policy's \<open>T2\<close> are arguments.
\<close>

section \<open>The clock\<close>

type_synonym key = "string \<times> user option"

record clock =
  timers :: "(key, nat) btree"
  grant_no :: nat
  granted_at :: nat
  first_rtp_at :: "nat option"
  last_rtp_at :: "nat option"

definition clock_default :: clock where
  "clock_default = \<lparr>timers = [], grant_no = 0, granted_at = 0, first_rtp_at = None, last_rtp_at = None\<rparr>"

definition duration :: "nat \<Rightarrow> string \<Rightarrow> nat" where
  "duration t2_ms name =
     (if name = ''T1'' then T1_MS
      else if name = ''T2'' then t2_ms
      else if name = ''T3'' then T3_MS
      else if name = ''T7'' then T7_MS
      else if name = ''T8'' then T8_MS
      else if name = ''T9'' then T9_MS
      else if name = ''T20'' then T20_MS
      else if name = ''T21'' then T21_MS
      else 1000)"

definition t1_base :: "clock \<Rightarrow> nat" where
  "t1_base ck = max (case last_rtp_at ck of Some x \<Rightarrow> x | None \<Rightarrow> granted_at ck) (granted_at ck)"

definition want_keys :: "floor \<Rightarrow> key btset" where
  "want_keys f =
     (let want = fold (\<lambda>n. bs_insert (n, None)) (armed_server f) []
      in fold (\<lambda>u. fold (\<lambda>n. bs_insert (n, Some u)) (armed_participant f u)) (bt_keys (parts f)) want)"

definition arm :: "nat \<Rightarrow> nat \<Rightarrow> key \<Rightarrow> clock \<Rightarrow> clock" where
  "arm now t2_ms k ck =
     (let base = (if fst k = ''T1'' then t1_base ck
                  else if fst k = ''T2'' then (case first_rtp_at ck of Some x \<Rightarrow> x | None \<Rightarrow> now)
                  else now);
          d = duration t2_ms (fst k)
      in if bt_get (timers ck) k = None then ck\<lparr>timers := bt_insert k (base + d) (timers ck)\<rparr> else ck)"

definition rearm :: "floor \<Rightarrow> nat \<Rightarrow> nat \<Rightarrow> clock \<Rightarrow> clock" where
  "rearm f now t2_ms ck =
     (let want = want_keys f;
          ck = ck\<lparr>timers := bt_retain (\<lambda>k _. k \<in> set want) (timers ck)\<rparr>
      in fold (arm now t2_ms) want ck)"

section \<open>Deciding under the lock\<close>

record plan =
  p_step :: step
  p_effects :: "user effect list"
  p_from_idle :: bool

fun number_fx :: "nat \<Rightarrow> fx list \<Rightarrow> clock \<Rightarrow> user effect list \<times> clock" where
  "number_fx now [] ck = ([], ck)"
| "number_fx now (Bind u # xs) ck =
     (let ck = ck\<lparr>grant_no := grant_no ck + 1, granted_at := now, first_rtp_at := None, last_rtp_at := None\<rparr>;
          r = number_fx now xs ck
      in (EBind u (grant_no ck) # fst r, snd r))"
| "number_fx now (Release _ # xs) ck =
     (let r = number_fx now xs ck in (ERelease (grant_no ck) # fst r, snd r))"

definition t2_left :: "nat \<Rightarrow> nat \<Rightarrow> clock \<Rightarrow> nat" where
  "t2_left now t2_ms ck =
     (case bt_get (timers ck) (''T2'', None) of
        Some at \<Rightarrow> ((at - now) div 1000) mod 2 ^ 32
      | None \<Rightarrow> (t2_ms div 1000) mod 2 ^ 32)"

definition decide :: "nat \<Rightarrow> nat \<Rightarrow> (floor \<Rightarrow> nat \<Rightarrow> ctx option) \<Rightarrow> floor \<Rightarrow> clock
    \<Rightarrow> floor \<times> clock \<times> plan option" where
  "decide now t2_ms op f ck =
     (let was_idle = (g f = GIdle) in
      case op f (t2_left now t2_ms ck) of
        None \<Rightarrow> (f, ck, None)
      | Some c \<Rightarrow>
          (let r = number_fx now (fx (st c)) ck;
               ck = rearm (fl c) now t2_ms (snd r)
           in (fl c, ck, Some \<lparr>p_step = st c, p_effects = fst r, p_from_idle = was_idle\<rparr>)))"

section \<open>Firing the timers that are due\<close>

definition last_rtp_ms :: "nat \<Rightarrow> nat \<Rightarrow> nat option" where
  "last_rtp_ms audio_us video_us =
     (let m = max audio_us video_us in if m = 0 then None else Some (m div 1000))"

definition take_due :: "nat \<Rightarrow> nat option \<Rightarrow> clock \<Rightarrow> key list \<times> clock" where
  "take_due now last_ms ck =
     (let lr = (case last_ms of Some t \<Rightarrow> if granted_at ck \<le> t then Some t else None | None \<Rightarrow> None);
          ck = (if lr \<noteq> None then ck\<lparr>last_rtp_at := lr\<rparr> else ck);
          ck = (case bt_get (timers ck) (''T1'', None) of
                  Some at \<Rightarrow>
                    if at \<le> now \<and> now < t1_base ck + T1_MS
                    then ck\<lparr>timers := bt_insert (''T1'', None) (t1_base ck + T1_MS) (timers ck)\<rparr> else ck
                | None \<Rightarrow> ck);
          ks = map fst (filter (\<lambda>e. snd e \<le> now) (timers ck))
      in (ks, ck\<lparr>timers := fold bt_remove ks (timers ck)\<rparr>))"

text \<open>\<open>now\<close> is read again for each timer; \<open>nows i\<close> is the i-th reading.\<close>

definition fire_due :: "nat \<Rightarrow> (nat \<Rightarrow> nat) \<Rightarrow> nat \<Rightarrow> nat option \<Rightarrow> floor \<times> clock \<Rightarrow> floor \<times> clock \<times> plan list" where
  "fire_due now nows t2_ms last_ms s =
     (let (due, ck) = take_due now last_ms (snd s) in
      foldl (\<lambda>(f, ck, ps) (i, k).
          (case decide (nows i) t2_ms (\<lambda>f _. fire_armed (fst k) (snd k) f) f ck of
             (f', ck', p) \<Rightarrow> (f', ck', ps @ (case p of Some x \<Rightarrow> [x] | None \<Rightarrow> []))))
        (fst s, ck, []) (enumerate 0 due))"

definition on_rtp :: "nat \<Rightarrow> nat \<Rightarrow> user \<Rightarrow> bool \<Rightarrow> bool \<Rightarrow> floor \<times> clock \<Rightarrow> floor \<times> clock \<times> plan option" where
  "on_rtp now t2_ms user first is_speaker s =
     (let ck = snd s;
          ck = (if is_speaker then
                  ck\<lparr>first_rtp_at := (if first \<or> first_rtp_at ck = None
                       then (case first_rtp_at ck of None \<Rightarrow> Some now | x \<Rightarrow> x) else first_rtp_at ck),
                     last_rtp_at := Some now\<rparr>
                else ck)
      in decide now t2_ms (\<lambda>f _. Some (rtp user f)) (fst s) ck)"

section \<open>Messages\<close>

definition to_mbcp :: "msg \<Rightarrow> string \<Rightarrow> string option \<Rightarrow> mbcp_msg option" where
  "to_mbcp m room reason =
     (case mt m of
        MGranted \<Rightarrow> Some (mbcp_granted (word_of_nat (mn m)) (word_of_nat (md m)) room)
      | MTaken \<Rightarrow> Some (mbcp_taken (or_default (ma m)) (word_of_nat (mq m)) room)
      | MIdle \<Rightarrow> Some (mbcp_idle (word_of_nat (mq m)) room (ma m))
      | MDeny \<Rightarrow> Some (mbcp_deny (word_of_nat (mn m)) room reason)
      | MRevoke \<Rightarrow> Some (mbcp_revoke (word_of_nat (mn m)) room None)
      | MQinfo \<Rightarrow> Some (mbcp_queue_info (word_of_nat (min (mn m) 255)) (word_of_nat (md m)) room)
      | MAck \<Rightarrow> Some (mbcp_ack (word_of_nat (mn m)) room)
      | _ \<Rightarrow> None)"

definition from_mbcp :: "mbcp_msg \<Rightarrow> msg option" where
  "from_mbcp m =
     (if msg_type m = REQUEST then
        Some (msg_new MRequest None (case mbcp_priority m of Some p \<Rightarrow> unat p | None \<Rightarrow> 0) 0)
      else if msg_type m = RELEASE then Some (msg_new MRelease None 0 0)
      else if msg_type m = QPOS_REQ then Some (msg_new MQposReq None 0 0)
      else if msg_type m = ACK then
        Some (msg_new MAck None (case mbcp_ack_of m of Some p \<Rightarrow> unat p | None \<Rightarrow> 0) 0)
      else None)"

text \<open>The bytes \<open>send\<close> hands to the peer's data channel; \<open>None\<close> is a message dropped unsent.\<close>

definition send_bytes :: "mbcp_msg \<Rightarrow> u8 list option" where
  "send_bytes m = Option.bind (mbcp_encode m) (dc_encode SVC_FLOOR)"

text \<open>A frame from a client: dropped with a counted reason, ignored, or an event for a room's arbiter.
  \<open>room_exists\<close> and \<open>in_room\<close> read the server's tables.\<close>

datatype dc_in_result = DcDrop string | DcIgnore | DcRun string msg

definition dc_in :: "(string \<Rightarrow> bool) \<Rightarrow> (string \<Rightarrow> bool) \<Rightarrow> u8 list \<Rightarrow> dc_in_result" where
  "dc_in room_exists in_room buf =
     (case dc_decode buf of
        None \<Rightarrow> DcDrop ''dc_bad_frame''
      | Some fr \<Rightarrow>
          if svc fr = SVC_VOICE_ACTIVITY then DcIgnore
          else if svc fr \<noteq> SVC_FLOOR then DcDrop ''dc_unknown_svc''
          else (case mbcp_decode (payload fr) of
             None \<Rightarrow> DcDrop ''dc_bad_frame''
           | Some m \<Rightarrow>
               (case mbcp_room m of
                  None \<Rightarrow> DcDrop ''dc_no_room''
                | Some r \<Rightarrow>
                    if \<not> room_exists r then DcDrop ''dc_no_room''
                    else if \<not> in_room r \<and> msg_type m \<noteq> REQUEST then DcDrop ''dc_no_room''
                    else (case from_mbcp m of None \<Rightarrow> DcIgnore | Some cm \<Rightarrow> DcRun r cm))))"

section \<open>Applying the plan\<close>

text \<open>What \<open>execute\<close> does outside the lock: the frames to send, and per effect both slots' answers and,
  when either accepts, the media action.\<close>

datatype media_act = BindMedia user bool | ReleaseMedia "user option"

record slots =
  audio_bind :: "user slot"
  video_bind :: "user slot"

definition out_frames :: "string \<Rightarrow> step \<Rightarrow> (user \<times> mbcp_msg) list" where
  "out_frames room s =
     (let reason = (if L_gate_not_in_room \<in> set (labels s) then Some ''not_in_room'' else None)
      in List.map_filter (\<lambda>x. map_option (\<lambda>m. (o_to x, m)) (to_mbcp (o_m x) room reason)) (out s))"

definition execute_effect :: "user option \<Rightarrow> bool \<Rightarrow> user effect \<Rightarrow> slots \<times> media_act list \<Rightarrow> slots \<times> media_act list" where
  "execute_effect pv from_idle e s =
     (let a = slot_apply e (audio_bind (fst s));
          v = slot_apply e (video_bind (fst s));
          s' = \<lparr>audio_bind = fst a, video_bind = fst v\<rparr>
      in if \<not> (snd a \<or> snd v) then (s', snd s)
         else (s', snd s @ [case e of EBind user _ \<Rightarrow> BindMedia user from_idle | ERelease _ \<Rightarrow> ReleaseMedia pv]))"

definition execute :: "string \<Rightarrow> user option \<Rightarrow> plan \<Rightarrow> slots \<Rightarrow> (user \<times> mbcp_msg) list \<times> slots \<times> media_act list" where
  "execute room pv p s =
     (out_frames room (p_step p), fold (execute_effect pv (p_from_idle p)) (p_effects p) (s, []))"

section \<open>The timers mirror the arbiter's state\<close>

text \<open>The keys the arbiter wants armed.\<close>

definition wanted :: "floor \<Rightarrow> key \<Rightarrow> bool" where
  "wanted f k = (case snd k of
     None \<Rightarrow> fst k \<in> set (armed_server f) | Some u \<Rightarrow> fst k \<in> set (armed_participant f u))"

lemma set_fold_bs_insert: "set (fold (\<lambda>n. bs_insert (h n)) ns ks) = h ` set ns \<union> set ks"
  by (induction ns arbitrary: ks) auto

lemma armed_participant_key: "armed_participant f u \<noteq> [] \<Longrightarrow> u \<in> set (bt_keys (parts f))"
  by (auto simp: armed_participant_def bt_keys_iff split: option.splits)

lemma set_want_keys: "k \<in> set (want_keys f) \<longleftrightarrow> wanted f k"
proof -
  have "set (fold (\<lambda>u. fold (\<lambda>n. bs_insert (n, Some u)) (armed_participant f u)) us ks)
      = {(n, Some u) |n u. u \<in> set us \<and> n \<in> set (armed_participant f u)} \<union> set ks" for us ks
    by (induction us arbitrary: ks) (auto simp: set_fold_bs_insert)
  moreover have "n \<in> set (armed_participant f u) \<Longrightarrow> u \<in> set (bt_keys (parts f))" for n u
    using armed_participant_key [of f u] by fastforce
  ultimately show ?thesis
    by (cases k; cases "snd k") (auto simp: want_keys_def Let_def wanted_def set_fold_bs_insert)
qed

definition arm_at :: "nat \<Rightarrow> nat \<Rightarrow> clock \<Rightarrow> key \<Rightarrow> nat" where
  "arm_at now t2_ms ck k =
     (if fst k = ''T1'' then t1_base ck
      else if fst k = ''T2'' then (case first_rtp_at ck of Some x \<Rightarrow> x | None \<Rightarrow> now) else now)
     + duration t2_ms (fst k)"

lemma t1_base_timers [simp]: "t1_base (ck\<lparr>timers := x\<rparr>) = t1_base ck"
  by (simp add: t1_base_def split: option.split)

lemma arm_simps:
  "bt_get (timers (arm now t ck' ck)) = (\<lambda>k. if k = ck' \<and> bt_get (timers ck) k = None
     then Some (arm_at now t ck k) else bt_get (timers ck) k)"
  "grant_no (arm now t k ck) = grant_no ck" "granted_at (arm now t k ck) = granted_at ck"
  "first_rtp_at (arm now t k ck) = first_rtp_at ck" "last_rtp_at (arm now t k ck) = last_rtp_at ck"
  "t1_base (arm now t k ck) = t1_base ck" "arm_at now t (arm now t k ck) = arm_at now t ck"
  "bt_ok (timers ck) \<Longrightarrow> bt_ok (timers (arm now t k ck))"
  by (auto simp: arm_def Let_def arm_at_def fun_eq_iff)

lemma fold_arm:
  "bt_get (timers (fold (arm now t) ks ck)) k = (if k \<in> set ks \<and> bt_get (timers ck) k = None
     then Some (arm_at now t ck k) else bt_get (timers ck) k)"
  "grant_no (fold (arm now t) ks ck) = grant_no ck" "granted_at (fold (arm now t) ks ck) = granted_at ck"
  "bt_ok (timers ck) \<Longrightarrow> bt_ok (timers (fold (arm now t) ks ck))"
  by (induction ks arbitrary: ck) (auto simp: arm_simps)

text \<open>
  Re-arming: afterwards exactly the timers the arbiter's state wants are running; one that was
  running keeps its deadline and a new one gets its own.
\<close>

theorem rearm_exact:
  assumes "bt_ok (timers ck)"
  shows "bt_get (timers (rearm f now t2_ms ck)) k =
    (if wanted f k then Some (case bt_get (timers ck) k of Some at \<Rightarrow> at | None \<Rightarrow> arm_at now t2_ms ck k) else None)"
proof -
  have "arm_at now t2_ms (ck\<lparr>timers := x\<rparr>) k = arm_at now t2_ms ck k" for x
    by (simp add: arm_at_def)
  then show ?thesis
    using assms by (auto simp: rearm_def Let_def fold_arm bt_get_retain set_want_keys split: option.split)
qed

theorem rearm_exact_witness:
  "bt_get (timers (rearm (floor_run 10 30 demo_grant) 100 30000 (clock_default\<lparr>granted_at := 50\<rparr>))) (''T1'', None)
     = Some 4050"
  by (subst rearm_exact)
    (simp_all add: clock_default_def wanted_def arm_at_def t1_base_def duration_def T1_MS_def demo_grant_def
      floor_exec cong: floor_exec_cong del: get_part_set get_part_upd)

section \<open>The silence timer\<close>

lemma fold_bt_remove: "bt_get (fold bt_remove ks m) k = (if k \<in> set ks then None else bt_get m k)"
  by (induction ks arbitrary: m) auto

lemma due_iff:
  assumes "bt_ok m"
  shows "k \<in> set (map fst (filter (\<lambda>e. snd e \<le> now) m)) \<longleftrightarrow> (\<exists>at. bt_get m k = Some at \<and> at \<le> now)"
proof -
  have "distinct (map fst m)" using bt_ok_distinct [OF assms] by (simp add: bt_keys_def)
  then have "bt_get m k = Some at \<longleftrightarrow> (k, at) \<in> set m" for at by (simp add: bt_get_def)
  then show ?thesis by (auto simp: image_iff)
qed

text \<open>When the floor's holder was last heard, or granted the floor.\<close>

definition heard_at :: "nat option \<Rightarrow> clock \<Rightarrow> nat" where
  "heard_at last_ms ck =
     (case last_ms of
        Some t \<Rightarrow> if granted_at ck \<le> t then t else t1_base ck
      | None \<Rightarrow> t1_base ck)"

text \<open>
  The silence timer is exact: \<open>T1\<close> fires at \<open>now\<close> if and only if it is running, its deadline has
  passed and the holder has been silent for \<open>T1\<close> since it was last heard or granted the floor, whatever
  deadline the entry still carried from an earlier holder.
\<close>

theorem t1_due_iff_silent:
  assumes "bt_ok (timers ck)"
  shows "(''T1'', None) \<in> set (fst (take_due now last_ms ck)) \<longleftrightarrow>
    (\<exists>at. bt_get (timers ck) (''T1'', None) = Some at \<and> at \<le> now) \<and> heard_at last_ms ck + 4000 \<le> now"
proof -
  define ck1 where "ck1 = (case last_ms of Some t \<Rightarrow> if granted_at ck \<le> t then ck\<lparr>last_rtp_at := Some t\<rparr> else ck
    | None \<Rightarrow> ck)"
  have base: "t1_base ck1 = heard_at last_ms ck" and tm: "timers ck1 = timers ck"
    by (auto simp: ck1_def heard_at_def t1_base_def split: option.split)
  define m where "m = (case bt_get (timers ck1) (''T1'', None) of
      Some at \<Rightarrow> if at \<le> now \<and> now < t1_base ck1 + T1_MS
        then bt_insert (''T1'', None) (t1_base ck1 + T1_MS) (timers ck1) else timers ck1
    | None \<Rightarrow> timers ck1)"
  have m: "bt_ok m" using assms tm by (auto simp: m_def split: option.split)
  have "fst (take_due now last_ms ck) = map fst (filter (\<lambda>e. snd e \<le> now) m)"
    by (auto simp: take_due_def Let_def ck1_def m_def split: option.split)
  then have "(''T1'', None) \<in> set (fst (take_due now last_ms ck)) \<longleftrightarrow>
      (\<exists>at. bt_get m (''T1'', None) = Some at \<and> at \<le> now)" using due_iff [OF m] by simp
  also have "\<dots> \<longleftrightarrow> (\<exists>at. bt_get (timers ck) (''T1'', None) = Some at \<and> at \<le> now) \<and> heard_at last_ms ck + 4000 \<le> now"
    by (auto simp: m_def tm base T1_MS_def split: option.split)
  finally show ?thesis .
qed

theorem t1_due_iff_silent_witness:
  "(''T1'', None) \<in> set (fst (take_due 9000 (Some 5000)
     (clock_default\<lparr>timers := [((''T1'', None), 4000)]\<rparr>)))"
  by (subst t1_due_iff_silent) (simp_all add: clock_default_def heard_at_def bt_ok_def bt_get_def)

section \<open>Nothing the arbiter sends is dropped\<close>

definition server_mt :: "mt \<Rightarrow> bool" where
  "server_mt t \<longleftrightarrow> t \<in> {MGranted, MTaken, MIdle, MDeny, MRevoke, MQinfo, MAck}"

definition outs_ok :: "ctx \<Rightarrow> bool" where
  "outs_ok c \<longleftrightarrow> (\<forall>x \<in> set (out (st c)). server_mt (mt (o_m x)))"

lemma outs_ok_simps [simp]:
  "outs_ok (lab l c) = outs_ok c" "outs_ok (upd h c) = outs_ok c" "outs_ok (push_fx e c) = outs_ok c"
  "outs_ok (begin_step f)" "outs_ok (enter_r u to c) = outs_ok c"
  "outs_ok (send u t a n d c) \<longleftrightarrow> outs_ok c \<and> server_mt t"
  by (auto simp: outs_ok_def send_def Let_def)

lemma outs_ok_send_e [simp]: "outs_ok (send_e u to m c) \<longleftrightarrow> outs_ok c \<and> server_mt (mt m)"
  by (simp add: send_e_def)

lemma outs_ok_part_a [simp]: "outs_ok c \<Longrightarrow> outs_ok (part_a u ev c)"
  unfolding part_a_def Let_def
  by (rule p_option_cases [of "part_of (fl c) u"]; cases "mt ev"; simp add: msg_new_def; simp add: server_mt_def)

lemma outs_ok_fan [simp]: "outs_ok c \<Longrightarrow> outs_ok (fan ev skip c)"
proof -
  have "outs_ok c \<Longrightarrow> outs_ok (fold (\<lambda>u. part_a u ev) us c)" for us ev c
    by (induction us arbitrary: c) simp_all
  then show "outs_ok c \<Longrightarrow> outs_ok (fan ev skip c)" by (simp add: fan_def Let_def)
qed

lemma outs_ok_arb [simp]:
  assumes "outs_ok c"
  shows "outs_ok (enter_taken c)" "outs_ok (idle_enter c)" "outs_ok (prevoke_enter u cause c)"
    "outs_ok (arb_req_idle u p c)" "outs_ok (arb_req_permitted u k c)" "outs_ok (arb_preempt u p c)"
    "outs_ok (arb_rel u c)" "outs_ok (arb_rtp u c)" "outs_ok (revoke3 u c)" "outs_ok (away u c)"
proof -
  have taken: "outs_ok (enter_taken c)" and prevoke: "outs_ok (prevoke_enter u cause c)"
    if "outs_ok c" for c u cause
    using that by (simp_all add: enter_taken_def prevoke_enter_def Let_def)
  have idle: "outs_ok (idle_enter c)" if "outs_ok c" for c
    using that by (simp add: idle_enter_def Let_def taken split: list.split)
  show "outs_ok (enter_taken c)" "outs_ok (idle_enter c)" "outs_ok (prevoke_enter u cause c)"
    using assms by (simp_all add: taken idle prevoke)
  show "outs_ok (arb_req_idle u p c)" "outs_ok (arb_req_permitted u k c)" "outs_ok (arb_preempt u p c)"
    "outs_ok (arb_rel u c)" "outs_ok (arb_rtp u c)" "outs_ok (revoke3 u c)" "outs_ok (away u c)"
    using assms by (simp_all add: arb_req_idle_def arb_req_permitted_def arb_preempt_def arb_rel_def
      arb_rtp_def revoke3_def away_def Let_def msg_new_def server_mt_def taken idle prevoke)
qed

lemma outs_ok_part_c: "outs_ok c \<Longrightarrow> outs_ok (part_c u ev k c)"
proof -
  assume c: "outs_ok c"
  have "outs_ok (taken_req u p c')" if "outs_ok c'" for p c'
    using that by (simp add: taken_req_def Let_def server_mt_def)
  with c show ?thesis
    by (rule_tac p_option_cases [of "part (get_part (fl c) u)"]; cases "mt ev")
      (simp_all add: part_c_def part_of_get Let_def msg_new_def server_mt_def)
qed

lemma outs_ok_ctx: "outs_ok (floor_ctx f e)"
  by (cases e) (auto simp: floor_ctx_def server_rx_def ready_def perm_down_def perm_up_def ws_pub_select_def
    ws_pub_away_def ws_leave_def ws_join_def rtp_def Let_def fire_armed_def fire_def t1_def t2_def t3_def
    t7_def t8_def t9_def t20_def t21_def server_mt_def intro: outs_ok_part_c split: option.split)

lemma to_mbcp_fits:
  assumes "server_mt (mt m)" and "length room \<le> 255" and "pred_option (\<lambda>u. length u \<le> 255) (ma m)"
    and "pred_option (\<lambda>r. length r \<le> 255) reason"
  shows "\<exists>x. to_mbcp m room reason = Some x \<and> mbcp_fits x"
proof -
  have "length (or_default (ma m)) \<le> 255" using assms(3) by (cases "ma m") (auto simp: or_default_def)
  with assms show ?thesis
    by (cases "mt m") (auto simp: to_mbcp_def server_mt_def intro: mbcp_ctor_fits)
qed

text \<open>
  No message of the arbiter is lost on its way out: for room and user names of at most 255 bytes,
  every message of a step is converted, encoded and framed.
\<close>

theorem floor_out_sendable:
  assumes "x \<in> set (out (st (floor_ctx f e)))" and "length room \<le> 255"
    and "pred_option (\<lambda>u. length u \<le> 255) (ma (o_m x))" and "reason = None \<or> reason = Some ''not_in_room''"
  shows "\<exists>m w. to_mbcp (o_m x) room reason = Some m \<and> send_bytes m = Some w"
proof -
  have "server_mt (mt (o_m x))" using outs_ok_ctx [of f e] assms(1) by (auto simp: outs_ok_def)
  moreover have "pred_option (\<lambda>r. length r \<le> 255) reason" using assms(4) by auto
  ultimately obtain m where m: "to_mbcp (o_m x) room reason = Some m" "mbcp_fits m"
    using to_mbcp_fits assms(2,3) by blast
  obtain b where b: "mbcp_encode m = Some b" using mbcp.enc_total [OF m(2)] by blast
  obtain w where "dc_encode SVC_FLOOR b = Some w"
    using dc.enc_total floor_dc.fits [OF m(2) b] by blast
  with m b show ?thesis by (auto simp: send_bytes_def)
qed

theorem floor_out_sendable_witness:
  "\<exists>m w. to_mbcp (o_m \<lparr>o_to = ''a'', o_m = \<lparr>mt = MIdle, ma = None, mn = 0, md = 0, mq = 1\<rparr>\<rparr>) ''r1'' None = Some m
     \<and> send_bytes m = Some w"
  by (rule floor_out_sendable [where f = "floor_new 10 30" and e = "Ready ''a''"])
    (simp_all add: floor_exec cong: floor_exec_cong del: get_part_set get_part_upd)

section \<open>The slot follows the holder\<close>

text \<open>One decision of a room: the entry point as a closure over the remaining \<open>T2\<close> seconds.\<close>

definition op_of :: "event \<Rightarrow> floor \<Rightarrow> nat \<Rightarrow> ctx option" where
  "op_of e f k =
     (case e of
        ServerRx u m half _ \<Rightarrow> Some (server_rx u m half k f)
      | Timer name user \<Rightarrow> fire_armed name user f
      | _ \<Rightarrow> Some (floor_ctx f e))"

lemma op_of_ctx: "op_of e f k = Some c \<Longrightarrow> \<exists>e'. c = floor_ctx f e'"
proof (cases e)
  case (ServerRx u m half x)
  then show "op_of e f k = Some c \<Longrightarrow> \<exists>e'. c = floor_ctx f e'"
    by (auto simp: op_of_def floor_ctx_def intro: exI [of _ "ServerRx u m half k"])
next
  case (Timer name user)
  then show "op_of e f k = Some c \<Longrightarrow> \<exists>e'. c = floor_ctx f e'"
    by (auto simp: op_of_def floor_ctx_def intro!: exI [of _ e])
qed (auto simp: op_of_def)

text \<open>The room: ledger, clock, and every effect decided so far.\<close>

definition room_step :: "nat \<Rightarrow> floor \<times> clock \<times> user effect list \<Rightarrow> nat \<times> event \<Rightarrow> floor \<times> clock \<times> user effect list" where
  "room_step t2_ms s ne =
     (case decide (fst ne) t2_ms (op_of (snd ne)) (fst s) (fst (snd s)) of
        (f, ck, p) \<Rightarrow> (f, ck, snd (snd s) @ (case p of None \<Rightarrow> [] | Some x \<Rightarrow> p_effects x)))"

definition slot_inv :: "floor \<times> clock \<times> user effect list \<Rightarrow> bool" where
  "slot_inv s = (case s of (f, ck, es) \<Rightarrow>
     floor_inv f \<and> bt_ok (timers ck) \<and> (\<forall>e \<in> set es. grant_of e \<le> grant_no ck) \<and> consistent (set es) \<and>
     bound (apply_all es) = map_option (\<lambda>u. (u, grant_no ck)) (holder f))"

lemma rearm_keeps:
  "grant_no (rearm f now t ck) = grant_no ck" "bt_ok (timers ck) \<Longrightarrow> bt_ok (timers (rearm f now t ck))"
  by (auto simp: rearm_def Let_def fold_arm)

lemma slot_inv_effects:
  assumes inv: "slot_inv (f, ck, es)" and c: "announced (holder f) c"
    and r: "number_fx now (fx (st c)) ck = (es', ck')"
  shows "(\<forall>e \<in> set (es @ es'). grant_of e \<le> grant_no ck') \<and> consistent (set (es @ es')) \<and>
     bound (apply_all (es @ es')) = map_option (\<lambda>u. (u, grant_no ck')) (holder (fl c)) \<and> timers ck' = timers ck"
proof -
  have es: "\<forall>e \<in> set es. grant_of e \<le> grant_no ck" "consistent (set es)"
      "bound (apply_all es) = map_option (\<lambda>u. (u, grant_no ck)) (holder f)"
    using inv by (auto simp: slot_inv_def)
  from c consider "fx (st c) = []" "holder (fl c) = holder f"
    | u where "fx (st c) = [Bind u]" "holder (fl c) = Some u"
    | q where "fx (st c) = [Release q]" "holder (fl c) = None"
    by (auto simp: announced_def split: list.splits fx.splits)
  then show ?thesis
  proof cases
    case 1
    then show ?thesis using es r by auto
  next
    case (2 u)
    have "\<not> (\<exists>m. max_seen (apply_all es) = Some m \<and> grant_no ck + 1 \<le> m)"
      using apply_all_max_attained [of es] es(1) by fastforce
    then have "bound (apply_all (es @ [EBind u (grant_no ck + 1)])) = Some (u, grant_no ck + 1)"
      by (auto simp: slot_apply_def split: option.splits)
    moreover have "consistent (set (es @ [EBind u (grant_no ck + 1)]))"
      using es(1,2) by (fastforce simp: consistent_def)
    ultimately show ?thesis using 2 es(1) r by (auto simp: Let_def intro: le_SucI)
  next
    case (3 q)
    have "bound (apply_all (es @ [ERelease (grant_no ck)])) = None"
      using es(3) by (auto simp: slot_apply_def Let_def split: option.split)
    then show ?thesis using 3 es r by (auto simp: Let_def consistent_def)
  qed
qed

lemma slot_inv_step:
  assumes "slot_inv s"
  shows "slot_inv (room_step t s ne)"
proof -
  obtain f ck es where s: "s = (f, ck, es)" by (cases s)
  show ?thesis
  proof (cases "op_of (snd ne) f (t2_left (fst ne) t ck)")
    case None
    then show ?thesis using assms by (simp add: s room_step_def decide_def)
  next
    case (Some c)
    then obtain e' where e': "c = floor_ctx f e'" using op_of_ctx by blast
    have inv: "floor_inv f" using assms by (simp add: s slot_inv_def)
    have fc: "floor_inv (fl c)" using floor_inv_step [OF inv, of e'] by (simp add: e' floor_step_def)
    obtain es' ck' where r: "number_fx (fst ne) (fx (st c)) ck = (es', ck')" by fastforce
    note eff = slot_inv_effects [OF assms [unfolded s] announced_ctx [OF inv, of e', folded e'] r]
    have "bt_ok (timers ck')" using eff assms by (simp add: s slot_inv_def)
    then show ?thesis
      using eff fc by (simp add: s room_step_def decide_def Some r slot_inv_def rearm_keeps)
  qed
qed

lemma slot_inv_start: "slot_inv (floor_new qm t, clock_default, [])"
proof -
  have "holder (floor_new qm t) = None" by (simp add: holder_def floor_new_def)
  then show ?thesis
    by (simp add: slot_inv_def floor_inv_new clock_default_def consistent_def slot_default_def)
qed

interpretation room: machine "(floor_new qm t, clock_default, [])" "room_step t2_ms" slot_inv for qm t t2_ms
  by unfold_locales (simp_all add: slot_inv_start slot_inv_step)

text \<open>
  The media slot follows the floor (C2): after any sequence of decisions, however late and in whatever
  order their effects are applied, the slot carries exactly the holder's media.
\<close>

theorem slot_follows_holder:
  assumes "run_from (room_step t2_ms) (floor_new qm t, clock_default, []) nes = (f, ck, es)"
    and "set es' = set es"
  shows "slot_speaker (apply_all es') = holder f"
proof -
  have inv: "slot_inv (f, ck, es)" using room.inv_run [of t2_ms qm t nes] assms(1) by simp
  have con: "consistent (set es)" using inv by (simp add: slot_inv_def)
  have "slot_speaker (apply_all es) = holder f"
    using inv by (cases "holder f") (simp_all add: slot_inv_def slot_speaker_def)
  then show ?thesis using apply_all_cong [OF con assms(2)] by simp
qed

theorem slot_follows_holder_witness:
  "\<exists>f ck es. run_from (room_step 30000) (floor_new 10 30, clock_default, [])
       [(0, Join ''a'' True), (1, Join ''b'' True), (2, PubSelect ''a''),
        (3, ServerRx ''a'' (msg_new MRequest None 5 0) True 0), (4, Leave ''a'')] = (f, ck, es)
     \<and> slot_speaker (apply_all (rev es)) = holder f"
proof -
  obtain f ck es where run: "run_from (room_step 30000) (floor_new 10 30, clock_default, [])
      [(0, Join ''a'' True), (1, Join ''b'' True), (2, PubSelect ''a''),
        (3, ServerRx ''a'' (msg_new MRequest None 5 0) True 0), (4, Leave ''a'')] = (f, ck, es)"
    by (cases "run_from (room_step 30000) (floor_new 10 30, clock_default, [])
      [(0, Join ''a'' True), (1, Join ''b'' True), (2, PubSelect ''a''),
        (3, ServerRx ''a'' (msg_new MRequest None 5 0) True 0), (4, Leave ''a'')]")
  have "slot_speaker (apply_all (rev es)) = holder f" by (rule slot_follows_holder [OF run]) simp
  with run show ?thesis by blast
qed

end
