(* ===== verification/Floor_News.thy ===== *)
theory Floor_News
  imports Floor_Props
begin

text \<open>
  What the participants of a room have been told: the last message about the floor that was sent to each since it
  joined, over any sequence of events, against who holds the floor.
\<close>

section \<open>The news of a participant\<close>

datatype news = NGranted | NTaken "user option" | NIdle | NRevoked

definition news_of :: "mt \<Rightarrow> user option \<Rightarrow> news option" where
  "news_of t a = (case t of MGranted \<Rightarrow> Some NGranted | MTaken \<Rightarrow> Some (NTaken a) | MIdle \<Rightarrow> Some NIdle | MRevoke \<Rightarrow> Some NRevoked | _ \<Rightarrow> None)"

definition fresher :: "news option \<Rightarrow> news option \<Rightarrow> news option" where
  "fresher old n = (case n of Some _ \<Rightarrow> n | None \<Rightarrow> old)"

definition news_to :: "user \<Rightarrow> out_msg list \<Rightarrow> news option \<Rightarrow> news option" where
  "news_to u outs old = foldl (\<lambda>n x. if o_to x = u then fresher n (news_of (mt (o_m x)) (ma (o_m x))) else n) old outs"

lemma news_to_Nil [simp]: "news_to u [] n = n"
  by (simp add: news_to_def)

lemma news_to_snoc [simp]:
  "news_to u (outs @ [x]) n = (if o_to x = u then fresher (news_to u outs n) (news_of (mt (o_m x)) (ma (o_m x))) else news_to u outs n)"
  by (simp add: news_to_def)

abbreviation heard :: "ctx \<Rightarrow> user \<Rightarrow> news option \<Rightarrow> news option" where
  "heard c u old \<equiv> news_to u (out (st c)) old"

lemma heard_send: "heard (send u t a n d c) v old = (if v = u then fresher (heard c v old) (news_of t a) else heard c v old)"
  by (simp add: send_def Let_def)

lemma heard_send_e: "heard (send_e u to m c) v old = (if v = u then fresher (heard c v old) (news_of (mt m) (ma m)) else heard c v old)"
  by (simp add: send_e_def heard_send)

lemma fresher_simps [simp]: "fresher old None = old" "fresher old (Some n) = Some n"
  by (simp_all add: fresher_def)

lemma news_of_simps [simp]:
  "news_of MGranted a = Some NGranted" "news_of MTaken a = Some (NTaken a)" "news_of MIdle a = Some NIdle" "news_of MRevoke a = Some NRevoked"
  "news_of MDeny a = None" "news_of MQinfo a = None" "news_of MAck a = None"
  by (simp_all add: news_of_def)

text \<open>The news a participant has when it is told \<open>ev\<close>: an ex-speaker is not sent the \<open>IDLE\<close> that ends its turn.\<close>

definition a_news :: "msg \<Rightarrow> p option \<Rightarrow> news option \<Rightarrow> news option" where
  "a_news ev s old =
     (case (mt ev, s) of
        (MGranted, Some NpIdle) \<Rightarrow> Some NGranted
      | (MGranted, Some NpTaken) \<Rightarrow> Some NGranted
      | (MGranted, Some Permitted) \<Rightarrow> Some NGranted
      | (MTaken, Some NpIdle) \<Rightarrow> Some (NTaken (ma ev))
      | (MTaken, Some NpTaken) \<Rightarrow> Some (NTaken (ma ev))
      | (MTaken, Some Permitted) \<Rightarrow> Some (NTaken (ma ev))
      | (MTaken, Some PPrevoke) \<Rightarrow> Some (NTaken (ma ev))
      | (MIdle, Some NpIdle) \<Rightarrow> Some NIdle
      | (MIdle, Some NpTaken) \<Rightarrow> Some NIdle
      | (MIdle, Some PPrevoke) \<Rightarrow> Some NIdle
      | (MRevoke, Some Permitted) \<Rightarrow> Some NRevoked
      | _ \<Rightarrow> old)"

lemma heard_part_a:
  "heard (part_a u ev c) v old = (if v = u then a_news ev (part (get_part (fl c) u)) (heard c v old) else heard c v old)"
  unfolding part_a_def Let_def part_of_get a_news_def
  by (rule p_option_cases [of "part (get_part (fl c) u)"]; cases "mt ev"; simp add: heard_send heard_send_e msg_new_def)

lemma heard_fold:
  "distinct us \<Longrightarrow> heard (fold (\<lambda>u. part_a u ev) us c) v old =
     (if v \<in> set us then a_news ev (part (get_part (fl c) v)) (heard c v old) else heard c v old)"
  by (induction us arbitrary: c) (auto simp: heard_part_a)

lemma a_news_mq [simp]: "a_news (ev\<lparr>mq := k\<rparr>) s old = a_news ev s old"
  unfolding a_news_def by (rule p_option_cases [of s]; cases "mt ev"; simp)

lemma heard_fan:
  "distinct (members (fl c)) \<Longrightarrow> heard (fan ev skip c) v old =
     (if v \<in> set (members (fl c)) \<and> Some v \<noteq> skip then a_news ev (part (get_part (fl c) v)) (heard c v old) else heard c v old)"
  by (auto simp: fan_def Let_def heard_fold)

section \<open>News and ledger\<close>

text \<open>
  What a participant in state \<open>s\<close> has last heard when \<open>h\<close> holds the floor. One that is asked to stop sending without
  holding the floor (\<open>NpSends\<close>) is left out of the broadcasts until it releases.
\<close>

definition hears :: "user option \<Rightarrow> p option \<Rightarrow> news option \<Rightarrow> bool" where
  "hears h s n =
     (case s of
        Some Permitted \<Rightarrow> n = Some NGranted
      | Some PPrevoke \<Rightarrow> n = Some NRevoked
      | Some NpTaken \<Rightarrow> n = None \<or> n = Some (NTaken h)
      | Some NpIdle \<Rightarrow> n = None \<or> n = Some NIdle \<or> n = Some NGranted
      | Some NpSends \<Rightarrow> n \<noteq> None \<and> n \<noteq> Some NGranted
      | _ \<Rightarrow> True)"

lemma hears_simps [simp]:
  "hears h (Some Permitted) n = (n = Some NGranted)" "hears h (Some PPrevoke) n = (n = Some NRevoked)"
  "hears h (Some NpTaken) n = (n = None \<or> n = Some (NTaken h))"
  "hears h (Some NpIdle) n = (n = None \<or> n = Some NIdle \<or> n = Some NGranted)"
  "hears h (Some NpSends) n = (n \<noteq> None \<and> n \<noteq> Some NGranted)" "hears h (Some Releasing) n" "hears h None n"
  by (simp_all add: hears_def)

lemma hears_granted:
  "hears h (part x) n \<Longrightarrow> mt ev = MGranted \<Longrightarrow> hears h' (part (a_part ev x)) (a_news ev (part x) n)"
  by (rule p_option_cases [of "part x"]) (auto simp: a_part_all a_news_def)

lemma hears_taken:
  "hears h (part x) n \<Longrightarrow> mt ev = MTaken \<Longrightarrow> hears (ma ev) (part (a_part ev x)) (a_news ev (part x) n)"
  by (rule p_option_cases [of "part x"]) (auto simp: a_part_all a_news_def)

lemma hears_idle:
  "hears h (part x) n \<Longrightarrow> mt ev = MIdle \<Longrightarrow> hears h' (part (a_part ev x)) (a_news ev (part x) n)"
  by (rule p_option_cases [of "part x"]) (auto simp: a_part_all a_news_def)

lemma hears_revoke:
  "hears h (part x) n \<Longrightarrow> mt ev = MRevoke \<Longrightarrow> hears h (part (a_part ev x)) (a_news ev (part x) n)"
  by (rule p_option_cases [of "part x"]) (auto simp: a_part_all a_news_def)

lemma hears_deny:
  "hears h (part x) n \<Longrightarrow> mt ev = MDeny \<or> mt ev = MQinfo \<Longrightarrow> hears h (part (a_part ev x)) (a_news ev (part x) n)"
  by (auto simp: a_part_def a_news_def)

definition informed_as :: "user option \<Rightarrow> (user \<Rightarrow> news option) \<Rightarrow> ctx \<Rightarrow> bool" where
  "informed_as h old c \<longleftrightarrow> distinct (members (fl c)) \<and>
     (\<forall>v \<in> set (members (fl c)). hears h (part (get_part (fl c) v)) (heard c v (old v)))"

abbreviation informed :: "(user \<Rightarrow> news option) \<Rightarrow> ctx \<Rightarrow> bool" where
  "informed old c \<equiv> informed_as (holder (fl c)) old c"

lemma informed_quiet [simp]:
  "informed_as h old (lab l c) = informed_as h old c" "informed_as h old (push_fx x c) = informed_as h old c"
  by (simp_all add: informed_as_def)

text \<open>A change of the ledger that leaves the members and their states alone.\<close>

lemma informed_upd:
  assumes "members (k (fl c)) = members (fl c)" "\<And>v. part (get_part (k (fl c)) v) = part (get_part (fl c) v)"
  shows "informed_as h old (upd k c) = informed_as h old c"
  using assms by (simp add: informed_as_def)

lemma informed_send:
  "informed_as h old c \<Longrightarrow> (u \<in> set (members (fl c)) \<Longrightarrow> news_of t a = None \<or> hears h (part (get_part (fl c) u)) (news_of t a))
    \<Longrightarrow> informed_as h old (send u t a n d c)"
  by (auto simp: informed_as_def heard_send fl_send fresher_def split: option.splits)

lemma informed_part_a:
  assumes "informed_as h old c"
    "\<And>n. hears h (part (get_part (fl c) u)) n \<Longrightarrow> hears h (part (a_part ev (get_part (fl c) u))) (a_news ev (part (get_part (fl c) u)) n)"
  shows "informed_as h old (part_a u ev c)"
  using assms by (auto simp: informed_as_def heard_part_a)

lemma informed_deny:
  "informed_as h old c \<Longrightarrow> informed_as h old (part_a u (msg_new MDeny a n d) c)"
  "informed_as h old c \<Longrightarrow> informed_as h old (part_a u (msg_new MQinfo a n d) c)"
  by (erule informed_part_a, rule hears_deny, simp_all add: msg_new_def)+

section \<open>The arbiter keeps everyone informed\<close>

lemma informed_enter_taken:
  assumes c: "informed_as h old c" and sp: "speaker (fl c) = Some u"
  shows "informed_as (Some u) old (enter_taken c)"
proof -
  have dist: "distinct (members (fl c))" using c by (simp add: informed_as_def)
  have heard: "heard (enter_taken c) v (old v) =
      (if v = u then a_news (msg_new MGranted None (sprio (fl c)) (t2_full (fl c))) (part (get_part (fl c) v)) (heard c v (old v))
       else if v \<in> set (members (fl c)) then a_news (msg_new MTaken (Some u) 0 0) (part (get_part (fl c) v)) (heard c v (old v))
       else heard c v (old v))" for v
    using dist sp by (simp add: enter_taken_def Let_def heard_fan heard_part_a t2_full_def)
  have "hears (Some u) (part (get_part (fl (enter_taken c)) v)) (heard (enter_taken c) v (old v))"
    if v: "v \<in> set (members (fl c))" for v
  proof -
    have old: "hears h (part (get_part (fl c) v)) (heard c v (old v))" using c v by (simp add: informed_as_def)
    show ?thesis
      unfolding heard get_part_enter_taken [OF dist] Let_def sp or_default_Some
      using v hears_granted [OF old, of "msg_new MGranted None (sprio (fl c)) (t2_full (fl c))" "Some u"] hears_taken [OF old, of "msg_new MTaken (Some u) 0 0"]
      by (auto simp: msg_new_def)
  qed
  with dist show ?thesis by (simp add: informed_as_def)
qed

lemma informed_idle_bcast:
  assumes "informed_as h old c" and ev: "mt ev = MIdle"
  shows "informed_as h' old (fan ev None c)"
  using assms(1) unfolding informed_as_def
  by (auto simp: heard_fan get_part_fan intro!: hears_idle [OF _ ev])

lemma informed_idle_enter:
  assumes "informed_as h old c"
  shows "informed old (idle_enter c)"
proof (cases "queue (fl c)")
  case Nil
  then show ?thesis
    using assms by (auto simp: idle_enter_def Let_def msg_new_def informed_upd intro!: informed_idle_bcast)
next
  case (Cons w ws)
  let ?c = "upd (\<lambda>f. f\<lparr>queue := ws, g := GTaken, speaker := Some (w_u w), sprio := w_p w,
    revoking := None, succ := True, rtp_seen := False, first_rtp := False, c20 := 1\<rparr>) (lab L_G_IDLE_enter_succession c)"
  have "informed_as (Some (w_u w)) old (enter_taken ?c)"
    by (rule informed_enter_taken [where h = h]) (simp_all add: informed_upd assms)
  then show ?thesis using Cons by (simp add: idle_enter_def Let_def holder_def)
qed

lemma informed_prevoke_enter:
  assumes "informed_as (Some u) old c"
  shows "informed old (prevoke_enter u cause c)"
  using assms by (auto simp: prevoke_enter_def Let_def holder_def informed_upd msg_new_def intro!: informed_part_a hears_revoke)

lemma informed_flags [simp]:
  "(\<And>x. part (k x) = part x) \<Longrightarrow> informed_as h old (upd (set_part u k) c) = informed_as h old c"
  "informed_as h old (upd (dequeue u) c) = informed_as h old c" "informed_as h old (upd (insert_q w) c) = informed_as h old c"
  "informed_as h old (upd (\<lambda>f. f\<lparr>prev := x f\<rparr>) c) = informed_as h old c"
  "informed_as h old (upd (\<lambda>f. f\<lparr>queue := q f\<rparr>) c) = informed_as h old c"
  "informed_as h old (upd (\<lambda>f. f\<lparr>rtp_seen := True, first_rtp := True\<rparr>) c) = informed_as h old c"
  "informed_as h old (upd (\<lambda>f. f\<lparr>c7 := m f\<rparr>) c) = informed_as h old c" "informed_as h old (upd (\<lambda>f. f\<lparr>c20 := m f\<rparr>) c) = informed_as h old c"
  by (subst informed_upd; simp add: dequeue_def insert_q_def)+

lemma informed_arb:
  assumes c: "informed old c"
  shows "informed old (arb_rel u c)" "informed old (arb_req_idle u p c)" "informed old (away u c)"
    "informed old (arb_req_permitted u k c)" "informed old (arb_rtp u c)"
proof -
  show "informed old (arb_rel u c)" "informed old (away u c)"
    using c by (auto simp: arb_rel_def away_def intro!: informed_idle_enter)
  show "informed old (arb_rtp u c)" using c by (auto simp: arb_rtp_def)
  show "informed old (arb_req_permitted u k c)"
    using c by (auto simp: arb_req_permitted_def Let_def msg_new_def intro!: informed_part_a hears_granted)
  let ?c = "upd (\<lambda>f. f\<lparr>g := GTaken, speaker := Some u, sprio := p, succ := False,
      rtp_seen := False, first_rtp := False, c20 := 0\<rparr>) (lab L_G_IDLE_req_grant c)"
  have "informed_as (Some u) old (enter_taken ?c)"
    by (rule informed_enter_taken [where h = "holder (fl c)"]) (simp_all add: informed_upd c)
  moreover have "holder (fl (enter_taken ?c)) = Some u" by (simp add: holder_def)
  ultimately show "informed old (arb_req_idle u p c)"
    using c by (auto simp: arb_req_idle_def Let_def intro!: informed_deny)
qed

lemma informed_arb_preempt:
  assumes "informed old c" and "arb_ok (fl c)"
  shows "informed old (arb_preempt u p c)"
proof (cases "g (fl c) = GTaken")
  case True
  then obtain sp where sp: "speaker (fl c) = Some sp" using assms(2) by (auto simp: arb_ok_def)
  with True have "holder (fl c) = Some sp" by (simp add: holder_def)
  with assms(1) sp True show ?thesis
    by (auto simp: arb_preempt_def Let_def intro!: informed_deny informed_prevoke_enter)
qed (simp add: arb_preempt_def assms)

lemma informed_taken_req: "informed old c \<Longrightarrow> arb_ok (fl c) \<Longrightarrow> informed old (taken_req u p c)"
  by (auto simp: taken_req_def Let_def intro!: informed_send informed_arb_preempt)

text \<open>Entering a state with the message that announces it.\<close>

lemma informed_send_e:
  assumes "informed_as h old c" and "news_of (mt m) (ma m) = Some n" "hears h (part (enter_part to (get_part (fl c) u))) (Some n)"
  shows "informed_as h old (send_e u to m c)"
  using assms by (auto simp: informed_as_def heard_send_e fl_send_e)

lemma informed_revoke3: "informed_as h old c \<Longrightarrow> informed_as h old (revoke3 u c)"
  by (auto simp: revoke3_def Let_def msg_new_def enter_part_def intro!: informed_send_e)

lemma holder_revoke3 [simp]: "holder (fl (revoke3 u c)) = holder (fl c)" "holder (fl (send_e u to m c)) = holder (fl c)"
  by (simp_all add: revoke3_def fl_send_e)

lemma informed_part_c:
  assumes c: "informed old c" and inv: "floor_inv (fl c)" and u: "u \<in> set (members (fl c))"
  shows "informed old (part_c u ev k c)"
proof -
  note ag = floor_inv_agrees [OF inv u]
  have arb: "arb_ok (fl c)" using inv by (simp add: floor_inv_def)
  note h = holder_None_iff [OF arb]
  show ?thesis
  proof (rule p_option_cases [of "part (get_part (fl c) u)"])
    assume st: "part (get_part (fl c) u) = Some NpIdle"
    then show ?thesis using c
      by (cases "mt ev") (auto simp: part_c_def part_of_get Let_def informed_revoke3 fl_send dequeue_def intro!: informed_arb informed_send)
  next
    assume st: "part (get_part (fl c) u) = Some NpTaken"
    then show ?thesis using c arb
      by (cases "mt ev") (auto simp: part_c_def part_of_get Let_def informed_revoke3 fl_send dequeue_def intro!: informed_taken_req informed_send)
  next
    assume st: "part (get_part (fl c) u) = Some Permitted"
    then show ?thesis using c
      by (cases "mt ev") (auto simp: part_c_def part_of_get Let_def intro!: informed_arb informed_send)
  next
    assume st: "part (get_part (fl c) u) = Some PPrevoke"
    then show ?thesis using c
      by (cases "mt ev") (auto simp: part_c_def part_of_get Let_def intro!: informed_arb informed_send)
  next
    assume st: "part (get_part (fl c) u) = Some NpSends"
    then show ?thesis using c
      by (cases "mt ev") (auto simp: part_c_def part_of_get Let_def msg_new_def enter_part_def fl_send fl_send_e intro!: informed_send_e informed_send)
  qed (use ag in \<open>simp_all add: agrees_def\<close>)
qed

lemma informed_begin: "informed_as h old (begin_step f) \<longleftrightarrow> distinct (members f) \<and> (\<forall>v \<in> set (members f). hears h (part (get_part f v)) (old v))"
  by (simp add: informed_as_def)

lemma informed_rx:
  assumes "informed old (begin_step f)" and "floor_inv f"
  shows "informed old (server_rx u m half k f)" "informed old (rtp u f)" "informed old (ready u f)"
proof -
  show "informed old (server_rx u m half k f)" "informed old (rtp u f)"
    using assms by (auto simp: server_rx_def rtp_def Let_def intro!: informed_send informed_part_c)
  have "hears (holder f) (part (get_part f u)) (Some (NTaken (holder f)))" if "u \<in> set (members f)" "holder f \<noteq> None" "holder f \<noteq> Some u"
    using floor_inv_agrees [OF assms(2) that(1)] that(2,3)
    by (rule_tac p_option_cases [of "part (get_part f u)"]) (auto simp: agrees_def holder_def)
  moreover have "hears None (part (get_part f u)) (Some NIdle)" if "u \<in> set (members f)" "holder f = None"
    using floor_inv_agrees [OF assms(2) that(1)] that(2) floor_inv_ledger(1) [OF assms(2)]
    by (rule_tac p_option_cases [of "part (get_part f u)"]) (auto simp: agrees_def holder_None_iff)
  ultimately show "informed old (ready u f)"
    using assms(1) by (auto simp: ready_def Let_def intro!: informed_send)
qed

lemma holder_speaker: "g f = GTaken \<Longrightarrow> holder f = speaker f"
  by (simp add: holder_def)

lemma informed_perm:
  assumes "informed old (begin_step f)"
  shows "informed old (perm_down u f)" "informed old (perm_up u f)" "informed old (ws_pub_select u f)" "informed old (ws_pub_away u f)"
proof -
  show "informed old (perm_down u f)"
    using assms by (auto simp: perm_down_def Let_def holder_speaker intro!: informed_deny informed_prevoke_enter)
  show "informed old (perm_up u f)" "informed old (ws_pub_select u f)" "informed old (ws_pub_away u f)"
    using assms by (auto simp: perm_up_def ws_pub_select_def ws_pub_away_def intro!: informed_arb)
qed

lemma informed_ws_leave:
  assumes "informed old (begin_step f)"
  shows "informed old (ws_leave u f)"
proof -
  have "informed old (away u (upd (set_part u (\<lambda>x. x\<lparr>pub_room := False\<rparr>)) (lab L_ws_leave (begin_step f))))"
    using assms by (intro informed_arb) simp
  then show ?thesis by (auto simp: ws_leave_def Let_def informed_as_def bs_remove_def)
qed

text \<open>Who joins starts anew: it has been told nothing yet.\<close>

lemma informed_ws_join:
  assumes "informed old (begin_step f)"
  shows "\<forall>v \<in> set (members (fl (ws_join u pm f))). hears (holder (fl (ws_join u pm f))) (part (get_part (fl (ws_join u pm f)) v))
      (if v = u then None else heard (ws_join u pm f) v (old v))"
proof -
  have "informed old (if g f = GPrevoke \<and> revoking f = Some u
      then idle_enter (upd (\<lambda>f. f\<lparr>prev := revoking f\<rparr>) (lab L_ws_join_revoking (begin_step f)))
      else lab L_ws_join (begin_step f))"
    using assms by (auto intro!: informed_idle_enter)
  then show "\<forall>v \<in> set (members (fl (ws_join u pm f))). hears (holder (fl (ws_join u pm f))) (part (get_part (fl (ws_join u pm f)) v))
      (if v = u then None else heard (ws_join u pm f) v (old v))"
    by (auto simp: ws_join_def Let_def informed_as_def)
qed

lemma informed_server_timers:
  assumes c: "informed old (begin_step f)" and inv: "floor_inv f"
  shows "informed old (t1 f)" "informed old (t3 f)" "g f = GTaken \<Longrightarrow> informed old (t2 f)"
    "g f = GIdle \<Longrightarrow> informed old (t7 f)" "g f = GTaken \<Longrightarrow> informed old (t20 f)"
proof -
  show "informed old (t1 f)" "informed old (t3 f)"
    using c by (auto simp: t1_def t3_def Let_def intro!: informed_idle_enter)
  show "informed old (t2 f)" "informed old (t20 f)" if g: "g f = GTaken"
  proof -
    obtain sp where sp: "speaker f = Some sp" using floor_inv_ledger(1) [OF inv] g by (auto simp: arb_ok_def)
    with g c have "informed_as (Some sp) old (begin_step f)" by (simp add: holder_speaker)
    with sp g show "informed old (t2 f)" "informed old (t20 f)"
      by (auto simp: t2_def t20_def Let_def msg_new_def holder_speaker intro!: informed_prevoke_enter informed_part_a hears_granted)
  qed
  show "informed old (t7 f)" if "g f = GIdle"
    using c by (auto simp: t7_def Let_def msg_new_def intro!: informed_idle_bcast)
qed

lemma informed_participant_timers:
  assumes c: "informed old (begin_step f)"
  shows "part (get_part f u) = Some PPrevoke \<or> part (get_part f u) = Some NpSends \<Longrightarrow> informed old (t8 u f)"
    "part (get_part f u) = Some NpTaken \<Longrightarrow> informed old (t21 u f)" "informed old (t9 u f)"
  using c by (auto simp: t8_def t21_def t9_def Let_def intro!: informed_send)

lemma informed_fire:
  assumes "informed old (begin_step f)" and "floor_inv f" and "fire_armed name user f = Some c"
  shows "informed old c"
  using assms(3) informed_server_timers [OF assms(1,2)] informed_participant_timers [OF assms(1)]
  by (auto simp: fire_armed_def fire_def Let_def armed_server_def armed_participant_iff split: if_splits)

section \<open>News over a history\<close>

definition told_by :: "floor \<Rightarrow> event \<Rightarrow> (user \<Rightarrow> news option) \<Rightarrow> user \<Rightarrow> news option" where
  "told_by f e old v = (case e of Join u _ \<Rightarrow> if v = u then None else heard (floor_ctx f e) v (old v) | _ \<Rightarrow> heard (floor_ctx f e) v (old v))"

text \<open>The last news of each user since its last join, over a history of the room.\<close>

definition news_step :: "floor \<times> (user \<Rightarrow> news option) \<Rightarrow> event \<Rightarrow> floor \<times> (user \<Rightarrow> news option)" where
  "news_step s e = (floor_step (fst s) e, told_by (fst s) e (snd s))"

definition last_news :: "nat \<Rightarrow> nat \<Rightarrow> event list \<Rightarrow> user \<Rightarrow> news option" where
  "last_news qm t es = snd (run_from news_step (floor_new qm t, \<lambda>_. None) es)"

definition news_inv :: "floor \<times> (user \<Rightarrow> news option) \<Rightarrow> bool" where
  "news_inv s \<longleftrightarrow> floor_inv (fst s) \<and> informed (snd s) (begin_step (fst s))"

lemma news_inv_step: "news_inv s \<Longrightarrow> news_inv (news_step s e)"
proof -
  assume s: "news_inv s"
  let ?f = "fst s" and ?n = "snd s"
  have inv: "floor_inv ?f" and inf: "informed ?n (begin_step ?f)" using s by (simp_all add: news_inv_def)
  have inv': "floor_inv (floor_step ?f e)" using inv by (rule floor_inv_step)
  have "\<forall>v \<in> set (members (floor_step ?f e)). hears (holder (floor_step ?f e)) (part (get_part (floor_step ?f e) v)) (told_by ?f e ?n v)"
  proof (cases "\<exists>u pm. e = Join u pm")
    case True
    then obtain u pm where "e = Join u pm" by blast
    with informed_ws_join [OF inf, of u pm] show ?thesis by (simp add: floor_step_def floor_ctx_def told_by_def cong: if_cong)
  next
    case False
    then have "informed ?n (floor_ctx ?f e)"
      using inf inv by (cases e) (auto simp: floor_ctx_def informed_rx informed_perm informed_ws_leave
        intro: informed_fire split: option.split)
    then show ?thesis using False by (auto simp: informed_as_def floor_step_def told_by_def split: event.split)
  qed
  with inv' show ?thesis by (simp add: news_inv_def informed_begin news_step_def floor_inv_distinct)
qed

lemma news_inv_new: "news_inv (floor_new qm t, \<lambda>_. None)"
proof -
  have "members (floor_new qm t) = []" by (simp add: floor_new_def)
  then show ?thesis by (simp add: news_inv_def floor_inv_new informed_begin)
qed

interpretation newsroom: machine "(floor_new qm t, \<lambda>_. None)" news_step news_inv for qm t
  by unfold_locales (simp_all add: news_inv_step news_inv_new)

lemma news_run_fst: "fst (run_from news_step s es) = run_from floor_step (fst s) es"
  by (induction es arbitrary: s) (simp_all add: news_step_def)

lemma news_run:
  "floor_inv (floor_run qm t es)"
  "u \<in> set (members (floor_run qm t es)) \<Longrightarrow>
     hears (holder (floor_run qm t es)) (part_of (floor_run qm t es) u) (last_news qm t es u)"
  using newsroom.inv_run [of qm t es] by (simp_all add: news_inv_def informed_begin last_news_def news_run_fst part_of_get)

text \<open>
  What the members of a room were last told (C3): of the \<open>GRANTED\<close>, \<open>TAKEN\<close>, \<open>IDLE\<close> and \<open>REVOKE\<close> messages sent to a
  member since it joined, over any sequence of events, the last one is right about the floor. Who was told of
  another speaker sees that very user hold the floor, who was told it is idle sees it idle, who was told to stop
  speaking still holds it, and who was told it may speak holds the floor or nobody does: a speaker that releases or
  falls silent is not sent the \<open>IDLE\<close> that ends its own turn. Excepted are members asked to stop sending without the
  floor (\<open>NpSends\<close>), which the broadcasts leave out; even of these none was last told that it may speak. Conversely
  who is in \<open>Permitted\<close> was told so, and who is in \<open>PPrevoke\<close> was told to stop.
\<close>

theorem floor_news_agree:
  assumes "f = floor_run qm t es" and "u \<in> set (members f)" and "n = last_news qm t es u"
  shows "(n = Some NGranted \<longrightarrow> holder f = Some u \<or> holder f = None)
    \<and> (\<forall>x. n = Some (NTaken x) \<and> part_of f u \<noteq> Some NpSends \<longrightarrow> x \<noteq> None \<and> holder f = x)
    \<and> (n = Some NIdle \<and> part_of f u \<noteq> Some NpSends \<longrightarrow> holder f = None)
    \<and> (n = Some NRevoked \<and> part_of f u \<noteq> Some NpSends \<longrightarrow> holder f = Some u)
    \<and> (part_of f u = Some Permitted \<longrightarrow> n = Some NGranted \<and> holder f = Some u)
    \<and> (part_of f u = Some PPrevoke \<longrightarrow> n = Some NRevoked \<and> holder f = Some u)
    \<and> (n = None \<longrightarrow> part_of f u = Some NpIdle \<or> part_of f u = Some NpTaken)"
proof -
  have inv: "floor_inv f" and "hears (holder f) (part_of f u) n" using news_run assms by simp_all
  moreover have "holder f = None \<longleftrightarrow> g f = GIdle" using inv by (intro holder_None_iff) (simp add: floor_inv_def)
  moreover note floor_inv_agrees [OF inv assms(2)]
  ultimately show ?thesis
    by (rule_tac p_option_cases [of "part_of f u"]) (auto simp: agrees_def part_of_get holder_def)
qed

text \<open>\<open>b\<close> is told that \<open>a\<close> speaks; \<open>a\<close> falls silent and \<open>b\<close> is told that the floor is idle, \<open>a\<close> is not.\<close>

theorem floor_news_agree_witness:
  "\<exists>f. f = floor_run 10 30 demo_grant \<and> last_news 10 30 demo_grant ''b'' = Some (NTaken (Some ''a'')) \<and> holder f = Some ''a''
    \<and> last_news 10 30 (demo_grant @ [Timer ''T1'' None]) ''b'' = Some NIdle
    \<and> last_news 10 30 (demo_grant @ [Timer ''T1'' None]) ''a'' = Some NGranted
    \<and> holder (floor_run 10 30 (demo_grant @ [Timer ''T1'' None])) = None"
proof -
  let ?f = "floor_run 10 30 demo_grant" and ?es = "demo_grant @ [Timer ''T1'' None]"
  have b: "''b'' \<in> set (members ?f)" "part_of ?f ''b'' = Some NpTaken"
    "''b'' \<in> set (members (floor_run 10 30 ?es))" "part_of (floor_run 10 30 ?es) ''b'' = Some NpIdle"
    by (simp_all add: demo_grant_def floor_exec cong: floor_exec_cong del: get_part_set get_part_upd)
  have n: "last_news 10 30 demo_grant ''b'' = Some (NTaken (Some ''a''))" "last_news 10 30 ?es ''b'' = Some NIdle"
    "last_news 10 30 ?es ''a'' = Some NGranted"
    by (simp_all add: last_news_def news_step_def told_by_def news_to_def news_of_def fresher_def demo_grant_def floor_exec
      cong: floor_exec_cong del: get_part_set get_part_upd)
  show ?thesis
    using floor_news_agree [OF refl b(1) refl] floor_news_agree [OF refl b(3) refl] n b by simp
qed

end
