(* ===== verification/Mesh_Wire.thy ===== *)
theory Mesh_Wire
  imports Codec
begin

text \<open>
  The wire of the server mesh (\<open>oxmesh/src/wire.rs\<close>): variable-length integers, length-prefixed bytes and
  strings, the fourteen messages, and their transport in frames of at most 16 KiB on four lanes with a
  reassembler at the other end. Every piece is an instance of \<open>prefix_codec\<close>; the message codec and the
  frame transport are round trips built from them.
\<close>

section \<open>Constants and small enumerations\<close>

definition FRAME_MAX :: nat where "FRAME_MAX = 16384"
definition FRAME_HEAD :: nat where "FRAME_HEAD = 6"
definition MSG_MAX :: nat where "MSG_MAX = 67108864"
definition MORE :: u8 where "MORE = 1"

datatype mesh_lane = Control | Declare | Request | Data

definition mesh_lane_u8 :: "mesh_lane \<Rightarrow> u8" where
  "mesh_lane_u8 l = (case l of Control \<Rightarrow> 0 | Declare \<Rightarrow> 1 | Request \<Rightarrow> 2 | Data \<Rightarrow> 3)"

definition mesh_lane_from_u8 :: "u8 \<Rightarrow> mesh_lane option" where
  "mesh_lane_from_u8 v = (if v = 0 then Some Control else if v = 1 then Some Declare
     else if v = 2 then Some Request else if v = 3 then Some Data else None)"

datatype role = Router | Client

definition role_u8 :: "role \<Rightarrow> u8" where
  "role_u8 r = (case r of Router \<Rightarrow> 0 | Client \<Rightarrow> 1)"

datatype decl_kind = DToken | DSub | DQabl

definition decl_kind_u8 :: "decl_kind \<Rightarrow> u8" where
  "decl_kind_u8 k = (case k of DToken \<Rightarrow> 0 | DSub \<Rightarrow> 1 | DQabl \<Rightarrow> 2)"

datatype token_evt_kind = EvtPut | EvtDelete | EvtBatchEnd

definition token_evt_kind_u8 :: "token_evt_kind \<Rightarrow> u8" where
  "token_evt_kind_u8 k = (case k of EvtPut \<Rightarrow> 0 | EvtDelete \<Rightarrow> 1 | EvtBatchEnd \<Rightarrow> 2)"

datatype close_reason = Shutdown | Expired | Fenced | Replaced | Refused | Duplicate | Protocol | Io

definition close_reason_u8 :: "close_reason \<Rightarrow> u8" where
  "close_reason_u8 r = (case r of Shutdown \<Rightarrow> 0 | Expired \<Rightarrow> 1 | Fenced \<Rightarrow> 2 | Replaced \<Rightarrow> 3
     | Refused \<Rightarrow> 4 | Duplicate \<Rightarrow> 5 | Protocol \<Rightarrow> 6 | Io \<Rightarrow> 7)"

definition close_reason_from_u8 :: "u8 \<Rightarrow> close_reason" where
  "close_reason_from_u8 v = (if v = 0 then Shutdown else if v = 1 then Expired else if v = 2 then Fenced
     else if v = 3 then Replaced else if v = 4 then Refused else if v = 5 then Duplicate
     else if v = 6 then Protocol else Io)"

definition close_reason_name :: "close_reason \<Rightarrow> string" where
  "close_reason_name r = (case r of Shutdown \<Rightarrow> ''shutdown'' | Expired \<Rightarrow> ''expired'' | Fenced \<Rightarrow> ''fenced''
     | Replaced \<Rightarrow> ''replaced'' | Refused \<Rightarrow> ''refused'' | Duplicate \<Rightarrow> ''duplicate''
     | Protocol \<Rightarrow> ''protocol'' | Io \<Rightarrow> ''io'')"

section \<open>Pieces\<close>

lemma drop_bit_less:
  assumes "drop_bit 7 (v :: u64) \<noteq> 0"
  shows "unat (drop_bit 7 v) < unat v"
proof -
  have "unat (drop_bit 7 v) = unat v div 128"
    by (simp add: drop_bit_eq_div unat_div_distrib)
  moreover have "unat v \<noteq> 0" using assms by (auto simp: unat_eq_zero)
  ultimately show ?thesis by simp
qed

function put_var :: "u64 \<Rightarrow> u8 list" where
  "put_var v =
     (let byte = ucast (v AND 0x7f); v' = drop_bit 7 v
      in if v' = 0 then [byte] else (byte OR 0x80) # put_var v')"
  by pat_completeness auto
termination
  by (relation "measure unat") (auto intro: drop_bit_less)

declare put_var.simps [simp del]

text \<open>The cursor's \<open>var\<close>: ten rounds, at shifts 0, 7, \<dots>, 63.\<close>

fun get_u8 :: "u8 reader" where
  "get_u8 [] = None"
| "get_u8 (x # b) = Some (x, b)"

fun var_loop :: "nat \<Rightarrow> nat \<Rightarrow> u64 \<Rightarrow> u64 reader" where
  "var_loop 0 shift v = rfail"
| "var_loop (Suc n) shift v =
     rbind get_u8 (\<lambda>byte.
       let v' = v OR push_bit shift (ucast (byte AND 0x7f))
       in if byte AND 0x80 = 0 then rret v' else var_loop n (shift + 7) v')"

definition get_var :: "u64 reader" where
  "get_var = var_loop 10 0 0"

definition get_len :: "nat reader" where
  "get_len = rbind get_var (\<lambda>v b. let n = unat v in if n \<le> length b then Some (n, b) else None)"

definition get_bytes :: "u8 list reader" where
  "get_bytes = rbind get_len (\<lambda>n b. Some (take n b, drop n b))"

definition get_str :: "string reader" where
  "get_str = rmap get_bytes from_utf8"

definition put_bytes :: "u8 list \<Rightarrow> u8 list" where
  "put_bytes v = put_var (word_of_nat (length v)) @ v"

definition put_str :: "string \<Rightarrow> u8 list" where
  "put_str v = put_bytes (as_bytes v)"

definition put_pair :: "string \<times> string \<Rightarrow> u8 list" where
  "put_pair p = put_str (fst p) @ put_str (snd p)"

definition put_pairs :: "(string \<times> string) list \<Rightarrow> u8 list" where
  "put_pairs ps = put_var (word_of_nat (length ps)) @ concat (map put_pair ps)"

definition get_pair :: "(string \<times> string) reader" where
  "get_pair = rbind get_str (\<lambda>k. rbind get_str (\<lambda>v. rret (k, v)))"

definition get_pairs :: "(string \<times> string) list reader" where
  "get_pairs = rbind get_len (get_many get_pair)"

definition get_kind :: "decl_kind reader" where
  "get_kind = rmap get_u8 (\<lambda>v. if v = 0 then Some DToken else if v = 1 then Some DSub
     else if v = 2 then Some DQabl else None)"

definition get_u32 :: "u32 reader" where
  "get_u32 = rmap get_var (\<lambda>v. if unat v < 2 ^ 32 then Some (ucast v) else None)"

section \<open>Messages\<close>

record hello =
  h_proto :: u8
  h_role :: role
  h_node :: string
  h_boot :: u64
  h_sno :: u64
  h_lease_ms :: u32
  h_listen :: "string list"
  h_peers :: "(string \<times> string) list"

datatype wire_msg =
    WHello hello
  | WClose close_reason
  | WKeepAlive
  | WDeclare decl_kind u64 string
  | WUndeclare decl_kind u64
  | WDeclareDone
  | WTokenSub u64 string bool
  | WTokenUnsub u64
  | WTokenEvt u64 token_evt_kind string
  | WPeers "(string \<times> string) list"
  | WPut string "u8 list"
  | WRequest u64 string "u8 list" u32
  | WReply u64 string bool "u8 list"
  | WFinal u64

fun wire_lane :: "wire_msg \<Rightarrow> mesh_lane" where
  "wire_lane (WHello _) = Control"
| "wire_lane (WClose _) = Control"
| "wire_lane WKeepAlive = Control"
| "wire_lane (WDeclare _ _ _) = Declare"
| "wire_lane (WUndeclare _ _) = Declare"
| "wire_lane WDeclareDone = Declare"
| "wire_lane (WTokenSub _ _ _) = Declare"
| "wire_lane (WTokenUnsub _) = Declare"
| "wire_lane (WTokenEvt _ _ _) = Declare"
| "wire_lane (WPeers _) = Declare"
| "wire_lane (WRequest _ _ _ _) = Request"
| "wire_lane (WReply _ _ _ _) = Request"
| "wire_lane (WFinal _) = Request"
| "wire_lane (WPut _ _) = Data"

definition bool_u8 :: "bool \<Rightarrow> u8" where
  "bool_u8 b = (if b then 1 else 0)"

fun wire_encode :: "wire_msg \<Rightarrow> u8 list" where
  "wire_encode (WHello h) =
     [0, h_proto h, role_u8 (h_role h)] @ put_str (h_node h) @ put_var (h_boot h) @ put_var (h_sno h)
     @ put_var (ucast (h_lease_ms h)) @ put_var (word_of_nat (length (h_listen h)))
     @ concat (map put_str (h_listen h)) @ put_pairs (h_peers h)"
| "wire_encode (WClose r) = [1, close_reason_u8 r]"
| "wire_encode WKeepAlive = [2]"
| "wire_encode (WDeclare k i e) = [3, decl_kind_u8 k] @ put_var i @ put_str e"
| "wire_encode (WUndeclare k i) = [4, decl_kind_u8 k] @ put_var i"
| "wire_encode WDeclareDone = [5]"
| "wire_encode (WTokenSub i e hist) = [6] @ put_var i @ put_str e @ [bool_u8 hist]"
| "wire_encode (WTokenUnsub i) = [7] @ put_var i"
| "wire_encode (WTokenEvt i k key) = [8] @ put_var i @ [token_evt_kind_u8 k] @ put_str key"
| "wire_encode (WPeers p) = [9] @ put_pairs p"
| "wire_encode (WPut key pl) = [10] @ put_str key @ put_bytes pl"
| "wire_encode (WRequest q e pl t) = [11] @ put_var q @ put_str e @ put_bytes pl @ put_var (ucast t)"
| "wire_encode (WReply q key ok pl) = [12] @ put_var q @ put_str key @ [bool_u8 ok] @ put_bytes pl"
| "wire_encode (WFinal q) = [13] @ put_var q"

definition get_role :: "role reader" where
  "get_role = rmap get_u8 (\<lambda>v. if v = 0 then Some Router else if v = 1 then Some Client else None)"

definition get_evt_kind :: "token_evt_kind reader" where
  "get_evt_kind = rmap get_u8 (\<lambda>v. if v = 0 then Some EvtPut else if v = 1 then Some EvtDelete
     else if v = 2 then Some EvtBatchEnd else None)"

definition get_hello :: "wire_msg reader" where
  "get_hello =
     rbind get_u8 (\<lambda>proto. rbind get_role (\<lambda>role. rbind get_str (\<lambda>node. rbind get_var (\<lambda>boot.
     rbind get_var (\<lambda>sno. rbind get_u32 (\<lambda>lease. rbind get_len (\<lambda>n. rbind (get_many get_str n) (\<lambda>listen.
     rbind get_pairs (\<lambda>peers.
       rret (WHello \<lparr>h_proto = proto, h_role = role, h_node = node, h_boot = boot, h_sno = sno,
         h_lease_ms = lease, h_listen = listen, h_peers = peers\<rparr>))))))))))"

definition get_msg :: "wire_msg reader" where
  "get_msg = rbind get_u8 (\<lambda>tag.
     if tag = 0 then get_hello
     else if tag = 1 then rbind get_u8 (\<lambda>r. rret (WClose (close_reason_from_u8 r)))
     else if tag = 2 then rret WKeepAlive
     else if tag = 3 then rbind get_kind (\<lambda>k. rbind get_var (\<lambda>i. rbind get_str (\<lambda>e. rret (WDeclare k i e))))
     else if tag = 4 then rbind get_kind (\<lambda>k. rbind get_var (\<lambda>i. rret (WUndeclare k i)))
     else if tag = 5 then rret WDeclareDone
     else if tag = 6 then rbind get_var (\<lambda>i. rbind get_str (\<lambda>e. rbind get_u8 (\<lambda>h. rret (WTokenSub i e (h \<noteq> 0)))))
     else if tag = 7 then rbind get_var (\<lambda>i. rret (WTokenUnsub i))
     else if tag = 8 then rbind get_var (\<lambda>i. rbind get_evt_kind (\<lambda>k. rbind get_str (\<lambda>key. rret (WTokenEvt i k key))))
     else if tag = 9 then rbind get_pairs (\<lambda>p. rret (WPeers p))
     else if tag = 10 then rbind get_str (\<lambda>key. rbind get_bytes (\<lambda>pl. rret (WPut key pl)))
     else if tag = 11 then rbind get_var (\<lambda>q. rbind get_str (\<lambda>e. rbind get_bytes (\<lambda>pl. rbind get_u32 (\<lambda>t.
       rret (WRequest q e pl t)))))
     else if tag = 12 then rbind get_var (\<lambda>q. rbind get_str (\<lambda>key. rbind get_u8 (\<lambda>ok. rbind get_bytes (\<lambda>pl.
       rret (WReply q key (ok \<noteq> 0) pl)))))
     else if tag = 13 then rbind get_var (\<lambda>q. rret (WFinal q))
     else rfail)"

definition wire_decode :: "u8 list \<Rightarrow> wire_msg option" where
  "wire_decode b = (case get_msg b of Some (m, rest) \<Rightarrow> if rest \<noteq> [] then None else Some m | None \<Rightarrow> None)"

section \<open>Frames and lanes\<close>

fun chunks :: "nat \<Rightarrow> nat \<Rightarrow> 'a list \<Rightarrow> 'a list list" where
  "chunks 0 n xs = []"
| "chunks (Suc fuel) n xs = (if xs = [] then [] else take n xs # chunks fuel n (drop n xs))"

definition wire_frame :: "mesh_lane \<Rightarrow> u8 \<Rightarrow> u8 list \<Rightarrow> u8 list" where
  "wire_frame l flags ch = be32 (word_of_nat (length ch + 2)) @ [mesh_lane_u8 l, flags] @ ch"

fun flagged :: "u8 list list \<Rightarrow> (u8 \<times> u8 list) list" where
  "flagged [] = []"
| "flagged [ch] = [(0, ch)]"
| "flagged (ch # ch' # chs) = (MORE, ch) # flagged (ch' # chs)"

definition wire_pieces :: "wire_msg \<Rightarrow> (u8 \<times> u8 list) list" where
  "wire_pieces m =
     (let body = wire_encode m;
          chs = chunks (length body) (FRAME_MAX - FRAME_HEAD) body
      in if chs = [] then [(0, [])] else flagged chs)"

definition wire_frames :: "wire_msg \<Rightarrow> mesh_lane \<times> u8 list list" where
  "wire_frames m = (wire_lane m, map (\<lambda>p. wire_frame (wire_lane m) (fst p) (snd p)) (wire_pieces m))"

type_synonym reassembler = "mesh_lane \<Rightarrow> u8 list"

definition reassembler_new :: reassembler where
  "reassembler_new = (\<lambda>_. [])"

datatype assembled = Partial | Done "u8 list" | TooBig

definition reasm_push :: "mesh_lane \<Rightarrow> u8 \<Rightarrow> u8 list \<Rightarrow> reassembler \<Rightarrow> assembled \<times> reassembler" where
  "reasm_push l flags ch r =
     (if MSG_MAX < length (r l) + length ch then (TooBig, r)
      else (let p = r l @ ch in
        if flags AND MORE \<noteq> 0 then (Partial, r(l := p)) else (Done p, r(l := []))))"

section \<open>The pieces are read back\<close>

lemma mask7: "(0x7f :: u64) = mask 7" "(0x7f :: u8) = mask 7"
  by (simp_all add: mask_eq_exp_minus_1)

lemma bit_0x80: "bit (0x80 :: int) n \<longleftrightarrow> n = 7"
proof -
  have "(0x80 :: int) = 2 ^ 7" by simp
  then show ?thesis by (simp only: bit_exp_iff) auto
qed

lemma var_byte_last: "ucast (ucast (v AND 0x7f :: u64) AND 0x7f :: u8) = (v AND 0x7f :: u64)"
  "(ucast (v AND 0x7f :: u64) :: u8) AND 0x80 = 0"
  unfolding mask7 by (rule bit_word_eqI, auto simp: bit_simps bit_0x80)+

lemma var_byte_more: "ucast ((ucast (v AND 0x7f :: u64) OR 0x80) AND 0x7f :: u8) = (v AND 0x7f :: u64)"
  "((ucast (v AND 0x7f :: u64) :: u8) OR 0x80) AND 0x80 \<noteq> 0"
proof -
  show "ucast ((ucast (v AND 0x7f :: u64) OR 0x80) AND 0x7f :: u8) = (v AND 0x7f :: u64)"
    unfolding mask7 by (rule bit_word_eqI) (auto simp: bit_simps bit_0x80)
  have "bit (((ucast (v AND 0x7f :: u64) :: u8) OR 0x80) AND 0x80) 7"
    by (simp add: bit_simps bit_0x80)
  then show "((ucast (v AND 0x7f :: u64) :: u8) OR 0x80) AND 0x80 \<noteq> 0" by auto
qed

lemma var_split: "push_bit s (v AND 0x7f) OR push_bit (s + 7) (drop_bit 7 v) = push_bit s (v :: u64)"
proof (unfold mask7, rule bit_word_eqI)
  fix n assume "n < LENGTH(64)"
  show "bit (push_bit s (v AND mask 7) OR push_bit (s + 7) (drop_bit 7 v)) n = bit (push_bit s v) n"
    by (cases "n < s + 7") (auto simp: bit_simps)
qed

lemma var_loop_put:
  assumes "unat v < 2 ^ (64 - 7 * i)" and "i \<le> 9"
  shows "var_loop (10 - i) (7 * i) a (put_var v @ rest) = Some (a OR push_bit (7 * i) v, rest)"
  using assms
proof (induction v arbitrary: i a rule: put_var.induct)
  case (1 v)
  have n: "10 - i = Suc (9 - i)" using "1.prems" by simp
  show ?case
  proof (cases "drop_bit 7 v = 0")
    case True
    then have "push_bit (7 * i) (v AND 0x7f) = push_bit (7 * i) v" using var_split [of "7 * i" v] by simp
    then show ?thesis
      using True by (simp add: n put_var.simps [of v] rbind_def rret_def var_byte_last Let_def)
  next
    case False
    have dv: "unat (drop_bit 7 v) = unat v div 2 ^ 7" by (simp add: drop_bit_eq_div unat_div_distrib)
    have "i < 9"
    proof (rule ccontr)
      assume "\<not> i < 9"
      then have "i = 9" using "1.prems" by simp
      then have "unat v < 2" using "1.prems" by simp
      then have "unat (drop_bit 7 v) = 0" using dv by simp
      with False show False by (simp add: unat_eq_zero)
    qed
    then have e: "64 - 7 * i = (64 - 7 * Suc i) + 7" by simp
    have "unat v div 2 ^ 7 < 2 ^ (64 - 7 * Suc i)"
      using "1.prems"(1) unfolding e power_add by (simp add: less_mult_imp_div_less)
    then have ih: "var_loop (10 - Suc i) (7 * Suc i) b (put_var (drop_bit 7 v) @ rest)
        = Some (b OR push_bit (7 * Suc i) (drop_bit 7 v), rest)" for b
      using "1.IH" [OF refl refl False, of "Suc i" b] dv \<open>i < 9\<close> by (simp only: Suc_leI less_Suc_eq_le)
    let ?a = "a OR push_bit (7 * i) (v AND 0x7f)"
    have n': "9 - i = 10 - Suc i" and sh: "7 * i + 7 = 7 * Suc i" by simp_all
    have "var_loop (10 - i) (7 * i) a (put_var v @ rest)
        = var_loop (9 - i) (7 * i + 7) ?a (put_var (drop_bit 7 v) @ rest)"
      using False by (simp add: n put_var.simps [of v] rbind_def var_byte_more Let_def)
    also have "\<dots> = Some (?a OR push_bit (7 * i + 7) (drop_bit 7 v), rest)"
      using ih [of ?a] by (simp only: n' sh)
    also have "?a OR push_bit (7 * i + 7) (drop_bit 7 v) = a OR push_bit (7 * i) v"
      using var_split [of "7 * i" v] by (simp only: or.assoc)
    finally show ?thesis .
  qed
qed

interpretation var: prefix_codec "\<lambda>_. True" put_var get_var
proof
  fix v :: u64 and rest
  have "unat v < 2 ^ LENGTH(64)" by (rule unsigned_less)
  then have "unat v < 2 ^ (64 - 7 * 0)" by simp
  then show "get_var (put_var v @ rest) = Some (v, rest)"
    using var_loop_put [of v 0 0 rest] by (simp add: get_var_def)
qed

definition fits64 :: "'a list \<Rightarrow> bool" where
  "fits64 xs \<longleftrightarrow> length xs < 2 ^ 64"

lemma unat_len [simp]: "fits64 xs \<Longrightarrow> unat (word_of_nat (length xs) :: u64) = length xs"
  by (simp add: fits64_def unat_of_nat take_bit_eq_mod)

lemma get_len_put:
  "fits64 xs \<Longrightarrow> length xs \<le> length rest \<Longrightarrow>
     get_len (put_var (word_of_nat (length xs)) @ rest) = Some (length xs, rest)"
  by (simp add: get_len_def var.rbind_put)

interpretation bytes: prefix_codec fits64 put_bytes get_bytes
  by unfold_locales (simp add: put_bytes_def get_bytes_def rbind_def get_len_put)

definition str_ok :: "string \<Rightarrow> bool" where
  "str_ok s \<longleftrightarrow> utf8 s \<and> fits64 s"

interpretation str: prefix_codec str_ok put_str get_str
proof
  fix s rest assume "str_ok s"
  then have "fits64 (as_bytes s)" "from_utf8 (as_bytes s) = Some s"
    by (simp_all add: str_ok_def fits64_def from_utf8_as_bytes)
  then show "get_str (put_str s @ rest) = Some (s, rest)"
    by (simp add: get_str_def put_str_def rmap_def bytes.rbind_put rret_def)
qed

lemma put_var_ne [simp]: "put_var v \<noteq> []"
  by (simp add: put_var.simps [of v] Let_def)

lemma length_put_str: "1 \<le> length (put_str s)"
  by (cases "put_var (word_of_nat (length (as_bytes s)))") (auto simp: put_str_def put_bytes_def)

definition pair_ok :: "string \<times> string \<Rightarrow> bool" where
  "pair_ok p \<longleftrightarrow> str_ok (fst p) \<and> str_ok (snd p)"

interpretation pair: prefix_codec pair_ok put_pair get_pair
  by unfold_locales (auto simp: pair_ok_def put_pair_def get_pair_def str.rbind_put rret_def)

lemma length_concat_ge:
  "(\<And>x. x \<in> set xs \<Longrightarrow> 1 \<le> length (put x)) \<Longrightarrow> length xs \<le> length (concat (map put xs))"
proof (induction xs)
  case (Cons x xs)
  then have "1 \<le> length (put x)" "length xs \<le> length (concat (map put xs))" by auto
  then show ?case by simp
qed simp

definition pairs_ok :: "(string \<times> string) list \<Rightarrow> bool" where
  "pairs_ok ps \<longleftrightarrow> fits64 ps \<and> list_all pair_ok ps"

interpretation pairs: prefix_codec pairs_ok put_pairs get_pairs
proof
  fix ps rest assume ok: "pairs_ok ps"
  have "1 \<le> length (put_pair p)" for p
    using length_put_str [of "fst p"] by (simp add: put_pair_def)
  then have "length ps \<le> length (concat (map put_pair ps) @ rest)"
    using length_concat_ge [of ps put_pair] by simp
  moreover have "get_many get_pair (length ps) (concat (map put_pair ps) @ rest) = Some (ps, rest)"
    using ok by (intro pair.get_many_put) (simp add: pairs_ok_def list_all_iff)
  ultimately show "get_pairs (put_pairs ps @ rest) = Some (ps, rest)"
    using ok get_len_put [of ps "concat (map put_pair ps) @ rest"]
    by (simp add: get_pairs_def put_pairs_def rbind_def pairs_ok_def)
qed

lemma get_many_str:
  assumes "fits64 ss" and "list_all str_ok ss"
  shows "rbind get_len (\<lambda>n. rbind (get_many get_str n) h)
      (put_var (word_of_nat (length ss)) @ concat (map put_str ss) @ rest) = h ss rest"
proof -
  have "length ss \<le> length (concat (map put_str ss) @ rest)"
    using length_concat_ge [of ss put_str] length_put_str by simp
  then show ?thesis
    using assms str.get_many_put [of ss rest] get_len_put [of ss "concat (map put_str ss) @ rest"]
    by (simp add: rbind_def list_all_iff)
qed

lemma get_u32_put: "rbind get_u32 h (put_var (ucast (t :: u32)) @ rest) = h t rest"
proof -
  have "unat t < 2 ^ LENGTH(32)" by (rule unsigned_less)
  then have t: "unat t < 2 ^ 32" by simp
  then have "unat (ucast t :: u64) = unat t" by (simp add: unsigned_ucast_eq take_bit_nat_eq_self)
  with t have "unat (ucast t :: u64) < 2 ^ 32" by simp
  moreover have "ucast (ucast t :: u64) = t" by (rule bit_word_eqI) (auto simp: bit_simps)
  ultimately show ?thesis by (simp add: get_u32_def rmap_def rbind_def var.get_put rret_def)
qed

lemma get_u32_put_exact: "rbind get_u32 h (put_var (ucast (t :: u32))) = h t []"
  using get_u32_put [of h t "[]"] by simp

section \<open>Messages are read back\<close>

fun wire_ok :: "wire_msg \<Rightarrow> bool" where
  "wire_ok (WHello h) \<longleftrightarrow> str_ok (h_node h) \<and> fits64 (h_listen h) \<and> list_all str_ok (h_listen h) \<and> pairs_ok (h_peers h)"
| "wire_ok (WDeclare _ _ e) \<longleftrightarrow> str_ok e"
| "wire_ok (WTokenSub _ e _) \<longleftrightarrow> str_ok e"
| "wire_ok (WTokenEvt _ _ k) \<longleftrightarrow> str_ok k"
| "wire_ok (WPeers p) \<longleftrightarrow> pairs_ok p"
| "wire_ok (WPut k pl) \<longleftrightarrow> str_ok k \<and> fits64 pl"
| "wire_ok (WRequest _ e pl _) \<longleftrightarrow> str_ok e \<and> fits64 pl"
| "wire_ok (WReply _ k _ pl) \<longleftrightarrow> str_ok k \<and> fits64 pl"
| "wire_ok _ \<longleftrightarrow> True"

lemma rbind_u8 [simp]: "rbind get_u8 h (x # b) = h x b"
  by (simp add: rbind_def)

lemma rmap_u8 [simp]: "rmap get_u8 c (x # b) = (case c x of None \<Rightarrow> None | Some y \<Rightarrow> Some (y, b))"
  by (simp add: rmap_def rret_def rfail_def split: option.split)

lemma get_enum:
  "rbind get_kind h (decl_kind_u8 k # b) = h k b"
  "rbind get_role hr (role_u8 r # b) = hr r b"
  "rbind get_evt_kind he (token_evt_kind_u8 e # b) = he e b"
  by (cases k; cases r; cases e;
      simp add: get_kind_def get_role_def get_evt_kind_def decl_kind_u8_def role_u8_def token_evt_kind_u8_def
        rbind_def)+

lemma enum_u8 [simp]:
  "close_reason_from_u8 (close_reason_u8 r) = r" "(bool_u8 h \<noteq> 0) = h" "(bool_u8 h = 0) = (\<not> h)"
  by (cases r; simp add: close_reason_from_u8_def close_reason_u8_def) (simp_all add: bool_u8_def)

lemmas put_read = var.rbind_put str.rbind_put bytes.rbind_put pairs.rbind_put var.rbind_put_exact
  str.rbind_put_exact bytes.rbind_put_exact pairs.rbind_put_exact get_many_str get_u32_put get_u32_put_exact
  get_enum

lemma get_msg_encode: "wire_ok m \<Longrightarrow> get_msg (wire_encode m @ rest) = Some (m, rest)"
  by (cases m) (simp_all add: get_msg_def put_read get_hello_def rret_def)

interpretation wire: byte_codec wire_ok "\<lambda>m. Some (wire_encode m)" wire_decode
  using get_msg_encode [where rest = "[]"] by unfold_locales (auto simp: wire_decode_def)

text \<open>
  Every mesh message is read back as it was sent, and only as a whole (C10): the decoder returns exactly
  the encoded message, and refuses the same bytes with anything after them.
\<close>

theorem wire_decode_encode:
  assumes "wire_ok m"
  shows "wire_decode (wire_encode m) = Some m \<and> (trail \<noteq> [] \<longrightarrow> wire_decode (wire_encode m @ trail) = None)"
  using get_msg_encode [OF assms] wire.dec_enc [OF assms] by (simp add: wire_decode_def)

theorem wire_decode_encode_witness:
  "wire_decode (wire_encode (WDeclare DSub 300 ''room/*'')) = Some (WDeclare DSub 300 ''room/*'')"
proof -
  have "wire_ok (WDeclare DSub 300 ''room/*'')"
    by (simp add: str_ok_def fits64_def utf8_def as_bytes_def utf8_valid.simps utf8_chunk_def utf8_width_def)
  from wire_decode_encode [OF this] show ?thesis by blast
qed

section \<open>Frames carry messages\<close>

lemma concat_chunks: "0 < n \<Longrightarrow> length xs \<le> fuel \<Longrightarrow> concat (chunks fuel n xs) = xs"
proof (induction fuel arbitrary: xs)
  case (Suc fuel)
  then show ?case by (cases "xs = []") auto
qed simp

lemma length_chunks: "ch \<in> set (chunks fuel n xs) \<Longrightarrow> length ch \<le> n"
  by (induction fuel arbitrary: xs) (auto split: if_splits)

lemma set_flagged: "snd ` set (flagged chs) = set chs"
  by (induction chs rule: flagged.induct) auto

text \<open>A lane's reassembler over a list of pieces.\<close>

fun reasm_lane :: "u8 list \<Rightarrow> (u8 \<times> u8 list) list \<Rightarrow> assembled list \<times> u8 list" where
  "reasm_lane p [] = ([], p)"
| "reasm_lane p ((flags, ch) # xs) =
     (let ar = reasm_push Data flags ch (reassembler_new(Data := p));
          t = reasm_lane (snd ar Data) xs
      in (fst ar # fst t, snd t))"

lemma reasm_flagged:
  assumes "chs \<noteq> []" and "length p + length (concat chs) \<le> MSG_MAX"
  shows "reasm_lane p (flagged chs) = (replicate (length chs - 1) Partial @ [Done (p @ concat chs)], [])"
  using assms
proof (induction chs arbitrary: p rule: flagged.induct)
  case (2 ch)
  then show ?case by (simp add: reasm_push_def MORE_def)
next
  case (3 ch ch' chs)
  have "reasm_lane (p @ ch) (flagged (ch' # chs))
      = (replicate (length (ch' # chs) - 1) Partial @ [Done ((p @ ch) @ concat (ch' # chs))], [])"
    by (rule "3.IH") (use "3.prems" in auto)
  with "3.prems" show ?case by (simp add: reasm_push_def MORE_def)
qed simp

text \<open>The whole reassembler over frames of all lanes, and the results one lane gets.\<close>

fun reasm_run :: "reassembler \<Rightarrow> (mesh_lane \<times> u8 \<times> u8 list) list \<Rightarrow> (mesh_lane \<times> assembled) list" where
  "reasm_run r [] = []"
| "reasm_run r ((l, flags, ch) # xs) =
     (let ar = reasm_push l flags ch r in (l, fst ar) # reasm_run (snd ar) xs)"

lemma reasm_push_other: "l' \<noteq> l \<Longrightarrow> snd (reasm_push l flags ch r) l' = r l'"
  by (simp add: reasm_push_def Let_def)

lemma reasm_push_same:
  "fst (reasm_push l flags ch r) = fst (reasm_push Data flags ch (reassembler_new(Data := r l)))"
  "snd (reasm_push l flags ch r) l = snd (reasm_push Data flags ch (reassembler_new(Data := r l))) Data"
  by (simp_all add: reasm_push_def Let_def)

lemma reasm_run_lane:
  "map snd (filter (\<lambda>x. fst x = l) (reasm_run r xs))
     = fst (reasm_lane (r l) (map snd (filter (\<lambda>x. fst x = l) xs)))"
proof (induction xs arbitrary: r)
  case (Cons x xs)
  obtain l' flags ch where x: "x = (l', flags, ch)" by (cases x)
  show ?case
    using Cons [of "snd (reasm_push l' flags ch r)"] reasm_push_same [of l flags ch r]
      reasm_push_other [of l l' flags ch r]
    by (cases "l' = l") (simp_all add: x Let_def)
qed simp

lemma wire_pieces_lane:
  assumes "length (wire_encode m) \<le> MSG_MAX"
  shows "fst (reasm_lane [] (wire_pieces m))
      = replicate (length (wire_pieces m) - 1) Partial @ [Done (wire_encode m)]"
proof -
  let ?b = "wire_encode m"
  let ?chs = "chunks (length ?b) (FRAME_MAX - FRAME_HEAD) ?b"
  have ne: "?b \<noteq> []" by (cases m) simp_all
  have cat: "concat ?chs = ?b" by (rule concat_chunks) (simp_all add: FRAME_MAX_def FRAME_HEAD_def)
  with ne have chs: "?chs \<noteq> []" by auto
  have len: "length (flagged chs) = length chs" for chs by (induction chs rule: flagged.induct) auto
  show ?thesis
    using reasm_flagged [OF chs, of "[]"] assms chs cat by (simp add: wire_pieces_def Let_def len)
qed

text \<open>
  A message survives fragmentation and interleaving: whatever frames of other lanes arrive in
  between, the frames of one message give \<open>Partial\<close> until the last, which gives the message's bytes; and no
  frame exceeds the frame limit.
\<close>

theorem wire_frames_reassemble:
  assumes "length (wire_encode m) \<le> MSG_MAX"
    and "map snd (filter (\<lambda>x. fst x = wire_lane m) xs) = wire_pieces m"
  shows "map snd (filter (\<lambda>x. fst x = wire_lane m) (reasm_run reassembler_new xs))
      = replicate (length (wire_pieces m) - 1) Partial @ [Done (wire_encode m)]
    \<and> (\<forall>f \<in> set (snd (wire_frames m)). length f \<le> FRAME_MAX)"
proof
  show "map snd (filter (\<lambda>x. fst x = wire_lane m) (reasm_run reassembler_new xs))
      = replicate (length (wire_pieces m) - 1) Partial @ [Done (wire_encode m)]"
    using wire_pieces_lane [OF assms(1)] assms(2) by (simp add: reasm_run_lane reassembler_new_def)
  have "length (snd p) \<le> FRAME_MAX - FRAME_HEAD" if "p \<in> set (wire_pieces m)" for p
  proof -
    have "p \<in> {(0, [])} \<or> snd p \<in> set (chunks (length (wire_encode m)) (FRAME_MAX - FRAME_HEAD) (wire_encode m))"
      using that set_flagged by (force simp: wire_pieces_def Let_def split: if_splits)
    then show ?thesis using length_chunks by auto
  qed
  then show "\<forall>f \<in> set (snd (wire_frames m)). length f \<le> FRAME_MAX"
    by (fastforce simp: wire_frames_def wire_frame_def FRAME_MAX_def FRAME_HEAD_def)
qed

theorem wire_frames_reassemble_witness:
  "map snd (filter (\<lambda>x. fst x = Declare)
     (reasm_run reassembler_new [(Control, MORE, [1]), (Declare, 0, [5]), (Control, 0, [2])]))
   = [Done [5]]"
proof -
  have "wire_pieces WDeclareDone = [(0, [5])]"
    by (simp add: wire_pieces_def FRAME_MAX_def FRAME_HEAD_def)
  moreover have "length (wire_encode WDeclareDone) \<le> MSG_MAX" by (simp add: MSG_MAX_def)
  ultimately show ?thesis
    using wire_frames_reassemble [of WDeclareDone
      "[(Control, MORE, [1]), (Declare, 0, [5]), (Control, 0, [2])]"] by simp
qed

end
