(* ===== verification/Mesh_Session.thy ===== *)
theory Mesh_Session
  imports Mesh_Wire
begin

text \<open>
  One mesh session (\<open>oxmesh/src/session.rs\<close>): the outgoing queues of the four lanes with their limits, the
  batches the writer takes (highest lane first), closing, and the reader that cuts the byte stream into
  frames. The socket and the clock are not modelled; a batch is the bytes handed to \<open>write_all\<close>, the
  stream is the bytes \<open>read_exact\<close> sees.
\<close>

section \<open>The outbox\<close>

definition DATA_CAP :: nat where "DATA_CAP = 8192"
definition REQ_CAP :: nat where "REQ_CAP = 4096"
definition WRITE_BATCH :: nat where "WRITE_BATCH = 65536"

datatype push_result = Queued | Dropped | Full | Closed

record outbox =
  lane_q :: "mesh_lane \<Rightarrow> u8 list list"
  closing :: "u8 list option option"
  ob_dropped :: u64
  ob_full :: u64
  total_dropped :: u64

definition outbox_new :: "u64 \<Rightarrow> outbox" where
  "outbox_new tot = \<lparr>lane_q = (\<lambda>_. []), closing = None, ob_dropped = 0, ob_full = 0, total_dropped = tot\<rparr>"

definition lane_cap :: "mesh_lane \<Rightarrow> nat option" where
  "lane_cap l = (case l of Data \<Rightarrow> Some DATA_CAP | Request \<Rightarrow> Some REQ_CAP | _ \<Rightarrow> None)"

definition ob_push :: "wire_msg \<Rightarrow> outbox \<Rightarrow> push_result \<times> outbox" where
  "ob_push m ob =
     (let (l, frames) = wire_frames m in
      if closing ob \<noteq> None then (Closed, ob)
      else if (case lane_cap l of Some c \<Rightarrow> c < length (lane_q ob l) + length frames | None \<Rightarrow> False) then
        (if l = Data then (Dropped, ob\<lparr>ob_dropped := ob_dropped ob + 1, total_dropped := total_dropped ob + 1\<rparr>)
         else (Full, ob\<lparr>ob_full := ob_full ob + 1\<rparr>))
      else (Queued, ob\<lparr>lane_q := (lane_q ob)(l := lane_q ob l @ frames)\<rparr>))"

definition ob_close :: "close_reason option \<Rightarrow> outbox \<Rightarrow> outbox" where
  "ob_close reason ob =
     (if closing ob = None then ob\<lparr>closing := Some (map_option (\<lambda>r. concat (snd (wire_frames (WClose r)))) reason)\<rparr>
      else ob)"

definition ob_depths :: "outbox \<Rightarrow> nat list" where
  "ob_depths ob = map (\<lambda>l. length (lane_q ob l)) [Control, Declare, Request, Data]"

text \<open>The first frame of the first lane that has one.\<close>

fun pop_front :: "mesh_lane list \<Rightarrow> (mesh_lane \<Rightarrow> u8 list list) \<Rightarrow> (mesh_lane \<times> u8 list \<times> (mesh_lane \<Rightarrow> u8 list list)) option" where
  "pop_front [] q = None"
| "pop_front (l # ls) q = (case q l of [] \<Rightarrow> pop_front ls q | f # fs \<Rightarrow> Some (l, f, q(l := fs)))"

abbreviation lanes :: "mesh_lane list" where
  "lanes \<equiv> [Control, Declare, Request, Data]"

definition queued :: "(mesh_lane \<Rightarrow> u8 list list) \<Rightarrow> nat" where
  "queued q = sum_list (map (\<lambda>l. length (q l)) lanes)"

lemma pop_front_queued: "pop_front lanes q = Some (l, f, q') \<Longrightarrow> queued q' < queued q"
  by (auto simp: queued_def split: list.splits)

text \<open>The writer's batch; \<open>out\<close> holds the frames taken so far, the batch is their concatenation.\<close>

function ob_fill :: "(mesh_lane \<times> u8 list) list \<Rightarrow> (mesh_lane \<Rightarrow> u8 list list)
    \<Rightarrow> (mesh_lane \<times> u8 list) list \<times> (mesh_lane \<Rightarrow> u8 list list)" where
  "ob_fill out q =
     (if length (concat (map snd out)) < WRITE_BATCH then
        (case pop_front lanes q of
           Some (l, f, q') \<Rightarrow> ob_fill (out @ [(l, f)]) q'
         | None \<Rightarrow> (out, q))
      else (out, q))"
  by pat_completeness auto
termination
  by (relation "measure (\<lambda>(out, q). queued q)") (auto simp: pop_front_queued simp del: pop_front.simps)

declare ob_fill.simps [simp del]

datatype pop_result = PopFrames "u8 list" | PopEmpty | PopClose "u8 list option"

definition ob_pop :: "outbox \<Rightarrow> pop_result \<times> outbox" where
  "ob_pop ob =
     (case closing ob of
        Some c \<Rightarrow> (PopClose c, ob\<lparr>closing := Some None, lane_q := (\<lambda>_. [])\<rparr>)
      | None \<Rightarrow>
          (let r = ob_fill [] (lane_q ob);
               bytes = concat (map snd (fst r))
           in (if bytes = [] then PopEmpty else PopFrames bytes, ob\<lparr>lane_q := snd r\<rparr>)))"

section \<open>The reader\<close>

text \<open>A frame cut from the front of the stream; \<open>Io\<close> is the end of the stream inside a frame.\<close>

definition read_frame :: "u8 list \<Rightarrow> close_reason + ((mesh_lane \<times> u8 \<times> u8 list) \<times> u8 list)" where
  "read_frame b =
     (if length b < 4 then Inl Io
      else (let n = unat (of_be32 (b ! 0) (b ! 1) (b ! 2) (b ! 3)); r = drop 4 b in
        if \<not> (2 \<le> n \<and> n \<le> FRAME_MAX - 4) then Inl Protocol
        else if length r < n then Inl Io
        else (let body = take n r in
          case mesh_lane_from_u8 (body ! 0) of
            None \<Rightarrow> Inl Protocol
          | Some l \<Rightarrow> Inr ((l, body ! 1, drop 2 body), drop n r))))"

lemma read_frame_shorter: "read_frame b = Inr (x, r) \<Longrightarrow> length r < length b"
  by (auto simp: read_frame_def Let_def split: if_splits option.splits)

text \<open>What the reader sees of its surroundings when a frame has arrived: the stop flag, the tick gap and
  time of the process clock, and whether the event channel still has a receiver.\<close>

record rd_env =
  rd_stop :: bool
  rd_now :: u64
  rd_last_tick :: u64
  rd_rx_gone :: bool

definition sat_sub :: "u64 \<Rightarrow> u64 \<Rightarrow> u64" where
  "sat_sub a b = (if a < b then 0 else a - b)"

definition clock_tick :: "u64 \<Rightarrow> u64 \<Rightarrow> u64 \<times> u64" where
  "clock_tick now last_tick = (sat_sub now last_tick, now)"

definition gap_ms :: "rd_env \<Rightarrow> u64" where
  "gap_ms e = sat_sub (rd_now e) (rd_last_tick e)"

datatype sess_ev = SMsg u64 wire_msg | SClosed u64 close_reason | SPaused

record read_ctx =
  rc_uid :: u64
  rc_fence_ms :: u64

text \<open>The read loop over a finished stream: the events sent and the last value of \<open>last_rx\<close>; the n-th
  frame is read in the surroundings \<open>env n\<close>.\<close>

function read_loop :: "read_ctx \<Rightarrow> (nat \<Rightarrow> rd_env) \<Rightarrow> reassembler \<Rightarrow> u64 \<Rightarrow> u8 list \<Rightarrow> sess_ev list \<times> u64" where
  "read_loop cx env asm rx b =
     (let e = env 0;
          stopped = (\<lambda>why rx. (if rd_stop e then [] else [SClosed (rc_uid cx) why], rx))
      in case read_frame b of
        Inl why \<Rightarrow> stopped why rx
      | Inr ((l, flags, ch), r) \<Rightarrow>
          if rd_stop e then ([], rx)
          else if rc_fence_ms cx < gap_ms e then ([SPaused], rx)
          else (case reasm_push l flags ch asm of
             (Partial, asm') \<Rightarrow> read_loop cx (\<lambda>i. env (Suc i)) asm' (rd_now e) r
           | (TooBig, asm') \<Rightarrow> stopped Protocol (rd_now e)
           | (Done body, asm') \<Rightarrow>
               (case wire_decode body of
                  Some m \<Rightarrow>
                    if m = WKeepAlive then read_loop cx (\<lambda>i. env (Suc i)) asm' (rd_now e) r
                    else if rd_rx_gone e then ([], rd_now e)
                    else (case read_loop cx (\<lambda>i. env (Suc i)) asm' (rd_now e) r of
                            (evs, rx') \<Rightarrow> (SMsg (rc_uid cx) m # evs, rx'))
                | None \<Rightarrow> stopped Protocol (rd_now e))))"
  by pat_completeness auto
termination
  by (relation "measure (\<lambda>(cx, env, asm, rx, b). length b)") (auto dest: read_frame_shorter)

declare read_loop.simps [simp del]

text \<open>The handshake's direct messages: one unfragmented control frame each way.\<close>

definition send_direct :: "wire_msg \<Rightarrow> u8 list" where
  "send_direct m = concat (snd (wire_frames m))"

definition recv_direct :: "u8 list \<Rightarrow> wire_msg option" where
  "recv_direct b =
     (case read_frame b of
        Inl _ \<Rightarrow> None
      | Inr ((l, flags, ch), _) \<Rightarrow> if l \<noteq> Control \<or> flags \<noteq> 0 then None else wire_decode ch)"

section \<open>Queue discipline\<close>

text \<open>What the batch takes and what it leaves make up each lane, in order.\<close>

lemma pop_front_split:
  assumes "pop_front ls q = Some (l, f, q')"
  shows "q l = f # q' l" and "l' \<noteq> l \<Longrightarrow> q' l' = q l'"
  using assms by (induction ls) (auto split: list.splits if_splits)

lemma ob_fill_lane:
  "map snd (filter (\<lambda>x. fst x = l) (fst (ob_fill out q))) @ snd (ob_fill out q) l
     = map snd (filter (\<lambda>x. fst x = l) out) @ q l"
proof (induction out q rule: ob_fill.induct)
  case (1 out q)
  show ?case
  proof (cases "length (concat (map snd out)) < WRITE_BATCH \<and> pop_front lanes q \<noteq> None")
    case True
    then obtain l0 f q' where p: "pop_front lanes q = Some (l0, f, q')" by (cases "pop_front lanes q") auto
    have "ob_fill out q = ob_fill (out @ [(l0, f)]) q'"
      using True p by (subst ob_fill.simps) (simp del: pop_front.simps)
    moreover have "map snd (filter (\<lambda>x. fst x = l) (out @ [(l0, f)])) @ q' l
        = map snd (filter (\<lambda>x. fst x = l) out) @ q l"
      using pop_front_split [OF p] by (cases "l = l0") auto
    ultimately show ?thesis using 1 [OF _ p refl refl] True by simp
  next
    case False
    then have "ob_fill out q = (out, q)"
      by (subst ob_fill.simps) (auto split: option.split simp del: pop_front.simps)
    then show ?thesis by simp
  qed
qed

text \<open>
  The writer loses nothing and keeps each lane's order: on an open session, the frames of a batch and
  the frames left behind are, lane by lane, the frames that were queued; the batch's bytes are exactly its
  frames.
\<close>

theorem ob_pop_fifo:
  assumes "closing ob = None"
  shows "\<exists>taken. fst (ob_pop ob) = (if concat (map snd taken) = [] then PopEmpty else PopFrames (concat (map snd taken)))
    \<and> (\<forall>l. map snd (filter (\<lambda>x. fst x = l) taken) @ lane_q (snd (ob_pop ob)) l = lane_q ob l)"
  using assms ob_fill_lane [of _ "[]" "lane_q ob"]
  by (intro exI [of _ "fst (ob_fill [] (lane_q ob))"]) (simp add: ob_pop_def Let_def)

theorem ob_pop_fifo_witness:
  "\<exists>taken. fst (ob_pop (snd (ob_push WKeepAlive (outbox_new 0))))
      = (if concat (map snd taken) = [] then PopEmpty else PopFrames (concat (map snd taken)))
    \<and> (\<forall>l. map snd (filter (\<lambda>x. fst x = l) taken) @ lane_q (snd (ob_pop (snd (ob_push WKeepAlive (outbox_new 0))))) l
        = lane_q (snd (ob_push WKeepAlive (outbox_new 0))) l)"
  by (rule ob_pop_fifo) (simp add: ob_push_def outbox_new_def wire_frames_def lane_cap_def)

text \<open>The lanes' limits, as an invariant of any use of the outbox.\<close>

datatype ob_event = ObPush wire_msg | ObClose "close_reason option" | ObPop

definition ob_step :: "outbox \<Rightarrow> ob_event \<Rightarrow> outbox" where
  "ob_step ob e = (case e of ObPush m \<Rightarrow> snd (ob_push m ob) | ObClose r \<Rightarrow> ob_close r ob | ObPop \<Rightarrow> snd (ob_pop ob))"

definition ob_inv :: "outbox \<Rightarrow> bool" where
  "ob_inv ob \<longleftrightarrow> length (lane_q ob Data) \<le> DATA_CAP \<and> length (lane_q ob Request) \<le> REQ_CAP"

lemma ob_fill_le: "length (snd (ob_fill out q) l) \<le> length (map snd (filter (\<lambda>x. fst x = l) out) @ q l)"
  using ob_fill_lane [of l out q] by (metis le_add2 length_append)

lemma ob_inv_step: "ob_inv ob \<Longrightarrow> ob_inv (ob_step ob e)"
proof (cases e)
  case (ObPush m)
  then show "ob_inv ob \<Longrightarrow> ob_inv (ob_step ob e)"
    by (cases "wire_lane m") (auto simp: ob_step_def ob_push_def wire_frames_def ob_inv_def lane_cap_def)
next
  case (ObClose r)
  then show "ob_inv ob \<Longrightarrow> ob_inv (ob_step ob e)" by (simp add: ob_step_def ob_close_def ob_inv_def)
next
  case ObPop
  then show "ob_inv ob \<Longrightarrow> ob_inv (ob_step ob e)"
    using ob_fill_le [of "[]" "lane_q ob" Data] ob_fill_le [of "[]" "lane_q ob" Request]
    by (auto simp: ob_step_def ob_pop_def ob_inv_def Let_def split: option.split)
qed

interpretation ob: machine "outbox_new t" ob_step ob_inv for t
proof unfold_locales
  show "ob_inv (outbox_new t)" by (simp add: ob_inv_def outbox_new_def)
qed (rule ob_inv_step)

text \<open>
  The outbox is bounded where it may refuse, and refuses only there: after any use the data and
  request lanes stay within their limits, and a control or declaration message on an open session is
  always queued whole, at the end of its lane.
\<close>

theorem ob_bounded_and_lossless:
  "let ob = run_from ob_step (outbox_new t) es in
     length (lane_q ob Data) \<le> 8192 \<and> length (lane_q ob Request) \<le> 4096 \<and>
     (closing ob = None \<and> wire_lane m \<in> {Control, Declare} \<longrightarrow>
        fst (ob_push m ob) = Queued \<and>
        lane_q (snd (ob_push m ob)) (wire_lane m) = lane_q ob (wire_lane m) @ snd (wire_frames m))"
  using ob.inv_run [of t es]
  by (auto simp: Let_def ob_inv_def DATA_CAP_def REQ_CAP_def ob_push_def wire_frames_def lane_cap_def)

theorem ob_bounded_and_lossless_witness:
  "fst (ob_push WKeepAlive (run_from ob_step (outbox_new 0) [ObPop])) = Queued"
proof -
  have "closing (run_from ob_step (outbox_new 0) [ObPop]) = None"
    by (simp add: ob_step_def ob_pop_def outbox_new_def Let_def)
  with ob_bounded_and_lossless [of 0 "[ObPop]" WKeepAlive] show ?thesis by (simp add: Let_def)
qed

section \<open>From one outbox to the other side\<close>

definition piece_ok :: "mesh_lane \<times> u8 \<times> u8 list \<Rightarrow> bool" where
  "piece_ok p \<longleftrightarrow> length (snd (snd p)) \<le> FRAME_MAX - FRAME_HEAD"

definition put_frame :: "mesh_lane \<times> u8 \<times> u8 list \<Rightarrow> u8 list" where
  "put_frame p = wire_frame (fst p) (fst (snd p)) (snd (snd p))"

lemma lane_roundtrip [simp]: "mesh_lane_from_u8 (mesh_lane_u8 l) = Some l"
  by (cases l) (simp_all add: mesh_lane_from_u8_def mesh_lane_u8_def)

lemma read_frame_put: "piece_ok p \<Longrightarrow> read_frame (put_frame p @ rest) = Inr (p, rest)"
proof -
  assume ok: "piece_ok p"
  obtain l flags ch where p: "p = (l, flags, ch)" by (cases p)
  have len: "length ch + 2 \<le> FRAME_MAX - 4" using ok by (simp add: p piece_ok_def FRAME_MAX_def FRAME_HEAD_def)
  have n: "unat (word_of_nat k :: u32) = k" if "k \<le> FRAME_MAX" for k
    using that by (simp add: unat_of_nat take_bit_eq_mod FRAME_MAX_def)
  have n: "unat (word_of_nat (length ch + 2) :: u32) = length ch + 2"
    by (rule n) (use len in simp)
  show ?thesis
    using len n by (simp add: p put_frame_def wire_frame_def read_frame_def be32_def of_be32_be32 del: of_nat_add)
qed

interpretation framed: prefix_codec piece_ok put_frame
  "\<lambda>b. case read_frame b of Inl _ \<Rightarrow> None | Inr x \<Rightarrow> Some x"
  by unfold_locales (simp add: read_frame_put)

text \<open>Surroundings in which the reader is left alone.\<close>

definition calm :: "read_ctx \<Rightarrow> (nat \<Rightarrow> rd_env) \<Rightarrow> bool" where
  "calm cx env \<longleftrightarrow> (\<forall>i. \<not> rd_stop (env i) \<and> \<not> rd_rx_gone (env i) \<and> gap_ms (env i) \<le> rc_fence_ms cx)"

lemma calm_D [dest]: "calm cx env \<Longrightarrow> \<not> rd_stop (env i) \<and> \<not> rd_rx_gone (env i) \<and> \<not> rc_fence_ms cx < gap_ms (env i)"
  by (auto simp: calm_def not_less)

lemma calm_later [simp]: "calm cx env \<Longrightarrow> calm cx (\<lambda>i. env (Suc i))" "calm cx env \<Longrightarrow> calm cx (\<lambda>i. env (n + i))"
  by (simp_all add: calm_def)

definition delivered :: "read_ctx \<Rightarrow> wire_msg \<Rightarrow> sess_ev list" where
  "delivered cx m = (if m = WKeepAlive then [] else [SMsg (rc_uid cx) m])"

lemma read_loop_partial:
  assumes "calm cx env" "piece_ok (l, flags, ch)" "fst (reasm_push l flags ch asm) = Partial"
  shows "fst (read_loop cx env asm rx (put_frame (l, flags, ch) @ rest))
      = fst (read_loop cx (\<lambda>i. env (Suc i)) (snd (reasm_push l flags ch asm)) (rd_now (env 0)) rest)"
  using assms(1) [THEN calm_D, of 0] assms(3)
  by (subst read_loop.simps) (auto simp: read_frame_put [OF assms(2)] Let_def split: prod.split)

lemma read_loop_done:
  assumes "calm cx env" "piece_ok (l, flags, ch)" "fst (reasm_push l flags ch asm) = Done body"
    and "wire_decode body = Some m"
  shows "fst (read_loop cx env asm rx (put_frame (l, flags, ch) @ rest))
      = delivered cx m
        @ fst (read_loop cx (\<lambda>i. env (Suc i)) (snd (reasm_push l flags ch asm)) (rd_now (env 0)) rest)"
  using assms(1) [THEN calm_D, of 0] assms(3,4)
  by (subst read_loop.simps) (auto simp: delivered_def read_frame_put [OF assms(2)] Let_def split: prod.split)

text \<open>
  A frozen process never renews a lease: a frame read when the clock has not ticked within the
  fence stops the reader with a pause event before the frame is used, and \<open>last_rx\<close> keeps its value.
\<close>

theorem read_loop_fenced:
  assumes "read_frame b = Inr (f, r)" "\<not> rd_stop (env 0)" "rc_fence_ms cx < gap_ms (env 0)"
  shows "read_loop cx env asm rx b = ([SPaused], rx)"
  using assms by (subst read_loop.simps) (simp add: Let_def split: prod.split)

theorem read_loop_fenced_witness:
  "read_loop \<lparr>rc_uid = 7, rc_fence_ms = 500\<rparr>
      (\<lambda>_. \<lparr>rd_stop = False, rd_now = 1000, rd_last_tick = 100, rd_rx_gone = False\<rparr>)
      reassembler_new 42 (put_frame (Control, 0, [7]) @ []) = ([SPaused], 42)"
  by (rule read_loop_fenced [OF read_frame_put]) (simp_all add: piece_ok_def gap_ms_def sat_sub_def FRAME_MAX_def FRAME_HEAD_def)

end
