(* ===== verification/Mesh_Core.thy ===== *)
theory Mesh_Core
  imports Mesh_Session Mesh_Keyexpr
begin

text \<open>
  The mesh core (\<open>oxmesh/src/core.rs\<close>): the one task that owns all sessions, declarations and pending
  queries of a node. Every handler is a function on the state; what it sends to a peer goes into that
  peer's outbox, what it hands to local channels, to a connection being set up, or to a dialling task is
  appended to \<open>c_fx\<close>.

  A \<open>HashMap\<close> is an association list whose order stands for the order of iteration, which the code
  leaves open: a new key goes to the front. Times are milliseconds of the process clock, passed in.
  The counters of identities are \<open>u64\<close>. The advertised address of a peer (the parsing of socket
  addresses) is an argument of \<open>install\<close>.
\<close>

section \<open>Hash maps\<close>

definition hm_put :: "'k \<Rightarrow> 'v \<Rightarrow> ('k, 'v) btree \<Rightarrow> ('k, 'v) btree" where
  "hm_put k v m = (k, v) # bt_remove k m"

definition hm_mod :: "'k \<Rightarrow> ('v \<Rightarrow> 'v) \<Rightarrow> ('k, 'v) btree \<Rightarrow> ('k, 'v) btree" where
  "hm_mod k f m = map (\<lambda>e. if fst e = k then (k, f (snd e)) else e) m"

lemma bt_get_Cons: "bt_get ((k, v) # m) k' = (if k' = k then Some v else bt_get m k')"
  by (simp add: bt_get_def)

lemma bt_get_hm_put [simp]: "bt_get (hm_put k v m) k' = (if k' = k then Some v else bt_get m k')"
  by (simp add: hm_put_def bt_get_Cons)

lemma bt_get_hm_mod [simp]:
  "bt_get (hm_mod k f m) k' = (if k' = k then map_option f (bt_get m k) else bt_get m k')"
  by (induction m) (auto simp: hm_mod_def bt_get_def)

lemma keys_hm_mod [simp]: "map fst (hm_mod k f m) = map fst m"
  by (induction m) (auto simp: hm_mod_def)

lemma keys_hm_put [simp]: "fst ` set (hm_put k v m) = insert k (fst ` set m)"
  by (auto simp: hm_put_def bt_remove_def image_iff)

lemma distinct_bt_remove [simp]: "distinct (map fst m) \<Longrightarrow> distinct (map fst (bt_remove k m))"
  by (simp add: bt_remove_def distinct_map_filter)

lemma distinct_hm_put [simp]: "distinct (map fst m) \<Longrightarrow> distinct (map fst (hm_put k v m))"
  by (simp add: hm_put_def) (auto simp: bt_remove_def distinct_map_filter)

section \<open>The subscription index\<close>

datatype owner = OLocal u64 | OSess u64
datatype qtarget = TLocal u64 | TSess u64
datatype origin = OrgLocal nat | OrgSess u64 u64
datatype token_event = TokPut string | TokDelete string | TokBatchEnd

type_synonym sub_key = "owner \<times> u64"

record sub_index =
  ix_exprs :: "(sub_key, string) btree"
  ix_exact :: "(string, sub_key list) btree"
  ix_wild :: "sub_key list"

definition sub_index_new :: sub_index where
  "sub_index_new = \<lparr>ix_exprs = [], ix_exact = [], ix_wild = []\<rparr>"

definition ix_remove :: "owner \<Rightarrow> u64 \<Rightarrow> sub_index \<Rightarrow> sub_index" where
  "ix_remove o' i x =
     (case bt_get (ix_exprs x) (o', i) of
        None \<Rightarrow> x
      | Some e \<Rightarrow>
          (let x1 = x\<lparr>ix_exprs := bt_remove (o', i) (ix_exprs x)\<rparr>;
               x2 = (case bt_get (ix_exact x1) e of
                   None \<Rightarrow> x1
                 | Some ks \<Rightarrow>
                     (let ks' = removeAll (o', i) ks in
                      x1\<lparr>ix_exact := (if ks' = [] then bt_remove e (ix_exact x1) else hm_put e ks' (ix_exact x1))\<rparr>))
           in x2\<lparr>ix_wild := removeAll (o', i) (ix_wild x2)\<rparr>))"

definition ix_add :: "owner \<Rightarrow> u64 \<Rightarrow> string \<Rightarrow> sub_index \<Rightarrow> sub_index" where
  "ix_add o' i expr x =
     (let x1 = ix_remove o' i x;
          x2 = (if key_concrete expr
                then x1\<lparr>ix_exact := hm_put expr (List.insert (o', i) (case bt_get (ix_exact x1) expr of None \<Rightarrow> [] | Some ks \<Rightarrow> ks))
                          (ix_exact x1)\<rparr>
                else x1\<lparr>ix_wild := List.insert (o', i) (ix_wild x1)\<rparr>)
      in x2\<lparr>ix_exprs := hm_put (o', i) expr (ix_exprs x2)\<rparr>)"

definition ix_matching :: "sub_index \<Rightarrow> string \<Rightarrow> sub_key list" where
  "ix_matching x key =
     (case bt_get (ix_exact x) key of None \<Rightarrow> [] | Some ks \<Rightarrow> ks)
     @ filter (\<lambda>k. case bt_get (ix_exprs x) k of None \<Rightarrow> False | Some e \<Rightarrow> key_intersects e key) (ix_wild x)"

section \<open>The state\<close>

definition BACKOFF_MIN :: nat where "BACKOFF_MIN = 100"
definition BACKOFF_MAX :: nat where "BACKOFF_MAX = 250"
definition PROTO :: u8 where "PROTO = 1"

record pending =
  p_origin :: origin
  p_targets :: "qtarget list"
  p_deadline :: nat

record sess =
  s_peer :: string
  s_role :: role
  s_dialer :: string
  s_boot :: u64
  s_sno :: u64
  s_addr :: string
  s_adv :: "string option"
  s_ob :: outbox
  s_last_rx :: nat
  s_decls :: "((decl_kind \<times> u64), string) btree"
  s_tsubs :: "(u64, string) btree"
  s_peers :: "(string \<times> string) list"
  s_since :: nat

record dial =
  d_seed :: bool
  d_node :: "string option"
  d_busy :: bool
  d_next :: nat
  d_backoff :: nat

record sess_info =
  si_peer :: string
  si_router :: bool
  si_dialer :: string
  si_boot :: u64
  si_sno :: u64
  si_addr :: string
  si_decls :: nat
  si_depths :: "nat list"
  si_dropped :: u64
  si_full :: u64
  si_age_ms :: nat

record mesh_info =
  mi_node :: string
  mi_router :: bool
  mi_boot :: u64
  mi_tokens :: nat
  mi_sessions :: "sess_info list"

datatype local_fx =
    FxSample u64 string "u8 list"
  | FxToken u64 token_event
  | FxQuery u64 u64 string "u8 list"
  | FxReply nat string bool "u8 list"
  | FxDial string hello
  | FxDirect wire_msg
  | FxAck u64
  | FxInfo mesh_info
  | FxClose u64 "close_reason option"

record core =
  c_node :: string
  c_router :: bool
  c_lease_ms :: nat
  c_fence_ms :: nat
  c_boot :: u64
  c_listen :: "string list"
  c_last_tick :: nat
  c_next_uid :: u64
  c_next_id :: u64
  c_next_sno :: u64
  c_sessions :: "(u64, sess) btree"
  c_by_peer :: "(string, u64) btree"
  c_l_tokens :: "(u64, string) btree"
  c_l_subs :: "(u64, string) btree"
  c_l_qabls :: "(u64, string) btree"
  c_l_tsubs :: "(u64, string \<times> string list) btree"
  c_tok :: "(string, nat) btree"
  c_subs :: sub_index
  c_out :: "(u64, decl_kind \<times> string) btree"
  c_south :: "(u64 \<times> decl_kind \<times> u64, u64) btree"
  c_pending :: "(u64, pending) btree"
  c_dials :: "(string, dial) btree"
  c_known :: "(string, string) btree"
  c_partial :: "(string, nat \<times> bool) btree"
  c_last_partial_check :: nat
  c_dropped :: u64
  c_fx :: "local_fx list"

definition core_new :: "string \<Rightarrow> bool \<Rightarrow> nat \<Rightarrow> u64 \<Rightarrow> string list \<Rightarrow> string list \<Rightarrow> core" where
  "core_new node router lease boot listen seeds =
     (let lease_ms = max lease 400 in
      \<lparr>c_node = node, c_router = router, c_lease_ms = lease_ms, c_fence_ms = lease_ms, c_boot = boot,
       c_listen = listen, c_last_tick = 0, c_next_uid = 1, c_next_id = 1, c_next_sno = 1, c_sessions = [], c_by_peer = [],
       c_l_tokens = [], c_l_subs = [], c_l_qabls = [], c_l_tsubs = [], c_tok = [], c_subs = sub_index_new,
       c_out = [], c_south = [], c_pending = [],
       c_dials = fold (\<lambda>a. hm_put a \<lparr>d_seed = True, d_node = None, d_busy = False, d_next = 0, d_backoff = BACKOFF_MIN\<rparr>) seeds [],
       c_known = [], c_partial = [], c_last_partial_check = 0, c_dropped = 0, c_fx = []\<rparr>)"

definition emit :: "local_fx \<Rightarrow> core \<Rightarrow> core" where
  "emit f c = c\<lparr>c_fx := c_fx c @ [f]\<rparr>"

text \<open>Messages into a session's outbox; the count of dropped messages is one for the whole process.\<close>

definition sess_push :: "u64 \<Rightarrow> wire_msg \<Rightarrow> core \<Rightarrow> push_result option \<times> core" where
  "sess_push uid m c =
     (case bt_get (c_sessions c) uid of
        None \<Rightarrow> (None, c)
      | Some s \<Rightarrow>
          (case ob_push m ((s_ob s)\<lparr>total_dropped := c_dropped c\<rparr>) of
             (r, ob) \<Rightarrow> (Some r, c\<lparr>c_sessions := hm_mod uid (\<lambda>s. s\<lparr>s_ob := ob\<rparr>) (c_sessions c),
                                  c_dropped := total_dropped ob\<rparr>)))"

definition push_to :: "u64 \<Rightarrow> wire_msg \<Rightarrow> core \<Rightarrow> core" where
  "push_to uid m c = snd (sess_push uid m c)"

definition push_all :: "u64 list \<Rightarrow> wire_msg \<Rightarrow> core \<Rightarrow> core" where
  "push_all us m c = fold (\<lambda>u. push_to u m) us c"

definition uids_of :: "role \<Rightarrow> core \<Rightarrow> u64 list" where
  "uids_of r c = map fst (filter (\<lambda>e. s_role (snd e) = r) (c_sessions c))"

definition new_id :: "core \<Rightarrow> u64 \<times> core" where
  "new_id c = (c_next_id c, c\<lparr>c_next_id := c_next_id c + 1\<rparr>)"

definition announce :: "wire_msg \<Rightarrow> core \<Rightarrow> core" where
  "announce m c = (if c_router c then push_all (uids_of Router c) m c else c)"

definition upstream :: "core \<Rightarrow> u64 option" where
  "upstream c = (if c_router c then None else map_option fst (find (\<lambda>_. True) (c_sessions c)))"

definition push_up :: "wire_msg \<Rightarrow> core \<Rightarrow> core" where
  "push_up m c = (case upstream c of None \<Rightarrow> c | Some u \<Rightarrow> push_to u m c)"

definition peer_list :: "core \<Rightarrow> (string \<times> string) list" where
  "peer_list c = sort (map (\<lambda>s. (s_peer s, the (s_adv s)))
     (filter (\<lambda>s. s_role s = Router \<and> s_adv s \<noteq> None) (map snd (c_sessions c))))"

definition broadcast_peers :: "core \<Rightarrow> core" where
  "broadcast_peers c = push_all (uids_of Router c) (WPeers (peer_list c)) c"

definition my_hello :: "u64 \<Rightarrow> core \<Rightarrow> hello" where
  "my_hello sno c =
     \<lparr>h_proto = PROTO, h_role = (if c_router c then Router else Client), h_node = c_node c, h_boot = c_boot c,
      h_sno = sno, h_lease_ms = word_of_nat (c_lease_ms c), h_listen = c_listen c, h_peers = peer_list c\<rparr>"

section \<open>Tokens\<close>

definition tok_notify :: "token_evt_kind \<Rightarrow> string \<Rightarrow> core \<Rightarrow> core" where
  "tok_notify kind key c =
     (let ev = (if kind = EvtPut then TokPut key else TokDelete key);
          c1 = fold (\<lambda>e. emit (FxToken (fst e) ev)) (filter (\<lambda>e. key_intersects (fst (snd e)) key) (c_l_tsubs c)) c
      in fold (\<lambda>u c'. case bt_get (c_sessions c') u of
             None \<Rightarrow> c'
           | Some s \<Rightarrow> fold (\<lambda>e. push_to u (WTokenEvt (fst e) kind key))
                         (filter (\<lambda>e. key_intersects (snd e) key) (s_tsubs s)) c')
           (uids_of Client c1) c1)"

definition tok_add :: "string \<Rightarrow> core \<Rightarrow> core" where
  "tok_add key c =
     (case bt_get (c_tok c) key of
        Some n \<Rightarrow> c\<lparr>c_tok := hm_mod key Suc (c_tok c)\<rparr>
      | None \<Rightarrow> tok_notify EvtPut key (c\<lparr>c_tok := hm_put key 1 (c_tok c)\<rparr>))"

definition tok_del :: "string \<Rightarrow> core \<Rightarrow> bool \<times> core" where
  "tok_del key c =
     (case bt_get (c_tok c) key of
        None \<Rightarrow> (False, c)
      | Some n \<Rightarrow>
          if 1 < n then (False, c\<lparr>c_tok := hm_mod key (\<lambda>n. n - 1) (c_tok c)\<rparr>)
          else (True, tok_notify EvtDelete key (c\<lparr>c_tok := bt_remove key (c_tok c)\<rparr>)))"

definition batch_end :: "core \<Rightarrow> core" where
  "batch_end c =
     (let c1 = fold (\<lambda>e. emit (FxToken (fst e) TokBatchEnd)) (c_l_tsubs c) c in
      fold (\<lambda>u c'. case bt_get (c_sessions c') u of
             None \<Rightarrow> c'
           | Some s \<Rightarrow> fold (\<lambda>e. push_to u (WTokenEvt (fst e) EvtBatchEnd [])) (s_tsubs s) c')
           (uids_of Client c1) c1)"

definition tok_history :: "string \<Rightarrow> core \<Rightarrow> string list" where
  "tok_history expr c = sort (filter (\<lambda>k. key_intersects expr k) (map fst (c_tok c)))"

section \<open>Queries\<close>

definition forward_reply :: "u64 \<Rightarrow> string \<Rightarrow> bool \<Rightarrow> u8 list \<Rightarrow> core \<Rightarrow> core" where
  "forward_reply qid key ok payload c =
     (case bt_get (c_pending c) qid of
        None \<Rightarrow> c
      | Some p \<Rightarrow>
          (case p_origin p of
             OrgLocal ch \<Rightarrow> emit (FxReply ch key ok payload) c
           | OrgSess uid theirs \<Rightarrow> push_to uid (WReply theirs key ok payload) c))"

definition finish :: "u64 \<Rightarrow> core \<Rightarrow> core" where
  "finish qid c =
     (case bt_get (c_pending c) qid of
        None \<Rightarrow> c
      | Some p \<Rightarrow>
          (let c1 = c\<lparr>c_pending := bt_remove qid (c_pending c)\<rparr> in
           case p_origin p of OrgSess uid theirs \<Rightarrow> push_to uid (WFinal theirs) c1 | OrgLocal _ \<Rightarrow> c1))"

definition target_done :: "u64 \<Rightarrow> qtarget \<Rightarrow> core \<Rightarrow> core" where
  "target_done qid t c =
     (case bt_get (c_pending c) qid of
        None \<Rightarrow> c
      | Some p \<Rightarrow>
          (let ts = removeAll t (p_targets p);
               c1 = c\<lparr>c_pending := hm_mod qid (\<lambda>p. p\<lparr>p_targets := removeAll t (p_targets p)\<rparr>) (c_pending c)\<rparr>
           in if t \<in> set (p_targets p) \<and> ts = [] then finish qid c1 else c1))"

definition query_targets :: "u64 option \<Rightarrow> string \<Rightarrow> core \<Rightarrow> qtarget list" where
  "query_targets from expr c =
     (let from_router = (case Option.bind from (bt_get (c_sessions c)) of None \<Rightarrow> False | Some s \<Rightarrow> s_role s = Router)
      in map (\<lambda>e. TLocal (fst e)) (filter (\<lambda>e. key_intersects (snd e) expr) (c_l_qabls c))
       @ map (\<lambda>e. TSess (fst e))
           (filter (\<lambda>(u, s). Some u \<noteq> from \<and>
              (if c_router c
               then \<not> (from_router \<and> s_role s = Router) \<and>
                 (\<exists>d \<in> set (s_decls s). fst (fst d) = DQabl \<and> key_intersects (snd d) expr)
               else from = None)) (c_sessions c)))"

definition lane_full :: "u8 list" where
  "lane_full = as_bytes ''mesh: request lane full''"

text \<open>\<open>gone\<close> tells which local responders have dropped their receiver.\<close>

definition send_query :: "(u64 \<Rightarrow> bool) \<Rightarrow> u64 \<Rightarrow> string \<Rightarrow> u8 list \<Rightarrow> u32 \<Rightarrow> qtarget \<Rightarrow> core \<Rightarrow> core" where
  "send_query gone qid expr payload timeout_ms t c =
     (case t of
        TLocal i \<Rightarrow>
          (case bt_get (c_l_qabls c) i of
             None \<Rightarrow> c
           | Some _ \<Rightarrow> if gone i then target_done qid t c else emit (FxQuery qid i expr payload) c)
      | TSess u \<Rightarrow>
          (case sess_push u (WRequest qid expr payload timeout_ms) c of
             (r, c1) \<Rightarrow>
               if r \<noteq> Some Queued then
                 (let peer = (case bt_get (c_sessions c1) u of Some s \<Rightarrow> s_peer s | None \<Rightarrow> [])
                  in target_done qid t (forward_reply qid peer False lane_full c1))
               else c1))"

definition route_get :: "(u64 \<Rightarrow> bool) \<Rightarrow> nat \<Rightarrow> origin \<Rightarrow> string \<Rightarrow> u8 list \<Rightarrow> u32 \<Rightarrow> core \<Rightarrow> core" where
  "route_get gone now org expr payload timeout_ms c =
     (let from = (case org of OrgSess uid _ \<Rightarrow> Some uid | OrgLocal _ \<Rightarrow> None) in
      case new_id c of
        (qid, c1) \<Rightarrow>
          (let ts = query_targets from expr c1;
               c2 = c1\<lparr>c_pending := hm_put qid \<lparr>p_origin = org, p_targets = ts, p_deadline = now + unat timeout_ms\<rparr> (c_pending c1)\<rparr>;
               c3 = fold (send_query gone qid expr payload timeout_ms) ts c2
           in case bt_get (c_pending c3) qid of
                Some p \<Rightarrow> if p_targets p = [] then finish qid c3 else c3
              | None \<Rightarrow> c3))"

section \<open>Puts\<close>

definition put_one :: "u64 option \<Rightarrow> bool \<Rightarrow> string \<Rightarrow> u8 list \<Rightarrow> sub_key \<Rightarrow> u64 list \<times> core \<Rightarrow> u64 list \<times> core" where
  "put_one from from_router key payload k sc =
     (case sc of (sent, c) \<Rightarrow>
        (case fst k of
           OLocal _ \<Rightarrow> (case bt_get (c_l_subs c) (snd k) of
               None \<Rightarrow> sc
             | Some _ \<Rightarrow> (sent, emit (FxSample (snd k) key payload) c))
         | OSess u \<Rightarrow>
             if Some u = from \<or> u \<in> set sent then sc
             else (case bt_get (c_sessions c) u of
                 None \<Rightarrow> (u # sent, c)
               | Some s \<Rightarrow> if from_router \<and> s_role s = Router then (u # sent, c)
                           else (u # sent, push_to u (WPut key payload) c))))"

definition route_put :: "u64 option \<Rightarrow> string \<Rightarrow> u8 list \<Rightarrow> core \<Rightarrow> core" where
  "route_put from key payload c =
     (let from_router = (case Option.bind from (bt_get (c_sessions c)) of None \<Rightarrow> False | Some s \<Rightarrow> s_role s = Router);
          c1 = snd (fold (put_one from from_router key payload) (ix_matching (c_subs c) key) ([], c))
      in if from = None then push_up (WPut key payload) c1 else c1)"

section \<open>The end of a session\<close>

definition close_decl :: "u64 \<Rightarrow> (decl_kind \<times> u64) \<times> string \<Rightarrow> bool \<times> core \<Rightarrow> bool \<times> core" where
  "close_decl uid d dc =
     (case d of ((k, cid), e) \<Rightarrow>
        (let dc1 = (case k of
               DToken \<Rightarrow> (case tok_del e (snd dc) of (b, c) \<Rightarrow> (fst dc \<or> b, c))
             | DSub \<Rightarrow> (fst dc, (snd dc)\<lparr>c_subs := ix_remove (OSess uid) cid (c_subs (snd dc))\<rparr>)
             | DQabl \<Rightarrow> dc)
         in case bt_get (c_south (snd dc1)) (uid, k, cid) of
              None \<Rightarrow> dc1
            | Some rid \<Rightarrow>
                (fst dc1, announce (WUndeclare k rid)
                   ((snd dc1)\<lparr>c_south := bt_remove (uid, k, cid) (c_south (snd dc1)),
                              c_out := bt_remove rid (c_out (snd dc1))\<rparr>))))"

definition forget_seen :: "u64 \<times> string \<times> string list \<Rightarrow> core \<Rightarrow> core" where
  "forget_seen t c = emit (FxToken (fst t) TokBatchEnd) (fold (\<lambda>k. emit (FxToken (fst t) (TokDelete k))) (snd (snd t)) c)"

definition close_query :: "u64 \<Rightarrow> u64 \<Rightarrow> core \<Rightarrow> core" where
  "close_query uid q c =
     (case bt_get (c_pending c) q of
        None \<Rightarrow> c
      | Some p \<Rightarrow>
          if (case p_origin p of OrgSess o' _ \<Rightarrow> o' = uid | OrgLocal _ \<Rightarrow> False)
          then c\<lparr>c_pending := bt_remove q (c_pending c)\<rparr>
          else target_done q (TSess uid) c)"

definition says_why :: "close_reason \<Rightarrow> bool" where
  "says_why r \<longleftrightarrow> r \<in> {Shutdown, Replaced, Refused, Duplicate, Protocol}"

definition close_sess :: "u64 \<Rightarrow> close_reason \<Rightarrow> core \<Rightarrow> core" where
  "close_sess uid reason c =
     (case bt_get (c_sessions c) uid of
        None \<Rightarrow> c
      | Some s \<Rightarrow>
          (let c1 = c\<lparr>c_sessions := bt_remove uid (c_sessions c),
                      c_by_peer := (if bt_get (c_by_peer c) (s_peer s) = Some uid then bt_remove (s_peer s) (c_by_peer c)
                                    else c_by_peer c)\<rparr>;
               c2 = emit (FxClose uid (if says_why reason then Some reason else None)) c1;
               dc = fold (close_decl uid) (s_decls s) (False, c2);
               c3 = (if \<not> c_router c then
                       (fold forget_seen (c_l_tsubs (snd dc)) (snd dc))\<lparr>c_l_tsubs := map (\<lambda>t. (fst t, fst (snd t), [])) (c_l_tsubs (snd dc))\<rparr>
                     else if fst dc then batch_end (snd dc) else snd dc);
               c4 = fold (close_query uid) (map fst (c_pending c3)) c3
           in if c_router c \<and> s_role s = Router then broadcast_peers c4 else c4))"

definition close_all :: "close_reason \<Rightarrow> core \<Rightarrow> core" where
  "close_all reason c = fold (\<lambda>u. close_sess u reason) (map fst (c_sessions c)) c"

definition shutdown :: "core \<Rightarrow> core" where
  "shutdown c = close_all Shutdown (c\<lparr>c_l_tsubs := [], c_l_subs := [], c_l_qabls := [], c_pending := []\<rparr>)"

definition fence :: "nat \<Rightarrow> core \<Rightarrow> core" where
  "fence now c =
     (let c1 = close_all Fenced c in
      c1\<lparr>c_dials := map (\<lambda>e. (fst e, (snd e)\<lparr>d_next := 0, d_backoff := BACKOFF_MIN\<rparr>)) (c_dials c1), c_last_tick := now\<rparr>)"

section \<open>The start of a session\<close>

definition learn :: "(string \<times> string) list \<Rightarrow> core \<Rightarrow> core" where
  "learn ps c = fold (\<lambda>p c. if fst p \<noteq> c_node c then c\<lparr>c_known := hm_put (fst p) (snd p) (c_known c)\<rparr> else c) ps c"

text \<open>\<open>adv\<close> is the advertised address of the peer, \<open>now\<close> the time.\<close>

definition install :: "nat \<Rightarrow> hello \<Rightarrow> string \<Rightarrow> string option \<Rightarrow> string \<Rightarrow> u64 \<Rightarrow> u64 \<Rightarrow> core \<Rightarrow> core" where
  "install now h addr adv dialer boot sno c =
     (let uid = c_next_uid c;
          c1 = c\<lparr>c_next_uid := uid + 1\<rparr>;
          c2 = (case adv of
                  Some a \<Rightarrow> if h_role h = Router then c1\<lparr>c_known := hm_put (h_node h) a (c_known c1)\<rparr> else c1
                | None \<Rightarrow> c1);
          c3 = learn (h_peers h) c2;
          s = \<lparr>s_peer = h_node h, s_role = h_role h, s_dialer = dialer, s_boot = boot, s_sno = sno, s_addr = addr,
               s_adv = adv, s_ob = outbox_new (c_dropped c3), s_last_rx = now, s_decls = [], s_tsubs = [],
               s_peers = h_peers h, s_since = now\<rparr>;
          c4 = c3\<lparr>c_by_peer := hm_put (h_node h) uid (c_by_peer c3), c_sessions := hm_put uid s (c_sessions c3)\<rparr>
      in if c_router c then
           (if h_role h = Router then
              broadcast_peers (push_to uid WDeclareDone
                (fold (\<lambda>e. push_to uid (WDeclare (fst (snd e)) (fst e) (snd (snd e)))) (c_out c4) c4))
            else c4)
         else
           (let c5 = fold (\<lambda>e. push_to uid (WDeclare DToken (fst e) (snd e))) (c_l_tokens c4) c4;
                c6 = fold (\<lambda>e. push_to uid (WDeclare DSub (fst e) (snd e))) (c_l_subs c4) c5;
                c7 = fold (\<lambda>e. push_to uid (WDeclare DQabl (fst e) (snd e))) (c_l_qabls c4) c6;
                c8 = fold (\<lambda>e. push_to uid (WTokenSub (fst e) (fst (snd e)) True)) (c_l_tsubs c4) c7
            in push_to uid WDeclareDone c8))"

definition accept_verdict :: "hello \<Rightarrow> core \<Rightarrow> close_reason option" where
  "accept_verdict h c =
     (if h_proto h \<noteq> PROTO \<or> h_node h = c_node c \<or> \<not> c_router c then Some Protocol
      else (case Option.bind (bt_get (c_by_peer c) (h_node h)) (bt_get (c_sessions c)) of
          None \<Rightarrow> None
        | Some s \<Rightarrow>
            if s_dialer s = h_node h then (if (s_boot s, s_sno s) < (h_boot h, h_sno h) then None else Some Refused)
            else if h_node h < c_node c then None
            else Some Duplicate))"

text \<open>A connection accepted: \<open>sent\<close> tells whether our own greeting could be sent.\<close>

definition on_accepted :: "nat \<Rightarrow> bool \<Rightarrow> hello \<Rightarrow> string \<Rightarrow> string option \<Rightarrow> core \<Rightarrow> core" where
  "on_accepted now sent h addr adv c =
     (let c1 = emit (FxDirect (WHello (my_hello (h_sno h) c))) c in
      if \<not> sent then c1
      else (case accept_verdict h c1 of
          Some r \<Rightarrow> emit (FxDirect (WClose r)) c1
        | None \<Rightarrow>
            (let c2 = (case bt_get (c_by_peer c1) (h_node h) of
                   None \<Rightarrow> c1
                 | Some u \<Rightarrow>
                     close_sess u (if (case bt_get (c_sessions c1) u of Some s \<Rightarrow> s_dialer s = h_node h | None \<Rightarrow> False)
                                   then Replaced else Duplicate) c1)
             in install now h addr adv (h_node h) (h_boot h) (h_sno h) c2)))"

definition keep_old :: "hello \<Rightarrow> u64 \<Rightarrow> u64 \<Rightarrow> core \<Rightarrow> bool" where
  "keep_old h sno u c =
     (case bt_get (c_sessions c) u of
        Some s \<Rightarrow> if s_dialer s = c_node c then sno < s_sno s else h_node h < c_node c
      | None \<Rightarrow> False)"

definition on_dialed :: "nat \<Rightarrow> string \<Rightarrow> u64 \<Rightarrow> (hello \<times> string \<times> string option) option \<Rightarrow> core \<Rightarrow> core" where
  "on_dialed now target sno res c =
     (case bt_get (c_dials c) target of
        None \<Rightarrow> c
      | Some d \<Rightarrow>
          (case res of
             None \<Rightarrow> c\<lparr>c_dials := hm_mod target (\<lambda>d. d\<lparr>d_busy := False, d_next := now + d_backoff d,
                        d_backoff := min (d_backoff d * 2) BACKOFF_MAX\<rparr>) (c_dials c)\<rparr>
           | Some (h, addr, adv) \<Rightarrow>
               (let c1 = c\<lparr>c_dials := hm_mod target (\<lambda>d. d\<lparr>d_busy := False, d_backoff := BACKOFF_MIN,
                             d_next := now + BACKOFF_MIN, d_node := Some (h_node h)\<rparr>) (c_dials c)\<rparr>
                in if h_proto h \<noteq> PROTO \<or> h_node h = c_node c1 \<or> (\<not> c_router c1 \<and> h_role h \<noteq> Router)
                   then emit (FxDirect (WClose Protocol)) c1
                   else (case bt_get (c_by_peer c1) (h_node h) of
                       None \<Rightarrow> install now h addr adv (c_node c1) (c_boot c1) sno c1
                     | Some u \<Rightarrow>
                         if keep_old h sno u c1 then emit (FxDirect (WClose Duplicate)) c1
                         else install now h addr adv (c_node c1) (c_boot c1) sno (close_sess u Duplicate c1)))))"

section \<open>Declarations of peers\<close>

definition remote_declare :: "u64 \<Rightarrow> role \<Rightarrow> decl_kind \<Rightarrow> u64 \<Rightarrow> string \<Rightarrow> core \<Rightarrow> core" where
  "remote_declare uid r kind i expr c =
     (if \<not> c_router c then c
      else (case bt_get (c_sessions c) uid of
          None \<Rightarrow> c
        | Some s \<Rightarrow>
            (let c1 = c\<lparr>c_sessions := hm_mod uid (\<lambda>s. s\<lparr>s_decls := hm_put (kind, i) expr (s_decls s)\<rparr>) (c_sessions c)\<rparr> in
             if bt_get (s_decls s) (kind, i) \<noteq> None then c1
             else
               (let c2 = (case kind of
                      DToken \<Rightarrow> tok_add expr c1
                    | DSub \<Rightarrow> c1\<lparr>c_subs := ix_add (OSess uid) i expr (c_subs c1)\<rparr>
                    | DQabl \<Rightarrow> c1)
                in if r = Client then
                     (case new_id c2 of (rid, c3) \<Rightarrow>
                        announce (WDeclare kind rid expr)
                          (c3\<lparr>c_south := hm_put (uid, kind, i) rid (c_south c3), c_out := bt_insert rid (kind, expr) (c_out c3)\<rparr>))
                   else c2))))"

definition remote_undeclare :: "u64 \<Rightarrow> decl_kind \<Rightarrow> u64 \<Rightarrow> core \<Rightarrow> core" where
  "remote_undeclare uid kind i c =
     (case Option.bind (bt_get (c_sessions c) uid) (\<lambda>s. bt_get (s_decls s) (kind, i)) of
        None \<Rightarrow> c
      | Some e \<Rightarrow>
          (let c1 = c\<lparr>c_sessions := hm_mod uid (\<lambda>s. s\<lparr>s_decls := bt_remove (kind, i) (s_decls s)\<rparr>) (c_sessions c)\<rparr>;
               c2 = (case kind of
                      DToken \<Rightarrow> snd (tok_del e c1)
                    | DSub \<Rightarrow> c1\<lparr>c_subs := ix_remove (OSess uid) i (c_subs c1)\<rparr>
                    | DQabl \<Rightarrow> c1)
           in case bt_get (c_south c2) (uid, kind, i) of
                None \<Rightarrow> c2
              | Some rid \<Rightarrow>
                  announce (WUndeclare kind rid)
                    (c2\<lparr>c_south := bt_remove (uid, kind, i) (c_south c2), c_out := bt_remove rid (c_out c2)\<rparr>)))"

section \<open>Messages\<close>

definition token_evt :: "u64 \<Rightarrow> token_evt_kind \<Rightarrow> string \<Rightarrow> core \<Rightarrow> core" where
  "token_evt i kind key c =
     (if c_router c then c
      else (case bt_get (c_l_tsubs c) i of
          None \<Rightarrow> c
        | Some t \<Rightarrow>
            (case kind of
               EvtPut \<Rightarrow> if key \<in> set (snd t) then c
                        else emit (FxToken i (TokPut key)) (c\<lparr>c_l_tsubs := hm_mod i (\<lambda>t. (fst t, key # snd t)) (c_l_tsubs c)\<rparr>)
             | EvtDelete \<Rightarrow> emit (FxToken i (TokDelete key))
                        (c\<lparr>c_l_tsubs := hm_mod i (\<lambda>t. (fst t, removeAll key (snd t))) (c_l_tsubs c)\<rparr>)
             | EvtBatchEnd \<Rightarrow> emit (FxToken i TokBatchEnd) c)))"

definition token_sub_msg :: "u64 \<Rightarrow> role \<Rightarrow> u64 \<Rightarrow> string \<Rightarrow> bool \<Rightarrow> core \<Rightarrow> core" where
  "token_sub_msg uid r i expr history c =
     (if \<not> c_router c \<or> r \<noteq> Client then c
      else (let c1 = (if history then push_to uid (WTokenEvt i EvtBatchEnd [])
                        (fold (\<lambda>k. push_to uid (WTokenEvt i EvtPut k)) (tok_history expr c) c) else c)
            in c1\<lparr>c_sessions := hm_mod uid (\<lambda>s. s\<lparr>s_tsubs := hm_put i expr (s_tsubs s)\<rparr>) (c_sessions c1)\<rparr>))"

definition on_msg :: "(u64 \<Rightarrow> bool) \<Rightarrow> nat \<Rightarrow> u64 \<Rightarrow> wire_msg \<Rightarrow> core \<Rightarrow> core" where
  "on_msg gone now uid m c =
     (case bt_get (c_sessions c) uid of
        None \<Rightarrow> c
      | Some s \<Rightarrow>
          (case m of
             WClose r \<Rightarrow> close_sess uid r c
           | WHello _ \<Rightarrow> c
           | WKeepAlive \<Rightarrow> c
           | WDeclareDone \<Rightarrow> c
           | WDeclare kind i expr \<Rightarrow> remote_declare uid (s_role s) kind i expr c
           | WUndeclare kind i \<Rightarrow> remote_undeclare uid kind i c
           | WTokenSub i expr history \<Rightarrow> token_sub_msg uid (s_role s) i expr history c
           | WTokenUnsub i \<Rightarrow>
               c\<lparr>c_sessions := hm_mod uid (\<lambda>s. s\<lparr>s_tsubs := bt_remove i (s_tsubs s)\<rparr>) (c_sessions c)\<rparr>
           | WTokenEvt i kind key \<Rightarrow> token_evt i kind key c
           | WPeers ps \<Rightarrow>
               (let c1 = learn ps c in
                c1\<lparr>c_sessions := hm_mod uid (\<lambda>s. s\<lparr>s_peers := ps\<rparr>) (c_sessions c1)\<rparr>)
           | WPut key payload \<Rightarrow> route_put (Some uid) key payload c
           | WRequest qid expr payload timeout_ms \<Rightarrow> route_get gone now (OrgSess uid qid) expr payload timeout_ms c
           | WReply qid key ok payload \<Rightarrow>
               (case bt_get (c_pending c) qid of
                  Some p \<Rightarrow> if TSess uid \<in> set (p_targets p) then forward_reply qid key ok payload c else c
                | None \<Rightarrow> c)
           | WFinal qid \<Rightarrow> target_done qid (TSess uid) c))"

definition on_sess :: "(u64 \<Rightarrow> bool) \<Rightarrow> nat \<Rightarrow> sess_ev \<Rightarrow> core \<Rightarrow> core" where
  "on_sess gone now e c =
     (case e of
        SPaused \<Rightarrow> fence now c
      | SClosed uid reason \<Rightarrow> close_sess uid reason c
      | SMsg uid m \<Rightarrow> if bt_get (c_sessions c) uid \<noteq> None then on_msg gone now uid m c else c)"

section \<open>Local commands\<close>

datatype cmd =
    CDeclareToken string
  | CSubscribe string
  | CQueryable string
  | CTokenSub string bool
  | CUndeclare decl_kind u64
  | CTokenUnsub u64
  | CPut string "u8 list"
  | CGet string "u8 list" nat nat
  | CLocalReply u64 u64 string bool "u8 list"
  | CLocalFinal u64 u64
  | CInfo
  | CClose

text \<open>A new local declaration reaches the routers, or the one router a client is linked to.\<close>

definition declare_out :: "decl_kind \<Rightarrow> u64 \<Rightarrow> string \<Rightarrow> core \<Rightarrow> core" where
  "declare_out kind i expr c =
     (if c_router c then announce (WDeclare kind i expr) (c\<lparr>c_out := bt_insert i (kind, expr) (c_out c)\<rparr>)
      else push_up (WDeclare kind i expr) c)"

definition cmd_undeclare :: "decl_kind \<Rightarrow> u64 \<Rightarrow> core \<Rightarrow> core" where
  "cmd_undeclare kind i c =
     (let r = (case kind of
             DToken \<Rightarrow>
               (case bt_get (c_l_tokens c) i of
                  None \<Rightarrow> (False, c)
                | Some k \<Rightarrow>
                    (let c1 = c\<lparr>c_l_tokens := bt_remove i (c_l_tokens c)\<rparr>
                     in (True, if c_router c1 then snd (tok_del k c1) else c1)))
           | DSub \<Rightarrow>
               (bt_get (c_l_subs c) i \<noteq> None,
                c\<lparr>c_subs := ix_remove (OLocal i) i (c_subs c), c_l_subs := bt_remove i (c_l_subs c)\<rparr>)
           | DQabl \<Rightarrow> (bt_get (c_l_qabls c) i \<noteq> None, c\<lparr>c_l_qabls := bt_remove i (c_l_qabls c)\<rparr>))
      in if fst r then
           (if c_router c then announce (WUndeclare kind i) ((snd r)\<lparr>c_out := bt_remove i (c_out (snd r))\<rparr>)
            else push_up (WUndeclare kind i) (snd r))
         else snd r)"

definition cmd_token_sub :: "string \<Rightarrow> bool \<Rightarrow> core \<Rightarrow> core" where
  "cmd_token_sub expr history c =
     (case new_id c of (i, c1) \<Rightarrow>
        (let c2 = (if c_router c1 then
                     (if history then emit (FxToken i TokBatchEnd)
                        (fold (\<lambda>k. emit (FxToken i (TokPut k))) (tok_history expr c1) c1) else c1)
                   else if upstream c1 \<noteq> None then push_up (WTokenSub i expr history) c1
                   else if history then emit (FxToken i TokBatchEnd) c1 else c1)
         in emit (FxAck i) (c2\<lparr>c_l_tsubs := hm_put i (expr, []) (c_l_tsubs c2)\<rparr>)))"

definition mesh_info :: "nat \<Rightarrow> core \<Rightarrow> mesh_info" where
  "mesh_info now c =
     \<lparr>mi_node = c_node c, mi_router = c_router c, mi_boot = c_boot c, mi_tokens = length (c_tok c),
      mi_sessions = sort_key si_peer (map (\<lambda>s.
        \<lparr>si_peer = s_peer s, si_router = (s_role s = Router), si_dialer = s_dialer s, si_boot = s_boot s, si_sno = s_sno s,
         si_addr = s_addr s, si_decls = length (s_decls s), si_depths = ob_depths (s_ob s),
         si_dropped = ob_dropped (s_ob s), si_full = ob_full (s_ob s), si_age_ms = now - s_since s\<rparr>) (map snd (c_sessions c)))\<rparr>"

definition on_cmd :: "(u64 \<Rightarrow> bool) \<Rightarrow> nat \<Rightarrow> cmd \<Rightarrow> core \<Rightarrow> core" where
  "on_cmd gone now cm c =
     (case cm of
        CDeclareToken key \<Rightarrow>
          (case new_id c of (i, c1) \<Rightarrow>
             (let c2 = c1\<lparr>c_l_tokens := hm_put i key (c_l_tokens c1)\<rparr>;
                  c3 = (if c_router c2 then tok_add key c2 else c2)
              in emit (FxAck i) (declare_out DToken i key c3)))
      | CSubscribe expr \<Rightarrow>
          (case new_id c of (i, c1) \<Rightarrow>
             (let c2 = c1\<lparr>c_subs := ix_add (OLocal i) i expr (c_subs c1), c_l_subs := hm_put i expr (c_l_subs c1)\<rparr>
              in emit (FxAck i) (declare_out DSub i expr c2)))
      | CQueryable expr \<Rightarrow>
          (case new_id c of (i, c1) \<Rightarrow>
             (let c2 = c1\<lparr>c_l_qabls := hm_put i expr (c_l_qabls c1)\<rparr>
              in emit (FxAck i) (declare_out DQabl i expr c2)))
      | CTokenSub expr history \<Rightarrow> cmd_token_sub expr history c
      | CUndeclare kind i \<Rightarrow> cmd_undeclare kind i c
      | CTokenUnsub i \<Rightarrow>
          if bt_get (c_l_tsubs c) i \<noteq> None
          then push_up (WTokenUnsub i) (c\<lparr>c_l_tsubs := bt_remove i (c_l_tsubs c)\<rparr>) else c
      | CPut key payload \<Rightarrow> route_put None key payload c
      | CGet expr payload timeout ch \<Rightarrow>
          route_get gone now (OrgLocal ch) expr payload (word_of_nat (min timeout (2 ^ 32 - 1))) c
      | CLocalReply qid qabl key ok payload \<Rightarrow>
          (case bt_get (c_pending c) qid of
             Some p \<Rightarrow> if TLocal qabl \<in> set (p_targets p) then forward_reply qid key ok payload c else c
           | None \<Rightarrow> c)
      | CLocalFinal qid qabl \<Rightarrow> target_done qid (TLocal qabl) c
      | CInfo \<Rightarrow> emit (FxInfo (mesh_info now c)) c
      | CClose \<Rightarrow> shutdown c)"

section \<open>The tick\<close>

definition dial_want :: "core \<Rightarrow> string list" where
  "dial_want c =
     (if c_router c then
        (let seeds = filter (\<lambda>e. d_seed (snd e) \<and>
                 \<not> (case d_node (snd e) of Some n \<Rightarrow> bt_get (c_by_peer c) n \<noteq> None | None \<Rightarrow> False)) (c_dials c);
             by_seed = List.map_filter (\<lambda>e. d_node (snd e)) seeds;
             others = filter (\<lambda>e. c_node c < fst e \<and> bt_get (c_by_peer c) (fst e) = None \<and> fst e \<notin> set by_seed) (c_known c)
         in remdups (sort (map fst seeds @ map snd others)))
      else if c_sessions c = [] then remdups (sort (map fst (filter (\<lambda>e. d_seed (snd e)) (c_dials c))))
      else [])"

definition dial_one :: "nat \<Rightarrow> string \<Rightarrow> core \<Rightarrow> core" where
  "dial_one now a c =
     (let fresh = \<lparr>d_seed = False, d_node = None, d_busy = False, d_next = 0, d_backoff = BACKOFF_MIN\<rparr>;
          c1 = (if bt_get (c_dials c) a = None then c\<lparr>c_dials := hm_put a fresh (c_dials c)\<rparr> else c);
          d = (case bt_get (c_dials c) a of Some d \<Rightarrow> d | None \<Rightarrow> fresh)
      in if d_busy d \<or> now < d_next d then c1
         else (let sno = c_next_sno c1;
                   c2 = c1\<lparr>c_dials := hm_mod a (\<lambda>d. d\<lparr>d_busy := True\<rparr>) (c_dials c1), c_next_sno := sno + 1\<rparr>
               in emit (FxDial a (my_hello sno c2)) c2))"

definition dial_wanted :: "nat \<Rightarrow> core \<Rightarrow> core" where
  "dial_wanted now c = fold (dial_one now) (dial_want c) c"

definition check_partial :: "nat \<Rightarrow> core \<Rightarrow> core" where
  "check_partial now c =
     (let seen = remdups (filter (\<lambda>n. n \<noteq> c_node c \<and> bt_get (c_by_peer c) n = None)
             (map fst (concat (map s_peers (filter (\<lambda>s. s_role s = Router) (map snd (c_sessions c)))))));
          kept = filter (\<lambda>e. fst e \<in> set seen) (c_partial c);
          mark = (\<lambda>n m. case bt_get m n of
                   None \<Rightarrow> hm_put n (now, c_lease_ms c < now - now) m
                 | Some e \<Rightarrow> if \<not> snd e \<and> c_lease_ms c < now - fst e then hm_put n (fst e, True) m else m)
      in c\<lparr>c_partial := fold mark seen kept\<rparr>)"

definition expired :: "nat \<Rightarrow> core \<Rightarrow> u64 list" where
  "expired now c = map fst (filter (\<lambda>e. c_lease_ms c < now - s_last_rx (snd e)) (c_sessions c))"

definition late :: "nat \<Rightarrow> core \<Rightarrow> u64 list" where
  "late now c = map fst (filter (\<lambda>e. p_deadline (snd e) \<le> now) (c_pending c))"

definition on_tick :: "nat \<Rightarrow> core \<Rightarrow> core" where
  "on_tick now c =
     (let gap = now - c_last_tick c; c0 = c\<lparr>c_last_tick := now\<rparr> in
      if c_fence_ms c < gap then fence now c0
      else
        (let c1 = fold (\<lambda>u. close_sess u Expired) (expired now c0) c0;
             c2 = fold finish (late now c1) c1;
             c3 = dial_wanted now c2
         in if c_router c3 \<and> 1000 \<le> now - c_last_partial_check c3
            then check_partial now (c3\<lparr>c_last_partial_check := now\<rparr>) else c3))"

section \<open>Runs of a node\<close>

text \<open>Everything the core reacts to, and the two things others do to a session's shared state: the
  reader renews \<open>last_rx\<close>, the writer takes a batch.\<close>

datatype core_event =
    Tick nat
  | SessEvent nat "u64 \<Rightarrow> bool" sess_ev
  | Accepted nat bool hello string "string option"
  | Dialed nat string u64 "(hello \<times> string \<times> string option) option"
  | Command nat "u64 \<Rightarrow> bool" cmd
  | Renew u64 nat
  | Written u64

definition core_step :: "core \<Rightarrow> core_event \<Rightarrow> core" where
  "core_step c e =
     (case e of
        Tick now \<Rightarrow> on_tick now c
      | SessEvent now gone ev \<Rightarrow> on_sess gone now ev c
      | Accepted now sent h addr adv \<Rightarrow> on_accepted now sent h addr adv c
      | Dialed now target sno res \<Rightarrow> on_dialed now target sno res c
      | Command now gone cm \<Rightarrow> on_cmd gone now cm c
      | Renew uid now \<Rightarrow> c\<lparr>c_sessions := hm_mod uid (\<lambda>s. s\<lparr>s_last_rx := now\<rparr>) (c_sessions c)\<rparr>
      | Written uid \<Rightarrow> c\<lparr>c_sessions := hm_mod uid (\<lambda>s. s\<lparr>s_ob := snd (ob_pop (s_ob s))\<rparr>) (c_sessions c)\<rparr>)"

end
