(* ===== verification/Mesh_Ledger.thy ===== *)
theory Mesh_Ledger
  imports Mesh_Core
begin

text \<open>
  The ledger of a mesh core: its state without the outboxes and without what was handed to local
  channels. Sending never changes the ledger, so each handler is characterised by what it does to it.
\<close>

section \<open>The ledger\<close>

definition bare :: "u64 \<times> sess \<Rightarrow> u64 \<times> sess" where
  "bare e = (fst e, (snd e)\<lparr>s_ob := outbox_new 0\<rparr>)"

definition ledger :: "core \<Rightarrow> core" where
  "ledger c = c\<lparr>c_sessions := map bare (c_sessions c), c_dropped := 0, c_fx := []\<rparr>"

named_theorems ledger_simps \<open>what the handlers do to the ledger\<close>

lemma bare_fst [simp]: "fst (bare e) = fst e"
  by (simp add: bare_def)

lemma bare_sel [simp]:
  "s_peer (snd (bare e)) = s_peer (snd e)" "s_role (snd (bare e)) = s_role (snd e)"
  "s_dialer (snd (bare e)) = s_dialer (snd e)" "s_decls (snd (bare e)) = s_decls (snd e)"
  "s_last_rx (snd (bare e)) = s_last_rx (snd e)" "s_tsubs (snd (bare e)) = s_tsubs (snd e)"
  "s_peers (snd (bare e)) = s_peers (snd e)" "s_adv (snd (bare e)) = s_adv (snd e)"
  "s_boot (snd (bare e)) = s_boot (snd e)" "s_sno (snd (bare e)) = s_sno (snd e)"
  by (simp_all add: bare_def)

lemma ledger_sel [simp]:
  "c_node (ledger c) = c_node c" "c_router (ledger c) = c_router c" "c_next_uid (ledger c) = c_next_uid c"
  "c_next_id (ledger c) = c_next_id c" "c_by_peer (ledger c) = c_by_peer c" "c_l_tokens (ledger c) = c_l_tokens c"
  "c_l_subs (ledger c) = c_l_subs c" "c_l_qabls (ledger c) = c_l_qabls c" "c_l_tsubs (ledger c) = c_l_tsubs c"
  "c_tok (ledger c) = c_tok c" "c_subs (ledger c) = c_subs c" "c_out (ledger c) = c_out c"
  "c_south (ledger c) = c_south c" "c_pending (ledger c) = c_pending c" "c_lease_ms (ledger c) = c_lease_ms c"
  "c_fence_ms (ledger c) = c_fence_ms c" "c_last_tick (ledger c) = c_last_tick c" "c_dials (ledger c) = c_dials c"
  "c_known (ledger c) = c_known c" "c_sessions (ledger c) = map bare (c_sessions c)"
  by (simp_all add: ledger_def)

lemma ledger_upd:
  "ledger (c\<lparr>c_tok := a\<rparr>) = (ledger c)\<lparr>c_tok := a\<rparr>"
  "ledger (c\<lparr>c_pending := b\<rparr>) = (ledger c)\<lparr>c_pending := b\<rparr>"
  "ledger (c\<lparr>c_subs := x\<rparr>) = (ledger c)\<lparr>c_subs := x\<rparr>"
  "ledger (c\<lparr>c_south := y\<rparr>) = (ledger c)\<lparr>c_south := y\<rparr>"
  "ledger (c\<lparr>c_out := z\<rparr>) = (ledger c)\<lparr>c_out := z\<rparr>"
  "ledger (c\<lparr>c_next_id := n\<rparr>) = (ledger c)\<lparr>c_next_id := n\<rparr>"
  "ledger (c\<lparr>c_next_uid := n\<rparr>) = (ledger c)\<lparr>c_next_uid := n\<rparr>"
  "ledger (c\<lparr>c_by_peer := p\<rparr>) = (ledger c)\<lparr>c_by_peer := p\<rparr>"
  "ledger (c\<lparr>c_l_tokens := t\<rparr>) = (ledger c)\<lparr>c_l_tokens := t\<rparr>"
  "ledger (c\<lparr>c_l_subs := t\<rparr>) = (ledger c)\<lparr>c_l_subs := t\<rparr>"
  "ledger (c\<lparr>c_l_qabls := t\<rparr>) = (ledger c)\<lparr>c_l_qabls := t\<rparr>"
  "ledger (c\<lparr>c_l_tsubs := l\<rparr>) = (ledger c)\<lparr>c_l_tsubs := l\<rparr>"
  "ledger (c\<lparr>c_dials := d\<rparr>) = (ledger c)\<lparr>c_dials := d\<rparr>"
  "ledger (c\<lparr>c_known := k\<rparr>) = (ledger c)\<lparr>c_known := k\<rparr>"
  "ledger (c\<lparr>c_partial := q\<rparr>) = (ledger c)\<lparr>c_partial := q\<rparr>"
  "ledger (c\<lparr>c_last_tick := m\<rparr>) = (ledger c)\<lparr>c_last_tick := m\<rparr>"
  "ledger (c\<lparr>c_last_partial_check := m\<rparr>) = (ledger c)\<lparr>c_last_partial_check := m\<rparr>"
  "ledger (c\<lparr>c_next_sno := n\<rparr>) = (ledger c)\<lparr>c_next_sno := n\<rparr>"
  "ledger (c\<lparr>c_sessions := ss\<rparr>) = (ledger c)\<lparr>c_sessions := map bare ss\<rparr>"
  "ledger (c\<lparr>c_fx := f\<rparr>) = ledger c" "ledger (c\<lparr>c_dropped := n\<rparr>) = ledger c"
  by (simp_all add: ledger_def)

declare ledger_upd [simp, ledger_simps]

lemma ledger_ledger [simp]: "ledger (ledger c) = ledger c"
  by (simp add: ledger_def bare_def)

lemma ledger_idem [simp]:
  "(ledger c)\<lparr>c_tok := c_tok c\<rparr> = ledger c" "(ledger c)\<lparr>c_pending := c_pending c\<rparr> = ledger c"
  "(ledger c)\<lparr>c_subs := c_subs c\<rparr> = ledger c" "(ledger c)\<lparr>c_l_tsubs := c_l_tsubs c\<rparr> = ledger c"
  by (simp_all add: ledger_def)

text \<open>A field other than the outboxes reads the same before and after a step that keeps the ledger.\<close>

lemma same_ledger:
  assumes "ledger c' = ledger c"
  shows "c_node c' = c_node c" "c_router c' = c_router c" "c_next_uid c' = c_next_uid c"
    "c_next_id c' = c_next_id c" "c_by_peer c' = c_by_peer c" "c_l_tokens c' = c_l_tokens c"
    "c_l_subs c' = c_l_subs c" "c_l_qabls c' = c_l_qabls c" "c_l_tsubs c' = c_l_tsubs c"
    "c_tok c' = c_tok c" "c_subs c' = c_subs c" "c_out c' = c_out c"
    "c_south c' = c_south c" "c_pending c' = c_pending c" "c_lease_ms c' = c_lease_ms c"
    "c_fence_ms c' = c_fence_ms c" "c_last_tick c' = c_last_tick c"
    "map bare (c_sessions c') = map bare (c_sessions c)"
  using ledger_sel [of c] ledger_sel [of c'] assms by metis+

lemma bare_hm_mod:
  "(\<And>s. bare (k, f s) = bare (k, s)) \<Longrightarrow> map bare (hm_mod k f m) = map bare m"
  by (induction m) (auto simp: hm_mod_def)

lemma bare_remove [simp]: "map bare (bt_remove k m) = bt_remove k (map bare m)"
  by (induction m) (auto simp: bt_remove_def)

lemma bare_get [simp]: "bt_get (map bare m) u = map_option (\<lambda>s. s\<lparr>s_ob := outbox_new 0\<rparr>) (bt_get m u)"
  by (induction m) (auto simp: bt_get_def bare_def)

section \<open>Sending keeps the ledger\<close>

lemma ledger_fold:
  "(\<And>x c. x \<in> set xs \<Longrightarrow> ledger (f x c) = ledger c) \<Longrightarrow> ledger (fold f xs c) = ledger c"
  by (induction xs arbitrary: c) auto

lemma ledger_sess_push [ledger_simps, simp]: "ledger (snd (sess_push u m c)) = ledger c"
proof -
  have "map bare (hm_mod u (\<lambda>s. s\<lparr>s_ob := ob\<rparr>) ss) = map bare ss" for ob ss
    by (rule bare_hm_mod) (simp add: bare_def)
  then show ?thesis by (simp add: sess_push_def ledger_def split: option.split prod.split)
qed

lemma ledger_push [ledger_simps, simp]:
  "ledger (push_to u m c) = ledger c" "ledger (emit f c) = ledger c"
  by (simp_all add: push_to_def emit_def)

lemma ledger_push_all [ledger_simps, simp]: "ledger (push_all us m c) = ledger c"
  unfolding push_all_def by (rule ledger_fold) simp

lemma ledger_announce [ledger_simps, simp]: "ledger (announce m c) = ledger c"
  by (simp add: announce_def)

lemma ledger_push_up [ledger_simps, simp]: "ledger (push_up m c) = ledger c"
  by (simp add: push_up_def split: option.split)

lemma ledger_broadcast [ledger_simps, simp]: "ledger (broadcast_peers c) = ledger c"
  by (simp add: broadcast_peers_def)

lemma ledger_tok_notify [ledger_simps, simp]: "ledger (tok_notify kind key c) = ledger c"
  unfolding tok_notify_def Let_def
  by (subst ledger_fold; (subst ledger_fold)?) (auto split: option.split intro!: ledger_fold)

lemma ledger_batch_end [ledger_simps, simp]: "ledger (batch_end c) = ledger c"
  unfolding batch_end_def Let_def
  by (subst ledger_fold; (subst ledger_fold)?) (auto split: option.split intro!: ledger_fold)

lemma ledger_forward_reply [ledger_simps, simp]: "ledger (forward_reply q k ok p c) = ledger c"
  by (simp add: forward_reply_def split: option.split origin.split)

section \<open>Tokens and queries\<close>

definition tok_plus :: "string \<Rightarrow> (string, nat) btree \<Rightarrow> (string, nat) btree" where
  "tok_plus k m = (case bt_get m k of Some n \<Rightarrow> hm_mod k Suc m | None \<Rightarrow> hm_put k 1 m)"

definition tok_minus :: "string \<Rightarrow> (string, nat) btree \<Rightarrow> (string, nat) btree" where
  "tok_minus k m = (case bt_get m k of None \<Rightarrow> m | Some n \<Rightarrow> if 1 < n then hm_mod k (\<lambda>n. n - 1) m else bt_remove k m)"

lemma ledger_tok_add [ledger_simps, simp]: "ledger (tok_add k c) = (ledger c)\<lparr>c_tok := tok_plus k (c_tok c)\<rparr>"
  by (simp add: tok_add_def tok_plus_def split: option.split)

lemma ledger_tok_del [ledger_simps, simp]: "ledger (snd (tok_del k c)) = (ledger c)\<lparr>c_tok := tok_minus k (c_tok c)\<rparr>"
  by (simp add: tok_del_def tok_minus_def split: option.split)

lemma bt_remove_absent: "bt_get m k = None \<Longrightarrow> bt_remove k m = m"
  by (induction m) (auto simp: bt_get_def bt_remove_def split: if_splits)

lemma ledger_finish [ledger_simps, simp]: "ledger (finish q c) = (ledger c)\<lparr>c_pending := bt_remove q (c_pending c)\<rparr>"
  by (simp add: finish_def Let_def bt_remove_absent split: option.split origin.split)

definition drop_target :: "u64 \<Rightarrow> qtarget \<Rightarrow> (u64, pending) btree \<Rightarrow> (u64, pending) btree" where
  "drop_target q t m =
     (case bt_get m q of
        None \<Rightarrow> m
      | Some p \<Rightarrow>
          if t \<in> set (p_targets p) \<and> removeAll t (p_targets p) = [] then bt_remove q m
          else hm_mod q (\<lambda>p. p\<lparr>p_targets := removeAll t (p_targets p)\<rparr>) m)"

lemma bt_remove_hm_mod [simp]: "bt_remove k (hm_mod k f m) = bt_remove k m"
  by (induction m) (auto simp: bt_remove_def hm_mod_def)

lemma ledger_target_done [ledger_simps, simp]:
  "ledger (target_done q t c) = (ledger c)\<lparr>c_pending := drop_target q t (c_pending c)\<rparr>"
  by (simp add: target_done_def drop_target_def Let_def split: option.split)

section \<open>Closing a session\<close>

text \<open>What one declaration of a closed session takes out of the ledger.\<close>

definition drop_decl :: "u64 \<Rightarrow> (decl_kind \<times> u64) \<times> string \<Rightarrow> core \<Rightarrow> core" where
  "drop_decl uid d l =
     (case d of ((k, i), e) \<Rightarrow>
        (let l1 = (case k of DToken \<Rightarrow> l\<lparr>c_tok := tok_minus e (c_tok l)\<rparr>
                           | DSub \<Rightarrow> l\<lparr>c_subs := ix_remove (OSess uid) i (c_subs l)\<rparr>
                           | DQabl \<Rightarrow> l)
         in case bt_get (c_south l1) (uid, k, i) of
              None \<Rightarrow> l1
            | Some rid \<Rightarrow> l1\<lparr>c_south := bt_remove (uid, k, i) (c_south l1), c_out := bt_remove rid (c_out l1)\<rparr>))"

lemma ledger_close_decl: "ledger (snd (close_decl uid d dc)) = drop_decl uid d (ledger (snd dc))"
proof -
  obtain k i e where d: "d = ((k, i), e)" by (metis prod.exhaust)
  show ?thesis
  proof (cases k)
    case DToken
    obtain b c where tc: "tok_del e (snd dc) = (b, c)" by (cases "tok_del e (snd dc)")
    with ledger_tok_del [of e "snd dc"] have l: "ledger c = (ledger (snd dc))\<lparr>c_tok := tok_minus e (c_tok (snd dc))\<rparr>"
      by simp
    then have "c_south c = c_south (snd dc)" "c_out c = c_out (snd dc)"
      using ledger_sel(13) [of c] ledger_sel(12) [of c] by simp_all
    with l show ?thesis by (simp add: close_decl_def drop_decl_def d DToken tc Let_def split: option.split)
  qed (simp_all add: close_decl_def drop_decl_def d Let_def split: option.split)
qed

lemma ledger_close_decls: "ledger (snd (fold (close_decl uid) ds dc)) = fold (drop_decl uid) ds (ledger (snd dc))"
  by (induction ds arbitrary: dc) (simp_all add: ledger_close_decl)

definition drop_query :: "u64 \<Rightarrow> u64 \<Rightarrow> (u64, pending) btree \<Rightarrow> (u64, pending) btree" where
  "drop_query uid q m =
     (case bt_get m q of
        None \<Rightarrow> m
      | Some p \<Rightarrow>
          if (case p_origin p of OrgSess o' _ \<Rightarrow> o' = uid | OrgLocal _ \<Rightarrow> False) then bt_remove q m
          else drop_target q (TSess uid) m)"

lemma ledger_close_query: "ledger (close_query uid q c) = (ledger c)\<lparr>c_pending := drop_query uid q (c_pending c)\<rparr>"
  by (simp add: close_query_def drop_query_def split: option.split)

lemma pending_ledger: "ledger c = l \<Longrightarrow> c_pending c = c_pending l"
  by auto

lemma ledger_close_queries:
  "ledger (fold (close_query uid) qs c) = (ledger c)\<lparr>c_pending := fold (drop_query uid) qs (c_pending c)\<rparr>"
proof (induction qs arbitrary: c)
  case (Cons q qs)
  have "c_pending (close_query uid q c) = drop_query uid q (c_pending c)"
    using pending_ledger [OF ledger_close_query] by simp
  then show ?case by (simp add: Cons ledger_close_query)
qed simp

lemma ledger_forget_seen: "ledger (fold forget_seen ts c) = ledger c"
proof (rule ledger_fold)
  fix t :: "u64 \<times> string \<times> string list" and c' :: core
  have "ledger (fold (\<lambda>k. emit (FxToken (fst t) (TokDelete k))) (snd (snd t)) c') = ledger c'"
    by (rule ledger_fold) simp
  then show "ledger (forget_seen t c') = ledger c'" by (simp add: forget_seen_def)
qed

definition forget_tsubs :: "core \<Rightarrow> core" where
  "forget_tsubs l = (if c_router l then l else l\<lparr>c_l_tsubs := map (\<lambda>t. (fst t, fst (snd t), [])) (c_l_tsubs l)\<rparr>)"

text \<open>The whole effect of closing a session that exists.\<close>

definition close_ledger :: "u64 \<Rightarrow> sess \<Rightarrow> core \<Rightarrow> core" where
  "close_ledger uid s l =
     (let l1 = l\<lparr>c_sessions := bt_remove uid (c_sessions l),
                 c_by_peer := (if bt_get (c_by_peer l) (s_peer s) = Some uid then bt_remove (s_peer s) (c_by_peer l)
                               else c_by_peer l)\<rparr>;
          l2 = forget_tsubs (fold (drop_decl uid) (s_decls s) l1)
      in l2\<lparr>c_pending := fold (drop_query uid) (map fst (c_pending l2)) (c_pending l2)\<rparr>)"

lemma drop_decl_keeps [simp]:
  "c_router (drop_decl uid d l) = c_router l" "c_sessions (drop_decl uid d l) = c_sessions l"
  "c_by_peer (drop_decl uid d l) = c_by_peer l" "c_pending (drop_decl uid d l) = c_pending l"
  "c_l_tsubs (drop_decl uid d l) = c_l_tsubs l" "c_l_tokens (drop_decl uid d l) = c_l_tokens l"
  "c_l_subs (drop_decl uid d l) = c_l_subs l" "c_l_qabls (drop_decl uid d l) = c_l_qabls l"
  "c_next_uid (drop_decl uid d l) = c_next_uid l" "c_next_id (drop_decl uid d l) = c_next_id l"
  "c_node (drop_decl uid d l) = c_node l" "c_lease_ms (drop_decl uid d l) = c_lease_ms l"
  by (auto simp: drop_decl_def Let_def split: prod.split decl_kind.split option.split)

lemma fold_keeps: "(\<And>x c. g (f x c) = g c) \<Longrightarrow> g (fold f xs c) = g c"
  by (induction xs arbitrary: c) auto

lemma drop_decls_keep [simp]:
  "c_router (fold (drop_decl uid) ds l) = c_router l" "c_sessions (fold (drop_decl uid) ds l) = c_sessions l"
  "c_by_peer (fold (drop_decl uid) ds l) = c_by_peer l" "c_pending (fold (drop_decl uid) ds l) = c_pending l"
  "c_l_tsubs (fold (drop_decl uid) ds l) = c_l_tsubs l" "c_l_tokens (fold (drop_decl uid) ds l) = c_l_tokens l"
  "c_l_subs (fold (drop_decl uid) ds l) = c_l_subs l" "c_l_qabls (fold (drop_decl uid) ds l) = c_l_qabls l"
  "c_next_uid (fold (drop_decl uid) ds l) = c_next_uid l" "c_next_id (fold (drop_decl uid) ds l) = c_next_id l"
  "c_node (fold (drop_decl uid) ds l) = c_node l" "c_lease_ms (fold (drop_decl uid) ds l) = c_lease_ms l"
  by (rule fold_keeps, simp)+

lemma ledger_close_sess:
  assumes "bt_get (c_sessions c) uid = Some s"
  shows "ledger (close_sess uid reason c) = close_ledger uid s (ledger c)"
proof -
  define c1 where "c1 = emit (FxClose uid (if says_why reason then Some reason else None))
    (c\<lparr>c_sessions := bt_remove uid (c_sessions c),
       c_by_peer := (if bt_get (c_by_peer c) (s_peer s) = Some uid then bt_remove (s_peer s) (c_by_peer c) else c_by_peer c)\<rparr>)"
  define dc where "dc = fold (close_decl uid) (s_decls s) (False, c1)"
  have l1: "ledger c1 = (ledger c)\<lparr>c_sessions := bt_remove uid (c_sessions (ledger c)),
      c_by_peer := (if bt_get (c_by_peer c) (s_peer s) = Some uid then bt_remove (s_peer s) (c_by_peer c) else c_by_peer c)\<rparr>"
    by (simp add: c1_def)
  have ldc: "ledger (snd dc) = fold (drop_decl uid) (s_decls s) (ledger c1)"
    by (simp add: dc_def ledger_close_decls)
  have router: "c_router (snd dc) = c_router c"
    using ledger_sel(2) [of "snd dc"] by (simp add: ldc l1)
  define c3 where "c3 = (if \<not> c_router c then (fold forget_seen (c_l_tsubs (snd dc)) (snd dc))
        \<lparr>c_l_tsubs := map (\<lambda>t. (fst t, fst (snd t), [])) (c_l_tsubs (snd dc))\<rparr>
      else if fst dc then batch_end (snd dc) else snd dc)"
  have l3: "ledger c3 = forget_tsubs (ledger (snd dc))"
    by (simp add: c3_def forget_tsubs_def router ledger_forget_seen)
  have "ledger (close_sess uid reason c) = ledger (fold (close_query uid) (map fst (c_pending c3)) c3)"
    by (simp add: close_sess_def assms Let_def c3_def flip: c1_def dc_def)
  also have "\<dots> = (ledger c3)\<lparr>c_pending := fold (drop_query uid) (map fst (c_pending (ledger c3))) (c_pending (ledger c3))\<rparr>"
    by (simp add: ledger_close_queries)
  finally show ?thesis by (simp only: l3 ldc l1) (simp add: close_ledger_def Let_def)
qed

lemma close_sess_absent: "bt_get (c_sessions c) uid = None \<Longrightarrow> close_sess uid reason c = c"
  by (simp add: close_sess_def)

end
