(* ===== verification/Mesh_Subs.thy ===== *)
theory Mesh_Subs
  imports Mesh_Core
begin

text \<open>
  The subscription index of the mesh core is a faster form of one map from subscriptions to their key
  expressions: \<open>ix_exprs\<close> is that map, the exact and wild parts are indexes over it.
\<close>

section \<open>The index over the map\<close>

definition exact_of :: "sub_index \<Rightarrow> string \<Rightarrow> sub_key list" where
  "exact_of x e = (case bt_get (ix_exact x) e of None \<Rightarrow> [] | Some ks \<Rightarrow> ks)"

definition ix_ok :: "sub_index \<Rightarrow> bool" where
  "ix_ok x \<longleftrightarrow>
     (\<forall>k. k \<in> set (ix_wild x) \<longleftrightarrow> (\<exists>e. bt_get (ix_exprs x) k = Some e \<and> \<not> key_concrete e)) \<and>
     (\<forall>e k. k \<in> set (exact_of x e) \<longleftrightarrow> bt_get (ix_exprs x) k = Some e \<and> key_concrete e)"

lemma ix_ok_new [simp]: "ix_ok sub_index_new"
  by (simp add: ix_ok_def sub_index_new_def exact_of_def)

lemma ix_remove_get:
  "bt_get (ix_exprs (ix_remove u i x)) k = (if k = (u, i) then None else bt_get (ix_exprs x) k)"
  by (auto simp: ix_remove_def Let_def split: option.split)

lemma ix_remove_wild:
  assumes "ix_ok x"
  shows "set (ix_wild (ix_remove u i x)) = set (ix_wild x) - {(u, i)}"
proof (cases "bt_get (ix_exprs x) (u, i)")
  case None
  with assms have "(u, i) \<notin> set (ix_wild x)" by (simp add: ix_ok_def)
  with None show ?thesis by (simp add: ix_remove_def)
qed (auto simp: ix_remove_def Let_def split: option.split)

lemma ix_remove_exact:
  assumes "ix_ok x"
  shows "set (exact_of (ix_remove u i x) e) = set (exact_of x e) - {(u, i)}"
proof (cases "bt_get (ix_exprs x) (u, i)")
  case None
  with assms have "(u, i) \<notin> set (exact_of x e)" by (simp add: ix_ok_def)
  with None show ?thesis by (simp add: ix_remove_def)
next
  case (Some e')
  show ?thesis
  proof (cases "e = e'")
    case True
    with Some show ?thesis
      by (auto simp: ix_remove_def Let_def exact_of_def removeAll_filter_not_eq filter_empty_conv split: option.split)
  next
    case False
    with assms Some have "(u, i) \<notin> set (exact_of x e)" by (simp add: ix_ok_def)
    with Some False show ?thesis by (auto simp: ix_remove_def Let_def exact_of_def split: option.split)
  qed
qed

lemma ix_ok_remove: "ix_ok x \<Longrightarrow> ix_ok (ix_remove u i x)"
  using ix_remove_wild [of x u i] ix_remove_exact [of x u i]
  by (simp add: ix_ok_def [of "ix_remove u i x"] ix_remove_get) (auto simp: ix_ok_def)

lemma ix_add_get: "bt_get (ix_exprs (ix_add u i e x)) k = (if k = (u, i) then Some e else bt_get (ix_exprs x) k)"
  by (simp add: ix_add_def Let_def ix_remove_get)

lemma ix_ok_add:
  assumes "ix_ok x"
  shows "ix_ok (ix_add u i e x)"
proof -
  let ?r = "ix_remove u i x"
  have r: "ix_ok ?r" by (rule ix_ok_remove [OF assms])
  have "set (ix_wild (ix_add u i e x)) = (if key_concrete e then set (ix_wild ?r) else insert (u, i) (set (ix_wild ?r)))"
    by (simp add: ix_add_def Let_def)
  moreover have "set (exact_of (ix_add u i e x) e')
      = (if key_concrete e \<and> e' = e then insert (u, i) (set (exact_of ?r e')) else set (exact_of ?r e'))" for e'
    by (auto simp: ix_add_def Let_def exact_of_def split: option.split)
  ultimately show ?thesis
    using r by (auto simp: ix_ok_def ix_add_get ix_remove_get)
qed

section \<open>Concrete keys\<close>

lemma key_concrete_chunks: "key_concrete k \<Longrightarrow> \<forall>c \<in> set (split_slash k). c \<noteq> ''*'' \<and> c \<noteq> ''**''"
  using split_slash_set by (fastforce simp: key_concrete_def)

lemma matches_concrete:
  "\<forall>c \<in> set es. c \<noteq> ''*'' \<and> c \<noteq> ''**'' \<Longrightarrow> key_matches es ks \<longleftrightarrow> ks = es"
  by (induction es ks rule: key_matches.induct) auto

lemma intersects_concrete:
  assumes "key_valid e" "key_valid k" "key_concrete e" "key_concrete k"
  shows "key_intersects e k \<longleftrightarrow> e = k"
proof
  assume "key_intersects e k"
  then have "some_key (split_slash e) (split_slash k)"
    using key_intersects_join [OF key_valid_expr [OF assms(1)] key_valid_expr [OF assms(2)]]
    by (simp add: key_join_split)
  then have "split_slash e = split_slash k"
    using matches_concrete [OF key_concrete_chunks] assms(3,4) by (auto simp: some_key_def)
  then show "e = k" using key_join_split by metis
qed (simp add: key_intersects.simps)

text \<open>
  The index answers as the plain map would: for a concrete key, the subscriptions found are exactly
  those whose expression intersects the key, whatever mix of exact and wildcard expressions was added
  and removed before.
\<close>

datatype ix_op = IxAdd owner u64 string | IxRemove owner u64

definition ix_step :: "sub_index \<Rightarrow> ix_op \<Rightarrow> sub_index" where
  "ix_step x p = (case p of IxAdd u i e \<Rightarrow> ix_add u i e x | IxRemove u i \<Rightarrow> ix_remove u i x)"

interpretation index: machine sub_index_new ix_step ix_ok
  by unfold_locales (auto simp: ix_step_def ix_ok_add ix_ok_remove split: ix_op.split)

text \<open>The plain map those operations maintain.\<close>

definition plain_step :: "(sub_key \<rightharpoonup> string) \<Rightarrow> ix_op \<Rightarrow> (sub_key \<rightharpoonup> string)" where
  "plain_step m p = (case p of IxAdd u i e \<Rightarrow> m((u, i) \<mapsto> e) | IxRemove u i \<Rightarrow> m((u, i) := None))"

lemma ix_exprs_plain: "bt_get (ix_exprs (run_from ix_step x ps)) = run_from plain_step (bt_get (ix_exprs x)) ps"
proof (induction ps arbitrary: x)
  case (Cons p ps)
  have "bt_get (ix_exprs (ix_step x p)) = plain_step (bt_get (ix_exprs x)) p"
    by (cases p) (auto simp: ix_step_def plain_step_def ix_add_get ix_remove_get fun_eq_iff)
  then show ?case by (simp add: Cons)
qed simp

lemma ix_matching_iff:
  assumes "ix_ok x" "\<forall>k e. bt_get (ix_exprs x) k = Some e \<longrightarrow> key_valid e" "key_valid key" "key_concrete key"
  shows "k \<in> set (ix_matching x key) \<longleftrightarrow> (\<exists>e. bt_get (ix_exprs x) k = Some e \<and> key_intersects e key)"
proof -
  have "k \<in> set (ix_matching x key) \<longleftrightarrow> k \<in> set (exact_of x key) \<or>
      k \<in> set (ix_wild x) \<and> (\<exists>e. bt_get (ix_exprs x) k = Some e \<and> key_intersects e key)"
    by (auto simp: ix_matching_def exact_of_def split: option.splits)
  also have "\<dots> \<longleftrightarrow> (\<exists>e. bt_get (ix_exprs x) k = Some e \<and> key_intersects e key)"
  proof -
    have "k \<in> set (ix_wild x) \<longleftrightarrow> (\<exists>e. bt_get (ix_exprs x) k = Some e \<and> \<not> key_concrete e)"
      "k \<in> set (exact_of x key) \<longleftrightarrow> bt_get (ix_exprs x) k = Some key \<and> key_concrete key"
      using assms(1) unfolding ix_ok_def by blast+
    then show ?thesis using assms(2-4) intersects_concrete [of _ key] by (metis option.inject)
  qed
  finally show ?thesis .
qed

text \<open>
  The subscription index is exact: after any sequence of additions and removals, the subscriptions it
  returns for a concrete key are exactly those whose expression, in the plain table kept by the same
  operations, intersects the key.
\<close>

theorem ix_matching_exact:
  assumes "\<forall>k e. run_from plain_step Map.empty ps k = Some e \<longrightarrow> key_valid e"
    and "key_valid key" "key_concrete key"
  shows "set (ix_matching (run_from ix_step sub_index_new ps) key)
    = {k. \<exists>e. run_from plain_step Map.empty ps k = Some e \<and> key_intersects e key}"
proof -
  have new: "bt_get (ix_exprs sub_index_new) = Map.empty" by (auto simp: sub_index_new_def)
  from ix_matching_iff [OF index.inv_run [of ps] _ assms(2,3)] assms(1) show ?thesis
    by (simp add: ix_exprs_plain new set_eq_iff)
qed

theorem ix_matching_exact_witness:
  "set (ix_matching (run_from ix_step sub_index_new
      [IxAdd (OSess 1) 1 ''a/*'', IxAdd (OLocal 2) 2 ''a/b'', IxAdd (OSess 3) 3 ''c'', IxRemove (OLocal 2) 2]) ''a/b'')
   = {k. \<exists>e. run_from plain_step Map.empty
      [IxAdd (OSess 1) 1 ''a/*'', IxAdd (OLocal 2) 2 ''a/b'', IxAdd (OSess 3) 3 ''c'', IxRemove (OLocal 2) 2] k = Some e
        \<and> key_intersects e ''a/b''}"
  by (rule ix_matching_exact)
    (auto simp: plain_step_def key_valid_def FORBIDDEN_def key_concrete_def split: if_splits)

end
