(* ===== verification/Mesh_Inv.thy ===== *)
theory Mesh_Inv
  imports Mesh_Ledger Mesh_Subs
begin

text \<open>
  What the ledger of a mesh node always satisfies: one session per peer, a token counted once for every
  live declaration, the subscription index holding exactly the live subscriptions, and no query that
  nobody will finish.
\<close>

section \<open>The invariant\<close>

type_synonym decls = "(decl_kind \<times> u64, string) btree"

definition decls_of :: "core \<Rightarrow> (u64, decls) btree" where
  "decls_of c = map (\<lambda>e. (fst e, s_decls (snd e))) (c_sessions c)"

definition peers_ok :: "core \<Rightarrow> bool" where
  "peers_ok c \<longleftrightarrow> distinct (map fst (c_sessions c)) \<and>
     (\<forall>p u. bt_get (c_by_peer c) p = Some u \<longleftrightarrow> (\<exists>s. bt_get (c_sessions c) u = Some s \<and> s_peer s = p)) \<and>
     (\<forall>u s. bt_get (c_sessions c) u = Some s \<longrightarrow> u < c_next_uid c)"

definition decl_count :: "string \<Rightarrow> decls \<Rightarrow> nat" where
  "decl_count k ds = length (filter (\<lambda>d. fst (fst d) = DToken \<and> k = snd d) ds)"

definition local_count :: "string \<Rightarrow> core \<Rightarrow> nat" where
  "local_count k c = (if c_router c then length (filter (\<lambda>e. snd e = k) (c_l_tokens c)) else 0)"

definition tok_count :: "string \<Rightarrow> core \<Rightarrow> nat" where
  "tok_count k c = (case bt_get (c_tok c) k of None \<Rightarrow> 0 | Some n \<Rightarrow> n)"

text \<open>The holders of a token; \<open>vs\<close> are the declarations of the sessions, one of which may be on its way out.\<close>

definition holders :: "string \<Rightarrow> (u64, decls) btree \<Rightarrow> core \<Rightarrow> nat" where
  "holders k vs c = local_count k c + (\<Sum>v \<leftarrow> vs. decl_count k (snd v))"

definition tokens_ok :: "(u64, decls) btree \<Rightarrow> core \<Rightarrow> bool" where
  "tokens_ok vs c \<longleftrightarrow> (\<forall>k. tok_count k c = holders k vs c \<and> bt_get (c_tok c) k \<noteq> Some 0)"

definition subs_ok :: "(u64, decls) btree \<Rightarrow> core \<Rightarrow> bool" where
  "subs_ok vs c \<longleftrightarrow> ix_ok (c_subs c) \<and>
     (\<forall>j i. bt_get (ix_exprs (c_subs c)) (OLocal j, i) = (if j = i then bt_get (c_l_subs c) i else None)) \<and>
     (\<forall>u i. bt_get (ix_exprs (c_subs c)) (OSess u, i) = Option.bind (bt_get vs u) (\<lambda>ds. bt_get ds (DSub, i)))"

definition decls_ok :: "core \<Rightarrow> bool" where
  "decls_ok c \<longleftrightarrow> (\<forall>e \<in> set (c_sessions c). distinct (map fst (s_decls (snd e))))"

definition query_ok :: "core \<Rightarrow> pending \<Rightarrow> bool" where
  "query_ok c p \<longleftrightarrow> p_targets p \<noteq> [] \<and>
     (\<forall>u. TSess u \<in> set (p_targets p) \<longrightarrow> bt_get (c_sessions c) u \<noteq> None) \<and>
     (case p_origin p of OrgSess u _ \<Rightarrow> bt_get (c_sessions c) u \<noteq> None | OrgLocal _ \<Rightarrow> True)"

definition queries_ok :: "core \<Rightarrow> bool" where
  "queries_ok c \<longleftrightarrow> distinct (map fst (c_pending c)) \<and> (\<forall>q p. bt_get (c_pending c) q = Some p \<longrightarrow> query_ok c p)"

definition ids_ok :: "core \<Rightarrow> bool" where
  "ids_ok c \<longleftrightarrow> (\<forall>i. c_next_id c \<le> i \<longrightarrow> bt_get (c_l_tokens c) i = None \<and> bt_get (c_l_subs c) i = None) \<and>
     distinct (map fst (c_l_tokens c))"

definition core_inv :: "core \<Rightarrow> bool" where
  "core_inv c \<longleftrightarrow> peers_ok c \<and> decls_ok c \<and> tokens_ok (decls_of c) c \<and> subs_ok (decls_of c) c \<and> queries_ok c \<and> ids_ok c"

lemmas core_inv_parts = core_inv_def peers_ok_def decls_ok_def tokens_ok_def subs_ok_def queries_ok_def query_ok_def
  ids_ok_def holders_def local_count_def tok_count_def

text \<open>The invariant is one of the ledger.\<close>

lemma decls_of_ledger [simp]: "decls_of (ledger c) = decls_of c"
  by (simp add: decls_of_def)

lemma core_inv_ledger: "core_inv (ledger c) = core_inv c"
proof -
  have distinct: "map fst (map bare m) = map fst m" for m by (induction m) auto
  have "peers_ok (ledger c) = peers_ok c" by (auto simp: peers_ok_def distinct simp del: map_map)
  moreover have "queries_ok (ledger c) = queries_ok c"
    by (simp add: queries_ok_def query_ok_def split: origin.split)
  ultimately show ?thesis
    by (simp add: core_inv_def decls_ok_def tokens_ok_def subs_ok_def ids_ok_def holders_def local_count_def tok_count_def)
qed

section \<open>Counting\<close>

lemma tok_count_plus: "tok_count k (c\<lparr>c_tok := tok_plus e (c_tok c)\<rparr>) = tok_count k c + (if k = e then 1 else 0)"
  by (simp add: tok_count_def tok_plus_def split: option.split)

lemma tok_count_minus:
  "bt_get (c_tok c) e \<noteq> Some 0 \<Longrightarrow> 0 < tok_count e c \<Longrightarrow>
     tok_count k (c\<lparr>c_tok := tok_minus e (c_tok c)\<rparr>) + (if k = e then 1 else 0) = tok_count k c"
  by (auto simp: tok_count_def tok_minus_def split: option.splits)

lemma tok_nonzero:
  "bt_get m k \<noteq> Some 0 \<Longrightarrow> bt_get (tok_plus e m) k \<noteq> Some 0"
  "bt_get m k \<noteq> Some 0 \<Longrightarrow> bt_get (tok_minus e m) k \<noteq> Some 0"
  by (auto simp: tok_plus_def tok_minus_def split: option.splits)

lemma tokens_ok_add:
  assumes "tokens_ok vs c" and "\<And>k. holders k vs' c' = holders k vs c + (if k = e then 1 else 0)"
    and "c_tok c' = tok_plus e (c_tok c)"
  shows "tokens_ok vs' c'"
proof -
  have "tok_count k c' = tok_count k c + (if k = e then 1 else 0)" for k
    using tok_count_plus [where k = k and c = c and e = e] assms(3) by (simp add: tok_count_def)
  then show ?thesis using assms tok_nonzero(1) by (simp add: tokens_ok_def)
qed

lemma tokens_ok_del:
  assumes "tokens_ok vs c" and hold: "\<And>k. holders k vs' c' + (if k = e then 1 else 0) = holders k vs c"
    and "c_tok c' = tok_minus e (c_tok c)"
  shows "tokens_ok vs' c'"
proof -
  have "0 < holders e vs c" using hold [of e] by simp
  then have "tok_count k c' + (if k = e then 1 else 0) = tok_count k c" for k
    using tok_count_minus [of c e k] assms(1,3) by (simp add: tokens_ok_def tok_count_def)
  then have "tok_count k c' = holders k vs' c'" for k
    using hold [of k] assms(1) by (simp add: tokens_ok_def) (metis add_right_cancel)
  then show ?thesis using assms(1,3) tok_nonzero(2) by (simp add: tokens_ok_def)
qed

lemma tokens_ok_same:
  "tokens_ok vs c \<Longrightarrow> (\<And>k. holders k vs' c' = holders k vs c) \<Longrightarrow> c_tok c' = c_tok c \<Longrightarrow> tokens_ok vs' c'"
  by (simp add: tokens_ok_def tok_count_def)

lemma sum_split_key:
  assumes "distinct (map fst m)" "bt_get m u = Some v"
  shows "(\<Sum>x \<leftarrow> m. f (snd x)) = f v + (\<Sum>x \<leftarrow> bt_remove u m. f (snd x) :: nat)"
  using assms
proof (induction m)
  case (Cons e m)
  show ?case
  proof (cases "fst e = u")
    case True
    with Cons.prems have "bt_get m u = None" "v = snd e"
      by (auto simp: bt_get_def map_of_eq_None_iff)
    with True show ?thesis by (simp add: bt_remove_absent) (simp add: bt_remove_def bt_remove_absent [unfolded bt_remove_def])
  next
    case False
    with Cons show ?thesis by (simp add: bt_get_def bt_remove_def)
  qed
qed simp

lemma decl_count_key:
  assumes "distinct (map fst ds)" "bt_get ds d = Some e"
  shows "decl_count k ds = (if fst d = DToken \<and> k = e then 1 else 0) + decl_count k (bt_remove d ds)"
proof -
  have "decl_count k xs = (\<Sum>x \<leftarrow> map (\<lambda>x. (fst x, x)) xs. (\<lambda>x. if fst (fst x) = DToken \<and> k = snd x then 1 else 0) (snd x))" for xs
    by (induction xs) (auto simp: decl_count_def)
  moreover have "bt_get (map (\<lambda>x. (fst x, x)) xs) d = map_option (\<lambda>e. (d, e)) (bt_get xs d)" for xs :: decls
    by (induction xs) (auto simp: bt_get_def)
  moreover have "bt_remove d (map (\<lambda>x. (fst x, x)) xs) = map (\<lambda>x. (fst x, x)) (bt_remove d xs)" for xs :: decls
    by (induction xs) (auto simp: bt_remove_def)
  ultimately show ?thesis
    using sum_split_key [of "map (\<lambda>x. (fst x, x)) ds" d "(d, e)" "\<lambda>x. if fst (fst x) = DToken \<and> k = snd x then 1 else 0"] assms
    by (simp add: comp_def)
qed

lemma decl_count_put:
  "bt_get ds d = None \<Longrightarrow> decl_count k (hm_put d e ds) = decl_count k ds + (if fst d = DToken \<and> k = e then 1 else 0)"
  by (simp add: hm_put_def bt_remove_absent decl_count_def)

section \<open>Closing a session\<close>

lemma bt_get_decls: "bt_get (decls_of c) u = map_option s_decls (bt_get (c_sessions c) u)"
proof -
  have "bt_get (map (\<lambda>e. (fst e, s_decls (snd e))) ss) u = map_option s_decls (bt_get ss u)" for ss
    by (induction ss) (auto simp: bt_get_def)
  then show ?thesis by (simp add: decls_of_def)
qed

lemma decls_remove: "map (\<lambda>e. (fst e, s_decls (snd e))) (bt_remove u ss) = bt_remove u (map (\<lambda>e. (fst e, s_decls (snd e))) ss)"
  by (induction ss) (auto simp: bt_remove_def)

lemma drop_decl_tok: "c_tok (drop_decl uid ((k, i), e) l) = (if k = DToken then tok_minus e (c_tok l) else c_tok l)"
  by (cases k) (auto simp: drop_decl_def Let_def split: option.split)

lemma drop_decl_subs: "c_subs (drop_decl uid ((k, i), e) l) = (if k = DSub then ix_remove (OSess uid) i (c_subs l) else c_subs l)"
  by (cases k) (auto simp: drop_decl_def Let_def split: option.split)

lemma drop_decl_ok:
  assumes "tokens_ok ((uid, d # ds) # vs) l" "subs_ok ((uid, d # ds) # vs) l" "distinct (map fst (d # ds))"
  shows "tokens_ok ((uid, ds) # vs) (drop_decl uid d l)" "subs_ok ((uid, ds) # vs) (drop_decl uid d l)"
proof -
  obtain k i e where d: "d = ((k, i), e)" by (metis prod.exhaust)
  have loc: "local_count x (drop_decl uid d l) = local_count x l" for x by (simp add: local_count_def)
  show "tokens_ok ((uid, ds) # vs) (drop_decl uid d l)"
  proof (cases "k = DToken")
    case True
    show ?thesis
      by (rule tokens_ok_del [OF assms(1), where e = e]) (simp_all add: d True drop_decl_tok holders_def loc [unfolded d True] decl_count_def)
  next
    case False
    show ?thesis
      by (rule tokens_ok_same [OF assms(1)]) (simp_all add: d False drop_decl_tok holders_def loc [unfolded d] decl_count_def)
  qed
  have "bt_get ds (k, i) = None" using assms(3) by (simp add: d bt_get_def map_of_eq_None_iff)
  then show "subs_ok ((uid, ds) # vs) (drop_decl uid d l)"
    using assms(2) by (auto simp: subs_ok_def d drop_decl_subs ix_ok_remove ix_remove_get bt_get_Cons)
qed

lemma drop_decls_ok:
  assumes "tokens_ok ((uid, ds) # vs) l" "subs_ok ((uid, ds) # vs) l" "distinct (map fst ds)"
  shows "tokens_ok ((uid, []) # vs) (fold (drop_decl uid) ds l) \<and> subs_ok ((uid, []) # vs) (fold (drop_decl uid) ds l)"
  using assms
proof (induction ds arbitrary: l)
  case (Cons d ds)
  with drop_decl_ok [OF Cons.prems] show ?case by simp
qed simp

definition purge :: "u64 \<Rightarrow> pending option \<Rightarrow> pending option" where
  "purge uid x =
     (case x of
        None \<Rightarrow> None
      | Some p \<Rightarrow>
          if (case p_origin p of OrgSess o' _ \<Rightarrow> o' = uid | OrgLocal _ \<Rightarrow> False) then None
          else if TSess uid \<in> set (p_targets p) \<and> removeAll (TSess uid) (p_targets p) = [] then None
          else Some (p\<lparr>p_targets := removeAll (TSess uid) (p_targets p)\<rparr>))"

lemma drop_query_get: "bt_get (drop_query uid q m) q' = (if q' = q then purge uid (bt_get m q) else bt_get m q')"
  by (auto simp: drop_query_def drop_target_def purge_def split: option.splits origin.splits)

lemma drop_target_distinct [simp]: "distinct (map fst m) \<Longrightarrow> distinct (map fst (drop_target q t m))"
  by (simp add: drop_target_def split: option.split)

lemma drop_query_distinct [simp]: "distinct (map fst m) \<Longrightarrow> distinct (map fst (drop_query uid q m))"
  by (simp add: drop_query_def split: option.split)

lemma drop_queries:
  assumes "distinct qs"
  shows "bt_get (fold (drop_query uid) qs m) q = (if q \<in> set qs then purge uid (bt_get m q) else bt_get m q)"
    and "distinct (map fst m) \<Longrightarrow> distinct (map fst (fold (drop_query uid) qs m))"
proof -
  show "bt_get (fold (drop_query uid) qs m) q = (if q \<in> set qs then purge uid (bt_get m q) else bt_get m q)"
    using assms by (induction qs arbitrary: m) (auto simp: drop_query_get)
  show "distinct (map fst m) \<Longrightarrow> distinct (map fst (fold (drop_query uid) qs m))"
    by (induction qs arbitrary: m) auto
qed

lemma core_inv_close:
  assumes inv: "core_inv l" and s: "bt_get (c_sessions l) uid = Some s"
  shows "core_inv (close_ledger uid s l)"
proof -
  define l1 where "l1 = l\<lparr>c_sessions := bt_remove uid (c_sessions l),
    c_by_peer := (if bt_get (c_by_peer l) (s_peer s) = Some uid then bt_remove (s_peer s) (c_by_peer l) else c_by_peer l)\<rparr>"
  define l2 where "l2 = fold (drop_decl uid) (s_decls s) l1"
  define m where "m = fold (drop_query uid) (map fst (c_pending l)) (c_pending l)"
  note parts = inv [unfolded core_inv_def]
  have peers: "peers_ok l1"
    using parts s by (auto simp: peers_ok_def l1_def) (metis option.inject)
  have vs: "decls_of l1 = bt_remove uid (decls_of l)" by (simp add: l1_def decls_of_def decls_remove)
  have dist: "distinct (map fst (decls_of l))" using parts by (simp add: peers_ok_def decls_of_def comp_def)
  have get: "bt_get (decls_of l) uid = Some (s_decls s)" by (simp add: bt_get_decls s)
  have "tokens_ok ((uid, s_decls s) # decls_of l1) l1"
  proof (rule tokens_ok_same)
    show "tokens_ok (decls_of l) l" using parts by simp
    show "holders k ((uid, s_decls s) # decls_of l1) l1 = holders k (decls_of l) l" for k
      using sum_split_key [OF dist get, of "decl_count k"] by (simp add: holders_def vs) (simp add: local_count_def l1_def)
  qed (simp add: l1_def)
  moreover have "subs_ok ((uid, s_decls s) # decls_of l1) l1"
    using parts get by (auto simp: subs_ok_def vs bt_get_Cons) (simp_all add: l1_def)
  moreover have "(uid, s) \<in> set (c_sessions l)" using s by (simp add: bt_get_def map_of_SomeD)
  then have "distinct (map fst (s_decls s))" using parts by (auto simp: decls_ok_def)
  ultimately have two: "tokens_ok ((uid, []) # decls_of l1) l2" "subs_ok ((uid, []) # decls_of l1) l2"
    using drop_decls_ok by (auto simp: l2_def)
  have gone: "bt_get (decls_of l1) uid = None" by (simp add: vs)
  have keep: "c_sessions l2 = c_sessions l1" "c_by_peer l2 = c_by_peer l1" "c_next_uid l2 = c_next_uid l"
    "c_l_tokens l2 = c_l_tokens l" "c_l_subs l2 = c_l_subs l" "c_next_id l2 = c_next_id l" "c_pending l2 = c_pending l"
    by (simp_all add: l2_def l1_def)
  have cl: "close_ledger uid s l = (forget_tsubs l2)\<lparr>c_pending := m\<rparr>"
    by (simp add: close_ledger_def Let_def m_def keep flip: l1_def l2_def) (simp add: forget_tsubs_def keep m_def)
  have q: "bt_get m q = purge uid (bt_get (c_pending l) q)" for q
  proof -
    have "bt_get (c_pending l) q = None" if "q \<notin> set (map fst (c_pending l))"
      using that by (simp add: bt_get_def map_of_eq_None_iff)
    then show ?thesis using drop_queries(1) [of "map fst (c_pending l)" uid "c_pending l" q] parts
      by (auto simp: m_def queries_ok_def purge_def)
  qed
  have "queries_ok (close_ledger uid s l)"
  proof -
    have "query_ok (close_ledger uid s l) p" if "purge uid (bt_get (c_pending l) q) = Some p" for q p
    proof -
      from that obtain p0 where p0: "bt_get (c_pending l) q = Some p0" by (auto simp: purge_def split: option.splits)
      with parts have "query_ok l p0" by (auto simp: queries_ok_def)
      with that show ?thesis
        by (cases "p_origin p0")
          (auto simp: p0 cl purge_def query_ok_def forget_tsubs_def keep l1_def split: if_splits)
    qed
    then show ?thesis using drop_queries(2) [of "map fst (c_pending l)"] parts
      by (simp add: queries_ok_def cl q) (simp add: m_def)
  qed
  moreover have "peers_ok (close_ledger uid s l)" "decls_ok (close_ledger uid s l)"
    using peers parts by (auto simp: cl forget_tsubs_def keep peers_ok_def decls_ok_def l1_def bt_remove_def)
  moreover have "ids_ok (close_ledger uid s l)" using parts by (simp add: cl forget_tsubs_def keep ids_ok_def)
  moreover have dv: "decls_of (close_ledger uid s l) = decls_of l1"
    by (simp add: cl forget_tsubs_def keep decls_of_def)
  moreover have "tokens_ok (decls_of l1) (close_ledger uid s l)"
    using two(1) by (rule tokens_ok_same) (simp_all add: cl forget_tsubs_def holders_def local_count_def decl_count_def)
  moreover have "subs_ok (decls_of l1) (close_ledger uid s l)"
    using two(2) gone by (auto simp: subs_ok_def cl forget_tsubs_def bt_get_Cons)
  ultimately show ?thesis by (simp add: core_inv_def)
qed

section \<open>Opening a session\<close>

lemma word_less_succ:
  fixes w :: "'a :: len word"
  assumes "w \<noteq> - 1"
  shows "y < w + 1 \<longleftrightarrow> y \<le> w"
proof -
  have "1 + w \<noteq> 0" using assms by (metis add_eq_0_iff)
  then have "unat (w + 1) = Suc (unat w)" by (metis unatSuc add.commute)
  then show ?thesis by (simp add: word_less_nat_alt word_le_nat_alt less_Suc_eq_le)
qed

lemma learn_known: "\<exists>K. learn ps c = c\<lparr>c_known := K\<rparr>"
proof (induction ps arbitrary: c)
  case Nil
  have "learn [] c = c\<lparr>c_known := c_known c\<rparr>" by (simp add: learn_def)
  then show ?case by blast
next
  case (Cons p ps)
  let ?c = "c\<lparr>c_known := (if fst p \<noteq> c_node c then hm_put (fst p) (snd p) (c_known c) else c_known c)\<rparr>"
  have "learn (p # ps) c = learn ps ?c" by (simp add: learn_def)
  moreover obtain K where "learn ps ?c = ?c\<lparr>c_known := K\<rparr>" using Cons by blast
  ultimately have "learn (p # ps) c = c\<lparr>c_known := K\<rparr>" by simp
  then show ?case by blast
qed

definition new_sess :: "nat \<Rightarrow> hello \<Rightarrow> string \<Rightarrow> string option \<Rightarrow> string \<Rightarrow> u64 \<Rightarrow> u64 \<Rightarrow> u64 \<Rightarrow> sess" where
  "new_sess now h addr adv dialer boot sno n =
     \<lparr>s_peer = h_node h, s_role = h_role h, s_dialer = dialer, s_boot = boot, s_sno = sno, s_addr = addr,
      s_adv = adv, s_ob = outbox_new n, s_last_rx = now, s_decls = [], s_tsubs = [], s_peers = h_peers h, s_since = now\<rparr>"

lemma bare_hm_put [simp]: "map bare (hm_put k s m) = hm_put k (s\<lparr>s_ob := outbox_new 0\<rparr>) (map bare m)"
  by (simp add: hm_put_def bare_def)

lemma ledger_install:
  "\<exists>K. ledger (install now h addr adv dialer boot sno c) = (ledger c)\<lparr>c_next_uid := c_next_uid c + 1, c_known := K,
     c_by_peer := hm_put (h_node h) (c_next_uid c) (c_by_peer c),
     c_sessions := hm_put (c_next_uid c) (new_sess now h addr adv dialer boot sno 0) (c_sessions (ledger c))\<rparr>"
proof -
  define c2 where "c2 = (let c1 = c\<lparr>c_next_uid := c_next_uid c + 1\<rparr> in
    case adv of Some a \<Rightarrow> if h_role h = Router then c1\<lparr>c_known := hm_put (h_node h) a (c_known c1)\<rparr> else c1 | None \<Rightarrow> c1)"
  obtain K0 where c2: "c2 = c\<lparr>c_next_uid := c_next_uid c + 1, c_known := K0\<rparr>"
  proof -
    have "c2 = c\<lparr>c_next_uid := c_next_uid c + 1, c_known := c_known c2\<rparr>"
      by (auto simp: c2_def Let_def split: option.split)
    then show ?thesis using that by blast
  qed
  obtain K where c3: "learn (h_peers h) c2 = c2\<lparr>c_known := K\<rparr>" using learn_known by blast
  define c4 where "c4 = (learn (h_peers h) c2)\<lparr>c_by_peer := hm_put (h_node h) (c_next_uid c) (c_by_peer (learn (h_peers h) c2)),
    c_sessions := hm_put (c_next_uid c) (new_sess now h addr adv dialer boot sno (c_dropped (learn (h_peers h) c2)))
      (c_sessions (learn (h_peers h) c2))\<rparr>"
  have "ledger (install now h addr adv dialer boot sno c) = ledger c4"
    by (simp add: install_def Let_def new_sess_def [symmetric] c2_def [symmetric, unfolded Let_def] c4_def [symmetric] ledger_fold)
  also have "\<dots> = (ledger c)\<lparr>c_next_uid := c_next_uid c + 1, c_known := K,
     c_by_peer := hm_put (h_node h) (c_next_uid c) (c_by_peer c),
     c_sessions := hm_put (c_next_uid c) (new_sess now h addr adv dialer boot sno 0) (c_sessions (ledger c))\<rparr>"
    by (simp only: c4_def c3) (simp add: c2 new_sess_def)
  finally show ?thesis by blast
qed

lemma core_inv_install:
  assumes inv: "core_inv l" and free: "bt_get (c_by_peer l) (h_node h) = None" and room: "c_next_uid l \<noteq> - 1"
  shows "core_inv (l\<lparr>c_next_uid := c_next_uid l + 1, c_known := K,
     c_by_peer := hm_put (h_node h) (c_next_uid l) (c_by_peer l),
     c_sessions := hm_put (c_next_uid l) (new_sess now h addr adv dialer boot sno 0) (c_sessions l)\<rparr>)"
proof -
  let ?u = "c_next_uid l" and ?s = "new_sess now h addr adv dialer boot sno 0"
  let ?l = "l\<lparr>c_next_uid := ?u + 1, c_known := K, c_by_peer := hm_put (h_node h) ?u (c_by_peer l),
     c_sessions := hm_put ?u ?s (c_sessions l)\<rparr>"
  note parts = inv [unfolded core_inv_def]
  have above: "u < ?u \<Longrightarrow> u < ?u + 1" "?u < ?u + 1" for u
    using word_less_succ [OF room] by auto
  have fresh: "bt_get (c_sessions l) ?u = None"
    using parts by (cases "bt_get (c_sessions l) ?u") (auto simp: peers_ok_def)
  then have rm: "bt_remove ?u (c_sessions l) = c_sessions l" by (rule bt_remove_absent)
  have s [simp]: "s_decls ?s = []" "s_peer ?s = h_node h" by (simp_all add: new_sess_def)
  have vs: "decls_of ?l = (?u, []) # decls_of l" by (simp add: decls_of_def hm_put_def rm)
  have vfresh: "bt_get (decls_of l) ?u = None" by (simp add: bt_get_decls fresh)
  have "peers_ok ?l"
    using parts free fresh above by (auto simp: peers_ok_def) (metis option.distinct(1))+
  moreover have "decls_ok ?l" using parts by (auto simp: decls_ok_def hm_put_def rm)
  moreover have "tokens_ok (decls_of ?l) ?l"
    by (rule tokens_ok_same [of "decls_of l" l]) (use parts in \<open>simp_all add: vs holders_def local_count_def decl_count_def\<close>)
  moreover have "subs_ok (decls_of ?l) ?l"
    using parts vfresh by (auto simp: vs subs_ok_def bt_get_Cons)
  moreover have "queries_ok ?l"
    using parts by (fastforce simp: queries_ok_def query_ok_def split: origin.splits)
  moreover have "ids_ok ?l" using parts by (simp add: ids_ok_def)
  ultimately show ?thesis by (simp only: core_inv_def)
qed

section \<open>Changing a session\<close>

lemma decls_of_mod:
  "c_sessions l' = hm_mod uid f (c_sessions l) \<Longrightarrow> (\<And>s. s_decls (f s) = g (s_decls s)) \<Longrightarrow>
     decls_of l' = hm_mod uid g (decls_of l)"
  by (simp add: decls_of_def hm_mod_def)

lemma query_ok_mono:
  "query_ok l p \<Longrightarrow> (\<And>u. bt_get (c_sessions l) u \<noteq> None \<Longrightarrow> bt_get (c_sessions l') u \<noteq> None) \<Longrightarrow> query_ok l' p"
  unfolding query_ok_def by (cases "p_origin p") auto

lemma core_inv_sess:
  assumes inv: "core_inv l"
    and f: "\<And>s. s_peer (f s) = s_peer s" "\<And>s. s_decls (f s) = g (s_decls s)"
      "\<And>ds. distinct (map fst ds) \<Longrightarrow> distinct (map fst (g ds))"
    and l': "c_sessions l' = hm_mod uid f (c_sessions l)" "c_by_peer l' = c_by_peer l" "c_next_uid l' = c_next_uid l"
      "c_pending l' = c_pending l" "ids_ok l'"
    and ok: "tokens_ok (hm_mod uid g (decls_of l)) l'" "subs_ok (hm_mod uid g (decls_of l)) l'"
  shows "core_inv l'"
proof -
  note parts = inv [unfolded core_inv_def]
  have get: "bt_get (c_sessions l') u = (if u = uid then map_option f (bt_get (c_sessions l) u) else bt_get (c_sessions l) u)" for u
    by (simp add: l')
  have live: "bt_get (c_sessions l) u \<noteq> None \<Longrightarrow> bt_get (c_sessions l') u \<noteq> None" for u by (auto simp: get)
  have "peers_ok l'"
    using parts f(1) by (auto simp: peers_ok_def l')
  moreover have "decls_ok l'"
    using parts f by (auto simp: decls_ok_def l' hm_mod_def)
  moreover have "queries_ok l'"
    using parts query_ok_mono [of l _ l', OF _ live] by (auto simp: queries_ok_def l'(4))
  moreover have "decls_of l' = hm_mod uid g (decls_of l)" by (rule decls_of_mod [OF l'(1) f(2)])
  ultimately show ?thesis using ok l'(5) by (simp add: core_inv_def)
qed

lemma hm_mod_id: "hm_mod k (\<lambda>v. v) m = m"
  by (induction m) (auto simp: hm_mod_def)

lemma core_inv_sess_same:
  assumes "core_inv l" "\<And>s. s_peer (f s) = s_peer s" "\<And>s. s_decls (f s) = s_decls s"
  shows "core_inv (l\<lparr>c_sessions := hm_mod uid f (c_sessions l)\<rparr>)"
  by (rule core_inv_sess [OF assms(1-3), where uid = uid])
    (use assms(1) in \<open>simp_all add: core_inv_def hm_mod_id ids_ok_def tokens_ok_def subs_ok_def holders_def local_count_def
      tok_count_def\<close>)

lemma holders_mod:
  assumes "distinct (map fst vs)" "bt_get vs uid = Some ds" "local_count k l' = local_count k l"
  shows "holders k (hm_mod uid g vs) l' + decl_count k ds = holders k vs l + decl_count k (g ds)"
  using sum_split_key [of vs uid ds "decl_count k"] sum_split_key [of "hm_mod uid g vs" uid "g ds" "decl_count k"] assms
  by (simp add: holders_def)

lemma core_inv_decls_distinct: "core_inv l \<Longrightarrow> distinct (map fst (decls_of l))"
  by (simp add: core_inv_def peers_ok_def decls_of_def comp_def)

lemma core_inv_decl_distinct:
  "core_inv l \<Longrightarrow> bt_get (c_sessions l) u = Some s \<Longrightarrow> distinct (map fst (s_decls s))"
  by (force simp: core_inv_def decls_ok_def bt_get_def dest: map_of_SomeD)

lemma core_inv_declare:
  assumes inv: "core_inv l" and s: "bt_get (c_sessions l) uid = Some s"
    and new: "bt_get (s_decls s) (kind, i) = None"
  shows "core_inv (l\<lparr>c_sessions := hm_mod uid (\<lambda>s. s\<lparr>s_decls := hm_put (kind, i) expr (s_decls s)\<rparr>) (c_sessions l),
      c_tok := (if kind = DToken then tok_plus expr (c_tok l) else c_tok l),
      c_subs := (if kind = DSub then ix_add (OSess uid) i expr (c_subs l) else c_subs l)\<rparr>)" (is "core_inv ?l")
proof (rule core_inv_sess [OF inv, where uid = uid and g = "hm_put (kind, i) expr"])
  note parts = inv [unfolded core_inv_def]
  have vs: "bt_get (decls_of l) uid = Some (s_decls s)" by (simp add: bt_get_decls s)
  have hold: "holders k (hm_mod uid (hm_put (kind, i) expr) (decls_of l)) ?l
      = holders k (decls_of l) l + (if kind = DToken \<and> k = expr then 1 else 0)" for k
    using holders_mod [OF core_inv_decls_distinct [OF inv] vs, of k ?l l "hm_put (kind, i) expr"]
      decl_count_put [OF new, of k expr] by (simp only: fst_conv local_count_def) simp
  show "tokens_ok (hm_mod uid (hm_put (kind, i) expr) (decls_of l)) ?l"
  proof (cases "kind = DToken")
    case True
    show ?thesis by (rule tokens_ok_add [of "decls_of l" l _ _ expr]) (use parts hold True in simp_all)
  next
    case False
    show ?thesis by (rule tokens_ok_same [of "decls_of l" l]) (use parts hold False in simp_all)
  qed
  show "subs_ok (hm_mod uid (hm_put (kind, i) expr) (decls_of l)) ?l"
    using parts vs by (cases kind) (auto simp: subs_ok_def ix_ok_add ix_add_get)
  show "ids_ok ?l" using parts by (simp add: ids_ok_def)
qed simp_all

lemma core_inv_redeclare:
  assumes inv: "core_inv l" and s: "bt_get (c_sessions l) uid = Some s"
    and old: "bt_get (s_decls s) (kind, i) = Some expr"
  shows "core_inv (l\<lparr>c_sessions := hm_mod uid (\<lambda>s. s\<lparr>s_decls := hm_put (kind, i) expr (s_decls s)\<rparr>) (c_sessions l)\<rparr>)"
    (is "core_inv ?l")
proof (rule core_inv_sess [OF inv, where uid = uid and g = "hm_put (kind, i) expr"])
  note parts = inv [unfolded core_inv_def]
  have vs: "bt_get (decls_of l) uid = Some (s_decls s)" by (simp add: bt_get_decls s)
  have "decl_count k (hm_put (kind, i) expr (s_decls s)) = decl_count k (s_decls s)" for k
    using decl_count_key [OF core_inv_decl_distinct [OF inv s] old, of k] by (simp add: hm_put_def) (simp add: decl_count_def)
  then have hold: "holders k (hm_mod uid (hm_put (kind, i) expr) (decls_of l)) ?l = holders k (decls_of l) l" for k
    using holders_mod [OF core_inv_decls_distinct [OF inv] vs, of k ?l l "hm_put (kind, i) expr"]
    by (simp add: local_count_def)
  show "tokens_ok (hm_mod uid (hm_put (kind, i) expr) (decls_of l)) ?l"
    by (rule tokens_ok_same [of "decls_of l" l]) (use parts hold in auto)
  show "subs_ok (hm_mod uid (hm_put (kind, i) expr) (decls_of l)) ?l"
    using parts vs old by (auto simp: subs_ok_def)
  show "ids_ok ?l" using parts by (simp add: ids_ok_def)
qed simp_all

lemma core_inv_undeclare:
  assumes inv: "core_inv l" and s: "bt_get (c_sessions l) uid = Some s"
    and old: "bt_get (s_decls s) (kind, i) = Some expr"
  shows "core_inv (l\<lparr>c_sessions := hm_mod uid (\<lambda>s. s\<lparr>s_decls := bt_remove (kind, i) (s_decls s)\<rparr>) (c_sessions l),
      c_tok := (if kind = DToken then tok_minus expr (c_tok l) else c_tok l),
      c_subs := (if kind = DSub then ix_remove (OSess uid) i (c_subs l) else c_subs l)\<rparr>)" (is "core_inv ?l")
proof (rule core_inv_sess [OF inv, where uid = uid and g = "bt_remove (kind, i)"])
  note parts = inv [unfolded core_inv_def]
  have vs: "bt_get (decls_of l) uid = Some (s_decls s)" by (simp add: bt_get_decls s)
  have hold: "holders k (hm_mod uid (bt_remove (kind, i)) (decls_of l)) ?l + (if kind = DToken \<and> k = expr then 1 else 0)
      = holders k (decls_of l) l" for k
    using holders_mod [OF core_inv_decls_distinct [OF inv] vs, of k ?l l "bt_remove (kind, i)"]
      decl_count_key [OF core_inv_decl_distinct [OF inv s] old, of k] by (simp only: fst_conv local_count_def) simp
  show "tokens_ok (hm_mod uid (bt_remove (kind, i)) (decls_of l)) ?l"
  proof (cases "kind = DToken")
    case True
    show ?thesis by (rule tokens_ok_del [of "decls_of l" l _ _ expr]) (use parts hold True in simp_all)
  next
    case False
    show ?thesis by (rule tokens_ok_same [of "decls_of l" l]) (use parts hold False in simp_all)
  qed
  show "subs_ok (hm_mod uid (bt_remove (kind, i)) (decls_of l)) ?l"
    using parts vs by (cases kind) (auto simp: subs_ok_def ix_ok_remove ix_remove_get)
  show "ids_ok ?l" using parts by (simp add: ids_ok_def)
qed simp_all

section \<open>Local declarations and queries\<close>

lemma query_ok_cong: "c_sessions l' = c_sessions l \<Longrightarrow> query_ok l' = query_ok l"
  by (auto simp: query_ok_def fun_eq_iff split: origin.split)

lemma core_inv_cong:
  assumes "c_sessions l' = c_sessions l" "c_by_peer l' = c_by_peer l" "c_next_uid l' = c_next_uid l"
    "c_router l' = c_router l" "c_l_tokens l' = c_l_tokens l" "c_l_subs l' = c_l_subs l" "c_tok l' = c_tok l"
    "c_subs l' = c_subs l" "c_pending l' = c_pending l" "c_next_id l' = c_next_id l"
  shows "core_inv l' = core_inv l"
  using assms query_ok_cong [OF assms(1)]
  by (simp add: core_inv_def peers_ok_def decls_ok_def tokens_ok_def subs_ok_def queries_ok_def ids_ok_def holders_def
      local_count_def tok_count_def decls_of_def)

lemma core_inv_irrelevant [simp]:
  "core_inv (l\<lparr>c_out := o'\<rparr>) = core_inv l" "core_inv (l\<lparr>c_south := so\<rparr>) = core_inv l"
  "core_inv (l\<lparr>c_known := k\<rparr>) = core_inv l" "core_inv (l\<lparr>c_dials := d\<rparr>) = core_inv l"
  "core_inv (l\<lparr>c_partial := p\<rparr>) = core_inv l" "core_inv (l\<lparr>c_last_tick := t\<rparr>) = core_inv l"
  "core_inv (l\<lparr>c_last_partial_check := t\<rparr>) = core_inv l" "core_inv (l\<lparr>c_next_sno := n\<rparr>) = core_inv l"
  "core_inv (l\<lparr>c_l_tsubs := ts\<rparr>) = core_inv l" "core_inv (l\<lparr>c_l_qabls := q\<rparr>) = core_inv l"
  by (rule core_inv_cong; simp)+

lemma ids_later: "c_next_id l \<noteq> - 1 \<Longrightarrow> c_next_id l + 1 \<le> i \<Longrightarrow> c_next_id l \<le> i \<and> i \<noteq> c_next_id l"
  using word_less_succ [of "c_next_id l" i] by (metis not_le order_less_imp_le order_less_irrefl)

lemma queries_ok_cong: "c_sessions l' = c_sessions l \<Longrightarrow> c_pending l' = c_pending l \<Longrightarrow> queries_ok l' = queries_ok l"
  by (simp add: queries_ok_def query_ok_cong [of l' l])

lemma core_inv_next_id:
  assumes "core_inv l" "c_next_id l \<noteq> - 1"
  shows "core_inv (l\<lparr>c_next_id := c_next_id l + 1\<rparr>)" (is "core_inv ?l")
proof -
  have "ids_ok ?l" using assms(1) ids_later [OF assms(2)] by (simp add: core_inv_def ids_ok_def)
  then show ?thesis
    using assms(1) queries_ok_cong [of ?l l]
    by (simp add: core_inv_def peers_ok_def decls_ok_def tokens_ok_def subs_ok_def holders_def
      local_count_def tok_count_def decls_of_def)
qed

lemma core_inv_pending:
  assumes "core_inv l" "distinct (map fst P)" "\<And>q p. bt_get P q = Some p \<Longrightarrow> query_ok l p"
  shows "core_inv (l\<lparr>c_pending := P\<rparr>)"
  using assms query_ok_cong [of "l\<lparr>c_pending := P\<rparr>" l]
  by (simp add: core_inv_def peers_ok_def decls_ok_def tokens_ok_def subs_ok_def queries_ok_def
      ids_ok_def holders_def local_count_def tok_count_def decls_of_def)

lemma count_snd: "length (filter (\<lambda>e. snd e = k) m) = (\<Sum>x \<leftarrow> m. if snd x = k then 1 else 0)"
  by (induction m) auto

lemma core_inv_token_add:
  assumes inv: "core_inv l" and room: "c_next_id l \<noteq> - 1"
  shows "core_inv (l\<lparr>c_next_id := c_next_id l + 1, c_l_tokens := hm_put (c_next_id l) key (c_l_tokens l),
      c_tok := (if c_router l then tok_plus key (c_tok l) else c_tok l)\<rparr>)" (is "core_inv ?l")
proof -
  note parts = inv [unfolded core_inv_def]
  have "bt_get (c_l_tokens l) (c_next_id l) = None" using parts by (simp add: ids_ok_def)
  then have rm: "bt_remove (c_next_id l) (c_l_tokens l) = c_l_tokens l" by (rule bt_remove_absent)
  have vs: "decls_of ?l = decls_of l" by (simp add: decls_of_def)
  have "tokens_ok (decls_of l) ?l"
  proof (cases "c_router l")
    case True
    show ?thesis
      by (rule tokens_ok_add [of "decls_of l" l _ _ key]) (use parts True in \<open>simp_all add: holders_def local_count_def hm_put_def rm\<close>)
  next
    case False
    show ?thesis
      by (rule tokens_ok_same [of "decls_of l" l]) (use parts False in \<open>simp_all add: holders_def local_count_def\<close>)
  qed
  moreover have "ids_ok ?l" using parts ids_later [OF room] by (simp add: ids_ok_def)
  ultimately show ?thesis
    using parts queries_ok_cong [of ?l l]
    by (simp add: core_inv_def vs) (simp add: peers_ok_def decls_ok_def subs_ok_def)
qed

lemma core_inv_token_del:
  assumes inv: "core_inv l" and old: "bt_get (c_l_tokens l) i = Some key"
  shows "core_inv (l\<lparr>c_l_tokens := bt_remove i (c_l_tokens l),
      c_tok := (if c_router l then tok_minus key (c_tok l) else c_tok l)\<rparr>)" (is "core_inv ?l")
proof -
  note parts = inv [unfolded core_inv_def]
  have vs: "decls_of ?l = decls_of l" by (simp add: decls_of_def)
  have "distinct (map fst (c_l_tokens l))" using parts by (simp add: ids_ok_def)
  note split = sum_split_key [OF this old]
  have "tokens_ok (decls_of l) ?l"
  proof (cases "c_router l")
    case True
    have "holders k (decls_of l) ?l + (if k = key then 1 else 0) = holders k (decls_of l) l" for k
      using split [of "\<lambda>v. if v = k then 1 else 0"] True
      by (cases "k = key") (simp_all add: holders_def local_count_def count_snd)
    then show ?thesis by (rule tokens_ok_del [rotated]) (use parts True in simp_all)
  next
    case False
    show ?thesis
      by (rule tokens_ok_same [of "decls_of l" l]) (use parts False in \<open>simp_all add: holders_def local_count_def\<close>)
  qed
  moreover have "ids_ok ?l" using parts by (simp add: ids_ok_def)
  ultimately show ?thesis
    using parts queries_ok_cong [of ?l l]
    by (simp add: core_inv_def vs) (simp add: peers_ok_def decls_ok_def subs_ok_def)
qed

lemma core_inv_sub_add:
  assumes inv: "core_inv l" and room: "c_next_id l \<noteq> - 1"
  shows "core_inv (l\<lparr>c_next_id := c_next_id l + 1, c_subs := ix_add (OLocal (c_next_id l)) (c_next_id l) expr (c_subs l),
      c_l_subs := hm_put (c_next_id l) expr (c_l_subs l)\<rparr>)" (is "core_inv ?l")
proof -
  note parts = inv [unfolded core_inv_def]
  have vs: "decls_of ?l = decls_of l" by (simp add: decls_of_def)
  have "subs_ok (decls_of l) ?l" using parts by (auto simp: subs_ok_def ix_ok_add ix_add_get)
  moreover have "ids_ok ?l" using parts ids_later [OF room] by (simp add: ids_ok_def)
  ultimately show ?thesis
    using parts queries_ok_cong [of ?l l] by (simp add: core_inv_def vs)
      (simp add: peers_ok_def decls_ok_def tokens_ok_def holders_def local_count_def tok_count_def)
qed

lemma core_inv_sub_del:
  assumes inv: "core_inv l"
  shows "core_inv (l\<lparr>c_subs := ix_remove (OLocal i) i (c_subs l), c_l_subs := bt_remove i (c_l_subs l)\<rparr>)" (is "core_inv ?l")
proof -
  note parts = inv [unfolded core_inv_def]
  have vs: "decls_of ?l = decls_of l" by (simp add: decls_of_def)
  have "subs_ok (decls_of l) ?l" using parts by (auto simp: subs_ok_def ix_ok_remove ix_remove_get)
  moreover have "ids_ok ?l" using parts by (simp add: ids_ok_def)
  ultimately show ?thesis
    using parts queries_ok_cong [of ?l l] by (simp add: core_inv_def vs)
      (simp add: peers_ok_def decls_ok_def tokens_ok_def holders_def local_count_def tok_count_def)
qed

lemma core_inv_query: "core_inv l \<Longrightarrow> bt_get (c_pending l) q = Some p \<Longrightarrow> query_ok l p"
  by (simp add: core_inv_def queries_ok_def)

lemma core_inv_pending_distinct: "core_inv l \<Longrightarrow> distinct (map fst (c_pending l))"
  by (simp add: core_inv_def queries_ok_def)

lemma core_inv_finish: "core_inv l \<Longrightarrow> core_inv (l\<lparr>c_pending := bt_remove q (c_pending l)\<rparr>)"
  by (rule core_inv_pending) (auto simp: core_inv_pending_distinct core_inv_query split: if_splits)

lemma core_inv_drop_target: "core_inv l \<Longrightarrow> core_inv (l\<lparr>c_pending := drop_target q t (c_pending l)\<rparr>)"
proof (rule core_inv_pending)
  assume inv: "core_inv l"
  then show "distinct (map fst (drop_target q t (c_pending l)))" by (simp add: core_inv_pending_distinct)
  show "query_ok l p" if "bt_get (drop_target q t (c_pending l)) q' = Some p" for q' p
  proof (cases "bt_get (c_pending l) q'")
    case None
    with that show ?thesis by (auto simp: drop_target_def split: option.splits if_splits)
  next
    case (Some p0)
    with core_inv_query [OF inv Some] that show ?thesis
      by (cases "p_origin p0") (auto simp: drop_target_def query_ok_def split: option.splits if_splits)
  qed
qed

end
