(* ===== verification/Mesh_Node.thy ===== *)
theory Mesh_Node
  imports Mesh_Inv
begin

text \<open>
  A mesh node keeps its invariant through every event, as long as its counters do not wrap and no peer
  reuses a declaration number for another expression; what follows for sessions, tokens, puts and queries.
\<close>

section \<open>Handlers keep the invariant\<close>

lemma core_inv_via: "ledger c' = l \<Longrightarrow> core_inv l \<Longrightarrow> core_inv c'"
  using core_inv_ledger [of c'] by simp

lemma core_inv_same: "ledger c' = ledger c \<Longrightarrow> core_inv c' = core_inv c"
  using core_inv_ledger [of c'] core_inv_ledger [of c] by simp

lemma core_inv_emit [simp]: "core_inv (emit f c) = core_inv c" "core_inv (push_to u m c) = core_inv c"
  "core_inv (push_up m c) = core_inv c" "core_inv (announce m c) = core_inv c"
  "core_inv (forward_reply q k ok p c) = core_inv c"
  by (rule core_inv_same, simp)+

lemma core_inv_close_sess: "core_inv c \<Longrightarrow> core_inv (close_sess uid reason c)"
proof (cases "bt_get (c_sessions c) uid")
  case (Some s)
  assume inv: "core_inv c"
  have "close_ledger uid (s\<lparr>s_ob := outbox_new 0\<rparr>) (ledger c) = close_ledger uid s (ledger c)"
    by (simp add: close_ledger_def)
  then show ?thesis
    using core_inv_close [of "ledger c" uid "s\<lparr>s_ob := outbox_new 0\<rparr>"] inv Some
    by (intro core_inv_via [OF ledger_close_sess [OF Some]]) (simp add: core_inv_ledger)
qed (simp add: close_sess_absent)

lemma core_inv_fold: "(\<And>x c. x \<in> set xs \<Longrightarrow> core_inv c \<Longrightarrow> core_inv (f x c)) \<Longrightarrow> core_inv c \<Longrightarrow> core_inv (fold f xs c)"
  by (induction xs arbitrary: c) auto

lemma core_inv_close_all: "core_inv c \<Longrightarrow> core_inv (close_all r c)"
  unfolding close_all_def by (rule core_inv_fold) (simp_all add: core_inv_close_sess)

lemma core_inv_fence: "core_inv c \<Longrightarrow> core_inv (fence now c)"
  using core_inv_close_all [of c Fenced] by (simp add: fence_def Let_def)

lemma core_inv_finish_q: "core_inv c \<Longrightarrow> core_inv (finish q c)"
  using core_inv_finish [of "ledger c" q] by (intro core_inv_via [OF ledger_finish]) (simp add: core_inv_ledger)

lemma core_inv_target_done: "core_inv c \<Longrightarrow> core_inv (target_done q t c)"
  using core_inv_drop_target [of "ledger c" q t] by (intro core_inv_via [OF ledger_target_done]) (simp add: core_inv_ledger)

lemma core_inv_dial: "core_inv (dial_one now a c) = core_inv c"
  by (simp add: dial_one_def Let_def)

lemma core_inv_tick: "core_inv c \<Longrightarrow> core_inv (on_tick now c)"
proof -
  assume inv: "core_inv c"
  let ?c0 = "c\<lparr>c_last_tick := now\<rparr>"
  let ?c1 = "fold (\<lambda>u. close_sess u Expired) (expired now ?c0) ?c0"
  let ?c2 = "fold finish (late now ?c1) ?c1"
  have "core_inv ?c1" by (rule core_inv_fold) (simp_all add: core_inv_close_sess inv)
  then have "core_inv ?c2" by (rule core_inv_fold [rotated]) (simp add: core_inv_finish_q)
  then have "core_inv (dial_wanted now ?c2)"
    unfolding dial_wanted_def by (rule core_inv_fold [rotated]) (simp add: core_inv_dial)
  then show ?thesis
    using inv core_inv_fence [of ?c0 now] by (simp add: on_tick_def Let_def check_partial_def)
qed

lemma by_peer_close:
  assumes "core_inv c" "bt_get (c_by_peer c) p = Some u"
  shows "bt_get (c_by_peer (close_sess u r c)) p = None" "c_next_uid (close_sess u r c) = c_next_uid c"
proof -
  from assms obtain s where s: "bt_get (c_sessions c) u = Some s" "s_peer s = p"
    by (auto simp: core_inv_def peers_ok_def)
  have "c_by_peer (close_sess u r c) = c_by_peer (close_ledger u s (ledger c))"
    "c_next_uid (close_sess u r c) = c_next_uid (close_ledger u s (ledger c))"
    using ledger_sel(5) [of "close_sess u r c"] ledger_sel(3) [of "close_sess u r c"] ledger_close_sess [OF s(1), of r] by simp_all
  then show "bt_get (c_by_peer (close_sess u r c)) p = None" "c_next_uid (close_sess u r c) = c_next_uid c"
    using s assms(2) by (simp_all add: close_ledger_def Let_def forget_tsubs_def)
qed

lemma core_inv_installed:
  assumes "core_inv c" "bt_get (c_by_peer c) (h_node h) = None" "c_next_uid c \<noteq> - 1"
  shows "core_inv (install now h addr adv dialer boot sno c)"
proof -
  obtain K where K: "ledger (install now h addr adv dialer boot sno c) = (ledger c)\<lparr>c_next_uid := c_next_uid c + 1, c_known := K,
     c_by_peer := hm_put (h_node h) (c_next_uid c) (c_by_peer c),
     c_sessions := hm_put (c_next_uid c) (new_sess now h addr adv dialer boot sno 0) (c_sessions (ledger c))\<rparr>"
    using ledger_install by blast
  have "core_inv (ledger c)" "bt_get (c_by_peer (ledger c)) (h_node h) = None" "c_next_uid (ledger c) \<noteq> - 1"
    using assms by (simp_all add: core_inv_ledger)
  from core_inv_install [OF this, where K = K] show ?thesis
    by (intro core_inv_via [OF K]) simp
qed

lemma core_inv_accepted:
  assumes inv: "core_inv c" and room: "c_next_uid c \<noteq> - 1"
  shows "core_inv (on_accepted now sent h addr adv c)"
proof -
  let ?c1 = "emit (FxDirect (WHello (my_hello (h_sno h) c))) c"
  have c1: "core_inv ?c1" using inv by simp
  have "c_next_uid ?c1 \<noteq> - 1" using room by (simp add: emit_def)
  note c1 = c1 this
  show ?thesis
  proof (cases "bt_get (c_by_peer ?c1) (h_node h)")
    case None
    with c1 show ?thesis by (auto simp: on_accepted_def Let_def core_inv_installed split: option.split)
  next
    case (Some u)
    from by_peer_close [OF c1(1) Some] c1 core_inv_close_sess [OF c1(1)] Some show ?thesis
      by (auto simp: on_accepted_def Let_def intro!: core_inv_installed split: option.split)
  qed
qed

lemma core_inv_dialed:
  assumes inv: "core_inv c" and room: "c_next_uid c \<noteq> - 1"
  shows "core_inv (on_dialed now target sno res c)"
proof (cases "bt_get (c_dials c) target = None \<or> res = None")
  case False
  then obtain d h addr adv where dr: "bt_get (c_dials c) target = Some d" "res = Some (h, addr, adv)"
    by (cases res) auto
  define c1 where "c1 = c\<lparr>c_dials := hm_mod target (\<lambda>d. d\<lparr>d_busy := False, d_backoff := BACKOFF_MIN,
    d_next := now + BACKOFF_MIN, d_node := Some (h_node h)\<rparr>) (c_dials c)\<rparr>"
  have c1: "core_inv c1" "c_next_uid c1 \<noteq> - 1" using inv room by (simp_all add: c1_def)
  show ?thesis
  proof (cases "bt_get (c_by_peer c1) (h_node h)")
    case None
    then show ?thesis
      unfolding on_dialed_def dr option.case prod.case Let_def c1_def [symmetric]
      using c1 by (simp add: core_inv_installed)
  next
    case (Some u)
    then show ?thesis
      unfolding on_dialed_def dr option.case prod.case Let_def c1_def [symmetric]
      using c1 by_peer_close [OF c1(1) Some] core_inv_close_sess [OF c1(1)] by (simp add: core_inv_installed)
  qed
qed (use inv in \<open>auto simp: on_dialed_def split: option.split\<close>)

section \<open>Declarations\<close>

lemma ledger_sessions_mod [simp]:
  "(\<And>s. (f s)\<lparr>s_ob := outbox_new 0\<rparr> = f (s\<lparr>s_ob := outbox_new 0\<rparr>)) \<Longrightarrow> map bare (hm_mod u f ss) = hm_mod u f (map bare ss)"
  by (simp add: hm_mod_def bare_def)

lemma core_inv_remote_declare:
  assumes inv: "core_inv c" and room: "c_next_id c \<noteq> - 1"
    and ok: "\<And>s. bt_get (c_sessions c) uid = Some s \<Longrightarrow> bt_get (s_decls s) (kind, i) \<in> {None, Some expr}"
  shows "core_inv (remote_declare uid r kind i expr c)"
proof (cases "c_router c \<and> bt_get (c_sessions c) uid \<noteq> None")
  case True
  then obtain s where s: "c_router c" "bt_get (c_sessions c) uid = Some s" by auto
  let ?m = "\<lambda>ss. hm_mod uid (\<lambda>s. s\<lparr>s_decls := hm_put (kind, i) expr (s_decls s)\<rparr>) ss"
  have l: "core_inv (ledger c)" "bt_get (c_sessions (ledger c)) uid = Some (s\<lparr>s_ob := outbox_new 0\<rparr>)"
    using inv s by (simp_all add: core_inv_ledger)
  define c1 where "c1 = c\<lparr>c_sessions := ?m (c_sessions c)\<rparr>"
  have l1: "ledger c1 = (ledger c)\<lparr>c_sessions := ?m (c_sessions (ledger c))\<rparr>" by (simp add: c1_def)
  show ?thesis
  proof (cases "bt_get (s_decls s) (kind, i)")
    case None
    define c2 where "c2 = (case kind of DToken \<Rightarrow> tok_add expr c1
      | DSub \<Rightarrow> c1\<lparr>c_subs := ix_add (OSess uid) i expr (c_subs c1)\<rparr> | DQabl \<Rightarrow> c1)"
    have l2: "ledger c2 = (ledger c)\<lparr>c_sessions := ?m (c_sessions (ledger c)),
        c_tok := (if kind = DToken then tok_plus expr (c_tok (ledger c)) else c_tok (ledger c)),
        c_subs := (if kind = DSub then ix_add (OSess uid) i expr (c_subs (ledger c)) else c_subs (ledger c))\<rparr>"
      by (cases kind) (simp_all add: c2_def l1, simp_all add: c1_def)
    have "bt_get (s_decls (s\<lparr>s_ob := outbox_new 0\<rparr>)) (kind, i) = None" using None by simp
    from core_inv_declare [OF l this, of expr] have c2: "core_inv c2" by (intro core_inv_via [OF l2])
    have n2: "c_next_id c2 \<noteq> - 1" using ledger_sel(4) [of c2] room by (simp add: l2)
    have "core_inv (c2\<lparr>c_next_id := c_next_id c2 + 1\<rparr>)" by (rule core_inv_next_id [OF c2 n2])
    then show ?thesis
      using s None c2 unfolding remote_declare_def
      by (simp add: Let_def new_id_def flip: c1_def c2_def)
  next
    case (Some e)
    with ok [OF s(2)] have old: "bt_get (s_decls (s\<lparr>s_ob := outbox_new 0\<rparr>)) (kind, i) = Some expr" by simp
    from core_inv_redeclare [OF l old] have "core_inv c1" by (intro core_inv_via [OF l1])
    with s Some show ?thesis by (simp add: remote_declare_def Let_def flip: c1_def)
  qed
qed (use inv in \<open>auto simp: remote_declare_def split: option.split\<close>)

lemma core_inv_remote_undeclare:
  assumes inv: "core_inv c"
  shows "core_inv (remote_undeclare uid kind i c)"
proof (cases "Option.bind (bt_get (c_sessions c) uid) (\<lambda>s. bt_get (s_decls s) (kind, i))")
  case (Some e)
  then obtain s where s: "bt_get (c_sessions c) uid = Some s" "bt_get (s_decls s) (kind, i) = Some e"
    by (cases "bt_get (c_sessions c) uid") auto
  let ?m = "\<lambda>ss. hm_mod uid (\<lambda>s. s\<lparr>s_decls := bt_remove (kind, i) (s_decls s)\<rparr>) ss"
  have l: "core_inv (ledger c)" "bt_get (c_sessions (ledger c)) uid = Some (s\<lparr>s_ob := outbox_new 0\<rparr>)"
    "bt_get (s_decls (s\<lparr>s_ob := outbox_new 0\<rparr>)) (kind, i) = Some e"
    using inv s by (simp_all add: core_inv_ledger)
  define c1 where "c1 = c\<lparr>c_sessions := ?m (c_sessions c)\<rparr>"
  define c2 where "c2 = (case kind of DToken \<Rightarrow> snd (tok_del e c1)
    | DSub \<Rightarrow> c1\<lparr>c_subs := ix_remove (OSess uid) i (c_subs c1)\<rparr> | DQabl \<Rightarrow> c1)"
  have l2: "ledger c2 = (ledger c)\<lparr>c_sessions := ?m (c_sessions (ledger c)),
      c_tok := (if kind = DToken then tok_minus e (c_tok (ledger c)) else c_tok (ledger c)),
      c_subs := (if kind = DSub then ix_remove (OSess uid) i (c_subs (ledger c)) else c_subs (ledger c))\<rparr>"
    by (cases kind) (simp_all add: c2_def, simp_all add: c1_def)
  from core_inv_undeclare [OF l] have "core_inv c2" by (intro core_inv_via [OF l2])
  then show ?thesis
    unfolding remote_undeclare_def Some option.case Let_def c1_def [symmetric] c2_def [symmetric]
    by (simp split: option.split)
qed (use inv in \<open>simp add: remote_undeclare_def\<close>)

lemma core_inv_cmd_undeclare:
  assumes inv: "core_inv c"
  shows "core_inv (cmd_undeclare kind i c)"
proof -
  have l: "core_inv (ledger c)" using inv by (simp add: core_inv_ledger)
  show ?thesis
  proof (cases kind)
    case DToken
    show ?thesis
    proof (cases "bt_get (c_l_tokens c) i")
      case (Some k)
      let ?c1 = "c\<lparr>c_l_tokens := bt_remove i (c_l_tokens c)\<rparr>"
      define c2 where "c2 = (if c_router ?c1 then snd (tok_del k ?c1) else ?c1)"
      have l2: "ledger c2 = (ledger c)\<lparr>c_l_tokens := bt_remove i (c_l_tokens (ledger c)),
          c_tok := (if c_router (ledger c) then tok_minus k (c_tok (ledger c)) else c_tok (ledger c))\<rparr>"
        by (simp add: c2_def)
      have "core_inv c2" by (rule core_inv_via [OF l2 core_inv_token_del]) (use l Some in simp_all)
      with DToken Some show ?thesis by (auto simp: cmd_undeclare_def Let_def c2_def split: if_splits)
    qed (use inv DToken in \<open>simp add: cmd_undeclare_def\<close>)
  next
    case DSub
    have "core_inv (c\<lparr>c_subs := ix_remove (OLocal i) i (c_subs c), c_l_subs := bt_remove i (c_l_subs c)\<rparr>)"
      by (rule core_inv_sub_del [OF inv])
    with DSub show ?thesis by (simp add: cmd_undeclare_def Let_def)
  qed (use inv in \<open>simp add: cmd_undeclare_def Let_def\<close>)
qed

section \<open>Queries and puts\<close>

text \<open>What sending a query out may do to the table of queries: shrink the targets of that query.\<close>

definition narrowed :: "u64 \<Rightarrow> (u64, pending) btree \<Rightarrow> (u64, pending) btree \<Rightarrow> bool" where
  "narrowed qid m m' \<longleftrightarrow> (distinct (map fst m) \<longrightarrow> distinct (map fst m')) \<and>
     (\<forall>q. q \<noteq> qid \<longrightarrow> bt_get m' q = bt_get m q) \<and>
     (\<forall>p'. bt_get m' qid = Some p' \<longrightarrow>
        (\<exists>p. bt_get m qid = Some p \<and> p_origin p' = p_origin p \<and> p_deadline p' = p_deadline p \<and>
          set (p_targets p') \<subseteq> set (p_targets p)))"

lemma narrowed_refl [simp]: "narrowed q m m"
  by (simp add: narrowed_def)

lemma narrowed_trans:
  assumes "narrowed q m m'" "narrowed q m' m''"
  shows "narrowed q m m''"
  unfolding narrowed_def
proof (intro conjI allI impI)
  fix p'' assume "bt_get m'' q = Some p''"
  then obtain p' where p': "bt_get m' q = Some p'" "p_origin p'' = p_origin p'" "p_deadline p'' = p_deadline p'"
    "set (p_targets p'') \<subseteq> set (p_targets p')"
    using assms(2) by (auto simp: narrowed_def)
  then obtain p where "bt_get m q = Some p" "p_origin p' = p_origin p" "p_deadline p' = p_deadline p"
    "set (p_targets p') \<subseteq> set (p_targets p)"
    using assms(1) by (auto simp: narrowed_def)
  with p' show "\<exists>p. bt_get m q = Some p \<and> p_origin p'' = p_origin p \<and> p_deadline p'' = p_deadline p \<and>
      set (p_targets p'') \<subseteq> set (p_targets p)" by auto
qed (use assms in \<open>simp_all add: narrowed_def\<close>)

lemma narrowed_drop_target: "narrowed q m (drop_target q t m)"
  by (auto simp: narrowed_def drop_target_def split: option.splits)

lemma narrowed_remove: "narrowed q m (bt_remove q m)"
  by (simp add: narrowed_def)

lemma send_query_ledger:
  "\<exists>M. ledger (send_query gone qid e pl tm t c) = (ledger c)\<lparr>c_pending := M\<rparr> \<and> narrowed qid (c_pending c) M"
proof (cases t)
  case (TLocal i)
  show ?thesis
  proof (cases "bt_get (c_l_qabls c) i \<noteq> None \<and> gone i")
    case True
    then have "ledger (send_query gone qid e pl tm t c) = (ledger c)\<lparr>c_pending := drop_target qid t (c_pending c)\<rparr>"
      by (auto simp: send_query_def TLocal)
    then show ?thesis using narrowed_drop_target by blast
  next
    case False
    then have "ledger (send_query gone qid e pl tm t c) = (ledger c)\<lparr>c_pending := c_pending c\<rparr>"
      by (auto simp: send_query_def TLocal split: option.split)
    then show ?thesis using narrowed_refl by blast
  qed
next
  case (TSess u)
  obtain r c1 where p: "sess_push u (WRequest qid e pl tm) c = (r, c1)" by (cases "sess_push u (WRequest qid e pl tm) c")
  have l1: "ledger c1 = ledger c" using ledger_sess_push [of u "WRequest qid e pl tm" c] by (simp add: p)
  then have pend: "c_pending c1 = c_pending c" by (rule same_ledger)
  define peer where "peer = (case bt_get (c_sessions c1) u of Some s \<Rightarrow> s_peer s | None \<Rightarrow> [])"
  have "c_pending (forward_reply qid peer False lane_full c1) = c_pending c"
    using same_ledger(14) [OF ledger_forward_reply, of qid peer False lane_full c1] pend by simp
  then have "ledger (send_query gone qid e pl tm t c) = (ledger c)\<lparr>c_pending := drop_target qid t (c_pending c)\<rparr>
      \<or> ledger (send_query gone qid e pl tm t c) = (ledger c)\<lparr>c_pending := c_pending c\<rparr>"
    by (simp add: send_query_def TSess p Let_def l1 flip: peer_def)
  then show ?thesis using narrowed_drop_target narrowed_refl by metis
qed

lemma send_queries_ledger:
  "\<exists>M. ledger (fold (send_query gone qid e pl tm) ts c) = (ledger c)\<lparr>c_pending := M\<rparr> \<and> narrowed qid (c_pending c) M"
proof (induction ts arbitrary: c)
  case Nil
  have "ledger c = (ledger c)\<lparr>c_pending := c_pending c\<rparr>" by simp
  then show ?case using narrowed_refl by (metis fold_simps(1))
next
  case (Cons t ts)
  let ?c = "send_query gone qid e pl tm t c"
  obtain M where M: "ledger ?c = (ledger c)\<lparr>c_pending := M\<rparr>" "narrowed qid (c_pending c) M"
    using send_query_ledger by blast
  obtain M' where M': "ledger (fold (send_query gone qid e pl tm) ts ?c) = (ledger ?c)\<lparr>c_pending := M'\<rparr>"
    "narrowed qid (c_pending ?c) M'"
    using Cons by blast
  have "c_pending ?c = M" using ledger_sel(14) [of ?c] by (simp add: M)
  with M M' narrowed_trans [of qid "c_pending c" M M'] show ?case by auto
qed

lemma query_targets_live: "TSess u \<in> set (query_targets from e c) \<Longrightarrow> bt_get (c_sessions c) u \<noteq> None"
  by (auto simp: query_targets_def Let_def bt_get_def map_of_eq_None_iff rev_image_eqI)

lemma core_inv_route_get:
  assumes inv: "core_inv c" and room: "c_next_id c \<noteq> - 1"
    and org: "case org of OrgSess u _ \<Rightarrow> bt_get (c_sessions c) u \<noteq> None | OrgLocal _ \<Rightarrow> True"
  shows "core_inv (route_get gone now org expr pl tm c)"
proof -
  define qid where "qid = c_next_id c"
  define c1 where "c1 = c\<lparr>c_next_id := c_next_id c + 1\<rparr>"
  define ts where "ts = query_targets (case org of OrgSess uid _ \<Rightarrow> Some uid | OrgLocal _ \<Rightarrow> None) expr c1"
  define c2 where "c2 = c1\<lparr>c_pending := hm_put qid \<lparr>p_origin = org, p_targets = ts, p_deadline = now + unat tm\<rparr> (c_pending c1)\<rparr>"
  define c3 where "c3 = fold (send_query gone qid expr pl tm) ts c2"
  have rg: "route_get gone now org expr pl tm c = (case bt_get (c_pending c3) qid of
      Some p \<Rightarrow> if p_targets p = [] then finish qid c3 else c3 | None \<Rightarrow> c3)"
    by (simp only: route_get_def new_id_def Let_def prod.case c3_def c2_def c1_def ts_def qid_def)
  have i1: "core_inv (ledger c1)" using core_inv_next_id [OF inv room] by (simp add: c1_def core_inv_ledger del: ledger_upd)
  obtain M where M: "ledger c3 = (ledger c2)\<lparr>c_pending := M\<rparr>" "narrowed qid (c_pending c2) M"
    using send_queries_ledger unfolding c3_def by blast
  have p3: "c_pending c3 = M" using ledger_sel(14) [of c3] by (simp add: M)
  have l3: "ledger c3 = (ledger c1)\<lparr>c_pending := M\<rparr>" by (simp add: M c2_def)
  have dist: "distinct (map fst M)"
    using M(2) core_inv_pending_distinct [OF inv] by (simp add: narrowed_def c2_def c1_def)
  have other: "query_ok (ledger c1) p" if "bt_get M q = Some p" "q \<noteq> qid" for q p
    using that M(2) core_inv_query [OF i1, of q p] by (simp add: narrowed_def c2_def)
  have mine: "query_ok (ledger c1) p" if "bt_get M qid = Some p" "p_targets p \<noteq> []" for p
  proof -
    have "p_origin p = org" "set (p_targets p) \<subseteq> set ts" using that(1) M(2) by (auto simp: narrowed_def c2_def)
    moreover have "\<forall>u. TSess u \<in> set ts \<longrightarrow> bt_get (c_sessions c1) u \<noteq> None"
      unfolding ts_def using query_targets_live by blast
    ultimately show ?thesis
      using that(2) org by (cases org) (auto simp: query_ok_def c1_def)
  qed
  show ?thesis
  proof (cases "\<exists>p. bt_get M qid = Some p \<and> p_targets p = []")
    case True
    have "core_inv ((ledger c1)\<lparr>c_pending := bt_remove qid M\<rparr>)"
      by (rule core_inv_pending [OF i1]) (use dist other in \<open>auto split: if_splits\<close>)
    moreover have "ledger (finish qid c3) = (ledger c1)\<lparr>c_pending := bt_remove qid M\<rparr>" by (simp add: l3 p3)
    ultimately show ?thesis using True core_inv_via by (auto simp: rg p3)
  next
    case False
    have "core_inv ((ledger c1)\<lparr>c_pending := M\<rparr>)"
      by (rule core_inv_pending [OF i1 dist]) (use other mine False in blast)
    with False core_inv_via [OF l3] show ?thesis by (auto simp: rg p3 split: option.split)
  qed
qed

lemma ledger_put_one: "ledger (snd (put_one from fr key pl k sc)) = ledger (snd sc)"
  by (simp add: put_one_def split: prod.split owner.split option.split)

lemma ledger_puts: "ledger (snd (fold (put_one from fr key pl) ks sc)) = ledger (snd sc)"
  by (induction ks arbitrary: sc) (simp_all add: ledger_put_one)

lemma ledger_route_put: "ledger (route_put from key pl c) = ledger c"
  by (simp add: route_put_def Let_def ledger_puts)

section \<open>The node as a machine\<close>

text \<open>Counters that do not wrap, peers that do not reuse a declaration's number for another expression,
  and a node that has not been closed.\<close>

definition redeclares :: "core \<Rightarrow> u64 \<Rightarrow> wire_msg \<Rightarrow> bool" where
  "redeclares c uid m =
     (case m of
        WDeclare kind i expr \<Rightarrow>
          (case bt_get (c_sessions c) uid of
             Some s \<Rightarrow> bt_get (s_decls s) (kind, i) \<notin> {None, Some expr}
           | None \<Rightarrow> False)
      | _ \<Rightarrow> False)"

definition well_behaved :: "core \<Rightarrow> core_event \<Rightarrow> bool" where
  "well_behaved c e \<longleftrightarrow> c_next_uid c \<noteq> - 1 \<and> c_next_id c \<noteq> - 1 \<and>
     (case e of
        SessEvent _ _ (SMsg uid m) \<Rightarrow> \<not> redeclares c uid m
      | Command _ _ cm \<Rightarrow> cm \<noteq> CClose
      | _ \<Rightarrow> True)"

lemma core_inv_sess_mod:
  assumes "core_inv c" "\<And>s. s_peer (f s) = s_peer s" "\<And>s. s_decls (f s) = s_decls s"
  shows "core_inv (c\<lparr>c_sessions := hm_mod uid f (c_sessions c)\<rparr>)"
  by (rule core_inv_sess_same [OF assms])

lemma core_inv_token_sub_msg: "core_inv c \<Longrightarrow> core_inv (token_sub_msg uid r i expr history c)"
proof -
  assume inv: "core_inv c"
  have "core_inv (fold (\<lambda>k. push_to uid (WTokenEvt i EvtPut k)) ks c)" for ks
    by (rule core_inv_fold) (simp_all add: inv)
  then show ?thesis
    using inv by (auto simp: token_sub_msg_def Let_def intro!: core_inv_sess_mod)
qed

lemma core_inv_learn: "core_inv (learn ps c) = core_inv c" "c_sessions (learn ps c) = c_sessions c"
  using learn_known [of ps c] by auto

lemma core_inv_on_msg:
  assumes inv: "core_inv c" and room: "c_next_id c \<noteq> - 1" and ok: "\<not> redeclares c uid m"
  shows "core_inv (on_msg gone now uid m c)"
proof (cases "bt_get (c_sessions c) uid")
  case (Some s)
  show ?thesis
  proof (cases m)
    case (WDeclare kind i expr)
    then show ?thesis
      using Some ok by (auto simp: on_msg_def redeclares_def intro!: core_inv_remote_declare [OF inv room])
  next
    case (WPeers ps)
    have "core_inv ((learn ps c)\<lparr>c_sessions := hm_mod uid (\<lambda>s. s\<lparr>s_peers := ps\<rparr>) (c_sessions (learn ps c))\<rparr>)"
      by (rule core_inv_sess_mod) (simp_all add: core_inv_learn inv)
    then show ?thesis using Some by (simp add: WPeers on_msg_def Let_def)
  qed (use Some inv room in \<open>auto simp: on_msg_def core_inv_close_sess core_inv_remote_undeclare core_inv_token_sub_msg token_evt_def
    core_inv_target_done core_inv_same [OF ledger_route_put] core_inv_ledger intro!: core_inv_sess_mod core_inv_route_get
    split: option.split token_evt_kind.split\<close>)
qed (simp add: on_msg_def inv)

lemma core_inv_on_sess:
  assumes "core_inv c" "well_behaved c (SessEvent now gone e)"
  shows "core_inv (on_sess gone now e c)"
  using assms core_inv_on_msg [of c]
  by (auto simp: on_sess_def well_behaved_def core_inv_fence core_inv_close_sess split: sess_ev.splits)

lemma core_inv_declare_out: "core_inv (declare_out kind i e c) = core_inv c"
  by (simp add: declare_out_def)

lemma core_inv_on_cmd:
  assumes inv: "core_inv c" and room: "c_next_id c \<noteq> - 1" and running: "cm \<noteq> CClose"
  shows "core_inv (on_cmd gone now cm c)"
proof (cases cm)
  case (CDeclareToken key)
  let ?c2 = "c\<lparr>c_next_id := c_next_id c + 1, c_l_tokens := hm_put (c_next_id c) key (c_l_tokens c)\<rparr>"
  have l: "core_inv (ledger c)" "c_next_id (ledger c) \<noteq> - 1" using inv room by (simp_all add: core_inv_ledger)
  have "core_inv (if c_router ?c2 then tok_add key ?c2 else ?c2)"
    by (rule core_inv_via [OF _ core_inv_token_add [OF l, of key]]) simp
  then show ?thesis by (auto simp: on_cmd_def CDeclareToken new_id_def Let_def core_inv_declare_out split: if_splits)
next
  case (CSubscribe expr)
  show ?thesis
    using core_inv_sub_add [OF inv room, of expr]
    by (simp add: on_cmd_def CSubscribe new_id_def Let_def core_inv_declare_out)
next
  case (CQueryable expr)
  show ?thesis
    using core_inv_next_id [OF inv room] by (simp add: on_cmd_def CQueryable new_id_def Let_def core_inv_declare_out)
next
  case (CTokenSub expr history)
  let ?c1 = "c\<lparr>c_next_id := c_next_id c + 1\<rparr>"
  have "core_inv (fold (\<lambda>k. emit (FxToken i (TokPut k))) ks ?c1)" for i ks
    by (rule core_inv_fold) (use core_inv_next_id [OF inv room] in simp_all)
  then show ?thesis
    using core_inv_next_id [OF inv room] by (simp add: on_cmd_def CTokenSub cmd_token_sub_def new_id_def Let_def)
qed (use inv room running in \<open>auto simp: on_cmd_def core_inv_cmd_undeclare core_inv_target_done
  core_inv_same [OF ledger_route_put] core_inv_ledger intro!: core_inv_route_get split: option.split\<close>)

lemma core_inv_step:
  assumes "core_inv c" "well_behaved c e"
  shows "core_inv (core_step c e)"
proof (cases e)
  case (SessEvent now gone ev)
  then show ?thesis using assms core_inv_on_sess by (simp add: core_step_def)
qed (use assms in \<open>auto simp: core_step_def well_behaved_def core_inv_tick core_inv_accepted core_inv_dialed core_inv_on_cmd
  intro!: core_inv_sess_mod\<close>)

lemma core_inv_new: "core_inv (core_new node router lease boot listen seeds)"
  by (simp add: core_inv_parts decls_of_def core_new_def Let_def sub_index_new_def ix_ok_new [unfolded sub_index_new_def])

interpretation mesh: guarded_machine "core_new node router lease boot listen seeds" core_step "\<lambda>_. True" well_behaved core_inv
  for node router lease boot listen seeds
  by unfold_locales (simp_all add: core_inv_new core_inv_step)

end
