(* ===== verification/Mesh_Props.thy ===== *)
theory Mesh_Props
  imports Mesh_Node
begin

text \<open>What a mesh node promises: sessions, tokens, puts, queries, leases and simultaneous dialling.\<close>

abbreviation node_run :: "string \<Rightarrow> bool \<Rightarrow> nat \<Rightarrow> u64 \<Rightarrow> string list \<Rightarrow> string list \<Rightarrow> core_event list \<Rightarrow> core" where
  "node_run node router lease boot listen seeds es \<equiv> run_from core_step (core_new node router lease boot listen seeds) es"

abbreviation node_admits :: "string \<Rightarrow> bool \<Rightarrow> nat \<Rightarrow> u64 \<Rightarrow> string list \<Rightarrow> string list \<Rightarrow> core_event list \<Rightarrow> bool" where
  "node_admits node router lease boot listen seeds es \<equiv>
     admits core_step well_behaved (core_new node router lease boot listen seeds) es"

lemma node_run_inv: "node_admits node router lease boot listen seeds es \<Longrightarrow> core_inv (node_run node router lease boot listen seeds es)"
  by (rule mesh.strict_run)

section \<open>A small run\<close>

definition demo_hello :: "string \<Rightarrow> role \<Rightarrow> hello" where
  "demo_hello n r = \<lparr>h_proto = 1, h_role = r, h_node = n, h_boot = 5, h_sno = 1, h_lease_ms = 10000, h_listen = [], h_peers = []\<rparr>"

definition demo_join :: "core_event list" where
  "demo_join = [Accepted 10 True (demo_hello ''c1'' Client) ''h:1'' None,
     SessEvent 20 (\<lambda>_. False) (SMsg 1 (WDeclare DToken 7 ''t/a''))]"

lemmas demo_exec = run_from_def core_step_def on_accepted_def accept_verdict_def install_def on_sess_def on_msg_def
  remote_declare_def tok_add_def tok_notify_def new_id_def announce_def push_all_def uids_of_def emit_def learn_def
  core_new_def demo_hello_def demo_join_def my_hello_def peer_list_def PROTO_def hm_put_def hm_mod_def bt_remove_def
  bt_get_def Let_def well_behaved_def redeclares_def sub_index_new_def

section \<open>Sessions\<close>

text \<open>
  One session per peer (C9): after any events, two live sessions never belong to the same peer, and the
  table by peer names exactly the live session of each peer.
\<close>

theorem mesh_one_session_per_peer:
  assumes "node_admits node router lease boot listen seeds es"
    and "c = node_run node router lease boot listen seeds es"
  shows "(\<forall>u u' s s'. bt_get (c_sessions c) u = Some s \<and> bt_get (c_sessions c) u' = Some s' \<and> s_peer s = s_peer s' \<longrightarrow> u = u')
    \<and> (\<forall>p u. bt_get (c_by_peer c) p = Some u \<longleftrightarrow> (\<exists>s. bt_get (c_sessions c) u = Some s \<and> s_peer s = p))"
proof -
  have *: "\<forall>p u. bt_get (c_by_peer c) p = Some u \<longleftrightarrow> (\<exists>s. bt_get (c_sessions c) u = Some s \<and> s_peer s = p)"
    using node_run_inv [OF assms(1)] unfolding assms(2) core_inv_def peers_ok_def by blast
  have "u = u'" if "bt_get (c_sessions c) u = Some s" "bt_get (c_sessions c) u' = Some s'" "s_peer s = s_peer s'" for u u' s s'
  proof -
    have "bt_get (c_by_peer c) (s_peer s) = Some u" using * that(1) by blast
    moreover have "bt_get (c_by_peer c) (s_peer s) = Some u'" using * that(2,3) by fastforce
    ultimately show ?thesis by simp
  qed
  with * show ?thesis by blast
qed

lemma demo_admits: "node_admits ''r'' True 10000 9 [] [] demo_join"
  by (simp add: demo_exec)

lemma demo_state:
  "bt_get (c_by_peer (node_run ''r'' True 10000 9 [] [] demo_join)) ''c1'' = Some 1"
  "bt_get (c_tok (node_run ''r'' True 10000 9 [] [] demo_join)) ''t/a'' = Some 1"
  by (simp_all add: demo_exec)

theorem mesh_one_session_per_peer_witness:
  "\<exists>s. bt_get (c_sessions (node_run ''r'' True 10000 9 [] [] demo_join)) 1 = Some s \<and> s_peer s = ''c1''"
  using mesh_one_session_per_peer [OF demo_admits refl] demo_state(1) by blast

section \<open>Tokens\<close>

lemma decl_count_pos: "0 < decl_count k ds \<longleftrightarrow> (\<exists>i. ((DToken, i), k) \<in> set ds)"
  by (force simp: decl_count_def filter_empty_conv)

lemma sum_pos: "0 < (\<Sum>x \<leftarrow> xs. f x :: nat) \<longleftrightarrow> (\<exists>x \<in> set xs. 0 < f x)"
  by (induction xs) auto

text \<open>
  A token lives exactly as long as somebody holds it (C8): after any events, a key is in the token table
  if and only if a local handle or a declaration of a live session stands for it, and its count is the
  number of those. So a token whose last holder's session closes is gone, and one still held elsewhere
  stays.
\<close>

theorem mesh_token_alive_iff:
  assumes "node_admits node router lease boot listen seeds es"
    and "c = node_run node router lease boot listen seeds es"
  shows "(bt_get (c_tok c) k \<noteq> None \<longleftrightarrow>
      c_router c \<and> (\<exists>i. (i, k) \<in> set (c_l_tokens c)) \<or>
      (\<exists>u s i. (u, s) \<in> set (c_sessions c) \<and> ((DToken, i), k) \<in> set (s_decls s)))
    \<and> (\<forall>n. bt_get (c_tok c) k = Some n \<longrightarrow> n = holders k (decls_of c) c)"
proof -
  have inv: "core_inv c" unfolding assms(2) by (rule node_run_inv [OF assms(1)])
  then have count: "tok_count k c = holders k (decls_of c) c" "bt_get (c_tok c) k \<noteq> Some 0"
    by (simp_all add: core_inv_def tokens_ok_def)
  have "bt_get (c_tok c) k \<noteq> None \<longleftrightarrow> 0 < holders k (decls_of c) c"
    using count by (auto simp: tok_count_def split: option.splits)
  also have "\<dots> \<longleftrightarrow> 0 < local_count k c \<or> (\<exists>v \<in> set (decls_of c). 0 < decl_count k (snd v))"
    by (simp add: holders_def sum_pos)
  also have "\<dots> \<longleftrightarrow> c_router c \<and> (\<exists>i. (i, k) \<in> set (c_l_tokens c)) \<or>
      (\<exists>u s i. (u, s) \<in> set (c_sessions c) \<and> ((DToken, i), k) \<in> set (s_decls s))"
    by (force simp: local_count_def decl_count_pos decls_of_def filter_empty_conv)
  finally show ?thesis using count by (auto simp: tok_count_def split: option.splits)
qed

theorem mesh_token_alive_iff_witness:
  "holders ''t/a'' (decls_of (node_run ''r'' True 10000 9 [] [] demo_join)) (node_run ''r'' True 10000 9 [] [] demo_join) = 1"
  using mesh_token_alive_iff [OF demo_admits refl, of "''t/a''"] demo_state(2) by simp

section \<open>Puts\<close>

text \<open>The session after a message was pushed into its outbox; \<open>t\<close> is the process count of drops then.\<close>

definition pushed :: "wire_msg \<Rightarrow> sess \<Rightarrow> sess \<Rightarrow> bool" where
  "pushed m s s' \<longleftrightarrow> (\<exists>t. s' = s\<lparr>s_ob := snd (ob_push m ((s_ob s)\<lparr>total_dropped := t\<rparr>))\<rparr>)"

lemma push_to_get:
  "u \<noteq> u' \<Longrightarrow> bt_get (c_sessions (push_to u m c)) u' = bt_get (c_sessions c) u'"
  "bt_get (c_sessions c) u = Some s \<Longrightarrow> \<exists>s'. bt_get (c_sessions (push_to u m c)) u = Some s' \<and> pushed m s s'"
  by (auto simp: push_to_def sess_push_def pushed_def split: option.split prod.split) (metis snd_conv)

text \<open>Whether a put reaches session \<open>u\<close> because of one of the subscriptions \<open>ks\<close>.\<close>

definition put_reaches :: "u64 option \<Rightarrow> bool \<Rightarrow> sub_key list \<Rightarrow> u64 \<Rightarrow> sess \<Rightarrow> bool" where
  "put_reaches from from_router ks u s \<longleftrightarrow>
     Some u \<noteq> from \<and> (\<exists>i. (OSess u, i) \<in> set ks) \<and> \<not> (from_router \<and> s_role s = Router)"

lemma pushed_role: "pushed m s s' \<Longrightarrow> s_role s' = s_role s"
  by (auto simp: pushed_def)

lemma puts_reach:
  assumes "bt_get (c_sessions c) u = Some s"
  shows "\<exists>s'. bt_get (c_sessions (snd (fold (put_one from fr key pl) ks (sent, c)))) u = Some s' \<and>
    (if u \<notin> set sent \<and> put_reaches from fr ks u s then pushed (WPut key pl) s s' else s' = s)"
  using assms
proof (induction ks arbitrary: sent c s)
  case (Cons k ks)
  obtain v i where k: "k = (v, i)" by (cases k)
  show ?case
  proof (cases "v = OSess u \<and> Some u \<noteq> from \<and> u \<notin> set sent")
    case True
    then have k: "k = (OSess u, i)" by (simp add: k)
    show ?thesis
    proof (cases "fr \<and> s_role s = Router")
      case R: True
      with Cons.IH [of c s "u # sent"] Cons.prems True show ?thesis by (auto simp: k put_one_def put_reaches_def)
    next
      case False
      obtain s' where s': "bt_get (c_sessions (push_to u (WPut key pl) c)) u = Some s'" "pushed (WPut key pl) s s'"
        using push_to_get(2) [OF Cons.prems] by blast
      with Cons.IH [OF s'(1), of "u # sent"] Cons.prems True False show ?thesis
        by (auto simp: k put_one_def put_reaches_def)
    qed
  next
    case False
    let ?r = "put_one from fr key pl k (sent, c)"
    have same: "bt_get (c_sessions (snd ?r)) u = Some s \<and> (u \<in> set (fst ?r) \<longleftrightarrow> u \<in> set sent)"
    proof (cases "v = OSess u")
      case True
      with False Cons.prems show ?thesis by (auto simp: k put_one_def)
    next
      case False
      then have "bt_get (c_sessions (push_to w m c)) u = Some s" if "v = OSess w" for w m
        using that Cons.prems push_to_get(1) [of w u m c] by auto
      with False Cons.prems show ?thesis
        by (cases v) (auto simp: k put_one_def emit_def split: option.split)
    qed
    have "put_reaches from fr (k # ks) u s \<longleftrightarrow> put_reaches from fr ks u s" if "u \<notin> set sent"
      using False that by (auto simp: put_reaches_def k)
    with Cons.IH [OF same [THEN conjunct1], of "fst ?r"] same show ?thesis by auto
  qed
qed (simp add: put_reaches_def)

definition from_router :: "u64 option \<Rightarrow> core \<Rightarrow> bool" where
  "from_router from c = (case Option.bind from (bt_get (c_sessions c)) of None \<Rightarrow> False | Some s \<Rightarrow> s_role s = Router)"

text \<open>
  A put travels one hop and arrives once (C7): at a router whose subscriptions are valid expressions, a put
  of a concrete key goes, exactly once, to each session that has declared a subscription intersecting
  the key, never back to where it came from, and never from one router to another; every other session
  is left as it was.
\<close>

theorem mesh_put_once_one_hop:
  assumes "node_admits node router lease boot listen seeds es"
    and c: "c = node_run node router lease boot listen seeds es"
    and valid: "\<forall>k e. bt_get (ix_exprs (c_subs c)) k = Some e \<longrightarrow> key_valid e" "key_valid key" "key_concrete key"
    and "c_router c" and s: "bt_get (c_sessions c) u = Some s"
  shows "\<exists>s'. bt_get (c_sessions (route_put from key pl c)) u = Some s' \<and>
    (if Some u \<noteq> from \<and> \<not> (from_router from c \<and> s_role s = Router) \<and>
        (\<exists>i e. bt_get (s_decls s) (DSub, i) = Some e \<and> key_intersects e key)
     then pushed (WPut key pl) s s' else s' = s)"
proof -
  have inv: "core_inv c" unfolding c by (rule node_run_inv [OF assms(1)])
  then have ix: "ix_ok (c_subs c)" by (simp add: core_inv_def subs_ok_def)
  have sub: "bt_get (ix_exprs (c_subs c)) (OSess u, i) = bt_get (s_decls s) (DSub, i)" for i
    using inv s by (simp add: core_inv_def subs_ok_def bt_get_decls)
  define D where "D = snd (fold (put_one from (from_router from c) key pl) (ix_matching (c_subs c) key) ([], c))"
  have "c_router D" using same_ledger(2) [OF ledger_puts] \<open>c_router c\<close> by (simp add: D_def)
  then have "push_up (WPut key pl) D = D" by (simp add: push_up_def upstream_def)
  then have put: "route_put from key pl c = D"
    unfolding route_put_def Let_def from_router_def [symmetric] D_def [symmetric] by simp
  have "put_reaches from (from_router from c) (ix_matching (c_subs c) key) u s \<longleftrightarrow>
      Some u \<noteq> from \<and> \<not> (from_router from c \<and> s_role s = Router) \<and>
      (\<exists>i e. bt_get (s_decls s) (DSub, i) = Some e \<and> key_intersects e key)"
    using ix_matching_iff [OF ix valid] by (auto simp: put_reaches_def sub)
  then show ?thesis
    using puts_reach [OF s, of "from" "from_router from c" key pl "ix_matching (c_subs c) key" "[]"]
    unfolding put D_def by simp
qed

definition demo_sub :: "core_event list" where
  "demo_sub = [Accepted 10 True (demo_hello ''c1'' Client) ''h:1'' None,
     SessEvent 20 (\<lambda>_. False) (SMsg 1 (WDeclare DSub 3 ''t/*''))]"

abbreviation demo_node :: core where
  "demo_node \<equiv> node_run ''r'' True 10000 9 [] [] demo_sub"

lemmas demo_sub_exec = demo_exec demo_sub_def ix_add_def ix_remove_def key_concrete_def

lemma demo_sub_state:
  "node_admits ''r'' True 10000 9 [] [] demo_sub" "c_router demo_node"
  "ix_exprs (c_subs demo_node) = [((OSess 1, 3), ''t/*'')]"
  "\<exists>s. bt_get (c_sessions demo_node) 1 = Some s \<and> s_decls s = [((DSub, 3), ''t/*'')]"
  by (simp_all add: demo_sub_exec)

theorem mesh_put_once_one_hop_witness:
  "\<exists>s s'. bt_get (c_sessions demo_node) 1 = Some s \<and>
    bt_get (c_sessions (route_put None ''t/a'' [1] demo_node)) 1 = Some s' \<and> pushed (WPut ''t/a'' [1]) s s'"
proof -
  obtain s where s: "bt_get (c_sessions demo_node) 1 = Some s" "s_decls s = [((DSub, 3), ''t/*'')]"
    using demo_sub_state(4) by blast
  have "\<forall>k e. bt_get (ix_exprs (c_subs demo_node)) k = Some e \<longrightarrow> key_valid e"
    by (simp add: demo_sub_state(3) bt_get_def key_valid_def FORBIDDEN_def)
  from mesh_put_once_one_hop [OF demo_sub_state(1) refl this _ _ demo_sub_state(2) s(1), of "''t/a''" None "[1]"]
  obtain s' where "bt_get (c_sessions (route_put None ''t/a'' [1] demo_node)) 1 = Some s'"
    "if (\<exists>i e. bt_get (s_decls s) (DSub, i) = Some e \<and> key_intersects e ''t/a'') then pushed (WPut ''t/a'' [1]) s s' else s' = s"
    by (auto simp: key_valid_def FORBIDDEN_def key_concrete_def from_router_def)
  moreover have "\<exists>i e. bt_get (s_decls s) (DSub, i) = Some e \<and> key_intersects e ''t/a''"
    by (auto simp: s(2) bt_get_def key_intersects.simps key_intersects_loop.simps key_next_def)
  ultimately show ?thesis using s(1) by auto
qed

section \<open>Queries\<close>

text \<open>
  No query hangs (C39): after any events, every pending query still waits for somebody, every peer it waits
  for has a live session, and so has the peer that asked; so it ends when its targets finish, when
  their sessions close, or at the first tick after its deadline.
\<close>

theorem mesh_query_waits_for_the_living:
  assumes "node_admits node router lease boot listen seeds es"
    and "c = node_run node router lease boot listen seeds es" and "bt_get (c_pending c) q = Some p"
  shows "p_targets p \<noteq> [] \<and> (\<forall>u. TSess u \<in> set (p_targets p) \<longrightarrow> bt_get (c_sessions c) u \<noteq> None) \<and>
    (\<forall>u qid. p_origin p = OrgSess u qid \<longrightarrow> bt_get (c_sessions c) u \<noteq> None)"
  using core_inv_query [OF node_run_inv [OF assms(1), folded assms(2)] assms(3)] by (auto simp: query_ok_def)

definition demo_query :: "core_event list" where
  "demo_query = [Accepted 10 True (demo_hello ''c1'' Client) ''h:1'' None,
     Command 20 (\<lambda>_. False) (CQueryable ''q/*''),
     SessEvent 30 (\<lambda>_. False) (SMsg 1 (WRequest 9 ''q/a'' [1] 500))]"

lemma demo_intersects: "key_intersects ''q/*'' ''q/a''"
  by (simp add: key_intersects.simps key_intersects_loop.simps key_next_def)

lemmas demo_query_exec = demo_exec demo_query_def on_cmd_def declare_out_def route_get_def query_targets_def send_query_def
  finish_def demo_intersects

lemma demo_query_state:
  "node_admits ''r'' True 10000 9 [] [] demo_query"
  "\<exists>p. bt_get (c_pending (node_run ''r'' True 10000 9 [] [] demo_query)) 2 = Some p \<and> p_origin p = OrgSess 1 9"
  by (simp_all add: demo_query_exec)

theorem mesh_query_waits_for_the_living_witness:
  "bt_get (c_sessions (node_run ''r'' True 10000 9 [] [] demo_query)) 1 \<noteq> None"
proof -
  obtain p where p: "bt_get (c_pending (node_run ''r'' True 10000 9 [] [] demo_query)) 2 = Some p" "p_origin p = OrgSess 1 9"
    using demo_query_state(2) by blast
  from mesh_query_waits_for_the_living [OF demo_query_state(1) refl p(1)] p(2) show ?thesis by blast
qed

section \<open>The tick\<close>

lemma sessions_close: "map bare (c_sessions (close_sess u r c)) = bt_remove u (map bare (c_sessions c))"
proof (cases "bt_get (c_sessions c) u")
  case None
  then have "bt_get (map bare (c_sessions c)) u = None" by simp
  with None show ?thesis by (simp add: close_sess_absent bt_remove_absent del: bare_get)
next
  case (Some s)
  show ?thesis
    using ledger_sel(20) [of "close_sess u r c"] ledger_close_sess [OF Some, of r]
    by (simp add: close_ledger_def Let_def forget_tsubs_def split: if_splits)
qed

lemma bt_remove_filter: "bt_remove u (filter (\<lambda>e. fst e \<notin> set us) m) = filter (\<lambda>e. fst e \<notin> set (u # us)) m"
  by (simp add: bt_remove_def conj_commute)

lemma sessions_close_fold:
  "map bare (c_sessions (fold (\<lambda>u. close_sess u r) us c)) = filter (\<lambda>e. fst e \<notin> set us) (map bare (c_sessions c))"
proof (induction us arbitrary: c)
  case (Cons u us)
  then show ?case by (simp add: sessions_close) (simp add: bt_remove_def conj_commute)
qed simp

lemma close_fold_keeps: "c_lease_ms (fold (\<lambda>u. close_sess u r) us c) = c_lease_ms c"
proof (rule fold_keeps)
  fix u and c :: core
  show "c_lease_ms (close_sess u r c) = c_lease_ms c"
  proof (cases "bt_get (c_sessions c) u")
    case (Some s)
    then show ?thesis
      using ledger_sel(15) [of "close_sess u r c"] ledger_close_sess [OF Some, of r]
      by (simp add: close_ledger_def Let_def forget_tsubs_def split: if_splits)
  qed (simp add: close_sess_absent)
qed

lemma finish_fold:
  "map bare (c_sessions (fold finish qs c)) = map bare (c_sessions c)"
  "c_pending (fold finish qs c) = filter (\<lambda>e. fst e \<notin> set qs) (c_pending c)"
proof (induction qs arbitrary: c)
  case (Cons q qs)
  have fin: "map bare (c_sessions (finish q c)) = map bare (c_sessions c)" "c_pending (finish q c) = bt_remove q (c_pending c)" for c
    using ledger_sel(20) [of "finish q c"] ledger_sel(14) [of "finish q c"] by simp_all
  {
    case 1
    then show ?case using Cons(1) fin(1) by simp
  next
    case 2
    then show ?case
      using Cons(2) fin(2) by (simp add: bt_remove_def conj_commute)
  }
qed simp_all

lemma dial_keeps: "c_sessions (dial_wanted now c) = c_sessions c" "c_pending (dial_wanted now c) = c_pending c"
  unfolding dial_wanted_def
  by (rule fold_keeps, simp add: dial_one_def Let_def emit_def)+

text \<open>
  A tick ends what is over and nothing else: when the tick came in time, exactly the sessions heard
  from within the lease stay and no query past its deadline is left; when the process slept beyond the
  fence, no session stays.
\<close>

theorem mesh_tick_cleans:
  assumes "node_admits node router lease boot listen seeds es"
    and "c = node_run node router lease boot listen seeds es"
  shows "let c' = on_tick now c in
    if c_fence_ms c < now - c_last_tick c then c_sessions c' = []
    else map fst (c_sessions c') = map fst (filter (\<lambda>e. now - s_last_rx (snd e) \<le> c_lease_ms c) (c_sessions c)) \<and>
      (\<forall>e \<in> set (c_pending c'). now < p_deadline (snd e))"
proof (cases "c_fence_ms c < now - c_last_tick c")
  case True
  have "map bare (c_sessions (close_all Fenced (c\<lparr>c_last_tick := now\<rparr>))) = []"
    by (simp add: close_all_def sessions_close_fold filter_empty_conv)
  then show ?thesis using True by (simp add: on_tick_def Let_def fence_def)
next
  case False
  define c0 where "c0 = c\<lparr>c_last_tick := now\<rparr>"
  define c1 where "c1 = fold (\<lambda>u. close_sess u Expired) (expired now c0) c0"
  define c2 where "c2 = fold finish (late now c1) c1"
  have tick: "c_sessions (on_tick now c) = c_sessions c2" "c_pending (on_tick now c) = c_pending c2"
    using False by (simp_all add: on_tick_def Let_def check_partial_def dial_keeps flip: c0_def c1_def c2_def)
  have dist: "distinct (map fst (c_sessions c))"
    using node_run_inv [OF assms(1)] by (simp add: assms(2) core_inv_def peers_ok_def)
  have ex: "fst e \<in> set (expired now c0) \<longleftrightarrow> \<not> now - s_last_rx (snd e) \<le> c_lease_ms c" if "e \<in> set (c_sessions c)" for e
    using that dist by (auto simp: expired_def c0_def distinct_map inj_on_def not_le)
  have "map fst (c_sessions c2) = map fst (map bare (c_sessions c2))" by (simp add: comp_def)
  also have "\<dots> = map fst (filter (\<lambda>e. fst e \<notin> set (expired now c0)) (map bare (c_sessions c)))"
    unfolding c2_def finish_fold(1) c1_def sessions_close_fold by (simp add: c0_def)
  also have "\<dots> = map fst (filter (\<lambda>e. fst e \<notin> set (expired now c0)) (c_sessions c))"
    by (simp add: filter_map comp_def)
  also have "\<dots> = map fst (filter (\<lambda>e. now - s_last_rx (snd e) \<le> c_lease_ms c) (c_sessions c))"
    using ex by (metis (mono_tags, lifting) filter_cong)
  finally have "map fst (c_sessions c2) = \<dots>" .
  moreover have "now < p_deadline (snd e)" if "e \<in> set (c_pending c2)" for e
    using that by (auto simp: c2_def finish_fold(2) late_def not_le)
  ultimately show ?thesis using False by (simp add: Let_def tick)
qed

theorem mesh_tick_cleans_witness:
  "map fst (c_sessions (on_tick 9000 demo_node))
     = map fst (filter (\<lambda>e. 9000 - s_last_rx (snd e) \<le> c_lease_ms demo_node) (c_sessions demo_node))"
proof -
  have "\<not> c_fence_ms demo_node < 9000 - c_last_tick demo_node" by (simp add: demo_sub_exec)
  with mesh_tick_cleans [OF demo_sub_state(1) refl, of 9000] show ?thesis by (simp add: Let_def)
qed

section \<open>Two nodes that dial each other\<close>

text \<open>
  Simultaneous dialling leaves one connection: when node \<open>a\<close> dials \<open>b\<close> while a connection dialled by
  \<open>b\<close> already stands between them, \<open>b\<close> accepts the new one if and only if \<open>a\<close> does not keep the old one;
  both decide by the order of their names, so they never both keep, or both drop, different connections.
\<close>

theorem mesh_dial_tie_break:
  assumes "c_node ca = na" "c_node cb = nb" "na \<noteq> nb" "c_router cb"
    and "bt_get (c_by_peer ca) nb = Some ua" "bt_get (c_sessions ca) ua = Some sa" "s_dialer sa = nb"
    and "bt_get (c_by_peer cb) na = Some ub" "bt_get (c_sessions cb) ub = Some sb" "s_dialer sb = nb"
    and "h_node ha = na" "h_proto ha = PROTO" "h_node hb = nb"
  shows "(accept_verdict ha cb = None \<longleftrightarrow> \<not> keep_old hb sno ua ca) \<and>
    (keep_old hb sno ua ca \<longrightarrow> accept_verdict ha cb = Some Duplicate)"
  using assms by (auto simp: accept_verdict_def keep_old_def)

theorem mesh_dial_tie_break_witness:
  "let s = new_sess 0 (demo_hello ''b'' Router) ''h:1'' None ''b'' 5 1 0;
       ca = (core_new ''a'' True 10000 9 [] [])\<lparr>c_by_peer := [(''b'', 1)], c_sessions := [(1, s)]\<rparr>;
       cb = (core_new ''b'' True 10000 9 [] [])\<lparr>c_by_peer := [(''a'', 4)], c_sessions := [(4, s\<lparr>s_peer := ''a''\<rparr>)]\<rparr>
   in accept_verdict (demo_hello ''a'' Router) cb = None \<and> \<not> keep_old (demo_hello ''b'' Router) 2 1 ca"
proof -
  define s where "s = new_sess 0 (demo_hello ''b'' Router) ''h:1'' None ''b'' 5 1 0"
  define ca where "ca = (core_new ''a'' True 10000 9 [] [])\<lparr>c_by_peer := [(''b'', 1)], c_sessions := [(1, s)]\<rparr>"
  define cb where "cb = (core_new ''b'' True 10000 9 [] [])\<lparr>c_by_peer := [(''a'', 4)], c_sessions := [(4, s\<lparr>s_peer := ''a''\<rparr>)]\<rparr>"
  have "(accept_verdict (demo_hello ''a'' Router) cb = None \<longleftrightarrow> \<not> keep_old (demo_hello ''b'' Router) 2 1 ca) \<and>
    (keep_old (demo_hello ''b'' Router) 2 1 ca \<longrightarrow> accept_verdict (demo_hello ''a'' Router) cb = Some Duplicate)"
    by (rule mesh_dial_tie_break [of ca "''a''" cb "''b''" 1 s 4 "s\<lparr>s_peer := ''a''\<rparr>"])
      (simp_all add: ca_def cb_def s_def new_sess_def core_new_def demo_hello_def bt_get_def PROTO_def Let_def)
  moreover have "\<not> keep_old (demo_hello ''b'' Router) 2 1 ca"
    by (simp add: keep_old_def ca_def s_def new_sess_def core_new_def demo_hello_def bt_get_def Let_def)
  ultimately show ?thesis unfolding Let_def ca_def cb_def s_def by blast
qed

end
