(* ===== verification/Mesh_Delivery.thy ===== *)
theory Mesh_Delivery
  imports Mesh_Session
begin

text \<open>
  A mesh session from one end to the other (\<open>oxmesh/src/session.rs\<close>): the write loop takes batches from the outbox,
  whose frames of four lanes it puts on the wire in any mixture the pushes allow, and writes keep-alives while it
  waits; the read loop of the other side puts the messages of each lane together again.
\<close>

section \<open>The write loop\<close>







section \<open>The frames of a lane\<close>

definition fits :: "wire_msg \<Rightarrow> bool" where
  "fits m \<longleftrightarrow> wire_ok m \<and> length (wire_encode m) \<le> MSG_MAX"




text \<open>What is still to come on a lane for the messages \<open>ms\<close>, of the first of which \<open>a\<close> has come.\<close>

inductive owed :: "wire_msg list \<Rightarrow> u8 list \<Rightarrow> (u8 \<times> u8 list) list \<Rightarrow> bool" where
  owed_none: "owed [] [] []"
| owed_msg: "chs \<noteq> [] \<Longrightarrow> a @ concat chs = wire_encode m \<Longrightarrow> list_all fits (m # ms) \<Longrightarrow>
    owed (m # ms) a (flagged chs @ concat (map wire_pieces ms))"

inductive_cases owed_ConsE: "owed ms a (p # ps)"

lemma flagged_Nil [simp]: "flagged chs = [] \<longleftrightarrow> chs = []"
  by (cases chs rule: flagged.cases) auto




section \<open>Reading a mixture of lanes\<close>



definition loud :: "wire_msg list \<Rightarrow> wire_msg list" where
  "loud ms = filter (\<lambda>m. m \<noteq> WKeepAlive) ms"


section \<open>What the write loop puts on the wire\<close>






lemma loud_append [simp]: "loud (xs @ ys) = loud xs @ loud ys"
  by (simp add: loud_def)
















end
