(* ===== verification/Fwd_Core.thy ===== *)
theory Fwd_Core
  imports Prelude
begin

text \<open>
  The rewriter of one downlink stream (\<open>oxsfud/src/fwd/core.rs\<close>): sequence numbers and timestamps of the
  source in use are shifted by one offset each; a change of source picks the offsets so that the
  receiver sees one unbroken stream. The clock is an argument.
\<close>

section \<open>How long a packet covers\<close>

definition serial_after :: "u16 \<Rightarrow> u16 \<Rightarrow> bool" where
  "serial_after a b \<longleftrightarrow> 0 < i16_of (a - b)"

definition opus_frame_x10 :: "nat \<Rightarrow> nat" where
  "opus_frame_x10 config =
     (if config \<le> 11 then [100, 200, 400, 600] ! (config mod 4)
      else if config \<le> 15 then [100, 200] ! (config mod 2)
      else [25, 50, 100, 200] ! (config mod 4))"

definition opus_frames :: "u8 list \<Rightarrow> nat option" where
  "opus_frames payload =
     (let k = unat (hd payload AND 3) in
      if k = 0 then Some 1
      else if k = 1 \<or> k = 2 then Some 2
      else if 1 < length payload then Some (unat (payload ! 1 AND 0x3f)) else None)"

definition opus_toc_samples :: "u8 list \<Rightarrow> u32" where
  "opus_toc_samples payload =
     (case payload of
        [] \<Rightarrow> 1
      | toc # _ \<Rightarrow>
          (case opus_frames payload of
             None \<Rightarrow> 1
           | Some frames \<Rightarrow>
               word_of_nat (max 1 (opus_frame_x10 (unat (drop_bit 3 toc)) * 48 * frames div 10))))"

definition covers :: "bool \<Rightarrow> u8 list \<Rightarrow> u32" where
  "covers audio_opus payload = (if audio_opus then opus_toc_samples payload else 1)"

section \<open>The rewriter\<close>

record rw_last =
  l_seq :: u16
  l_ts :: u32
  l_at_ms :: u64
  l_covers :: u32

record rewriter =
  rw_clock :: u32
  rw_src :: "u64 option"
  seq_off :: u16
  ts_off :: u32
  rw_last :: "rw_last option"
  boundary :: "u16 option"
  switches :: u32
  last_out_at :: u64

definition rewriter_new :: "u32 \<Rightarrow> rewriter" where
  "rewriter_new clk = \<lparr>rw_clock = clk, rw_src = None, seq_off = 0, ts_off = 0, rw_last = None,
     boundary = None, switches = 0, last_out_at = 0\<rparr>"

record mapped =
  m_seq :: u16
  m_ts :: u32
  m_switched :: bool

text \<open>The step of the timestamp at a change of source: the longer of the media time the last packet
  covers and the time since it was sent, with the truncating casts of the code.\<close>

definition switch_tick :: "u32 \<Rightarrow> rw_last \<Rightarrow> u64 \<Rightarrow> u32" where
  "switch_tick clk l at_ms =
     (let elapsed = max (unat at_ms - unat (l_at_ms l)) 1;
          ticks = (word_of_nat (elapsed * unat clk div 1000) :: u64)
      in ucast (max (ucast (max (l_covers l) 1)) ticks))"

definition rw_switch :: "u64 \<Rightarrow> u16 \<Rightarrow> u32 \<Rightarrow> u64 \<Rightarrow> rewriter \<Rightarrow> rewriter" where
  "rw_switch src seq ts at_ms r =
     (let r1 = (case rw_last r of
            None \<Rightarrow> r\<lparr>seq_off := 0, ts_off := 0\<rparr>
          | Some l \<Rightarrow> r\<lparr>seq_off := l_seq l + 1 - seq,
                         ts_off := l_ts l + switch_tick (rw_clock r) l at_ms - ts\<rparr>);
          r2 = (if rw_src r1 \<noteq> None \<or> rw_last r1 \<noteq> None then r1\<lparr>switches := switches r1 + 1\<rparr> else r1)
      in r2\<lparr>rw_src := Some src, boundary := Some (seq + seq_off r2)\<rparr>)"

definition rw_map :: "u64 \<Rightarrow> u16 \<Rightarrow> u32 \<Rightarrow> u64 \<Rightarrow> u32 \<Rightarrow> rewriter \<Rightarrow> mapped \<times> rewriter" where
  "rw_map src seq ts at_ms cov r =
     (let changed = rw_src r \<noteq> Some src;
          switched = changed \<and> (rw_src r \<noteq> None \<or> rw_last r \<noteq> None);
          r1 = (if changed then rw_switch src seq ts at_ms r else r);
          out_seq = seq + seq_off r1;
          out_ts = ts + ts_off r1;
          advance = (case rw_last r1 of None \<Rightarrow> True | Some l \<Rightarrow> switched \<or> serial_after out_seq (l_seq l));
          r2 = (if advance
                then r1\<lparr>rw_last := Some \<lparr>l_seq = out_seq, l_ts = out_ts, l_at_ms = at_ms, l_covers = cov\<rparr>\<rparr>
                else r1)
      in (\<lparr>m_seq = out_seq, m_ts = out_ts, m_switched = switched\<rparr>, r2\<lparr>last_out_at := at_ms\<rparr>))"

definition unmap_nack :: "rewriter \<Rightarrow> u16 \<Rightarrow> u16 option" where
  "unmap_nack r out_seq =
     (case boundary r of
        Some b \<Rightarrow> if serial_after b out_seq then None else Some (out_seq - seq_off r)
      | None \<Rightarrow> Some (out_seq - seq_off r))"

definition translate_sr_ts :: "rewriter \<Rightarrow> u32 \<Rightarrow> u32" where
  "translate_sr_ts r rtp_ts = rtp_ts + ts_off r"

definition pt_byte1 :: "u8 \<Rightarrow> u8 \<Rightarrow> u8" where
  "pt_byte1 byte1 pt = (byte1 AND 0x80) OR (pt AND 0x7f)"

section \<open>Opus lengths\<close>

lemma opus_frame_x10_bounds: "c < 32 \<Longrightarrow> 25 \<le> opus_frame_x10 c \<and> opus_frame_x10 c \<le> 600"
proof -
  assume "c < 32"
  have "m < 4 \<Longrightarrow> m = 0 \<or> m = 1 \<or> m = 2 \<or> m = 3" for m :: nat by auto
  from this [of "c mod 4"] show ?thesis
    by (cases "even c") (auto simp: opus_frame_x10_def even_iff_mod_2_eq_zero odd_iff_mod_2_eq_one)
qed

lemma opus_frames_bound: "opus_frames p = Some n \<Longrightarrow> n \<le> 63"
proof -
  have "unat (b AND 0x3f :: u8) \<le> 63" for b
    using word_and_le1 [of b "0x3f"] by (simp add: word_le_nat_alt)
  then show "opus_frames p = Some n \<Longrightarrow> n \<le> 63" by (auto simp: opus_frames_def Let_def split: if_splits)
qed

text \<open>
  A packet always covers something, and never more than 63 frames of 60 ms: the length read off
  the first bytes is between 1 and 181440 samples, whatever the payload.
\<close>

theorem opus_toc_samples_bounds:
  "1 \<le> unat (opus_toc_samples payload) \<and> unat (opus_toc_samples payload) \<le> 181440"
proof (cases payload)
  case (Cons toc rest)
  show ?thesis
  proof (cases "opus_frames payload")
    case (Some n)
    have "unat toc < 256" using unsigned_less [where 'a = nat, of toc] by simp
    then have "unat toc div 8 < 32" by (simp add: div_less_iff_less_mult)
    then have "unat (drop_bit 3 toc) < 32" by (simp only: unat_drop_bit_eq) (simp add: drop_bit_eq_div)
    then have "opus_frame_x10 (unat (drop_bit 3 toc)) \<le> 600" using opus_frame_x10_bounds by blast
    then have "opus_frame_x10 (unat (drop_bit 3 toc)) * 48 * n \<le> 600 * 48 * 63"
      using opus_frames_bound [OF Some] by (intro mult_le_mono) auto
    then have "opus_frame_x10 (unat (drop_bit 3 toc)) * 48 * n div 10 \<le> 181440" by simp
    then show ?thesis using Some Cons by (simp add: opus_toc_samples_def unat_of_nat take_bit_eq_mod)
  qed (simp add: opus_toc_samples_def Cons)
qed (simp add: opus_toc_samples_def)

section \<open>One unbroken stream\<close>

text \<open>Packets as the egress path feeds them, and the packets that come out.\<close>

record rw_packet =
  p_src :: u64
  p_seq :: u16
  p_ts :: u32
  p_at :: u64
  p_cov :: u32

definition rw_step :: "rewriter \<Rightarrow> rw_packet \<Rightarrow> mapped \<times> rewriter" where
  "rw_step r p = rw_map (p_src p) (p_seq p) (p_ts p) (p_at p) (p_cov p) r"

fun rw_outs :: "rewriter \<Rightarrow> rw_packet list \<Rightarrow> mapped list" where
  "rw_outs r [] = []"
| "rw_outs r (p # ps) = fst (rw_step r p) # rw_outs (snd (rw_step r p)) ps"

definition rw_state :: "rewriter \<Rightarrow> rw_packet list \<Rightarrow> rewriter" where
  "rw_state r ps = run_from (\<lambda>r p. snd (rw_step r p)) r ps"

lemma rw_state_Nil [simp]: "rw_state r [] = r"
  and rw_state_Cons [simp]: "rw_state r (p # ps) = rw_state (snd (rw_step r p)) ps"
  by (simp_all add: rw_state_def)

lemma length_rw_outs [simp]: "length (rw_outs r ps) = length ps"
  by (induction ps arbitrary: r) auto

lemma serial_after_iff: "serial_after a b \<longleftrightarrow> 0 < unat (a - b) \<and> unat (a - b) < 32768"
proof -
  have "unat (a - b) < 65536" using unsigned_less [where 'a = nat, of "a - b"] by simp
  moreover have "n < 65536 \<Longrightarrow> 0 < (if n < 32768 then int n else int n - 65536) \<longleftrightarrow> 0 < n \<and> n < 32768" for n :: nat
    by auto
  ultimately show ?thesis unfolding serial_after_def i16_of_eq by blast
qed

lemma serial_after_next [simp]: "serial_after (a + 1) a" "serial_after (1 + a) a"
  by (simp_all add: serial_after_iff)

text \<open>
  The state a packet leaves behind when it is the first of its stream or follows the last one sent.
\<close>

lemma rw_step_first:
  "rw_last r = None \<Longrightarrow> rw_last (snd (rw_step r p))
     = Some \<lparr>l_seq = m_seq (fst (rw_step r p)), l_ts = m_ts (fst (rw_step r p)), l_at_ms = p_at p, l_covers = p_cov p\<rparr>"
  by (simp add: rw_step_def rw_map_def rw_switch_def Let_def)

lemma rw_step_src [simp]: "rw_src (snd (rw_step r p)) = Some (p_src p)"
  by (simp add: rw_step_def rw_map_def rw_switch_def Let_def split: option.split)

lemma rw_step_clock [simp]: "rw_clock (snd (rw_step r p)) = rw_clock r"
  by (simp add: rw_step_def rw_map_def rw_switch_def Let_def split: option.split)

lemma rw_step_off: "m_seq (fst (rw_step r p)) = p_seq p + seq_off (snd (rw_step r p))"
    "m_ts (fst (rw_step r p)) = p_ts p + ts_off (snd (rw_step r p))"
  by (simp_all add: rw_step_def rw_map_def Let_def)

lemma rw_step_same:
  assumes "rw_src r = Some (p_src p)"
  shows "seq_off (snd (rw_step r p)) = seq_off r" "ts_off (snd (rw_step r p)) = ts_off r"
    "boundary (snd (rw_step r p)) = boundary r" "\<not> m_switched (fst (rw_step r p))"
  using assms by (simp_all add: rw_step_def rw_map_def Let_def)

lemma rw_step_switch:
  assumes "rw_src r \<noteq> Some (p_src p)" "rw_last r = Some l"
  shows "m_seq (fst (rw_step r p)) = l_seq l + 1"
    "m_ts (fst (rw_step r p)) = l_ts l + switch_tick (rw_clock r) l (p_at p)"
    "m_switched (fst (rw_step r p))"
    "boundary (snd (rw_step r p)) = Some (l_seq l + 1)"
    "rw_last (snd (rw_step r p)) = Some \<lparr>l_seq = m_seq (fst (rw_step r p)), l_ts = m_ts (fst (rw_step r p)),
       l_at_ms = p_at p, l_covers = p_cov p\<rparr>"
  using assms by (simp_all add: rw_step_def rw_map_def rw_switch_def Let_def)

text \<open>Sources whose own packets are in order: within a source the numbers run on by one.\<close>

fun in_order :: "rw_packet list \<Rightarrow> bool" where
  "in_order (p # q # ps) = ((p_src p = p_src q \<longrightarrow> p_seq q = p_seq p + 1) \<and> in_order (q # ps))"
| "in_order _ = True"

text \<open>What the rewriter remembers after a packet that advanced the stream.\<close>

definition after_packet :: "rewriter \<Rightarrow> rw_packet \<Rightarrow> mapped \<Rightarrow> bool" where
  "after_packet r p m \<longleftrightarrow> rw_src r = Some (p_src p) \<and> m_seq m = p_seq p + seq_off r \<and> m_ts m = p_ts p + ts_off r \<and>
     rw_last r = Some \<lparr>l_seq = m_seq m, l_ts = m_ts m, l_at_ms = p_at p, l_covers = p_cov p\<rparr>"

lemma rw_step_next:
  assumes "after_packet r p m" and "p_src p = p_src q \<longrightarrow> p_seq q = p_seq p + 1"
  shows "m_seq (fst (rw_step r q)) = m_seq m + 1 \<and> after_packet (snd (rw_step r q)) q (fst (rw_step r q))"
proof (cases "p_src q = p_src p")
  case True
  then have "rw_src r = Some (p_src q)" using assms(1) by (simp add: after_packet_def)
  with assms True show ?thesis
    by (auto simp: after_packet_def rw_step_off rw_step_same rw_step_def rw_map_def Let_def algebra_simps)
next
  case False
  then have src: "rw_src r \<noteq> Some (p_src q)" using assms(1) by (auto simp: after_packet_def)
  from assms(1) have last: "rw_last r = Some \<lparr>l_seq = m_seq m, l_ts = m_ts m, l_at_ms = p_at p, l_covers = p_cov p\<rparr>"
    by (simp add: after_packet_def)
  show ?thesis
    using rw_step_switch [OF src last] rw_step_off [of r q] by (simp add: after_packet_def)
qed

lemma rw_outs_run_on:
  assumes "after_packet r p m" "in_order (p # ps)" "i < length ps"
  shows "m_seq (rw_outs r ps ! i) = m_seq m + word_of_nat (Suc i)"
  using assms
proof (induction ps arbitrary: r p m i)
  case (Cons q ps)
  have step: "m_seq (fst (rw_step r q)) = m_seq m + 1"
    "after_packet (snd (rw_step r q)) q (fst (rw_step r q))"
    using rw_step_next [of r p m q] Cons.prems by auto
  show ?case
  proof (cases i)
    case (Suc j)
    with Cons.IH [OF step(2), of j] Cons.prems step(1) show ?thesis by (simp add: algebra_simps)
  qed (use step in simp)
qed simp

lemma rw_new_after: "after_packet (snd (rw_step (rewriter_new clk) p)) p (fst (rw_step (rewriter_new clk) p))"
  by (simp add: after_packet_def rewriter_new_def rw_step_def rw_map_def rw_switch_def Let_def)

text \<open>
  A change of source is invisible in the numbers (C5): from any interleaving of sources whose own packets
  are in order, the receiver gets one stream of consecutive sequence numbers, across any number of
  switches and across the wrap of the 16-bit number.
\<close>

theorem switch_seq_contiguous:
  assumes "in_order ps" and "i < length ps"
  shows "m_seq (rw_outs (rewriter_new clk) ps ! i) = m_seq (rw_outs (rewriter_new clk) ps ! 0) + word_of_nat i"
proof (cases ps)
  case (Cons p qs)
  show ?thesis
  proof (cases i)
    case (Suc j)
    with assms Cons rw_outs_run_on [OF rw_new_after, of p qs j clk] show ?thesis by simp
  qed simp
qed (use assms in simp)

theorem switch_seq_contiguous_witness:
  "let p = (\<lambda>s n. \<lparr>p_src = s, p_seq = n, p_ts = 0, p_at = 5, p_cov = 960\<rparr>);
       ps = [p 1 65535, p 1 0, p 2 77, p 2 78, p 1 9]
   in m_seq (rw_outs (rewriter_new 48000) ps ! 4) = 65535 + 4"
  using switch_seq_contiguous [of "[\<lparr>p_src = 1, p_seq = 65535, p_ts = 0, p_at = 5, p_cov = 960\<rparr>,
      \<lparr>p_src = 1, p_seq = 0, p_ts = 0, p_at = 5, p_cov = 960\<rparr>, \<lparr>p_src = 2, p_seq = 77, p_ts = 0, p_at = 5, p_cov = 960\<rparr>,
      \<lparr>p_src = 2, p_seq = 78, p_ts = 0, p_at = 5, p_cov = 960\<rparr>, \<lparr>p_src = 1, p_seq = 9, p_ts = 0, p_at = 5, p_cov = 960\<rparr>]" 4 48000]
  by (simp add: Let_def rw_step_off(1) [of "rewriter_new 48000"]) (simp add: rw_step_def rw_map_def rw_switch_def rewriter_new_def Let_def)

lemma switch_tick_value:
  assumes "unat (l_covers l) < 2 ^ 31" "(unat at_ms - unat (l_at_ms l)) * unat clk div 1000 < 2 ^ 31"
  shows "unat (switch_tick clk l at_ms)
    = max (max (unat (l_covers l)) 1) (max (unat at_ms - unat (l_at_ms l)) 1 * unat clk div 1000)"
proof -
  let ?t = "max (unat at_ms - unat (l_at_ms l)) 1 * unat clk div 1000"
  have "unat clk < 2 ^ 32" using unsigned_less [where 'a = nat, of clk] by simp
  then have "unat clk div 1000 < 2 ^ 31" by (simp add: div_less_iff_less_mult)
  then have t: "?t < 2 ^ 31" using assms(2) by (cases "unat at_ms - unat (l_at_ms l)") auto
  have umax: "unat (max a b) = max (unat a) (unat b)" for a b :: "'a :: len word"
    by (simp add: max_def word_le_nat_alt)
  have tick: "unat (word_of_nat ?t :: u64) = ?t"
    using t by (simp add: unat_of_nat take_bit_eq_mod)
  have cov: "unat (ucast (max (l_covers l) 1) :: u64) = max (unat (l_covers l)) 1"
    by (simp add: umax unsigned_ucast_eq take_bit_eq_mod) (use assms(1) in auto)
  have small: "unat (ucast (w :: u64) :: u32) = unat w" if "unat w < 2 ^ 32" for w
    using that by (simp add: unsigned_ucast_eq take_bit_eq_mod)
  show ?thesis
    unfolding switch_tick_def Let_def using t assms(1)
    by (subst small) (auto simp only: umax tick cov max_less_iff_conj, auto)
qed

text \<open>
  Time only runs forward at a switch: as long as neither the packet's own length nor the pause fills
  half the timestamp's range, the new source starts after the last timestamp by at least what the last
  packet covers and at least the time that has passed, and never stands still.
\<close>

theorem switch_ts_forward:
  assumes "rw_last r = Some l" "rw_src r \<noteq> Some (p_src p)"
    and "unat (l_covers l) < 2 ^ 31" "(unat (p_at p) - unat (l_at_ms l)) * unat (rw_clock r) div 1000 < 2 ^ 31"
  shows "let d = unat (m_ts (fst (rw_step r p)) - l_ts l) in
    0 < d \<and> unat (l_covers l) \<le> d \<and>
    (unat (p_at p) - unat (l_at_ms l)) * unat (rw_clock r) div 1000 \<le> d"
proof -
  let ?e = "unat (p_at p) - unat (l_at_ms l)"
  have "?e * unat (rw_clock r) div 1000 \<le> max ?e 1 * unat (rw_clock r) div 1000"
    by (intro div_le_mono mult_le_mono1) simp
  then show ?thesis
    using rw_step_switch(2) [OF assms(2,1)] switch_tick_value [OF assms(3,4)]
    by (simp only: Let_def add_diff_cancel_left') (simp only: less_max_iff_disj le_max_iff_disj, simp)
qed

theorem switch_ts_forward_witness:
  "let l = \<lparr>l_seq = 10, l_ts = 5000, l_at_ms = 100, l_covers = 960\<rparr>;
       r = (rewriter_new 48000)\<lparr>rw_src := Some 1, rw_last := Some l\<rparr>;
       d = unat (m_ts (fst (rw_step r \<lparr>p_src = 2, p_seq = 7, p_ts = 4, p_at = 140, p_cov = 960\<rparr>)) - 5000)
   in 0 < d \<and> 960 \<le> d \<and> 40 * 48000 div 1000 \<le> d"
  using switch_ts_forward [of "(rewriter_new 48000)\<lparr>rw_src := Some 1,
        rw_last := Some \<lparr>l_seq = 10, l_ts = 5000, l_at_ms = 100, l_covers = 960\<rparr>\<rparr>"
      "\<lparr>l_seq = 10, l_ts = 5000, l_at_ms = 100, l_covers = 960\<rparr>"
      "\<lparr>p_src = 2, p_seq = 7, p_ts = 4, p_at = 140, p_cov = 960\<rparr>"]
  by (simp add: Let_def rewriter_new_def)

section \<open>Retransmission requests\<close>

lemma rw_state_same:
  assumes "rw_src r = Some src" "\<forall>p \<in> set ps. p_src p = src"
  shows "seq_off (rw_state r ps) = seq_off r \<and> boundary (rw_state r ps) = boundary r"
  using assms
proof (induction ps arbitrary: r)
  case (Cons p ps)
  then show ?case using rw_step_same [of r p] by simp
qed simp

text \<open>
  A retransmission request finds the packet it means: after a packet and any number of further
  packets of its source, the number the receiver saw leads back to the source's own number, as long as
  the packet is not reckoned before the switch; and after a switch every number sent before it, up to
  half the range back, is refused rather than taken for a packet of the new source.
\<close>

theorem nack_finds_source:
  assumes "\<forall>q \<in> set ps. p_src q = p_src p"
    and "boundary (snd (rw_step r p)) = Some b"
  shows "unmap_nack (rw_state (snd (rw_step r p)) ps) (m_seq (fst (rw_step r p)))
      = (if serial_after b (m_seq (fst (rw_step r p))) then None else Some (p_seq p)) \<and>
    (\<forall>l k. rw_last r = Some l \<longrightarrow> rw_src r \<noteq> Some (p_src p) \<longrightarrow> unat k < 32767 \<longrightarrow>
       unmap_nack (rw_state (snd (rw_step r p)) ps) (l_seq l - k) = None)"
proof (intro conjI allI impI)
  let ?r = "rw_state (snd (rw_step r p)) ps"
  have same: "seq_off ?r = seq_off (snd (rw_step r p))" "boundary ?r = Some b"
    using rw_state_same [OF rw_step_src assms(1)] assms(2) by auto
  show "unmap_nack ?r (m_seq (fst (rw_step r p)))
      = (if serial_after b (m_seq (fst (rw_step r p))) then None else Some (p_seq p))"
    by (simp add: unmap_nack_def same rw_step_off)
  fix l :: rw_last and k :: u16
  assume l: "rw_last r = Some l" "rw_src r \<noteq> Some (p_src p)" and k: "unat k < 32767"
  have b: "b = l_seq l + 1" using rw_step_switch(4) [OF l(2,1)] assms(2) by simp
  have "unat (k + 1) = unat k + 1" using k by (simp add: unat_word_ariths)
  then have "serial_after b (l_seq l - k)" using k by (simp add: serial_after_iff b algebra_simps)
  then show "unmap_nack ?r (l_seq l - k) = None" by (simp add: unmap_nack_def same)
qed

theorem nack_finds_source_witness:
  "let l = \<lparr>l_seq = 65535, l_ts = 5000, l_at_ms = 100, l_covers = 960\<rparr>;
       r = (rewriter_new 48000)\<lparr>rw_src := Some 1, rw_last := Some l\<rparr>;
       p = \<lparr>p_src = 2, p_seq = 77, p_ts = 0, p_at = 140, p_cov = 960\<rparr>
   in unmap_nack (rw_state (snd (rw_step r p)) [p\<lparr>p_seq := 78\<rparr>]) 0 = Some 77 \<and>
      unmap_nack (rw_state (snd (rw_step r p)) [p\<lparr>p_seq := 78\<rparr>]) 65533 = None"
proof -
  define l where "l = \<lparr>l_seq = 65535, l_ts = 5000, l_at_ms = 100, l_covers = 960\<rparr>"
  define r where "r = (rewriter_new 48000)\<lparr>rw_src := Some 1, rw_last := Some l\<rparr>"
  define p where "p = \<lparr>p_src = 2, p_seq = 77, p_ts = 0, p_at = 140, p_cov = 960\<rparr>"
  have r: "rw_src r \<noteq> Some (p_src p)" "rw_last r = Some l" "l_seq l = 65535" "p_seq p = 77"
    by (simp_all add: r_def p_def l_def)
  have zero: "65535 + 1 = (0 :: u16)" by simp
  note sw = rw_step_switch [OF r(1,2), unfolded r(3) zero]
  have u: "\<not> serial_after 0 0" "unat (2 :: u16) < 32767" by (simp_all add: serial_after_iff)
  have "\<forall>q \<in> set [p\<lparr>p_seq := 78\<rparr>]. p_src q = p_src p" by simp
  note found = nack_finds_source [OF this sw(4)]
  have "unmap_nack (rw_state (snd (rw_step r p)) [p\<lparr>p_seq := 78\<rparr>]) 0 = Some 77"
    using found [THEN conjunct1] by (simp only: sw(1) u(1) if_False r(4))
  moreover have "unmap_nack (rw_state (snd (rw_step r p)) [p\<lparr>p_seq := 78\<rparr>]) (l_seq l - 2) = None"
    by (rule found [THEN conjunct2, rule_format, OF r(2) r(1) u(2)])
  ultimately show ?thesis unfolding Let_def l_def [symmetric] r_def [symmetric] p_def [symmetric]
    by (simp only: r(3)) simp
qed

lemma rw_state_same_ts:
  assumes "rw_src r = Some src" "\<forall>p \<in> set ps. p_src p = src"
  shows "ts_off (rw_state r ps) = ts_off r \<and> rw_src (rw_state r ps) = Some src"
  using assms
proof (induction ps arbitrary: r)
  case (Cons p ps)
  then show ?case using rw_step_same [of r p] by simp
qed simp

text \<open>A single source, in order from number 0, one packet a millisecond.\<close>

definition one_source :: "nat \<Rightarrow> rw_packet list" where
  "one_source n = map (\<lambda>i. \<lparr>p_src = 1, p_seq = of_nat i, p_ts = 0, p_at = of_nat i, p_cov = 1\<rparr>) [0..<n]"

lemma one_source_state:
  "0 < n \<Longrightarrow> seq_off (rw_state (rewriter_new clk) (one_source n)) = 0 \<and> boundary (rw_state (rewriter_new clk) (one_source n)) = Some 0"
proof -
  assume "0 < n"
  then obtain q qs where os: "one_source n = q # qs" "p_seq q = 0" "p_src q = 1" "\<forall>p \<in> set qs. p_src p = 1"
    by (cases n) (auto simp: one_source_def upt_conv_Cons simp del: upt_Suc)
  have "rw_src (snd (rw_step (rewriter_new clk) q)) = Some 1" using os(3) by simp
  moreover have "seq_off (snd (rw_step (rewriter_new clk) q)) = 0" "boundary (snd (rw_step (rewriter_new clk) q)) = Some 0"
    using os(2) by (simp_all add: rw_step_def rw_map_def rw_switch_def rewriter_new_def Let_def)
  ultimately show ?thesis using rw_state_same [OF _ os(4)] by (simp add: os(1))
qed

text \<open>
  A long-lived stream loses its retransmissions: the boundary of the last switch is never moved on, so half a
  range of numbers after it the comparison turns over. With one source in order and no switch at all,
  packet 29999 is found again while it is the newest, but packet 39999, just sent, is refused.
\<close>

theorem rtx_refused_after_half_range:
  "unmap_nack (rw_state (rewriter_new 90000) (one_source 30000)) 29999 = Some 29999 \<and>
   unmap_nack (rw_state (rewriter_new 90000) (one_source 40000)) 39999 = None"
  using one_source_state [of 30000 90000] one_source_state [of 40000 90000]
  by (simp add: unmap_nack_def serial_after_iff)

end
