(* ===== verification/Rtcp_Pkt.thy ===== *)
theory Rtcp_Pkt
  imports Prelude
begin

text \<open>
  The RTCP packets the media server builds and reads (\<open>oxsfud/src/rtcp/mod.rs\<close>): one function per
  builder and parser. Bodies are byte lists, positions are natural numbers; a read outside a body is
  \<open>None\<close>, as with the source's \<open>get(..)?\<close>. The lengths in headers are 16-bit words and wrap as the
  casts of the source do.
\<close>

section \<open>Building blocks\<close>

definition SENDER_SSRC :: u32 where
  "SENDER_SSRC = 1"

definition rtcp_header :: "u8 \<Rightarrow> u8 \<Rightarrow> nat \<Rightarrow> u8 list" where
  "rtcp_header fmt pt words = [0x80 OR (fmt AND 0x1f), pt] @ be16 (of_nat words)"

definition fix_len :: "u8 list \<Rightarrow> u8 list" where
  "fix_len b = take 2 b @ be16 (of_nat (length b div 4) - 1) @ drop 4 b"

record rtcp_packet =
  pk_fmt :: u8
  pk_pt :: u8
  pk_body :: "u8 list"

function rtcp_split :: "u8 list \<Rightarrow> rtcp_packet list" where
  "rtcp_split b =
     (if length b < 4 then []
      else if drop_bit 6 (b ! 0) \<noteq> 2 then []
      else let len = (unat (of_be16 (b ! 2) (b ! 3)) + 1) * 4
           in if length b < len then []
              else \<lparr>pk_fmt = b ! 0 AND 0x1f, pk_pt = b ! 1, pk_body = take (len - 4) (drop 4 b)\<rparr>
                   # rtcp_split (drop len b))"
  by pat_completeness auto
termination
  by (relation "measure length") (auto simp: not_less)

declare rtcp_split.simps [simp del]

definition be32_at :: "u8 list \<Rightarrow> nat \<Rightarrow> u32 option" where
  "be32_at b i = (if i + 4 \<le> length b then Some (of_be32 (b ! i) (b ! (i + 1)) (b ! (i + 2)) (b ! (i + 3))) else None)"

definition be16_at :: "u8 list \<Rightarrow> nat \<Rightarrow> u16 option" where
  "be16_at b i = (if i + 2 \<le> length b then Some (of_be16 (b ! i) (b ! (i + 1))) else None)"

section \<open>Negative acknowledgements\<close>

definition nack_add :: "(u16 \<times> u16) list \<Rightarrow> u16 \<Rightarrow> (u16 \<times> u16) list" where
  "nack_add fci s =
     (if fci = [] then [(s, 0)]
      else case last fci of (pid, blp) \<Rightarrow>
        if 1 \<le> s - pid \<and> s - pid \<le> 16 then butlast fci @ [(pid, blp OR push_bit (unat (s - pid - 1)) 1)]
        else fci @ [(s, 0)])"

definition nack_fci :: "u16 list \<Rightarrow> (u16 \<times> u16) list" where
  "nack_fci seqs = foldl nack_add [] (sort seqs)"

definition build_nack :: "u32 \<Rightarrow> u16 list \<Rightarrow> u8 list" where
  "build_nack media seqs =
     (let fci = nack_fci seqs
      in rtcp_header 1 205 (2 + length fci) @ be32 SENDER_SSRC @ be32 media
         @ concat (map (\<lambda>(pid, blp). be16 pid @ be16 blp) fci))"

fun nack_bits :: "u16 \<Rightarrow> u16 \<Rightarrow> u16 list" where
  "nack_bits pid blp =
     map (\<lambda>k. pid + (of_nat k + 1)) (filter (\<lambda>k. blp AND push_bit k 1 \<noteq> 0) [0..<16])"

fun nack_seqs :: "u8 list \<Rightarrow> u16 list" where
  "nack_seqs (a # b # c # d # r) = (of_be16 a b # nack_bits (of_be16 a b) (of_be16 c d)) @ nack_seqs r"
| "nack_seqs _ = []"

definition parse_nack :: "u8 list \<Rightarrow> (u32 \<times> u16 list) option" where
  "parse_nack body =
     (case be32_at body 4 of None \<Rightarrow> None | Some media \<Rightarrow> Some (media, nack_seqs (drop 8 body)))"

section \<open>Reports, picture loss and bandwidth\<close>

record report =
  r_fraction :: u8
  r_lost :: int
  r_extended_max :: u32
  r_jitter :: u32

definition clamp :: "int \<Rightarrow> int \<Rightarrow> int \<Rightarrow> int" where
  "clamp lo hi x = (if x < lo then lo else if hi < x then hi else x)"

definition build_rr :: "u32 \<Rightarrow> report \<Rightarrow> u32 \<Rightarrow> u32 \<Rightarrow> u8 list" where
  "build_rr ssrc r lsr dlsr =
     (let lost = (word_of_int (clamp (- 0x800000) 0x7fffff (r_lost r)) :: u32) AND 0x00ffffff
      in rtcp_header 1 201 7 @ be32 SENDER_SSRC @ be32 ssrc @ [r_fraction r] @ drop 1 (be32 lost)
         @ be32 (r_extended_max r) @ be32 (r_jitter r) @ be32 lsr @ be32 dlsr)"

definition build_pli :: "u32 \<Rightarrow> u8 list" where
  "build_pli media = rtcp_header 1 206 2 @ be32 SENDER_SSRC @ be32 media"

lemma remb_halves:
  assumes "(0x3ffff :: u64) < m"
  shows "unat (drop_bit 1 m) < unat m"
proof -
  have "unat (drop_bit 1 m) = unat m div 2" by (simp add: drop_bit_eq_div unat_div_distrib)
  with assms show ?thesis by (simp add: word_less_nat_alt)
qed

function remb_exp :: "u64 \<Rightarrow> u8 \<Rightarrow> u64 \<times> u8" where
  "remb_exp mant exp = (if 0x3ffff < mant then remb_exp (drop_bit 1 mant) (exp + 1) else (mant, exp))"
  by pat_completeness auto
termination
  by (relation "measure (unat \<circ> fst)") (auto dest: remb_halves)

declare remb_exp.simps [simp del]

definition build_remb :: "u64 \<Rightarrow> u32 list \<Rightarrow> u8 list" where
  "build_remb bps ssrcs =
     (case remb_exp bps 0 of (mant, exp) \<Rightarrow>
        rtcp_header 15 206 (4 + length ssrcs) @ be32 SENDER_SSRC @ be32 0 @ as_bytes ''REMB''
        @ [of_nat (length ssrcs), push_bit 2 exp OR (ucast (drop_bit 16 mant) AND 0x03)]
        @ be16 (ucast mant) @ concat (map be32 ssrcs))"

record sr_info =
  sr_ntp :: u64
  sr_rtp :: u32
  sr_at_us :: nat

definition build_sr :: "u32 \<Rightarrow> sr_info \<Rightarrow> u32 \<Rightarrow> u32 \<Rightarrow> u32 \<Rightarrow> u8 list" where
  "build_sr ssrc sr rtp packets octets =
     rtcp_header 0 200 6 @ be32 ssrc @ be64 (sr_ntp sr) @ be32 rtp @ be32 packets @ be32 octets"

section \<open>Transport-wide feedback\<close>

definition SYM_NONE :: u8 where "SYM_NONE = 0"
definition SYM_SMALL :: u8 where "SYM_SMALL = 1"
definition SYM_LARGE :: u8 where "SYM_LARGE = 2"

record feedback =
  fb_base_seq :: u16
  fb_status_count :: u16
  fb_reference_time :: u32
  fb_fb_count :: u8
  fb_symbols :: "u8 list"
  fb_deltas :: "int list"

fun run_len :: "u8 \<Rightarrow> u8 list \<Rightarrow> nat \<Rightarrow> nat" where
  "run_len sy [] n = n"
| "run_len sy (x # xs) n = (if x = sy \<and> n < 0x1fff then run_len sy xs (n + 1) else n)"

lemma run_len_ge: "n \<le> run_len sy xs n"
  by (induction sy xs n rule: run_len.induct) auto

function twcc_chunks :: "u8 list \<Rightarrow> u8 list" where
  "twcc_chunks syms =
     (case syms of [] \<Rightarrow> []
      | sy # r \<Rightarrow>
          (let n = run_len sy r 1;
               chunk = push_bit 13 (ucast sy AND 0x03 :: u16) OR of_nat n
           in be16 chunk @ twcc_chunks (drop n syms)))"
  by pat_completeness auto
termination
proof (relation "measure length", simp)
  fix syms sy r n and chunk :: u16
  assume "syms = sy # r" "n = run_len sy r 1"
  then show "(drop n syms, syms) \<in> measure length" using run_len_ge [of 1 sy r] by (cases n) auto
qed

declare twcc_chunks.simps [simp del]

text \<open>\<open>None\<close> is the panic of \<open>deltas_250us[di]\<close> when a received symbol has no delta.\<close>

fun twcc_deltas :: "u8 list \<Rightarrow> int list \<Rightarrow> u8 list option" where
  "twcc_deltas [] ds = Some []"
| "twcc_deltas (s # ss) ds =
     (if s = SYM_SMALL then
        (case ds of [] \<Rightarrow> None
         | d # ds \<Rightarrow> map_option (\<lambda>b. word_of_int d # b) (twcc_deltas ss ds))
      else if s = SYM_LARGE then
        (case ds of [] \<Rightarrow> None
         | d # ds \<Rightarrow> map_option (\<lambda>b. be16 (word_of_int d) @ b) (twcc_deltas ss ds))
      else twcc_deltas ss ds)"

definition twcc_pad :: "u8 list \<Rightarrow> u8 list" where
  "twcc_pad b =
     (let pad = (4 - length b mod 4) mod 4
      in if 0 < pad then
           (let b = b @ replicate (pad - 1) 0 @ [of_nat pad] in b[0 := b ! 0 OR 0x20])
         else b)"

definition build_twcc :: "u32 \<Rightarrow> feedback \<Rightarrow> u8 list option" where
  "build_twcc media f =
     (let rt = push_bit 8 (fb_reference_time f AND 0x00ffffff) OR ucast (fb_fb_count f);
          b = rtcp_header 15 205 0 @ be32 SENDER_SSRC @ be32 media @ be16 (fb_base_seq f)
              @ be16 (fb_status_count f) @ be32 rt @ twcc_chunks (fb_symbols f)
      in map_option (\<lambda>ds. fix_len (twcc_pad (b @ ds))) (twcc_deltas (fb_symbols f) (fb_deltas f)))"

definition chunk_syms :: "u16 \<Rightarrow> u8 list" where
  "chunk_syms c =
     (if c AND 0x8000 = 0 then replicate (unat (c AND 0x1fff)) (ucast (drop_bit 13 c AND 0x03))
      else if c AND 0x4000 = 0 then map (\<lambda>k. ucast (drop_bit k c AND 0x01)) (rev [0..<14])
      else map (\<lambda>k. ucast (drop_bit (k * 2) c AND 0x03)) (rev [0..<7]))"

text \<open>\<open>left\<close> is the number of symbols still to read, \<open>count - syms.len()\<close>.\<close>

fun twcc_syms :: "nat \<Rightarrow> u8 list \<Rightarrow> (u8 list \<times> u8 list) option" where
  "twcc_syms left (c0 # c1 # r) =
     (if left = 0 then Some ([], c0 # c1 # r)
      else let ss = take left (chunk_syms (of_be16 c0 c1))
           in map_option (\<lambda>(ys, r'). (ss @ ys, r')) (twcc_syms (left - length ss) r))"
| "twcc_syms left b = (if left = 0 then Some ([], b) else None)"

fun twcc_times :: "int \<Rightarrow> u8 list \<Rightarrow> u8 list \<Rightarrow> int option list option" where
  "twcc_times t [] b = Some []"
| "twcc_times t (s # ss) b =
     (if s = 1 then
        (case b of [] \<Rightarrow> None
         | d # r \<Rightarrow> (let t = t + int (unat d) * 250 in map_option (\<lambda>x. Some t # x) (twcc_times t ss r)))
      else if s = 2 then
        (case b of d0 # d1 # r \<Rightarrow>
            (let t = t + i16_of (of_be16 d0 d1) * 250 in map_option (\<lambda>x. Some t # x) (twcc_times t ss r))
         | _ \<Rightarrow> None)
      else map_option (\<lambda>x. None # x) (twcc_times t ss b))"

definition parse_twcc :: "u8 list \<Rightarrow> (u16 \<times> int option list) option" where
  "parse_twcc body =
     (case (be16_at body 8, be16_at body 10, be32_at body 12) of
        (Some base, Some count, Some w) \<Rightarrow>
          (let r = drop_bit 8 w;
               rt = (if r AND 0x800000 \<noteq> 0 then int (unat r) - 0x1000000 else int (unat r))
           in case twcc_syms (unat count) (drop 16 body) of
                None \<Rightarrow> None
              | Some (syms, rest) \<Rightarrow> map_option (Pair base) (twcc_times (rt * 64000) syms rest))
      | _ \<Rightarrow> None)"

end
