(* ===== verification/Rtcp_Nack.thy ===== *)
theory Rtcp_Nack
  imports Rtcp_Pkt
begin

text \<open>
  Compound packets and negative acknowledgements: what is built is read back.
\<close>

section \<open>Compound packets\<close>

definition rtcp_pack :: "rtcp_packet \<Rightarrow> u8 list" where
  "rtcp_pack p = rtcp_header (pk_fmt p) (pk_pt p) (length (pk_body p) div 4) @ pk_body p"

definition rtcp_ok :: "rtcp_packet \<Rightarrow> bool" where
  "rtcp_ok p \<longleftrightarrow> pk_fmt p < 32 \<and> length (pk_body p) mod 4 = 0 \<and> length (pk_body p) < 262144"

lemma rtcp_split_Nil [simp]: "rtcp_split [] = []"
  by (simp add: rtcp_split.simps)

lemma length_rtcp_header [simp]: "length (rtcp_header f t n) = 4"
  by (simp add: rtcp_header_def)

lemma fmt_byte:
  assumes "f < (32 :: u8)"
  shows "drop_bit 6 (0x80 OR (f AND 0x1f)) = 2" "(0x80 OR (f AND 0x1f)) AND 0x1f = f"
proof -
  have "unat f \<in> set [0..<32]" using assms by (simp add: word_less_nat_alt)
  then have "word_of_nat (unat f) \<in> set (map word_of_nat [0..<32] :: u8 list)" by (metis image_eqI list.set_map)
  then have "f \<in> set (map word_of_nat [0..<32])" by simp
  then show "drop_bit 6 (0x80 OR (f AND 0x1f)) = 2" "(0x80 OR (f AND 0x1f)) AND 0x1f = f"
    by (auto simp: upt_rec)
qed

text \<open>The first byte may also carry the padding bit, which \<open>split\<close> does not look at.\<close>

lemma rtcp_split_raw:
  assumes "drop_bit 6 b0 = (2 :: u8)" "length body = n * 4" "n < 65536"
  shows "rtcp_split ([b0, pt] @ be16 (of_nat n) @ body @ rest)
    = \<lparr>pk_fmt = b0 AND 0x1f, pk_pt = pt, pk_body = body\<rparr> # rtcp_split rest"
proof -
  have "unat (of_nat n :: u16) = n" using assms(3) by (simp add: unat_of_nat take_bit_eq_mod)
  moreover have "drop (4 + n * 4) ([b0, pt] @ be16 (of_nat n) @ body @ rest) = rest"
    using assms(2) drop_append [of "4 + n * 4" "[b0, pt] @ be16 (of_nat n) @ body" rest] by simp
  ultimately show ?thesis using assms
    by (subst rtcp_split.simps) (simp add: be16_def of_be16_be16)
qed

lemma rtcp_split_pack:
  assumes "rtcp_ok p"
  shows "rtcp_split (rtcp_pack p @ rest) = p # rtcp_split rest"
proof -
  define n where "n = length (pk_body p) div 4"
  have len: "length (pk_body p) = n * 4" "n < 65536"
    using assms by (auto simp: rtcp_ok_def n_def)
  have fmt: "pk_fmt p < 32" using assms by (simp add: rtcp_ok_def)
  from rtcp_split_raw [OF fmt_byte(1) [OF fmt] len, of "pk_pt p" rest] fmt_byte(2) [OF fmt] show ?thesis
    by (simp add: rtcp_pack_def rtcp_header_def flip: n_def)
qed

lemma rtcp_split_packs:
  "(\<And>p. p \<in> set ps \<Longrightarrow> rtcp_ok p) \<Longrightarrow> rtcp_split (concat (map rtcp_pack ps) @ rest) = ps @ rtcp_split rest"
  by (induction ps) (simp_all add: rtcp_split_pack)

section \<open>Negative acknowledgements\<close>

definition expand :: "(u16 \<times> u16) list \<Rightarrow> u16 list" where
  "expand fci = concat (map (\<lambda>(pid, blp). pid # nack_bits pid blp) fci)"

lemma nack_seqs_enc: "nack_seqs (concat (map (\<lambda>(pid, blp). be16 pid @ be16 blp) fci)) = expand fci"
  by (induction fci) (auto simp: expand_def be16_def of_be16_be16)

lemma nack_bits_alt: "nack_bits pid blp = map (\<lambda>k. pid + (of_nat k + 1)) (filter (bit blp) [0..<16])"
  by (simp only: nack_bits.simps bit_iff_and_push_bit_not_eq_0 [abs_def])

text \<open>Every number of an entry is its first number plus at most sixteen, and none exceeds \<open>m\<close>.\<close>

definition below :: "nat \<Rightarrow> u16 \<times> u16 \<Rightarrow> bool" where
  "below m e \<longleftrightarrow> unat (fst e) \<le> m \<and> (\<forall>k. bit (snd e) k \<longrightarrow> unat (fst e) + k + 1 \<le> m)"

lemma below_mono: "below m e \<Longrightarrow> m \<le> n \<Longrightarrow> below n e"
  by (fastforce simp: below_def)

lemma bits_add:
  assumes "k < 16" "\<And>j. bit blp j \<Longrightarrow> j < k"
  shows "filter (bit (blp OR push_bit k 1)) [0..<16] = filter (bit (blp :: u16)) [0..<16] @ [k]"
proof -
  have upt: "[0..<16] = [0..<k] @ k # [Suc k..<16]"
    using assms(1) upt_add_eq_append [of 0 k "16 - k"] by (simp add: upt_conv_Cons)
  have "filter (bit (blp OR push_bit k 1)) [0..<k] = filter (bit blp) [0..<k]"
    by (rule filter_cong) (auto simp: bit_simps)
  moreover have "filter (bit (blp OR push_bit k 1)) [Suc k..<16] = []" "filter (bit blp) [k..<16] = []"
    using assms(2) by (fastforce simp: filter_empty_conv bit_simps)+
  moreover have "bit (blp OR push_bit k 1) k" using assms(1) by (simp add: bit_simps)
  ultimately show ?thesis
    unfolding upt using assms by (auto simp: filter_empty_conv)
qed

lemma word_sum: "unat s = unat p + k + 1 \<Longrightarrow> s = p + (of_nat k + 1)"
  for s p :: u16
proof -
  assume "unat s = unat p + k + 1"
  then have "word_of_nat (unat s) = (word_of_nat (unat p + k + 1) :: u16)" by (rule arg_cong)
  then show ?thesis by (simp add: add.assoc add.commute)
qed

lemma nack_add_cases:
  assumes fci: "\<forall>e \<in> set fci. below m e" and m: "m \<le> unat s"
  obtains (fresh) "nack_add fci s = fci @ [(s, 0)]"
    | (join) fs pid blp k where "fci = fs @ [(pid, blp)]" "k < 16" "unat s = unat pid + k + 1"
        "nack_add fci s = fs @ [(pid, blp OR push_bit k 1)]"
proof (cases fci rule: rev_cases)
  case Nil
  then show thesis using fresh by (simp add: nack_add_def)
next
  case (snoc fs e)
  obtain pid blp where e: "e = (pid, blp)" by (cases e)
  show thesis
  proof (cases "1 \<le> s - pid \<and> s - pid \<le> 16")
    case False
    then show thesis using fresh snoc e by (auto simp: nack_add_def)
  next
    case True
    have le: "unat pid \<le> unat s" using fci m by (simp add: snoc e below_def)
    then have d: "unat (s - pid) = unat s - unat pid" by (simp only: unat_sub word_le_nat_alt)
    have r: "1 \<le> unat (s - pid)" "unat (s - pid) \<le> 16" using True by (simp_all add: word_le_nat_alt)
    have "unat (s - pid - 1) = unat (s - pid) - 1" using True by (simp only: unat_sub unsigned_1)
    with d r le have k: "unat (s - pid - 1) < 16" "unat s = unat pid + unat (s - pid - 1) + 1" by linarith+
    have "nack_add fci s = fs @ [(pid, blp OR push_bit (unat (s - pid - 1)) 1)]"
      using True snoc e by (simp only: nack_add_def) simp
    with k show thesis using join snoc e by blast
  qed
qed

lemma nack_add_expand:
  assumes fci: "\<forall>e \<in> set fci. below m e" and m: "m \<le> unat s"
  shows "\<forall>e \<in> set (nack_add fci s). below (unat s) e"
    and "set (expand (nack_add fci s)) = insert s (set (expand fci))"
    and "m < unat s \<or> fci = [] \<Longrightarrow> expand (nack_add fci s) = expand fci @ [s]"
proof -
  show "\<forall>e \<in> set (nack_add fci s). below (unat s) e"
  proof (cases rule: nack_add_cases [OF fci m, case_names fresh join])
    case fresh
    with fci m show ?thesis by (auto intro: below_mono simp: below_def [of _ "(s, 0)"])
  next
    case (join fs pid blp k)
    have old: "below (unat s) (pid, blp)" using fci m join(1) by (auto intro: below_mono)
    then have "below (unat s) (pid, blp OR push_bit k 1)" using join(3) by (auto simp: below_def bit_simps)
    with fci m join(1,4) show ?thesis by (auto intro: below_mono)
  qed
  show "set (expand (nack_add fci s)) = insert s (set (expand fci))"
  proof (cases rule: nack_add_cases [OF fci m, case_names fresh join])
    case fresh
    then show ?thesis by (auto simp: expand_def nack_bits_alt simp del: nack_bits.simps)
  next
    case (join fs pid blp k)
    have "s = pid + (of_nat k + 1)" using join(3) by (rule word_sum)
    with join show ?thesis by (auto simp: expand_def nack_bits_alt bit_simps simp del: nack_bits.simps)
  qed
  show "expand (nack_add fci s) = expand fci @ [s]" if "m < unat s \<or> fci = []"
  proof (cases rule: nack_add_cases [OF fci m, case_names fresh join])
    case fresh
    then show ?thesis by (auto simp: expand_def nack_bits_alt simp del: nack_bits.simps)
  next
    case (join fs pid blp k)
    have s: "s = pid + (of_nat k + 1)" using join(3) by (rule word_sum)
    have "j < k" if "bit blp j" for j
      using fci that \<open>m < unat s \<or> fci = []\<close> join(1,3) by (fastforce simp: below_def)
    from bits_add [OF join(2) this] have "nack_bits pid (blp OR push_bit k 1) = nack_bits pid blp @ [s]"
      by (simp only: nack_bits_alt s map_append list.map)
    with join show ?thesis by (simp add: expand_def del: nack_bits.simps push_bit_of_1)
  qed
qed


lemma foldl_nack_add:
  assumes "sorted xs" "\<forall>e \<in> set fci. below m e" "\<forall>x \<in> set xs. m \<le> unat x"
  shows "set (expand (foldl nack_add fci xs)) = set (expand fci) \<union> set xs \<and>
    (distinct xs \<and> (fci = [] \<or> (\<forall>x \<in> set xs. m < unat x)) \<longrightarrow>
      expand (foldl nack_add fci xs) = expand fci @ xs)"
  using assms
proof (induction xs arbitrary: fci m)
  case (Cons x xs)
  have m: "m \<le> unat x" using Cons.prems by simp
  note add = nack_add_expand [OF \<open>\<forall>e \<in> set fci. below m e\<close> m]
  have le: "sorted xs" "\<forall>y \<in> set xs. unat x \<le> unat y" using Cons.prems by (simp_all flip: word_le_nat_alt)
  have "\<forall>y \<in> set xs. unat x < unat y" if "distinct (x # xs)"
    using le(2) that by (metis distinct.simps(2) le_neq_implies_less unsigned_word_eqI)
  then show ?case using Cons.IH [OF le(1) add(1) le(2)] add(2,3) by auto
qed simp

lemma nack_fci_expand:
  "set (expand (nack_fci seqs)) = set seqs" "distinct seqs \<Longrightarrow> expand (nack_fci seqs) = sort seqs"
  using foldl_nack_add [of "sort seqs" "[]" 0] by (simp_all add: nack_fci_def expand_def)

lemma length_nack_fci: "length (nack_fci seqs) \<le> length seqs"
proof -
  have "length (foldl nack_add fci xs) \<le> length fci + length xs" for fci xs
  proof (induction xs arbitrary: fci)
    case (Cons x xs)
    have "length (nack_add fci x) \<le> Suc (length fci)" by (auto simp: nack_add_def split: prod.split)
    with Cons [of "nack_add fci x"] show ?case by simp
  qed simp
  from this [of "[]" "sort seqs"] show ?thesis by (simp add: nack_fci_def)
qed

text \<open>
  A request for retransmission is read as it was meant: the packet built for up to 65533 missing numbers, in
  any order and with repetitions, is one packet of the compound packet it travels in, and the numbers
  read from it are exactly the missing ones; when none is repeated they come out once each, in order.
\<close>

theorem nack_roundtrip:
  assumes "length seqs \<le> 65533"
  shows "\<exists>body xs. rtcp_split (build_nack media seqs @ rest) = \<lparr>pk_fmt = 1, pk_pt = 205, pk_body = body\<rparr> # rtcp_split rest
    \<and> parse_nack body = Some (media, xs) \<and> set xs = set seqs \<and> (distinct seqs \<longrightarrow> xs = sort seqs)"
proof -
  define fci where "fci = nack_fci seqs"
  define body where "body = be32 SENDER_SSRC @ be32 media @ concat (map (\<lambda>(pid, blp). be16 pid @ be16 blp) fci)"
  have "length (concat (map (\<lambda>(pid, blp). be16 pid @ be16 blp) fci)) = 4 * length fci" for fci
    by (induction fci) auto
  then have len: "length body = 4 * (2 + length fci)" by (simp add: body_def)
  then have ok: "rtcp_ok \<lparr>pk_fmt = 1, pk_pt = 205, pk_body = body\<rparr>"
    using assms length_nack_fci [of seqs] by (simp add: rtcp_ok_def fci_def)
  have "build_nack media seqs = rtcp_pack \<lparr>pk_fmt = 1, pk_pt = 205, pk_body = body\<rparr>"
    by (simp add: build_nack_def rtcp_pack_def len flip: fci_def) (simp add: body_def)
  moreover have "be32_at body 4 = Some media"
    by (simp add: be32_at_def body_def be32_def nth_append of_be32_be32)
  then have "parse_nack body = Some (media, expand fci)"
    by (simp add: parse_nack_def) (simp add: body_def nack_seqs_enc)
  ultimately show ?thesis
    using rtcp_split_pack [OF ok] nack_fci_expand [of seqs] by (auto simp: fci_def)
qed

theorem nack_roundtrip_witness:
  "\<exists>body xs. rtcp_split (build_nack 7 [40, 10, 13, 11]) = [\<lparr>pk_fmt = 1, pk_pt = 205, pk_body = body\<rparr>]
    \<and> parse_nack body = Some (7, xs) \<and> xs = [10, 11, 13, 40]"
proof -
  have "distinct [40, 10, 13, 11 :: u16]" "sort [40, 10, 13, 11 :: u16] = [10, 11, 13, 40]" by simp_all
  with nack_roundtrip [of "[40, 10, 13, 11]" 7 "[]"] show ?thesis by auto
qed

end
