(* ===== verification/Rtcp_Core.thy ===== *)
theory Rtcp_Core
  imports Rtcp_Pkt
begin

text \<open>
  RTCP arithmetic (\<open>oxsfud/src/rtcp/core.rs\<close>): the receiver statistics of one incoming stream and the
  window of transport-wide feedback. Counters of the statistics are 32-bit words that wrap; the
  interarrival jitter, an \<open>f64\<close> in the source, is a value of the type \<open>'j\<close>, with the update of the source
  as the function \<open>jit\<close> and the cast to \<open>u32\<close> as \<open>jit_u32\<close>. Arrival times and unwrapped sequence
  numbers are integers.
\<close>

section \<open>Receiver statistics\<close>

definition MIN_SEQUENTIAL :: u32 where "MIN_SEQUENTIAL = 2"
definition MAX_DROPOUT :: u32 where "MAX_DROPOUT = 3000"
definition MAX_MISORDER :: u32 where "MAX_MISORDER = 100"
definition SEQ_MOD :: u32 where "SEQ_MOD = push_bit 16 1"

record 'j recv_stats =
  rs_clock :: u32
  max_seq :: u16
  cycles :: u32
  base_seq :: u32
  bad_seq :: u32
  probation :: u32
  received :: u32
  expected_prior :: u32
  received_prior :: u32
  transit :: "u32 option"
  jitter :: 'j
  started :: bool
  packets :: u64
  rs_bytes :: u64

definition recv_stats_new :: "'j \<Rightarrow> u32 \<Rightarrow> 'j recv_stats" where
  "recv_stats_new jit0 clk = \<lparr>rs_clock = clk, max_seq = 0, cycles = 0, base_seq = 0, bad_seq = 0, probation = 0,
     received = 0, expected_prior = 0, received_prior = 0, transit = None, jitter = jit0, started = False,
     packets = 0, rs_bytes = 0\<rparr>"

definition init_seq :: "u16 \<Rightarrow> 'j recv_stats \<Rightarrow> 'j recv_stats" where
  "init_seq seq s = s\<lparr>base_seq := ucast seq, max_seq := seq, bad_seq := SEQ_MOD + 1, cycles := 0, received := 0,
     received_prior := 0, expected_prior := 0\<rparr>"

definition update_seq :: "u16 \<Rightarrow> 'j recv_stats \<Rightarrow> 'j recv_stats \<times> bool" where
  "update_seq seq s0 =
     (let s = (if started s0 then s0
               else (init_seq seq (s0\<lparr>started := True\<rparr>))\<lparr>max_seq := seq - 1, probation := MIN_SEQUENTIAL\<rparr>);
          udelta = (ucast (seq - max_seq s) :: u32)
      in if 0 < probation s then
           (if seq = max_seq s + 1 then
              (let s = s\<lparr>probation := probation s - 1, max_seq := seq\<rparr>
               in if probation s = 0 then
                    (let s = init_seq seq s in (s\<lparr>received := received s + 1\<rparr>, True))
                  else (s, False))
            else (s\<lparr>probation := MIN_SEQUENTIAL - 1, max_seq := seq\<rparr>, False))
         else if udelta < MAX_DROPOUT then
           (let s = (if seq < max_seq s then s\<lparr>cycles := cycles s + SEQ_MOD\<rparr> else s);
                s = s\<lparr>max_seq := seq\<rparr>
            in (s\<lparr>received := received s + 1\<rparr>, True))
         else if udelta \<le> SEQ_MOD - MAX_MISORDER then
           (if ucast seq = bad_seq s then
              (let s = init_seq seq s in (s\<lparr>received := received s + 1\<rparr>, True))
            else (s\<lparr>bad_seq := (ucast seq + 1) AND (SEQ_MOD - 1)\<rparr>, False))
         else (s\<lparr>received := received s + 1\<rparr>, True))"

definition unsigned_abs :: "u32 \<Rightarrow> nat" where
  "unsigned_abs w = nat \<bar>sint w\<bar>"

definition rs_update :: "('j \<Rightarrow> nat \<Rightarrow> 'j) \<Rightarrow> u16 \<Rightarrow> u32 \<Rightarrow> nat \<Rightarrow> nat \<Rightarrow> 'j recv_stats \<Rightarrow> 'j recv_stats \<times> bool" where
  "rs_update jit seq ts arrival_ms bytes s0 =
     (case update_seq seq s0 of (s, valid) \<Rightarrow>
        (let s = s\<lparr>packets := packets s + 1, rs_bytes := rs_bytes s + of_nat bytes\<rparr>;
             arrival = (of_nat (arrival_ms * unat (rs_clock s) div 1000) :: u32);
             tr = arrival - ts;
             s = (case transit s of None \<Rightarrow> s | Some pv \<Rightarrow> s\<lparr>jitter := jit (jitter s) (unsigned_abs (tr - pv))\<rparr>)
         in (s\<lparr>transit := Some tr\<rparr>, valid)))"

definition extended_max :: "'j recv_stats \<Rightarrow> u32" where
  "extended_max s = cycles s + ucast (max_seq s)"

definition rs_report :: "('j \<Rightarrow> u32) \<Rightarrow> 'j recv_stats \<Rightarrow> report option \<times> 'j recv_stats" where
  "rs_report jit_u32 s =
     (if \<not> started s \<or> 0 < probation s then (None, s)
      else
        (let ext = extended_max s;
             expected = ext - base_seq s + 1;
             lost = clamp (- 0x800000) 0x7fffff (int (unat expected) - int (unat (received s)));
             expected_interval = expected - expected_prior s;
             received_interval = received s - received_prior s;
             lost_interval = int (unat expected_interval) - int (unat received_interval);
             fraction = (if expected_interval = 0 \<or> lost_interval \<le> 0 then 0
                         else word_of_int (min ((lost_interval * 256) div int (unat expected_interval)) 255))
         in (Some \<lparr>r_fraction = fraction, r_lost = lost, r_extended_max = ext, r_jitter = jit_u32 (jitter s)\<rparr>,
             s\<lparr>expected_prior := expected, received_prior := received s\<rparr>)))"

section \<open>The transport-wide feedback window\<close>

definition KEEP_US :: int where "KEEP_US = 500000"

record twcc_recv =
  arrivals :: "(int, int) btree"
  last_unwrapped :: "int option"
  window_start :: "int option"
  tw_fb_count :: u8
  newest_us :: int

definition twcc_new :: twcc_recv where
  "twcc_new = \<lparr>arrivals = [], last_unwrapped = None, window_start = None, tw_fb_count = 0, newest_us = 0\<rparr>"

definition tw_unwrap :: "u16 \<Rightarrow> twcc_recv \<Rightarrow> int \<times> twcc_recv" where
  "tw_unwrap seq s =
     (let u = (case last_unwrapped s of None \<Rightarrow> int (unat seq) | Some l \<Rightarrow> l + i16_of (seq - word_of_int l));
          newer = (case last_unwrapped s of None \<Rightarrow> True | Some l \<Rightarrow> l < u)
      in (u, if newer then s\<lparr>last_unwrapped := Some u\<rparr> else s))"

definition tw_record :: "u16 \<Rightarrow> int \<Rightarrow> twcc_recv \<Rightarrow> twcc_recv" where
  "tw_record seq arrival_us s0 =
     (case tw_unwrap seq s0 of (u, s1) \<Rightarrow>
        (let s2 = (case bt_get (arrivals s1) u of
                None \<Rightarrow> s1\<lparr>arrivals := bt_insert u arrival_us (arrivals s1)\<rparr> | Some _ \<Rightarrow> s1);
             s3 = (if newest_us s2 < arrival_us then s2\<lparr>newest_us := arrival_us\<rparr> else s2);
             ws = (case window_start s3 of None \<Rightarrow> u | Some w \<Rightarrow> min u w);
             horizon = newest_us s3 - KEEP_US
         in s3\<lparr>window_start := Some ws,
               arrivals := bt_retain (\<lambda>k t. horizon \<le> t \<or> ws \<le> k) (arrivals s3)\<rparr>))"

definition tw_range :: "twcc_recv \<Rightarrow> int \<Rightarrow> (int, int) btree" where
  "tw_range s w = filter (\<lambda>e. w \<le> fst e) (arrivals s)"

definition tw_pending :: "twcc_recv \<Rightarrow> bool" where
  "tw_pending s = (case window_start s of None \<Rightarrow> False | Some w \<Rightarrow> tw_range s w \<noteq> [])"

text \<open>
  The loop of \<open>build\<close>: from \<open>s\<close> up to the newest number, at most 65535 symbols (\<open>n\<close> are already pushed), until
  a delta does not fit 16 bits.
\<close>

function tw_scan :: "(int, int) btree \<Rightarrow> int \<Rightarrow> int \<Rightarrow> int \<Rightarrow> nat \<Rightarrow> u8 list \<times> int list" where
  "tw_scan arr mx s lst n =
     (if s \<le> mx \<and> n < 0xffff then
        (case bt_get arr s of
           None \<Rightarrow> (case tw_scan arr mx (s + 1) lst (n + 1) of (ss, ds) \<Rightarrow> (SYM_NONE # ss, ds))
         | Some t \<Rightarrow>
             (let d = (t - lst + 125) div 250
              in if d < - 32768 \<or> 32767 < d then ([], [])
                 else case tw_scan arr mx (s + 1) (lst + d * 250) (n + 1) of (ss, ds) \<Rightarrow>
                   ((if 0 \<le> d \<and> d \<le> 255 then SYM_SMALL else SYM_LARGE) # ss, d # ds)))
      else ([], []))"
  by pat_completeness auto
termination
  by (relation "measure (\<lambda>(arr, mx, s, lst, n). 0xffff - n)") auto

declare tw_scan.simps [simp del]

definition tw_trim :: "u8 list \<Rightarrow> u8 list" where
  "tw_trim ss = rev (dropWhile (\<lambda>x. x = SYM_NONE) (rev ss))"

definition tw_build :: "twcc_recv \<Rightarrow> feedback option \<times> twcc_recv" where
  "tw_build s =
     (case window_start s of
        None \<Rightarrow> (None, s)
      | Some w \<Rightarrow>
          (case tw_range s w of
             [] \<Rightarrow> (None, s)
           | (first_seq, first_t) # _ \<Rightarrow>
               (let ref_time = first_t div 64000;
                    mx = (if arrivals s = [] then first_seq else fst (last (arrivals s)))
                in case tw_scan (arrivals s) mx w (ref_time * 64000) 0 of (ss, ds) \<Rightarrow>
                   (let symbols = tw_trim ss
                    in if symbols = [] then (None, s)
                       else (Some \<lparr>fb_base_seq = word_of_int w, fb_status_count = of_nat (length symbols),
                               fb_reference_time = word_of_int ref_time AND 0x00ffffff, fb_fb_count = tw_fb_count s,
                               fb_symbols = symbols, fb_deltas = ds\<rparr>,
                             s\<lparr>tw_fb_count := tw_fb_count s + 1,
                               window_start := Some (w + int (length symbols))\<rparr>)))))"

text \<open>The feedback loop of the uplink tick (\<open>rtcp/mod.rs\<close>): build while anything is pending.\<close>

lemma tw_build_progress:
  assumes "tw_build s = (Some f, s')"
  obtains w ss where "window_start s = Some w" "ss \<noteq> []" "fb_symbols f = ss" "w \<le> fst (last (arrivals s))"
    "s' = s\<lparr>tw_fb_count := tw_fb_count s + 1, window_start := Some (w + int (length ss))\<rparr>"
proof -
  obtain w e es where w: "window_start s = Some w" "tw_range s w = e # es"
    using assms by (auto simp: tw_build_def split: option.splits list.splits)
  then have ne: "arrivals s \<noteq> []" by (auto simp: tw_range_def)
  define lst where "lst = snd e div 64000 * 64000"
  obtain ss ds where scan: "tw_scan (arrivals s) (fst (last (arrivals s))) w lst 0 = (ss, ds)" by fastforce
  have build: "tw_trim ss \<noteq> []" "fb_symbols f = tw_trim ss"
    "s' = s\<lparr>tw_fb_count := tw_fb_count s + 1, window_start := Some (w + int (length (tw_trim ss)))\<rparr>"
    using assms ne scan by (auto simp: tw_build_def w lst_def Let_def split: if_splits prod.splits)
  moreover have "w \<le> fst (last (arrivals s))"
    using build(1) scan by (subst (asm) tw_scan.simps) (auto simp: tw_trim_def split: if_splits)
  ultimately show thesis using w(1) that by blast
qed

function tw_flush :: "twcc_recv \<Rightarrow> feedback list \<times> twcc_recv" where
  "tw_flush s =
     (if tw_pending s then
        (case tw_build s of
           (None, s') \<Rightarrow> ([], s')
         | (Some f, s') \<Rightarrow> (case tw_flush s' of (fs, s'') \<Rightarrow> (f # fs, s'')))
      else ([], s))"
  by pat_completeness auto
termination
  by (relation "measure (\<lambda>s. case window_start s of None \<Rightarrow> 0 | Some w \<Rightarrow> nat (fst (last (arrivals s)) + 1 - w))")
    (auto elim!: tw_build_progress [OF sym])

declare tw_flush.simps [simp del]

end
