(* ===== verification/Rtcp_Twcc.thy ===== *)
theory Rtcp_Twcc
  imports Rtcp_Nack Rtcp_Core
begin

text \<open>
  Transport-wide feedback, from the arrivals recorded at one end to the times read at the other.
\<close>

section \<open>Status chunks\<close>

lemma run_len_spec:
  assumes "m \<le> 0x1fff"
  shows "\<exists>j \<le> length xs. run_len sy xs m = m + j \<and> take j xs = replicate j sy \<and> m + j \<le> 0x1fff \<and>
    (j < length xs \<longrightarrow> xs ! j \<noteq> sy \<or> m + j = 0x1fff)"
  using assms
proof (induction sy xs m rule: run_len.induct)
  case (2 sy x xs n)
  show ?case
  proof (cases "x = sy \<and> n < 0x1fff")
    case True
    with 2 obtain j where "j \<le> length xs" "run_len sy xs (n + 1) = n + 1 + j" "take j xs = replicate j sy" "n + 1 + j \<le> 0x1fff"
      "j < length xs \<longrightarrow> xs ! j \<noteq> sy \<or> n + 1 + j = 0x1fff" by auto
    with True show ?thesis by (intro exI [of _ "Suc j"]) simp
  next
    case False
    then show ?thesis using 2(2) by (intro exI [of _ 0]) auto
  qed
qed simp

text \<open>One chunk is read as the run it stands for.\<close>

lemma chunk_syms_run:
  assumes "sy < (4 :: u8)" "n \<le> 0x1fff"
  shows "chunk_syms (push_bit 13 (ucast sy AND 0x03) OR of_nat n) = replicate n sy"
proof -
  define a where "a = (ucast sy AND 0x03 :: u16)"
  define N where "N = (of_nat n :: u16)"
  define c where "c = push_bit 13 a OR N"
  have sy: "bit sy j \<Longrightarrow> j < 2" for j using bit_of_small [of sy 2 j] assms(1) by (simp add: word_less_nat_alt)
  have three: "(3 :: 'b::len word) = mask 2" by (simp add: mask_eq_exp_minus_1)
  have a: "bit a j \<longleftrightarrow> bit sy j" for j
    using sy by (auto simp: a_def three bit_simps dest: bit_imp_le_length)
  have unat_N: "unat N = n" using assms(2) by (simp add: N_def unat_of_nat take_bit_eq_mod)
  then have N: "bit N j \<Longrightarrow> j < 13" for j
    using bit_of_small [of N 13 j] assms(2) by simp
  have "\<not> bit c 15" using a [of 2] sy [of 2] N [of 15] by (auto simp: c_def bit_simps)
  then have c1: "c AND 0x8000 = 0" using bit_iff_and_push_bit_not_eq_0 [of c 15] by simp
  have "c AND 0x1fff = take_bit 13 c" by (simp add: take_bit_eq_mask mask_eq_exp_minus_1)
  also have "\<dots> = N" using N by (intro bit_word_eqI) (auto simp: c_def bit_simps)
  finally have c2: "c AND 0x1fff = N" .
  have c3: "ucast (drop_bit 13 c AND 0x03) = sy"
    using N a sy by (intro bit_word_eqI) (fastforce simp: c_def three bit_simps)
  show ?thesis
    unfolding a_def [symmetric] N_def [symmetric] c_def [symmetric] chunk_syms_def c1 c2 c3 unat_N by simp
qed

lemma twcc_syms_be16:
  "0 < left \<Longrightarrow> chunk_syms c = cs \<Longrightarrow> length cs \<le> left \<Longrightarrow>
     twcc_syms left (be16 c @ r) = map_option (\<lambda>(ys, r'). (cs @ ys, r')) (twcc_syms (left - length cs) r)"
  by (simp add: be16_def of_be16_be16 Let_def)

lemma twcc_syms_chunks:
  "(\<forall>x \<in> set ss. x < 4) \<Longrightarrow> twcc_syms (length ss) (twcc_chunks ss @ rest) = Some (ss, rest)"
proof (induction ss rule: twcc_chunks.induct)
  case (1 ss)
  show ?case
  proof (cases ss)
    case Nil
    then show ?thesis by (cases "(0 :: nat, rest)" rule: twcc_syms.cases) (simp_all add: twcc_chunks.simps)
  next
    case (Cons sy r)
    obtain j where j: "j \<le> length r" "run_len sy r 1 = 1 + j" "take j r = replicate j sy" "1 + j \<le> 0x1fff"
      using run_len_spec [of 1 r sy] by auto
    define n where "n = 1 + j"
    have ih: "twcc_syms (length (drop n ss)) (twcc_chunks (drop n ss) @ rest) = Some (drop n ss, rest)"
      using 1(1) [OF Cons refl refl] 1(2) unfolding n_def j(2) by (meson in_set_dropD)
    have run: "take n ss = replicate n sy" by (simp add: Cons n_def j(3))
    have chunk: "chunk_syms (push_bit 13 (ucast sy AND 0x03) OR of_nat n) = replicate n sy"
      using 1(2) j(4) by (intro chunk_syms_run) (auto simp: Cons n_def)
    have len: "n \<le> length ss" "0 < length ss" using j(1) by (simp_all add: Cons n_def)
    have "twcc_chunks ss = be16 (push_bit 13 (ucast sy AND 0x03) OR of_nat n) @ twcc_chunks (drop n ss)"
      unfolding twcc_chunks.simps [of ss] by (simp only: Cons list.case Let_def j(2) n_def)
    then have "twcc_syms (length ss) (twcc_chunks ss @ rest) =
        map_option (\<lambda>(ys, r'). (replicate n sy @ ys, r')) (twcc_syms (length ss - length (replicate n sy)) (twcc_chunks (drop n ss) @ rest))"
      using len by (simp only: append_assoc) (intro twcc_syms_be16 chunk, simp_all)
    also have "\<dots> = Some (replicate n sy @ drop n ss, rest)" using ih by simp
    finally have "twcc_syms (length ss) (twcc_chunks ss @ rest) = Some (replicate n sy @ drop n ss, rest)" .
    then show ?thesis using run by (metis append_take_drop_id)
  qed
qed

section \<open>Deltas\<close>

text \<open>The symbols and deltas that belong together, and the times they stand for.\<close>

fun syms_ok :: "u8 list \<Rightarrow> int list \<Rightarrow> bool" where
  "syms_ok [] ds \<longleftrightarrow> ds = []"
| "syms_ok (s # ss) ds \<longleftrightarrow>
     (if s = SYM_NONE then syms_ok ss ds
      else case ds of [] \<Rightarrow> False
        | d # ds \<Rightarrow> (s = SYM_SMALL \<and> 0 \<le> d \<and> d \<le> 255 \<or> s = SYM_LARGE \<and> - 32768 \<le> d \<and> d \<le> 32767) \<and> syms_ok ss ds)"

fun recon :: "int \<Rightarrow> u8 list \<Rightarrow> int list \<Rightarrow> int option list" where
  "recon t [] ds = []"
| "recon t (s # ss) ds =
     (if s = SYM_NONE then None # recon t ss ds
      else case ds of [] \<Rightarrow> [] | d # ds \<Rightarrow> Some (t + d * 250) # recon (t + d * 250) ss ds)"

lemmas sym_defs = SYM_NONE_def SYM_SMALL_def SYM_LARGE_def

lemma unat_u8_of_int: "0 \<le> d \<Longrightarrow> d \<le> 255 \<Longrightarrow> int (unat (word_of_int d :: u8)) = d"
  by (simp add: uint_word_of_int take_bit_int_eq_self)

lemma i16_of_int: "- 32768 \<le> d \<Longrightarrow> d \<le> 32767 \<Longrightarrow> i16_of (word_of_int d) = d"
  by (simp add: i16_of_def signed_of_int signed_take_bit_int_eq_self)

definition dsize :: "u8 \<Rightarrow> nat" where
  "dsize s = (if s = SYM_SMALL then 1 else if s = SYM_LARGE then 2 else 0)"

lemma deltas_times:
  "syms_ok ss ds \<Longrightarrow> \<exists>b. twcc_deltas ss ds = Some b \<and> length b = (\<Sum>s \<leftarrow> ss. dsize s) \<and>
     twcc_times t ss (b @ rest) = Some (recon t ss ds)"
proof (induction ss arbitrary: ds t)
  case (Cons s ss)
  show ?case
  proof (cases "s = SYM_NONE")
    case True
    with Cons.prems obtain b where "twcc_deltas ss ds = Some b" "length b = (\<Sum>s \<leftarrow> ss. dsize s)"
      "twcc_times t ss (b @ rest) = Some (recon t ss ds)" using Cons.IH [of ds t] by auto
    with True show ?thesis by (intro exI [of _ b]) (simp add: sym_defs dsize_def)
  next
    case False
    then obtain d ds' where ds: "ds = d # ds'" "syms_ok ss ds'"
      and d: "s = SYM_SMALL \<and> 0 \<le> d \<and> d \<le> 255 \<or> s = SYM_LARGE \<and> - 32768 \<le> d \<and> d \<le> 32767"
      using Cons.prems by (auto split: list.splits)
    obtain b where b: "twcc_deltas ss ds' = Some b" "length b = (\<Sum>s \<leftarrow> ss. dsize s)"
      "twcc_times (t + d * 250) ss (b @ rest) = Some (recon (t + d * 250) ss ds')"
      using Cons.IH [OF ds(2)] by blast
    from d show ?thesis
    proof
      assume "s = SYM_SMALL \<and> 0 \<le> d \<and> d \<le> 255"
      with b show ?thesis
        using unat_u8_of_int [of d] by (intro exI [of _ "word_of_int d # b"]) (simp add: sym_defs dsize_def ds(1) Let_def)
    next
      assume "s = SYM_LARGE \<and> - 32768 \<le> d \<and> d \<le> 32767"
      with b show ?thesis using i16_of_int [of d]
        by (intro exI [of _ "be16 (word_of_int d) @ b"]) (simp add: sym_defs dsize_def ds(1) Let_def be16_def of_be16_be16)
    qed
  qed
qed simp

section \<open>The scan\<close>

definition accurate :: "int option \<Rightarrow> int option \<Rightarrow> bool" where
  "accurate t r \<longleftrightarrow> (case t of None \<Rightarrow> r = None | Some t \<Rightarrow> \<exists>t'. r = Some t' \<and> \<bar>t' - t\<bar> \<le> 125)"

lemma rounding: "\<bar>lst + (t - lst + 125) div 250 * 250 - t\<bar> \<le> (125 :: int)"
proof -
  have "(t - lst + 125) div 250 * 250 = t - lst + 125 - (t - lst + 125) mod 250"
    by (simp add: minus_mod_eq_div_mult)
  moreover have "0 \<le> (t - lst + 125) mod 250" "(t - lst + 125) mod 250 < 250" by simp_all
  ultimately show ?thesis by linarith
qed

lemma upt_shift: "map (\<lambda>k. f (s + int k)) [0..<Suc n] = f s # map (\<lambda>k. f (s + 1 + int k)) [0..<n]"
  by (simp only: upt_conv_Cons [of 0] zero_less_Suc list.map map_Suc_upt [symmetric] map_map comp_def) (simp add: algebra_simps)

lemma tw_scan_spec:
  "tw_scan arr mx s lst n = (ss, ds) \<Longrightarrow>
     syms_ok ss ds \<and> length ss \<le> 0xffff - n \<and>
     list_all2 accurate (map (\<lambda>k. bt_get arr (s + int k)) [0..<length ss]) (recon lst ss ds)"
proof (induction arr mx s lst n arbitrary: ss ds rule: tw_scan.induct)
  case (1 arr mx s lst n)
  show ?case
  proof (cases "s \<le> mx \<and> n < 0xffff")
    case False
    with "1.prems" show ?thesis by (simp add: tw_scan.simps)
  next
    case True
    show ?thesis
    proof (cases "bt_get arr s")
      case None
      obtain ss' ds' where r: "tw_scan arr mx (s + 1) lst (n + 1) = (ss', ds')" by fastforce
      with "1.prems" True None have "ss = SYM_NONE # ss'" "ds = ds'"
        by (auto simp: tw_scan.simps [of _ _ s])
      with "1.IH"(1) [OF True None r] True show ?thesis
        by (auto simp: upt_shift accurate_def None simp del: upt_Suc)
    next
      case (Some t)
      define d where "d = (t - lst + 125) div 250"
      show ?thesis
      proof (cases "d < - 32768 \<or> 32767 < d")
        case True
        with "1.prems" \<open>s \<le> mx \<and> n < 0xffff\<close> Some show ?thesis by (simp add: tw_scan.simps d_def Let_def)
      next
        case False
        obtain ss' ds' where r: "tw_scan arr mx (s + 1) (lst + d * 250) (n + 1) = (ss', ds')" by fastforce
        with "1.prems" True Some False
        have ss: "ss = (if 0 \<le> d \<and> d \<le> 255 then SYM_SMALL else SYM_LARGE) # ss'" "ds = d # ds'"
          by (auto simp: tw_scan.simps [of _ _ s] d_def Let_def)
        have "\<bar>lst + d * 250 - t\<bar> \<le> 125" unfolding d_def by (rule rounding)
        with "1.IH"(2) [OF True Some d_def False r] True False show ?thesis
          by (auto simp: ss upt_shift accurate_def Some sym_defs simp del: upt_Suc)
      qed
    qed
  qed
qed

section \<open>Trimming and size\<close>

lemma tw_trim_split: "\<exists>n. ss = tw_trim ss @ replicate n SYM_NONE"
proof -
  have "rev ss = takeWhile (\<lambda>x. x = SYM_NONE) (rev ss) @ dropWhile (\<lambda>x. x = SYM_NONE) (rev ss)" by simp
  then have "ss = tw_trim ss @ rev (takeWhile (\<lambda>x. x = SYM_NONE) (rev ss))"
    unfolding tw_trim_def by (metis rev_append rev_rev_ident)
  moreover have "takeWhile (\<lambda>x. x = SYM_NONE) xs = replicate (length (takeWhile (\<lambda>x. x = SYM_NONE) xs)) SYM_NONE" for xs
    by (metis (mono_tags, lifting) replicate_length_same set_takeWhileD)
  ultimately show ?thesis by (metis rev_replicate)
qed

lemma syms_ok_padded: "syms_ok (ss @ replicate n SYM_NONE) ds \<longleftrightarrow> syms_ok ss ds"
  by (induction ss arbitrary: ds) (induction n, auto split: list.splits)

lemma recon_padded:
  "syms_ok ss ds \<Longrightarrow> recon t (ss @ replicate n SYM_NONE) ds = recon t ss ds @ replicate n None"
  by (induction ss arbitrary: ds t) (induction n, auto split: list.splits)

lemma length_recon: "syms_ok ss ds \<Longrightarrow> length (recon t ss ds) = length ss"
  by (induction ss arbitrary: ds t) (auto split: list.splits if_splits)

lemma syms_ok_set: "syms_ok ss ds \<Longrightarrow> x \<in> set ss \<Longrightarrow> x < 4"
  by (induction ss arbitrary: ds) (auto simp: sym_defs split: if_splits list.splits)

lemma twcc_size:
  "2 * (length (twcc_chunks ss) + (\<Sum>s \<leftarrow> ss. dsize s)) \<le> 7 * length ss + (if ss \<noteq> [] \<and> hd ss = SYM_LARGE then 1 else 0)"
proof (induction ss rule: twcc_chunks.induct)
  case (1 ss)
  show ?case
  proof (cases ss)
    case (Cons sy r)
    obtain j where j: "j \<le> length r" "run_len sy r 1 = 1 + j" "take j r = replicate j sy"
      "j < length r \<longrightarrow> r ! j \<noteq> sy \<or> 1 + j = 0x1fff" using run_len_spec [of 1 r sy] by auto
    define rest where "rest = drop j r"
    have r: "r = replicate j sy @ rest" using append_take_drop_id [of j r] j(3) by (simp add: rest_def)
    have ih: "2 * (length (twcc_chunks rest) + (\<Sum>s \<leftarrow> rest. dsize s)) \<le>
        7 * length rest + (if rest \<noteq> [] \<and> hd rest = SYM_LARGE then 1 else 0)"
      using 1 [OF Cons refl refl] unfolding j(2) by (simp add: Cons rest_def)
    have chunks: "length (twcc_chunks ss) = 2 + length (twcc_chunks rest)"
      unfolding twcc_chunks.simps [of ss] by (simp add: Cons j(2) [simplified] Let_def rest_def)
    have sum: "(\<Sum>s \<leftarrow> ss. dsize s) = (1 + j) * dsize sy + (\<Sum>s \<leftarrow> rest. dsize s)"
      by (simp add: Cons r sum_list_replicate)
    have len: "length ss = 1 + j + length rest" by (simp add: Cons r)
    have hd: "hd ss = sy" "ss \<noteq> []" by (simp_all add: Cons)
    have other: "rest \<noteq> [] \<Longrightarrow> hd rest \<noteq> sy \<or> 1 \<le> j" using j(4) by (auto simp: rest_def hd_drop_conv_nth)
    have size: "dsize sy \<le> 2" "dsize sy = 2 \<longleftrightarrow> sy = SYM_LARGE" by (auto simp: dsize_def sym_defs)
    show ?thesis
    proof (cases "sy = SYM_LARGE")
      case True
      with size have "dsize sy = 2" by simp
      with True ih chunks sum len hd other show ?thesis by (auto simp: algebra_simps split: if_splits)
    next
      case False
      then have "(1 + j) * dsize sy \<le> (1 + j) * 1" using size by (intro mult_le_mono2) linarith
      with False ih chunks sum len hd show ?thesis by (auto split: if_splits)
    qed
  qed (simp add: twcc_chunks.simps)
qed

section \<open>The packet\<close>

lemma twcc_pad_spec:
  "\<exists>b0 pad. twcc_pad (x # r) = b0 # r @ pad \<and> (b0 = x \<or> b0 = x OR 0x20) \<and> length pad \<le> 3 \<and> 4 dvd Suc (length r + length pad)"
proof -
  define q where "q = (4 - length (x # r) mod 4) mod 4"
  from pad4 [of "length (x # r)"] have q: "q \<le> 3" "4 dvd Suc (length r) + q" by (simp_all add: q_def)
  have pad: "twcc_pad (x # r) = (if 0 < q then (x OR 0x20) # r @ replicate (q - 1) 0 @ [of_nat q] else x # r)"
    unfolding twcc_pad_def Let_def q_def [symmetric] by simp
  show ?thesis
  proof (cases "q = 0")
    case True
    with q show ?thesis by (intro exI [of _ x] exI [of _ "[]"]) (simp add: pad)
  next
    case False
    with q show ?thesis
      by (intro exI [of _ "x OR 0x20"] exI [of _ "replicate (q - 1) 0 @ [of_nat q]"])
        (simp add: pad)
  qed
qed

lemma recon_shift: "recon (t + c) ss ds = map (map_option ((+) c)) (recon t ss ds)"
proof (induction ss arbitrary: t ds)
  case (Cons s ss)
  have "recon (t + c + d * 250) ss ds' = map (map_option ((+) c)) (recon (t + d * 250) ss ds')" for d ds'
  proof -
    have "t + c + d * 250 = t + d * 250 + c" by simp
    then show ?thesis by (simp only: Cons)
  qed
  with Cons [of t] show ?case by (simp only: recon.simps) (auto simp only: list.map option.map add.assoc add.left_commute split: list.splits if_splits)
qed simp

lemma ref_time_word:
  fixes fb :: u8 and r :: int
  defines "R \<equiv> (word_of_int r :: u32) AND 0x00ffffff"
  shows "drop_bit 8 (push_bit 8 (R AND 0x00ffffff) OR ucast fb) = R"
    and "\<exists>q. (if R AND 0x800000 \<noteq> 0 then int (unat R) - 0x1000000 else int (unat R)) = r + q * 0x1000000"
proof -
  have mask: "x AND 0x00ffffff = take_bit 24 x" for x :: u32
    by (simp add: take_bit_eq_mask mask_eq_exp_minus_1)
  show "drop_bit 8 (push_bit 8 (R AND 0x00ffffff) OR ucast fb) = R"
    unfolding R_def mask by (rule bit_word_eqI) (auto simp: bit_simps dest: bit_imp_le_length)
  have "uint R = take_bit 24 (take_bit 32 r)"
    unfolding R_def mask by (simp add: unsigned_take_bit_eq uint_word_of_int_eq)
  then have "int (unat R) = take_bit 24 r" by simp
  then have "int (unat R) = r mod 0x1000000" by (simp add: take_bit_eq_mod)
  then have "int (unat R) = r + (- (r div 0x1000000)) * 0x1000000" by (simp add: minus_div_mult_eq_mod [symmetric])
  moreover from this have "int (unat R) - 0x1000000 = r + (- (r div 0x1000000) - 1) * 0x1000000" by simp
  ultimately show "\<exists>q. (if R AND 0x800000 \<noteq> 0 then int (unat R) - 0x1000000 else int (unat R)) = r + q * 0x1000000"
    by metis
qed

text \<open>The packet of any well-formed feedback is one packet of its compound and is read as the times it stands for.\<close>

lemma build_twcc_parse:
  assumes ok: "syms_ok (fb_symbols f) (fb_deltas f)"
    and len: "length (fb_symbols f) \<le> 0xffff" "fb_status_count f = of_nat (length (fb_symbols f))"
    and ref: "fb_reference_time f = word_of_int r AND 0x00ffffff"
  shows "\<exists>pkt body q. build_twcc media f = Some pkt \<and>
    rtcp_split (pkt @ rest) = \<lparr>pk_fmt = 15, pk_pt = 205, pk_body = body\<rparr> # rtcp_split rest \<and>
    parse_twcc body = Some (fb_base_seq f, recon ((r + q * 0x1000000) * 64000) (fb_symbols f) (fb_deltas f))"
proof -
  define R where "R = fb_reference_time f"
  obtain q where q: "(if R AND 0x800000 \<noteq> 0 then int (unat R) - 0x1000000 else int (unat R)) = r + q * 0x1000000"
    using ref_time_word(2) [of r] unfolding R_def ref by blast
  define rt where "rt = push_bit 8 (R AND 0x00ffffff) OR ucast (fb_fb_count f)"
  have rt: "drop_bit 8 rt = R" unfolding rt_def R_def ref by (rule ref_time_word(1))
  define head where "head = be32 SENDER_SSRC @ be32 media @ be16 (fb_base_seq f) @ be16 (fb_status_count f) @ be32 rt"
  obtain ds where ds: "twcc_deltas (fb_symbols f) (fb_deltas f) = Some ds"
      "length ds = (\<Sum>s \<leftarrow> fb_symbols f. dsize s)"
    using deltas_times [OF ok, of 0 "[]"] by blast
  define tail where "tail = head @ twcc_chunks (fb_symbols f) @ ds"
  obtain b0 pad where pad: "twcc_pad ((0x8f :: u8) # [205, 0, 0] @ tail) = b0 # ([205, 0, 0] @ tail) @ pad"
      "b0 = 0x8f \<or> b0 = 0x8f OR 0x20" "length pad \<le> 3" "4 dvd Suc (length ([205, 0, 0] @ tail) + length pad)"
    using twcc_pad_spec by blast
  define body where "body = tail @ pad"
  have "4 dvd length body" using pad(4) by (simp add: body_def) presburger
  then obtain n where n: "length body = n * 4" by (metis dvd_def mult.commute)
  have "length body \<le> 229393 + 4"
    using twcc_size [of "fb_symbols f"] len(1) ds(2) pad(3) by (simp add: body_def tail_def head_def split: if_splits)
  then have small: "n < 65536" using n by simp
  have header: "rtcp_header 15 205 0 = [0x8f, 205, 0, 0]" by (simp add: rtcp_header_def be16_def)
  have "build_twcc media f = Some (fix_len (b0 # [205, 0, 0] @ body))"
  proof -
    have "(rtcp_header 15 205 0 @ be32 SENDER_SSRC @ be32 media @ be16 (fb_base_seq f) @ be16 (fb_status_count f)
        @ be32 rt @ twcc_chunks (fb_symbols f)) @ ds = 0x8f # [205, 0, 0] @ tail"
      by (simp add: header tail_def head_def)
    then show ?thesis
      unfolding build_twcc_def Let_def ds(1) option.map R_def [symmetric] rt_def [symmetric] body_def
      by (simp only: pad(1) append_assoc)
  qed
  moreover have "fix_len (b0 # [205, 0, 0] @ body) = [b0, 205] @ be16 (of_nat n) @ body"
    by (simp add: fix_len_def n)
  moreover have "drop_bit 6 b0 = 2" "b0 AND 0x1f = 15" using pad(2) by auto
  moreover have "parse_twcc body = Some (fb_base_seq f, recon ((r + q * 0x1000000) * 64000) (fb_symbols f) (fb_deltas f))"
  proof -
    have "unat (fb_status_count f) = length (fb_symbols f)"
      using len by (simp add: unat_of_nat take_bit_eq_mod)
    moreover have "be16_at body 8 = Some (fb_base_seq f)" "be16_at body 10 = Some (fb_status_count f)" "be32_at body 12 = Some rt"
      by (simp_all add: body_def tail_def head_def be16_at_def be32_at_def be16_def be32_def of_be16_be16 of_be32_be32)
    moreover have "drop 16 body = twcc_chunks (fb_symbols f) @ ds @ pad"
      by (simp add: body_def tail_def head_def)
    moreover have "twcc_times t (fb_symbols f) (ds @ pad) = Some (recon t (fb_symbols f) (fb_deltas f))" for t
      using deltas_times [OF ok, of t pad] ds(1) by auto
    ultimately show ?thesis
      using syms_ok_set [OF ok] by (simp add: parse_twcc_def Let_def rt q twcc_syms_chunks)
  qed
  ultimately show ?thesis
    using rtcp_split_raw [OF _ n small, of b0 205 rest]
    by (intro exI [of _ "fix_len (b0 # [205, 0, 0] @ body)"] exI [of _ body] exI [of _ q]) simp
qed

lemma tw_build_feedback:
  assumes "tw_build s = (Some f, s')"
  obtains w r where "window_start s = Some w" "fb_symbols f \<noteq> []" "fb_base_seq f = word_of_int w"
    "fb_status_count f = of_nat (length (fb_symbols f))" "fb_reference_time f = word_of_int r AND 0x00ffffff"
    "s' = s\<lparr>tw_fb_count := tw_fb_count s + 1, window_start := Some (w + int (length (fb_symbols f)))\<rparr>"
    "syms_ok (fb_symbols f) (fb_deltas f)" "length (fb_symbols f) \<le> 0xffff"
    "list_all2 accurate (map (\<lambda>k. bt_get (arrivals s) (w + int k)) [0..<length (fb_symbols f)])
       (recon (r * 64000) (fb_symbols f) (fb_deltas f))"
proof -
  obtain w seq t es where w: "window_start s = Some w" and range: "tw_range s w = (seq, t) # es"
    using assms by (auto simp: tw_build_def split: option.splits list.splits)
  define r where "r = t div 64000"
  define mx where "mx = (if arrivals s = [] then seq else fst (last (arrivals s)))"
  obtain ss ds where scan: "tw_scan (arrivals s) mx w (r * 64000) 0 = (ss, ds)" by fastforce
  define ys where "ys = tw_trim ss"
  have f: "ys \<noteq> []" "fb_base_seq f = word_of_int w" "fb_status_count f = of_nat (length ys)"
      "fb_reference_time f = word_of_int r AND 0x00ffffff" "fb_symbols f = ys" "fb_deltas f = ds"
      "s' = s\<lparr>tw_fb_count := tw_fb_count s + 1, window_start := Some (w + int (length ys))\<rparr>"
    using assms scan by (auto simp: tw_build_def w range Let_def ys_def r_def mx_def split: if_splits)
  obtain n where ss: "ss = ys @ replicate n SYM_NONE" using tw_trim_split [of ss] unfolding ys_def by blast
  have spec: "syms_ok ss ds" "length ss \<le> 0xffff"
      "list_all2 accurate (map (\<lambda>k. bt_get (arrivals s) (w + int k)) [0..<length ss]) (recon (r * 64000) ss ds)"
    using tw_scan_spec [OF scan] by simp_all
  then have ok: "syms_ok ys ds" unfolding ss syms_ok_padded by simp
  have "list_all2 accurate (take (length ys) (map (\<lambda>k. bt_get (arrivals s) (w + int k)) [0..<length ss]))
      (take (length ys) (recon (r * 64000) ss ds))" using spec(3) by (rule list_all2_takeI)
  then have "list_all2 accurate (map (\<lambda>k. bt_get (arrivals s) (w + int k)) [0..<length ys]) (recon (r * 64000) ys ds)"
    by (simp add: take_map ss recon_padded [OF ok] length_recon [OF ok])
  with that [of w r] w f ok spec(2) ss show thesis by simp
qed

text \<open>
  Feedback tells the truth (C25): whatever the window holds, a feedback that is built can be encoded (no delta is
  missing), is read back as one packet of its compound, and tells for every number it covers whether the
  packet arrived and, if so, when, to within 125 microseconds; the times are relative to the wrap of the
  24-bit reference time, the same for the whole packet. After it the window starts behind the last
  number it covers.
\<close>

theorem twcc_feedback_accurate:
  assumes "tw_build s = (Some f, s')"
  shows "\<exists>w pkt body out q. window_start s = Some w \<and> build_twcc media f = Some pkt \<and>
    rtcp_split (pkt @ rest) = \<lparr>pk_fmt = 15, pk_pt = 205, pk_body = body\<rparr> # rtcp_split rest \<and>
    parse_twcc body = Some (word_of_int w, out) \<and> out \<noteq> [] \<and> window_start s' = Some (w + int (length out)) \<and>
    list_all2 accurate (map (\<lambda>k. bt_get (arrivals s) (w + int k)) [0..<length out])
      (map (map_option ((+) (q * 0x1000000 * 64000))) out)"
proof -
  obtain w r where w: "window_start s = Some w" and f: "fb_symbols f \<noteq> []" "fb_base_seq f = word_of_int w"
      "s' = s\<lparr>tw_fb_count := tw_fb_count s + 1, window_start := Some (w + int (length (fb_symbols f)))\<rparr>"
    and ok: "syms_ok (fb_symbols f) (fb_deltas f)" "length (fb_symbols f) \<le> 0xffff"
      "fb_status_count f = of_nat (length (fb_symbols f))" "fb_reference_time f = word_of_int r AND 0x00ffffff"
    and acc: "list_all2 accurate (map (\<lambda>k. bt_get (arrivals s) (w + int k)) [0..<length (fb_symbols f)])
      (recon (r * 64000) (fb_symbols f) (fb_deltas f))"
    using tw_build_feedback [OF assms] by metis
  from build_twcc_parse [OF ok, of media rest] f(2) obtain pkt body q where
    p: "build_twcc media f = Some pkt" "rtcp_split (pkt @ rest) = \<lparr>pk_fmt = 15, pk_pt = 205, pk_body = body\<rparr> # rtcp_split rest"
      "parse_twcc body = Some (word_of_int w, recon ((r + q * 0x1000000) * 64000) (fb_symbols f) (fb_deltas f))" by auto
  define out where "out = recon ((r + q * 0x1000000) * 64000) (fb_symbols f) (fb_deltas f)"
  have "recon (r * 64000) (fb_symbols f) (fb_deltas f) = map (map_option ((+) (- q * 0x1000000 * 64000))) out"
    using recon_shift [of "(r + q * 0x1000000) * 64000" "- q * 0x1000000 * 64000" "fb_symbols f" "fb_deltas f"]
    by (simp add: out_def algebra_simps)
  moreover have out: "length out = length (fb_symbols f)" by (simp add: out_def length_recon [OF ok(1)])
  moreover have "out \<noteq> []" using out f(1) by auto
  ultimately show ?thesis
    using w p(1,2) p(3) [folded out_def] f(3) acc
    by (intro exI [of _ w] exI [of _ pkt] exI [of _ body] exI [of _ out] exI [of _ "- q"]) simp
qed

definition demo_window :: twcc_recv where
  "demo_window = tw_record 13 1090000 (tw_record 11 1020000 (tw_record 10 1000000 twcc_new))"

lemmas tw_exec = demo_window_def tw_record_def tw_unwrap_def twcc_new_def i16_of_def Let_def KEEP_US_def bt_get_def bt_retain_def

lemma demo_window_build: "\<exists>f s'. tw_build demo_window = (Some f, s')"
  by (simp add: tw_exec tw_build_def tw_range_def tw_scan.simps tw_trim_def sym_defs)

theorem twcc_feedback_accurate_witness:
  "\<exists>f s' pkt. tw_build demo_window = (Some f, s') \<and> build_twcc 9 f = Some pkt"
  using demo_window_build twcc_feedback_accurate [of demo_window _ _ 9] by blast

section \<open>Nothing is forgotten\<close>

datatype tw_event = TwRecord u16 int | TwFlush

definition tw_step :: "twcc_recv \<Rightarrow> tw_event \<Rightarrow> twcc_recv" where
  "tw_step s e = (case e of TwRecord seq t \<Rightarrow> tw_record seq t s | TwFlush \<Rightarrow> snd (tw_flush s))"

text \<open>
  What the recorded numbers look like from the start \<open>w\<close> of the window: none is beyond the newest \<open>l\<close>; where
  there is one at or after \<open>x\<close>, there is one at most 65534 further, which is as far as one feedback reaches.
  The last conjunct says why a new number keeps this so.
\<close>

definition window_ok :: "int set \<Rightarrow> int \<Rightarrow> int \<Rightarrow> bool" where
  "window_ok K w l \<longleftrightarrow> (\<forall>k \<in> K. k \<le> l) \<and>
     (\<forall>x \<ge> w. (\<exists>k \<in> K. x \<le> k) \<longrightarrow> (\<exists>k \<in> K. x \<le> k \<and> k \<le> x + 65534)) \<and>
     (l \<in> K \<or> l - 32768 < w \<or> l - 32768 = w \<and> w \<in> K)"

definition tw_inv :: "twcc_recv \<Rightarrow> bool" where
  "tw_inv s \<longleftrightarrow> bt_ok (arrivals s) \<and>
     (case (window_start s, last_unwrapped s) of
        (None, None) \<Rightarrow> arrivals s = []
      | (Some w, Some l) \<Rightarrow> window_ok (fst ` set (arrivals s)) w l
      | _ \<Rightarrow> False)"

lemma window_ok_record:
  assumes K: "window_ok K w l" and u: "l - 32768 \<le> u" "u \<le> l + 32767"
    and K': "K' \<subseteq> insert u K" "\<And>k. k \<in> insert u K \<Longrightarrow> min u w \<le> k \<Longrightarrow> k \<in> K'"
  shows "window_ok K' (min u w) (max l u)"
proof -
  have le: "k \<le> l" if "k \<in> K" for k using K that by (auto simp: window_ok_def)
  have gap: "\<exists>k \<in> K. x \<le> k \<and> k \<le> x + 65534" if "w \<le> x" "k \<in> K" "x \<le> k" for x k
    using K that by (auto simp: window_ok_def)
  have top: "l \<in> K \<or> l - 32768 < w \<or> l - 32768 = w \<and> w \<in> K" using K by (auto simp: window_ok_def)
  have "\<exists>k \<in> K'. x \<le> k \<and> k \<le> x + 65534" if x: "min u w \<le> x" and k: "k \<in> K'" "x \<le> k" for x k
  proof (cases "\<exists>k \<in> K. x \<le> k")
    case False
    then have "x \<le> u" using k K'(1) by auto
    moreover have "u \<le> x + 65534"
    proof (cases "w \<le> x")
      case True
      with False top u(2) show ?thesis by (smt (verit, best))
    next
      case below: False
      with x \<open>x \<le> u\<close> show ?thesis by simp
    qed
    ultimately show ?thesis using K'(2) x by (intro bexI [of _ u]) auto
  next
    case True
    then obtain k0 where k0: "k0 \<in> K" "x \<le> k0" by blast
    show ?thesis
    proof (cases "w \<le> x")
      case True
      then obtain k where "k \<in> K" "x \<le> k" "k \<le> x + 65534" using gap k0 by blast
      then show ?thesis using K'(2) x by (intro bexI [of _ k]) auto
    next
      case False
      then have "k0 \<le> x + 65534" using le [OF k0(1)] u x by auto
      then show ?thesis using K'(2) x k0 by (intro bexI [of _ k0]) auto
    qed
  qed
  moreover have "k \<le> max l u" if "k \<in> K'" for k using that K'(1) le by fastforce
  moreover have "max l u \<in> K' \<or> max l u - 32768 < min u w \<or> max l u - 32768 = min u w \<and> min u w \<in> K'"
  proof (cases "l < u")
    case True
    then show ?thesis using K'(2) [of u] by (simp add: max_def)
  next
    case False
    then have max: "max l u = l" by simp
    have "l \<in> K'" if "l \<in> K" using K'(2) [of l] that False by simp
    moreover have "u \<in> K'" using K'(2) by simp
    moreover have "w \<in> K'" if "w \<in> K" using K'(2) [of w] that by simp
    ultimately show ?thesis using top u(1) max by (cases "u \<le> w") (auto simp: min_def)
  qed
  ultimately show ?thesis unfolding window_ok_def by blast
qed

lemma i16_of_range: "- 32768 \<le> i16_of w" "i16_of w \<le> 32767"
proof -
  define n where "n = unat w"
  have "n < 65536" by (simp add: n_def)
  then show "- 32768 \<le> i16_of w" "i16_of w \<le> 32767" unfolding i16_of_eq n_def [symmetric] by auto
qed

lemma tw_record_inv:
  assumes "tw_inv s"
  shows "tw_inv (tw_record seq t s)"
proof (cases "window_start s")
  case None
  with assms have "last_unwrapped s = None" "arrivals s = []" by (auto simp: tw_inv_def split: option.splits)
  with None show ?thesis
    by (simp add: tw_record_def tw_unwrap_def Let_def tw_inv_def bt_retain_def window_ok_def bt_ok_def)
next
  case (Some w)
  with assms obtain l where l: "last_unwrapped s = Some l" and ok: "bt_ok (arrivals s)" "window_ok (fst ` set (arrivals s)) w l"
    by (auto simp: tw_inv_def split: option.splits)
  define u where "u = l + i16_of (seq - word_of_int l)"
  define m where "m = (case bt_get (arrivals s) u of None \<Rightarrow> bt_insert u t (arrivals s) | Some _ \<Rightarrow> arrivals s)"
  have m: "bt_ok m" "fst ` set m = insert u (fst ` set (arrivals s))"
    using ok(1) bt_get_Some_key [of "arrivals s" u] by (auto simp: m_def bt_keys_def split: option.split)
  obtain p where rec: "arrivals (tw_record seq t s) = bt_retain p m" "window_start (tw_record seq t s) = Some (min u w)"
      "last_unwrapped (tw_record seq t s) = Some (max l u)" and p: "\<And>k t. min u w \<le> k \<Longrightarrow> p k t"
  proof
    let ?n = "if newest_us s < t then t else newest_us s"
    show "arrivals (tw_record seq t s) = bt_retain (\<lambda>k t. ?n - KEEP_US \<le> t \<or> min u w \<le> k) m"
      by (auto simp: tw_record_def tw_unwrap_def Let_def l Some m_def simp flip: u_def split: option.split)
    show "window_start (tw_record seq t s) = Some (min u w)" "last_unwrapped (tw_record seq t s) = Some (max l u)"
      by (auto simp: tw_record_def tw_unwrap_def Let_def l Some simp flip: u_def split: option.split)
  qed simp
  have "window_ok (fst ` set (bt_retain p m)) (min u w) (max l u)"
  proof (rule window_ok_record [OF ok(2)])
    show "l - 32768 \<le> u" "u \<le> l + 32767" using i16_of_range [of "seq - word_of_int l"] by (simp_all add: u_def)
    show "fst ` set (bt_retain p m) \<subseteq> insert u (fst ` set (arrivals s))"
      unfolding m(2) [symmetric] by (intro image_mono) (auto simp: bt_retain_def)
    show "k \<in> fst ` set (bt_retain p m)" if "k \<in> insert u (fst ` set (arrivals s))" "min u w \<le> k" for k
      using that p unfolding m(2) [symmetric] by (auto simp: bt_retain_def image_iff)
  qed
  with m(1) show ?thesis by (simp add: tw_inv_def rec)
qed

lemma tw_trim_Nil: "tw_trim ss = [] \<longleftrightarrow> (\<forall>x \<in> set ss. x = SYM_NONE)"
  by (auto simp: tw_trim_def)

lemma tw_scan_hits:
  assumes "\<And>k. s \<le> k \<Longrightarrow> k < x \<Longrightarrow> bt_get arr k = None" "bt_get arr x = Some t" "s \<le> x" "x \<le> mx"
    "n + nat (x - s) < 0xffff" "- 32768 \<le> (t - lst + 125) div 250" "(t - lst + 125) div 250 \<le> 32767"
  shows "\<exists>y \<in> set (fst (tw_scan arr mx s lst n)). y \<noteq> SYM_NONE"
  using assms
proof (induction "nat (x - s)" arbitrary: s n)
  case 0
  then have "s = x" by simp
  with "0.prems" show ?case by (subst tw_scan.simps) (auto simp: Let_def sym_defs split: prod.split)
next
  case (Suc m)
  then have "s < x" by simp
  with Suc.prems have "bt_get arr s = None" by simp
  moreover have "\<exists>y \<in> set (fst (tw_scan arr mx (s + 1) lst (n + 1))). y \<noteq> SYM_NONE"
    by (rule Suc.hyps(1)) (use Suc.hyps(2) Suc.prems \<open>s < x\<close> in auto)
  ultimately show ?case
    using Suc.prems \<open>s < x\<close> by (auto simp: tw_scan.simps [of _ _ s] split: prod.split)
qed

lemma sorted_le_last: "sorted xs \<Longrightarrow> x \<in> set xs \<Longrightarrow> x \<le> last xs"
  by (induction xs) auto

lemma tw_pending_build:
  assumes inv: "tw_inv s" and "tw_pending s"
  shows "\<exists>f s'. tw_build s = (Some f, s')"
proof -
  obtain w where w: "window_start s = Some w" and "tw_range s w \<noteq> []"
    using assms(2) by (auto simp: tw_pending_def split: option.splits)
  then obtain x t es where range: "tw_range s w = (x, t) # es" by (cases "tw_range s w") auto
  obtain l where ok: "bt_ok (arrivals s)" "window_ok (fst ` set (arrivals s)) w l"
    using inv w by (auto simp: tw_inv_def split: option.splits)
  have filt: "filter (\<lambda>e. w \<le> fst e) (arrivals s) = (x, t) # es" using range by (simp add: tw_range_def)
  have "(x, t) \<in> set (filter (\<lambda>e. w \<le> fst e) (arrivals s))" unfolding filt by simp
  then have xt: "(x, t) \<in> set (arrivals s)" "w \<le> x" by simp_all
  have sorted: "sorted_wrt (<) (map fst ((x, t) # es))"
    using bt_ok_filter [OF ok(1), of "\<lambda>e. w \<le> fst e"] unfolding filt bt_ok_def .
  have first: "x \<le> k" if "k \<in> fst ` set (arrivals s)" "w \<le> k" for k
  proof -
    have "k \<in> fst ` set (filter (\<lambda>e. w \<le> fst e) (arrivals s))" using that by auto
    then show ?thesis using sorted unfolding filt by auto
  qed
  have near: "x \<le> w + 65534"
  proof -
    have "x \<in> fst ` set (arrivals s)" using xt(1) by force
    then obtain k where "k \<in> fst ` set (arrivals s)" "w \<le> k" "k \<le> w + 65534"
      using ok(2) xt(2) unfolding window_ok_def by blast
    with first [of k] show ?thesis by linarith
  qed
  have dist: "distinct (map fst (arrivals s))" using ok(1) by (simp add: bt_ok_def strict_sorted_iff)
  then have get: "bt_get (arrivals s) x = Some t" using xt(1) by (simp add: bt_get_def)
  have none: "bt_get (arrivals s) k = None" if "w \<le> k" "k < x" for k
    using first [of k] that by (force simp: bt_get_def map_of_eq_None_iff)
  have mx: "x \<le> fst (last (arrivals s))"
  proof -
    have "sorted (map fst (arrivals s))" using ok(1) by (simp add: bt_ok_def strict_sorted_imp_sorted)
    moreover have "x \<in> set (map fst (arrivals s))" using xt(1) by force
    ultimately have "x \<le> last (map fst (arrivals s))" by (rule sorted_le_last)
    then show ?thesis using xt(1) by (metis empty_iff empty_set last_map)
  qed
  have ne: "arrivals s \<noteq> []" using xt(1) by auto
  define lst where "lst = t div 64000 * 64000"
  have "0 \<le> t - lst" "t - lst < 64000" by (simp_all add: lst_def minus_div_mult_eq_mod)
  then have d: "- 32768 \<le> (t - lst + 125) div 250" "(t - lst + 125) div 250 \<le> 32767" by simp_all
  have "\<exists>y \<in> set (fst (tw_scan (arrivals s) (fst (last (arrivals s))) w lst 0)). y \<noteq> SYM_NONE"
    by (rule tw_scan_hits [OF none get xt(2) mx _ d]) (use near xt(2) in auto)
  then have "tw_trim (fst (tw_scan (arrivals s) (fst (last (arrivals s))) w lst 0)) \<noteq> []" by (simp add: tw_trim_Nil)
  then show ?thesis by (auto simp: tw_build_def w range ne Let_def lst_def split: prod.split)
qed

lemma tw_build_inv:
  assumes inv: "tw_inv s" and "tw_build s = (Some f, s')"
  shows "tw_inv s'" "arrivals s' = arrivals s"
proof -
  obtain w where w: "window_start s = Some w" "fb_symbols f \<noteq> []"
    and s': "s' = s\<lparr>tw_fb_count := tw_fb_count s + 1, window_start := Some (w + int (length (fb_symbols f)))\<rparr>"
    using tw_build_feedback [OF assms(2)] by metis
  show "arrivals s' = arrivals s" by (simp add: s')
  obtain l where l: "last_unwrapped s = Some l" "bt_ok (arrivals s)" "window_ok (fst ` set (arrivals s)) w l"
    using inv w by (auto simp: tw_inv_def split: option.splits)
  have "0 < length (fb_symbols f)" using w(2) by simp
  then have "window_ok (fst ` set (arrivals s)) (w + int (length (fb_symbols f))) l"
    using l(3) unfolding window_ok_def by auto
  then show "tw_inv s'" by (simp add: s' tw_inv_def l)
qed

text \<open>The symbols of a feedback tell, number by number, what has arrived.\<close>

lemma recon_None: "syms_ok ss ds \<Longrightarrow> map (\<lambda>r. r = None) (recon t ss ds) = map (\<lambda>x. x = SYM_NONE) ss"
  by (induction ss arbitrary: ds t) (auto split: list.splits if_splits)

lemma accurate_None: "list_all2 accurate ts rs \<Longrightarrow> map (\<lambda>t. t = None) ts = map (\<lambda>r. r = None) rs"
  by (induction rule: list_all2_induct) (auto simp: accurate_def split: option.splits)

lemma tw_build_symbols:
  assumes "tw_build s = (Some f, s')" "window_start s = Some w"
  shows "map (\<lambda>x. x = SYM_NONE) (fb_symbols f) = map (\<lambda>k. bt_get (arrivals s) (w + int k) = None) [0..<length (fb_symbols f)]"
proof -
  obtain r where "syms_ok (fb_symbols f) (fb_deltas f)" and "list_all2 accurate
      (map (\<lambda>k. bt_get (arrivals s) (w + int k)) [0..<length (fb_symbols f)]) (recon (r * 64000) (fb_symbols f) (fb_deltas f))"
    using tw_build_feedback [OF assms(1)] assms(2) by (metis option.inject)
  then show ?thesis using accurate_None recon_None by (fastforce simp: comp_def)
qed

lemma tw_flush_complete:
  assumes "tw_inv s" "window_start s = Some w" "tw_flush s = (fs, s')"
  shows "tw_inv s' \<and> \<not> tw_pending s' \<and> arrivals s' = arrivals s \<and>
    window_start s' = Some (w + int (length (concat (map fb_symbols fs)))) \<and>
    map (\<lambda>x. x = SYM_NONE) (concat (map fb_symbols fs))
      = map (\<lambda>k. bt_get (arrivals s) (w + int k) = None) [0..<length (concat (map fb_symbols fs))]"
  using assms
proof (induction s arbitrary: w fs rule: tw_flush.induct)
  case (1 s)
  show ?case
  proof (cases "tw_pending s")
    case False
    with "1.prems" show ?thesis by (simp add: tw_flush.simps [of s])
  next
    case True
    obtain f s1 where build: "tw_build s = (Some f, s1)" using tw_pending_build [OF "1.prems"(1) True] by blast
    obtain gs where fs: "fs = f # gs" "tw_flush s1 = (gs, s')"
      using "1.prems"(3) True build by (auto simp: tw_flush.simps [of s] split: prod.splits)
    define n where "n = length (fb_symbols f)"
    have s1: "window_start s1 = Some (w + int n)" "tw_inv s1" "arrivals s1 = arrivals s"
    proof -
      obtain w' where "window_start s = Some w'"
        "s1 = s\<lparr>tw_fb_count := tw_fb_count s + 1, window_start := Some (w' + int (length (fb_symbols f)))\<rparr>"
        using tw_build_feedback [OF build] by metis
      then show "window_start s1 = Some (w + int n)" using "1.prems"(2) by (simp add: n_def)
    qed (rule tw_build_inv [OF "1.prems"(1) build])+
    define m where "m = length (concat (map fb_symbols gs))"
    have ih: "tw_inv s' \<and> \<not> tw_pending s' \<and> arrivals s' = arrivals s \<and> window_start s' = Some (w + int n + int m) \<and>
        map (\<lambda>x. x = SYM_NONE) (concat (map fb_symbols gs)) = map (\<lambda>k. bt_get (arrivals s) (w + int n + int k) = None) [0..<m]"
      using "1.IH" [OF True build [symmetric] refl s1(2,1) fs(2)] by (simp add: s1(3) m_def)
    have "[0..<n + m] = [0..<n] @ map (\<lambda>k. k + n) [0..<m]"
      unfolding map_add_upt by (metis add.commute le0 upt_add_eq_append)
    then show ?thesis
      using ih tw_build_symbols [OF build "1.prems"(2)] by (simp add: fs(1) n_def [symmetric] m_def [symmetric] comp_def add.assoc add.commute add.left_commute)
  qed
qed

interpretation twcc: machine twcc_new tw_step tw_inv
proof
  show "tw_inv twcc_new" by (simp add: tw_inv_def twcc_new_def)
next
  fix s e assume inv: "tw_inv s"
  show "tw_inv (tw_step s e)"
  proof (cases e)
    case (TwRecord seq t)
    then show ?thesis using tw_record_inv [OF inv] by (simp add: tw_step_def)
  next
    case TwFlush
    show ?thesis
    proof (cases "window_start s")
      case None
      then show ?thesis using inv by (simp add: tw_step_def TwFlush tw_flush.simps [of s] tw_pending_def)
    next
      case (Some w)
      then show ?thesis
        using tw_flush_complete [OF inv Some, of "fst (tw_flush s)" "snd (tw_flush s)"] by (simp add: tw_step_def TwFlush)
    qed
  qed
qed

text \<open>
  No received packet is left unreported (C26): after any packets and feedback rounds, a round of the uplink tick
  ends with nothing pending, and the symbols of its feedbacks, put together, go over the numbers from the
  start of the window to the newest, each exactly once, and mark as received exactly those that arrived.
\<close>

theorem twcc_reports_everything:
  assumes "s = run_from tw_step twcc_new es" "window_start s = Some w" "tw_flush s = (fs, s')"
    and "syms = concat (map fb_symbols fs)"
  shows "\<not> tw_pending s' \<and> window_start s' = Some (w + int (length syms)) \<and>
    map (\<lambda>x. x = SYM_NONE) syms = map (\<lambda>k. bt_get (arrivals s) (w + int k) = None) [0..<length syms] \<and>
    (\<forall>k \<ge> w + int (length syms). bt_get (arrivals s) k = None)"
proof -
  have inv: "tw_inv s" unfolding assms(1) by (rule twcc.inv_run)
  note flush = tw_flush_complete [OF inv assms(2,3), folded assms(4)]
  have "bt_get (arrivals s) k = None" if "w + int (length syms) \<le> k" for k
    using flush that by (fastforce simp: tw_pending_def tw_range_def filter_empty_conv bt_get_def map_of_eq_None_iff)
  with flush show ?thesis by blast
qed

lemma demo_window_run:
  "demo_window = run_from tw_step twcc_new [TwRecord 10 1000000, TwRecord 11 1020000, TwRecord 13 1090000]"
  "window_start demo_window = Some 10"
  by (simp_all add: tw_step_def demo_window_def) (simp add: tw_exec)

theorem twcc_reports_everything_witness: "\<not> tw_pending (snd (tw_flush demo_window))"
  using twcc_reports_everything [OF demo_window_run prod.collapse [symmetric] refl] by blast

end
