(* ===== verification/Rtcp_Stats.thy ===== *)
theory Rtcp_Stats
  imports Rtcp_Core
begin

text \<open>
  The receiver statistics against the stream as it was sent: packets carry the low 16 bits of extended
  sequence numbers, arrive in any order within the limits of the code, and the report counts them.
\<close>

section \<open>One packet\<close>

definition tracks :: "'j recv_stats \<Rightarrow> nat \<Rightarrow> nat \<Rightarrow> nat \<Rightarrow> bool" where
  "tracks s b m c \<longleftrightarrow> started s \<and> probation s = 0 \<and> b \<le> m \<and> max_seq s = of_nat m \<and>
     extended_max s = of_nat (b mod 65536 + (m - b)) \<and> base_seq s = of_nat (b mod 65536) \<and> received s = of_nat c"

text \<open>A packet counts when it is fewer than 3000 ahead of the newest, or fewer than 100 behind.\<close>

definition in_window :: "nat \<Rightarrow> nat \<Rightarrow> bool" where
  "in_window m e \<longleftrightarrow> e < m + 3000 \<and> m < e + 100"

lemma unat_u16_mod: "unat (of_nat n :: u16) = n mod 65536"
  by (simp add: unat_of_nat take_bit_eq_mod)

lemma ucast_u16_of_nat: "(ucast (of_nat n :: u16) :: u32) = of_nat (n mod 65536)"
proof -
  have "unat (ucast (of_nat n :: u16) :: u32) = n mod 65536"
    by (simp add: unsigned_ucast_eq unat_of_nat take_bit_eq_mod)
  then show ?thesis by (metis of_nat_unat ucast_id)
qed

lemma udelta_ahead:
  assumes "m \<le> e" "e < m + 3000"
  shows "(ucast ((of_nat e :: u16) - of_nat m) :: u32) = of_nat (e - m)"
proof -
  have "(of_nat e :: u16) - of_nat m = of_nat (e - m)" using assms(1) by (simp add: of_nat_diff)
  then show ?thesis using assms(2) by (simp only: ucast_u16_of_nat) simp
qed

lemma udelta_behind:
  assumes "e < m" "m < e + 100"
  shows "(ucast ((of_nat e :: u16) - of_nat m) :: u32) = of_nat (65536 - (m - e))"
proof -
  have "(of_nat (e + 65536) :: u16) = of_nat e" by simp
  then have "(of_nat e :: u16) - of_nat m = of_nat (e + 65536) - of_nat m" by simp
  also have "\<dots> = of_nat (65536 - (m - e))" using assms by (subst of_nat_diff [symmetric]) auto
  finally show ?thesis using assms by (simp only: ucast_u16_of_nat) simp
qed

lemma unat_u32_of_nat: "k \<le> 65536 \<Longrightarrow> unat (of_nat k :: u32) = k"
  by (simp add: unat_of_nat take_bit_eq_mod)

lemma cycles_ahead:
  fixes m e :: nat
  assumes "m \<le> e" "e < m + 3000"
  shows "(if e mod 65536 < m mod 65536 then 65536 else 0) + e mod 65536 = m mod 65536 + (e - m)"
proof -
  obtain d where e: "e = m + d" "d < 3000" using assms by (metis le_add_diff_inverse less_diff_conv2 add.commute)
  have "e mod 65536 = (m mod 65536 + d) mod 65536" by (simp add: e mod_add_left_eq)
  moreover have m: "m mod 65536 < 65536" by simp
  moreover have "(m mod 65536 + d) mod 65536 = (if m mod 65536 + d < 65536 then m mod 65536 + d else m mod 65536 + d - 65536)"
  proof (cases "m mod 65536 + d < 65536")
    case False
    then have "(m mod 65536 + d) mod 65536 = (m mod 65536 + d - 65536) mod 65536" by (simp add: le_mod_geq)
    also have "\<dots> = m mod 65536 + d - 65536" using m e(2) by (intro mod_less) linarith
    finally show ?thesis using False by simp
  qed simp
  ultimately show ?thesis using e by (auto split: if_splits)
qed

lemma tracks_step:
  assumes s: "tracks s b m c" and e: "in_window m e"
  shows "tracks (fst (update_seq (of_nat e) s)) b (max m e) (Suc c)" "snd (update_seq (of_nat e) s)"
proof -
  have st: "started s" "probation s = 0" "max_seq s = of_nat m" "b \<le> m" "received s = of_nat c"
    using s by (simp_all add: tracks_def)
  have "tracks (fst (update_seq (of_nat e) s)) b (max m e) (Suc c) \<and> snd (update_seq (of_nat e) s)"
  proof (cases "m \<le> e")
    case True
    have d: "e < m + 3000" using e by (simp add: in_window_def)
    have upd: "update_seq (of_nat e) s
        = (s\<lparr>cycles := cycles s + (if e mod 65536 < m mod 65536 then SEQ_MOD else 0), max_seq := of_nat e,
             received := received s + 1\<rparr>, True)"
    proof -
      have "(ucast ((of_nat e :: u16) - of_nat m) :: u32) < MAX_DROPOUT"
        unfolding udelta_ahead [OF True d] word_less_nat_alt using d by (subst unat_u32_of_nat) (auto simp: MAX_DROPOUT_def)
      then show ?thesis
        using st by (simp add: update_seq_def Let_def word_less_nat_alt [of "of_nat e :: u16"] unat_u16_mod)
    qed
    have "(of_nat ((if e mod 65536 < m mod 65536 then 65536 else 0) + e mod 65536) :: u32) = of_nat (m mod 65536 + (e - m))"
      by (simp only: cycles_ahead [OF True d])
    then have "(if e mod 65536 < m mod 65536 then SEQ_MOD else 0) + of_nat (e mod 65536) = (of_nat (m mod 65536) + of_nat (e - m) :: u32)"
      by (simp add: SEQ_MOD_def split: if_splits)
    then have "cycles s + (if e mod 65536 < m mod 65536 then SEQ_MOD else 0) + of_nat (e mod 65536)
        = cycles s + of_nat (m mod 65536) + of_nat (e - m)" by (simp add: add.assoc)
    moreover have "cycles s + of_nat (m mod 65536) = of_nat (b mod 65536 + (m - b))"
      using s unfolding tracks_def extended_max_def by (metis ucast_u16_of_nat)
    moreover have "b mod 65536 + (m - b) + (e - m) = b mod 65536 + (e - b)" using True st(4) by simp
    ultimately have "cycles s + (if e mod 65536 < m mod 65536 then SEQ_MOD else 0) + of_nat (e mod 65536)
        = of_nat (b mod 65536 + (e - b))" by (metis of_nat_add)
    then show ?thesis
      using s True st by (simp add: upd tracks_def extended_max_def ucast_u16_of_nat max_def)
  next
    case False
    have d: "m < e + 100" using e by (simp add: in_window_def)
    have ud: "unat (ucast ((of_nat e :: u16) - of_nat m) :: u32) = 65536 - (m - e)"
      using False d by (simp only: udelta_behind not_le) (rule unat_u32_of_nat, simp)
    have "\<not> (ucast ((of_nat e :: u16) - of_nat m) :: u32) < MAX_DROPOUT"
      "\<not> (ucast ((of_nat e :: u16) - of_nat m) :: u32) \<le> SEQ_MOD - MAX_MISORDER"
      unfolding word_less_nat_alt word_le_nat_alt ud using False d by (simp_all add: MAX_DROPOUT_def MAX_MISORDER_def SEQ_MOD_def)
    then have "update_seq (of_nat e) s = (s\<lparr>received := received s + 1\<rparr>, True)"
      using st by (simp add: update_seq_def Let_def)
    then have "fst (update_seq (of_nat e) s) = s\<lparr>received := received s + 1\<rparr>" "snd (update_seq (of_nat e) s)" by simp_all
    moreover have "extended_max (s\<lparr>received := received s + 1\<rparr>) = extended_max s" by (simp add: extended_max_def)
    ultimately show ?thesis using s False st(5) by (simp add: tracks_def max_def del: of_nat_add of_nat_diff)
  qed
  then show "tracks (fst (update_seq (of_nat e) s)) b (max m e) (Suc c)" "snd (update_seq (of_nat e) s)" by simp_all
qed

section \<open>A stream\<close>

text \<open>An arriving packet: its extended number, timestamp, time of arrival and size.\<close>

type_synonym arrival = "nat \<times> u32 \<times> nat \<times> nat"

definition rs_step :: "('j \<Rightarrow> nat \<Rightarrow> 'j) \<Rightarrow> 'j recv_stats \<Rightarrow> arrival \<Rightarrow> 'j recv_stats" where
  "rs_step jit s p = (case p of (e, ts, at, n) \<Rightarrow> fst (rs_update jit (of_nat e) ts at n s))"

lemma tracks_rs_step: "tracks (rs_step jit s (e, ts, at, n)) b m c \<longleftrightarrow> tracks (fst (update_seq (of_nat e) s)) b m c"
  by (auto simp: rs_step_def rs_update_def tracks_def extended_max_def Let_def split: prod.split option.split)

fun stream_ok :: "nat \<Rightarrow> arrival list \<Rightarrow> bool" where
  "stream_ok m [] = True"
| "stream_ok m (p # ps) \<longleftrightarrow> in_window m (fst p) \<and> stream_ok (max m (fst p)) ps"

lemma tracks_stream:
  "tracks s b m c \<Longrightarrow> stream_ok m ps \<Longrightarrow>
     tracks (run_from (rs_step jit) s ps) b (foldl max m (map fst ps)) (c + length ps)"
proof (induction ps arbitrary: s m c)
  case (Cons p ps)
  obtain e ts at n where p: "p = (e, ts, at, n)" by (cases p)
  have "tracks (rs_step jit s p) b (max m e) (Suc c)"
    unfolding p tracks_rs_step using Cons.prems by (intro tracks_step(1)) (simp_all add: p)
  from Cons.IH [OF this] Cons.prems show ?case by (simp add: p)
qed simp

lemma update_seq_first:
  assumes "\<not> started s"
  shows "update_seq q s = ((init_seq q (s\<lparr>started := True\<rparr>))\<lparr>probation := 1, max_seq := q\<rparr>, False)"
  using assms by (simp add: update_seq_def init_seq_def Let_def MIN_SEQUENTIAL_def)

lemma update_seq_second:
  assumes "started s" "probation s = 1" "q = max_seq s + 1"
  shows "update_seq q s = ((init_seq q (s\<lparr>probation := 0\<rparr>))\<lparr>received := 1\<rparr>, True)"
  using assms by (simp add: update_seq_def init_seq_def Let_def)

lemma tracks_start:
  "tracks (rs_step jit (rs_step jit (recv_stats_new j0 clk) (e, ts, at, n)) (Suc e, ts', at', n')) (Suc e) (Suc e) 1"
proof -
  define s where "s = rs_step jit (recv_stats_new j0 clk) (e, ts, at, n)"
  have "started s" "probation s = 1" "max_seq s = of_nat e"
    by (simp_all add: s_def rs_step_def rs_update_def update_seq_first recv_stats_new_def Let_def init_seq_def)
  then have "tracks (fst (update_seq (of_nat (Suc e)) s)) (Suc e) (Suc e) 1"
    by (subst update_seq_second)
      (simp_all add: tracks_def init_seq_def extended_max_def ucast_u16_of_nat [of "Suc e", simplified])
  then show ?thesis by (simp only: s_def [symmetric] tracks_rs_step)
qed

text \<open>
  The report counts the stream (C27): after a first packet and its successor, whatever packets follow within the
  limits of the code (fewer than 3000 ahead of the newest, fewer than 100 behind it, with losses,
  repetitions and any number of wraps of the 16-bit numbers), the report is due, names the newest
  extended number and the number of packets missing between the second packet and the newest.
\<close>

theorem recv_stats_report:
  assumes "stream_ok (Suc e) ps" and m: "m = foldl max (Suc e) (map fst ps)" "m - e < 2 ^ 32" and "length ps < 2 ^ 32 - 1"
    and s: "s = run_from (rs_step jit) (recv_stats_new j0 clk) ((e, ts, at, n) # (Suc e, ts', at', n') # ps)"
  shows "\<exists>r. fst (rs_report jit_u32 s) = Some r \<and>
    r_lost r = clamp (- 0x800000) 0x7fffff (int (m - e) - int (Suc (length ps))) \<and>
    r_extended_max r = of_nat (Suc e mod 65536 + (m - Suc e))"
proof -
  have "tracks s (Suc e) m (Suc (length ps))"
    using tracks_stream [OF tracks_start assms(1)] by (simp add: s m(1))
  then have t: "started s" "probation s = 0" "Suc e \<le> m" "extended_max s = of_nat (Suc e mod 65536 + (m - Suc e))"
    "base_seq s = of_nat (Suc e mod 65536)" "received s = of_nat (Suc (length ps))"
    by (simp_all only: tracks_def)
  have "extended_max s - base_seq s + 1 = of_nat (m - Suc e) + 1" by (simp add: t(4,5) del: of_nat_Suc)
  also have "\<dots> = of_nat (m - e)" using t(3) by (metis Suc_diff_Suc Suc_le_lessD of_nat_Suc add.commute)
  finally have "unat (extended_max s - base_seq s + 1) = m - e" using m(2) by (simp add: unat_of_nat take_bit_eq_mod)
  moreover have "unat (received s) = Suc (length ps)"
    unfolding t(6) unat_of_nat using assms(4) by (simp add: take_bit_eq_mod)
  ultimately show ?thesis
    using t(1,2) by (simp only: rs_report_def Let_def) (simp add: t(4) del: of_nat_Suc of_nat_unat int_nat_eq)
qed

theorem recv_stats_report_witness:
  "\<exists>r. fst (rs_report (\<lambda>_. 0) (run_from (rs_step (\<lambda>j _. j)) (recv_stats_new () 90000)
      [(65533, 0, 0, 100), (65534, 0, 1, 100), (65538, 0, 2, 100), (65536, 0, 3, 100)])) = Some r \<and>
    r_lost r = 2 \<and> r_extended_max r = 65538"
  using recv_stats_report [of 65533 "[(65538, 0, 2, 100), (65536, 0, 3, 100)]" 65538 _ "\<lambda>j _. j" "()" 90000 0 0 100 0 1 100 "\<lambda>_. 0", OF _ _ _ _ refl]
  by (simp add: in_window_def clamp_def)

end
