(* ===== verification/Placement.thy ===== *)
theory Placement
  imports Prelude
begin

text \<open>
  Rendezvous placement of rooms on nodes (\<open>oxhubd/src/bus/placement.rs\<close>): the hash of node and room, and
  the node with the best score. Every gateway computes the placement by itself from the nodes it sees.
\<close>

definition fnv1a64 :: "u8 list \<Rightarrow> u64" where
  "fnv1a64 bs = foldl (\<lambda>h b. (h XOR ucast b) * 0x100000001b3) 0xcbf29ce484222325 bs"

definition splitmix_finish :: "u64 \<Rightarrow> u64" where
  "splitmix_finish z0 =
     (let z = z0 + 0x9e3779b97f4a7c15;
          z = z XOR drop_bit 30 z;
          z = z * 0xbf58476d1ce4e5b9;
          z = z XOR drop_bit 27 z;
          z = z * 0x94d049bb133111eb
      in z XOR drop_bit 31 z)"

definition score :: "string \<Rightarrow> string \<Rightarrow> u64" where
  "score node room = splitmix_finish (fnv1a64 (as_bytes node @ [0] @ as_bytes room))"

definition pick_step :: "string \<Rightarrow> (u64 \<times> string) option \<Rightarrow> string \<Rightarrow> (u64 \<times> string) option" where
  "pick_step room best n =
     (let s = score n room in
      case best of
        None \<Rightarrow> Some (s, n)
      | Some (bs, bn) \<Rightarrow> if bs < s \<or> s = bs \<and> n < bn then Some (s, n) else best)"

definition pick :: "string list \<Rightarrow> string \<Rightarrow> string option" where
  "pick nodes room = map_option snd (foldl (pick_step room) None nodes)"

text \<open>The order the loop compares by, as a function of the room.\<close>

definition prefers :: "string \<Rightarrow> string \<Rightarrow> string \<Rightarrow> bool" where
  "prefers room a b \<longleftrightarrow> score b room < score a room \<or> score a room = score b room \<and> a \<le> b"

lemma prefers_antisym: "prefers room a b \<Longrightarrow> prefers room b a \<Longrightarrow> a = b"
  by (auto simp: prefers_def)

lemma prefers_trans: "prefers room a b \<Longrightarrow> prefers room b c \<Longrightarrow> prefers room a c"
  by (auto simp: prefers_def)

lemma prefers_linear: "prefers room a b \<or> prefers room b a"
  by (auto simp: prefers_def)

lemma prefers_refl [simp]: "prefers room a a"
  by (simp add: prefers_def)

lemma pick_fold:
  "\<exists>n \<in> insert b (set ns). foldl (pick_step room) (Some (score b room, b)) ns = Some (score n room, n) \<and>
     (\<forall>m \<in> insert b (set ns). prefers room n m)"
proof (induction ns arbitrary: b)
  case (Cons x ns)
  define b' where "b' = (if score b room < score x room \<or> score x room = score b room \<and> x < b then x else b)"
  have step: "pick_step room (Some (score b room, b)) x = Some (score b' room, b')"
    by (simp add: pick_step_def b'_def Let_def)
  have best: "prefers room b' b" "prefers room b' x" by (auto simp: b'_def prefers_def)
  obtain n where n: "n \<in> insert b' (set ns)" "foldl (pick_step room) (Some (score b' room, b')) ns = Some (score n room, n)"
    "\<forall>m \<in> insert b' (set ns). prefers room n m" using Cons by blast
  have "n \<in> insert b (set (x # ns))" using n(1) by (auto simp: b'_def split: if_splits)
  moreover have "prefers room n b'" using n(3) by blast
  then have "prefers room n b" "prefers room n x" using best by (blast intro: prefers_trans)+
  then have "\<forall>m \<in> insert b (set (x # ns)). prefers room n m" using n(3) by simp
  moreover have "foldl (pick_step room) (Some (score b room, b)) (x # ns) = Some (score n room, n)"
    using n(2) by (simp add: step)
  ultimately show ?case by blast
qed simp

lemma pick_Some_iff: "pick ns room = Some n \<longleftrightarrow> n \<in> set ns \<and> (\<forall>m \<in> set ns. prefers room n m)"
proof (cases ns)
  case (Cons x xs)
  obtain k where k: "k \<in> set ns" "pick ns room = Some k" "\<forall>m \<in> set ns. prefers room k m"
    using pick_fold [of x xs room] by (auto simp: Cons pick_def pick_step_def [of room None] Let_def)
  then show ?thesis using prefers_antisym by auto
qed (simp add: pick_def)

lemma pick_None_iff: "pick ns room = None \<longleftrightarrow> ns = []"
proof (cases ns)
  case (Cons x xs)
  show ?thesis using pick_fold [of x xs room] by (auto simp: Cons pick_def pick_step_def [of room None] Let_def)
qed (simp add: pick_def)

text \<open>
  Placement is a function of the set of nodes and moves as little as it can (C35): it does not depend on the
  order in which the nodes are listed; when nodes disappear, a room whose node stays is not moved;
  when a node appears, a room stays where it is or moves to the new node; and as long as there is a
  node, every room has a place.
\<close>

theorem placement_stable:
  "(set ns = set ms \<longrightarrow> pick ns room = pick ms room) \<and>
   (pick ns room = Some n \<and> n \<in> set ms \<and> set ms \<subseteq> set ns \<longrightarrow> pick ms room = Some n) \<and>
   (pick (x # ns) room = pick ns room \<or> pick (x # ns) room = Some x) \<and>
   (ns \<noteq> [] \<longrightarrow> (\<exists>k \<in> set ns. pick ns room = Some k))"
proof (intro conjI impI)
  assume "set ns = set ms"
  then have "pick ns room = Some k \<longleftrightarrow> pick ms room = Some k" for k by (simp add: pick_Some_iff)
  then show "pick ns room = pick ms room" by (metis option.exhaust)
next
  assume "pick ns room = Some n \<and> n \<in> set ms \<and> set ms \<subseteq> set ns"
  then show "pick ms room = Some n" by (auto simp: pick_Some_iff)
next
  show "pick (x # ns) room = pick ns room \<or> pick (x # ns) room = Some x"
  proof (cases "pick (x # ns) room")
    case None
    then show ?thesis by (simp add: pick_None_iff)
  next
    case (Some k)
    then have "k = x \<or> pick ns room = Some k" by (auto simp: pick_Some_iff)
    with Some show ?thesis by auto
  qed
next
  assume "ns \<noteq> []"
  then obtain k where "pick ns room = Some k" using pick_None_iff by (cases "pick ns room") auto
  then show "\<exists>k \<in> set ns. pick ns room = Some k" by (auto simp: pick_Some_iff)
qed

theorem placement_stable_witness:
  "\<exists>k. pick [''a'', ''b'', ''c''] ''r1'' = Some k \<and> pick [''c'', ''a'', ''b''] ''r1'' = Some k"
proof -
  define ns where "ns = [''a'', ''b'', ''c'']"
  define ms where "ms = [''c'', ''a'', ''b'']"
  have same: "set ns = set ms" and ne: "ns \<noteq> []" unfolding ns_def ms_def by (simp_all add: insert_commute)
  note stable = placement_stable [of ns ms "''r1''" "''a''" "''d''"]
  have "pick ns ''r1'' = pick ms ''r1''" using stable same by blast
  moreover have "\<exists>k. pick ns ''r1'' = Some k" using stable ne by blast
  ultimately have "\<exists>k. pick ns ''r1'' = Some k \<and> pick ms ''r1'' = Some k" by metis
  then show ?thesis unfolding ns_def ms_def .
qed

end
