(* ===== verification/Keyspace.thy ===== *)
theory Keyspace
  imports Mesh_Keyexpr
begin

text \<open>
  The keys of the node bus (\<open>common/src/keyspace.rs\<close>): one builder per kind of key, one expression per
  subscription or query, and the reader of keys. The theorems put them together with the matching of key
  expressions (\<open>Mesh_Keyexpr\<close>): an expression selects exactly the keys it is meant for.
\<close>

section \<open>Builders and reader\<close>

definition PIECE_FORBIDDEN :: "char set" where
  "PIECE_FORBIDDEN = {CHR ''*'', CHR ''$'', CHR ''?'', CHR ''#'', CHR ''/''}"

definition valid_piece :: "string \<Rightarrow> bool" where
  "valid_piece s \<longleftrightarrow> s \<noteq> [] \<and> set s \<inter> PIECE_FORBIDDEN = {}"

record keys =
  k_ns :: string

definition keys_new :: "string \<Rightarrow> keys" where
  "keys_new ns = \<lparr>k_ns = ns\<rparr>"

definition key_base :: "keys \<Rightarrow> string" where
  "key_base k = ''ox/'' @ k_ns k @ ''/int''"

definition node_token :: "keys \<Rightarrow> string \<Rightarrow> string \<Rightarrow> string" where
  "node_token k node inst = key_base k @ ''/node/'' @ node @ ''/'' @ inst"

definition node_all :: "keys \<Rightarrow> string" where
  "node_all k = key_base k @ ''/node/**''"

definition room_token :: "keys \<Rightarrow> string \<Rightarrow> string \<Rightarrow> string \<Rightarrow> string" where
  "room_token k room node inst = key_base k @ ''/room/'' @ room @ ''/'' @ node @ ''/'' @ inst"

definition room_where :: "keys \<Rightarrow> string \<Rightarrow> string" where
  "room_where k room = key_base k @ ''/room/'' @ room @ ''/**''"

definition room_all :: "keys \<Rightarrow> string" where
  "room_all k = key_base k @ ''/room/**''"

definition rooms_of_node :: "keys \<Rightarrow> string \<Rightarrow> string" where
  "rooms_of_node k node = key_base k @ ''/room/*/'' @ node @ ''/**''"

definition sess_token :: "keys \<Rightarrow> string \<Rightarrow> string \<Rightarrow> string \<Rightarrow> string" where
  "sess_token k user node sid = key_base k @ ''/sess/'' @ user @ ''/'' @ node @ ''/'' @ sid"

definition sess_all :: "keys \<Rightarrow> string" where
  "sess_all k = key_base k @ ''/sess/**''"

definition ev_room :: "keys \<Rightarrow> string \<Rightarrow> string" where
  "ev_room k room = key_base k @ ''/ev/room/'' @ room"

definition ev_room_all :: "keys \<Rightarrow> string" where
  "ev_room_all k = key_base k @ ''/ev/room/*''"

definition ev_user :: "keys \<Rightarrow> string \<Rightarrow> string" where
  "ev_user k user = key_base k @ ''/ev/user/'' @ user"

definition ev_user_all :: "keys \<Rightarrow> string" where
  "ev_user_all k = key_base k @ ''/ev/user/*''"

definition ev_node :: "keys \<Rightarrow> string \<Rightarrow> string" where
  "ev_node k node = key_base k @ ''/ev/node/'' @ node"

definition q_node :: "keys \<Rightarrow> string \<Rightarrow> string \<Rightarrow> string" where
  "q_node k node rest = key_base k @ ''/q/node/'' @ node @ ''/'' @ rest"

definition q_node_serve :: "keys \<Rightarrow> string \<Rightarrow> string" where
  "q_node_serve k node = key_base k @ ''/q/node/'' @ node @ ''/**''"

definition q_all_nodes :: "keys \<Rightarrow> string \<Rightarrow> string" where
  "q_all_nodes k rest = key_base k @ ''/q/node/*/'' @ rest"

datatype parsed = PNode string string | PRoom string string string | PSess string string string
  | PEvRoom string | PEvUser string | PEvNode string | PQuery string string

definition strip_prefix :: "string \<Rightarrow> string \<Rightarrow> string option" where
  "strip_prefix p s = (if take (length p) s = p then Some (drop (length p) s) else None)"

definition key_parts :: "string list \<Rightarrow> parsed option" where
  "key_parts ps =
     (case ps of
        [a, b, c] \<Rightarrow>
          if a = ''node'' then Some (PNode b c)
          else if a = ''ev'' \<and> b = ''room'' then Some (PEvRoom c)
          else if a = ''ev'' \<and> b = ''user'' then Some (PEvUser c)
          else if a = ''ev'' \<and> b = ''node'' then Some (PEvNode c)
          else if a = ''q'' \<and> b = ''node'' then Some (PQuery c [])
          else None
      | [a, b, c, d] \<Rightarrow>
          if a = ''room'' then Some (PRoom b c d)
          else if a = ''sess'' then Some (PSess b c d)
          else if a = ''q'' \<and> b = ''node'' then Some (PQuery c d)
          else None
      | a # b # c # ds \<Rightarrow> if a = ''q'' \<and> b = ''node'' then Some (PQuery c (key_join ds)) else None
      | _ \<Rightarrow> None)"

definition key_parse :: "keys \<Rightarrow> string \<Rightarrow> parsed option" where
  "key_parse k key =
     (case strip_prefix (key_base k @ ''/'') key of None \<Rightarrow> None | Some rest \<Rightarrow> key_parts (split_slash rest))"

section \<open>Keys as chunks\<close>

lemma valid_piece_concrete: "valid_piece s \<longleftrightarrow> concrete_chunk s"
  by (auto simp: valid_piece_def PIECE_FORBIDDEN_def concrete_chunk_def chunk_def FORBIDDEN_def)

lemma concrete_ground [simp]:
  "concrete_chunk ''ox''" "concrete_chunk ''int''" "concrete_chunk ''node''" "concrete_chunk ''room''"
  "concrete_chunk ''sess''" "concrete_chunk ''ev''" "concrete_chunk ''user''" "concrete_chunk ''q''"
  by (simp_all add: concrete_chunk_def chunk_def FORBIDDEN_def)

named_theorems key_defs \<open>the builders of keys and expressions, as joined chunks\<close>

lemma keys_join [key_defs]:
  "node_token k node inst = key_join [''ox'', k_ns k, ''int'', ''node'', node, inst]"
  "node_all k = key_join [''ox'', k_ns k, ''int'', ''node'', ''**'']"
  "room_token k room node inst = key_join [''ox'', k_ns k, ''int'', ''room'', room, node, inst]"
  "room_where k room = key_join [''ox'', k_ns k, ''int'', ''room'', room, ''**'']"
  "room_all k = key_join [''ox'', k_ns k, ''int'', ''room'', ''**'']"
  "rooms_of_node k node = key_join [''ox'', k_ns k, ''int'', ''room'', ''*'', node, ''**'']"
  "sess_token k user node sid = key_join [''ox'', k_ns k, ''int'', ''sess'', user, node, sid]"
  "sess_all k = key_join [''ox'', k_ns k, ''int'', ''sess'', ''**'']"
  "ev_room k room = key_join [''ox'', k_ns k, ''int'', ''ev'', ''room'', room]"
  "ev_room_all k = key_join [''ox'', k_ns k, ''int'', ''ev'', ''room'', ''*'']"
  "ev_user k user = key_join [''ox'', k_ns k, ''int'', ''ev'', ''user'', user]"
  "ev_user_all k = key_join [''ox'', k_ns k, ''int'', ''ev'', ''user'', ''*'']"
  "ev_node k node = key_join [''ox'', k_ns k, ''int'', ''ev'', ''node'', node]"
  "q_node_serve k node = key_join [''ox'', k_ns k, ''int'', ''q'', ''node'', node, ''**'']"
  by (simp_all add: node_token_def node_all_def room_token_def room_where_def room_all_def rooms_of_node_def
      sess_token_def sess_all_def ev_room_def ev_room_all_def ev_user_def ev_user_all_def ev_node_def
      q_node_serve_def key_base_def)

lemma queries_join [key_defs]:
  "q_node k node (key_join (c # cs)) = key_join (''ox'' # k_ns k # ''int'' # ''q'' # ''node'' # node # c # cs)"
  "q_all_nodes k (key_join (c # cs)) = key_join (''ox'' # k_ns k # ''int'' # ''q'' # ''node'' # ''*'' # c # cs)"
  by (simp_all add: q_node_def q_all_nodes_def key_base_def)

section \<open>Reading keys back\<close>

lemma key_parse_join:
  assumes "list_all chunk cs" "cs \<noteq> []"
  shows "key_parse k (key_join (''ox'' # k_ns k # ''int'' # cs)) = key_parts cs"
proof -
  have "key_join (''ox'' # k_ns k # ''int'' # cs) = (key_base k @ ''/'') @ key_join cs"
    using assms(2) by (cases cs) (simp_all add: key_base_def)
  then have "strip_prefix (key_base k @ ''/'') (key_join (''ox'' # k_ns k # ''int'' # cs)) = Some (key_join cs)"
    by (simp only: strip_prefix_def) simp
  with assms show ?thesis by (simp add: key_parse_def split_join)
qed

text \<open>
  Keys say what they carry: every token and event key built from valid pieces is read back as exactly those
  pieces, and a query key as its node and path.
\<close>

theorem key_parse_built:
  assumes "valid_piece a" "valid_piece b" "valid_piece c" "\<forall>p \<in> set path. valid_piece p" "path \<noteq> []"
  shows "key_parse k (node_token k a b) = Some (PNode a b) \<and>
    key_parse k (room_token k a b c) = Some (PRoom a b c) \<and> key_parse k (sess_token k a b c) = Some (PSess a b c) \<and>
    key_parse k (ev_room k a) = Some (PEvRoom a) \<and> key_parse k (ev_user k a) = Some (PEvUser a) \<and>
    key_parse k (ev_node k a) = Some (PEvNode a) \<and>
    key_parse k (q_node k a (key_join path)) = Some (PQuery a (key_join path))"
proof -
  have ch: "chunk a" "chunk b" "chunk c" "list_all chunk path"
    using assms by (auto simp: valid_piece_concrete concrete_chunk_def list_all_iff)
  have ground: "chunk ''node''" "chunk ''room''" "chunk ''sess''" "chunk ''ev''" "chunk ''user''" "chunk ''q''"
    by (simp_all add: chunk_def)
  obtain p ps where path: "path = p # ps" using assms(5) by (cases path) auto
  have "key_parts (''q'' # ''node'' # a # p # ps) = Some (PQuery a (key_join (p # ps)))"
    by (cases ps) (simp_all add: key_parts_def)
  moreover have "list_all chunk (''q'' # ''node'' # a # p # ps)" using ch ground by (simp add: path)
  ultimately have "key_parse k (q_node k a (key_join path)) = Some (PQuery a (key_join path))"
    unfolding path queries_join by (subst key_parse_join) simp_all
  moreover have "key_parts [''node'', a, b] = Some (PNode a b)" "key_parts [''room'', a, b, c] = Some (PRoom a b c)"
    "key_parts [''sess'', a, b, c] = Some (PSess a b c)" "key_parts [''ev'', ''room'', a] = Some (PEvRoom a)"
    "key_parts [''ev'', ''user'', a] = Some (PEvUser a)" "key_parts [''ev'', ''node'', a] = Some (PEvNode a)"
    by (simp_all add: key_parts_def)
  ultimately show ?thesis using ch ground by (simp add: keys_join key_parse_join del: key_join.simps)
qed

theorem key_parse_built_witness:
  "key_parse (keys_new ''c1'') (room_token (keys_new ''c1'') ''r1'' ''n1'' ''e1'') = Some (PRoom ''r1'' ''n1'' ''e1'')"
proof -
  have "valid_piece ''r1''" "valid_piece ''n1''" "valid_piece ''e1''" "\<forall>p \<in> set [''call'']. valid_piece p"
    by (simp_all add: valid_piece_def PIECE_FORBIDDEN_def)
  from key_parse_built [OF this, of "keys_new ''c1''"] show ?thesis by simp
qed

section \<open>Expressions select what they are meant for\<close>

lemma concrete_path: "list_all concrete_chunk cs \<Longrightarrow> expr_ok cs"
  by (induction cs) (auto simp: concrete_not_wild dest: concrete_not_wild)

text \<open>Two expressions that begin with concrete chunks meet only if these are the same.\<close>

lemma some_key_concrete_Cons:
  assumes "concrete_chunk c" "concrete_chunk d" "expr_ok a" "expr_ok b"
  shows "some_key (c # a) (d # b) \<longleftrightarrow> c = d \<and> some_key a b"
  using assms concrete_not_wild [of c] concrete_not_wild [of d] by (subst some_key_Cons) auto

lemma some_key_star:
  assumes "concrete_chunk d" "expr_ok a" "expr_ok b"
  shows "some_key (''*'' # a) (d # b) \<longleftrightarrow> some_key a b" "some_key (d # b) (''*'' # a) \<longleftrightarrow> some_key b a"
  using assms concrete_not_wild [of d] by (auto simp: some_key_Cons)

text \<open>The keys that are declared, published or asked, and the expressions that are subscribed, served or asked.\<close>

datatype bus_key =
    KNode string string
  | KRoom string string string
  | KSess string string string
  | KEvRoom string
  | KEvUser string
  | KEvNode string
  | KQuery string "string list"

datatype bus_expr =
    XNodeAll
  | XRoomWhere string
  | XRoomAll
  | XRoomsOf string
  | XSessAll
  | XEvRoom string
  | XEvRoomAll
  | XEvUser string
  | XEvUserAll
  | XEvNode string
  | XServe string
  | XAllNodes "string list"

definition key_text :: "keys \<Rightarrow> bus_key \<Rightarrow> string" where
  "key_text k y =
     (case y of
        KNode n i \<Rightarrow> node_token k n i
      | KRoom r n i \<Rightarrow> room_token k r n i
      | KSess u n s \<Rightarrow> sess_token k u n s
      | KEvRoom r \<Rightarrow> ev_room k r
      | KEvUser u \<Rightarrow> ev_user k u
      | KEvNode n \<Rightarrow> ev_node k n
      | KQuery n path \<Rightarrow> q_node k n (key_join path))"

definition expr_text :: "keys \<Rightarrow> bus_expr \<Rightarrow> string" where
  "expr_text k x =
     (case x of
        XNodeAll \<Rightarrow> node_all k
      | XRoomWhere r \<Rightarrow> room_where k r
      | XRoomAll \<Rightarrow> room_all k
      | XRoomsOf n \<Rightarrow> rooms_of_node k n
      | XSessAll \<Rightarrow> sess_all k
      | XEvRoom r \<Rightarrow> ev_room k r
      | XEvRoomAll \<Rightarrow> ev_room_all k
      | XEvUser u \<Rightarrow> ev_user k u
      | XEvUserAll \<Rightarrow> ev_user_all k
      | XEvNode n \<Rightarrow> ev_node k n
      | XServe n \<Rightarrow> q_node_serve k n
      | XAllNodes path \<Rightarrow> q_all_nodes k (key_join path))"

definition key_ok :: "bus_key \<Rightarrow> bool" where
  "key_ok y =
     (case y of
        KNode n i \<Rightarrow> valid_piece n \<and> valid_piece i
      | KRoom r n i \<Rightarrow> valid_piece r \<and> valid_piece n \<and> valid_piece i
      | KSess u n s \<Rightarrow> valid_piece u \<and> valid_piece n \<and> valid_piece s
      | KEvRoom r \<Rightarrow> valid_piece r
      | KEvUser u \<Rightarrow> valid_piece u
      | KEvNode n \<Rightarrow> valid_piece n
      | KQuery n path \<Rightarrow> valid_piece n \<and> path \<noteq> [] \<and> list_all valid_piece path)"

definition expr_valid :: "bus_expr \<Rightarrow> bool" where
  "expr_valid x =
     (case x of
        XRoomWhere r \<Rightarrow> valid_piece r
      | XRoomsOf n \<Rightarrow> valid_piece n
      | XEvRoom r \<Rightarrow> valid_piece r
      | XEvUser u \<Rightarrow> valid_piece u
      | XEvNode n \<Rightarrow> valid_piece n
      | XServe n \<Rightarrow> valid_piece n
      | XAllNodes path \<Rightarrow> path \<noteq> [] \<and> list_all valid_piece path
      | _ \<Rightarrow> True)"

text \<open>What each expression is meant for.\<close>

definition selects :: "bus_expr \<Rightarrow> bus_key \<Rightarrow> bool" where
  "selects x y =
     (case x of
        XNodeAll \<Rightarrow> (case y of KNode _ _ \<Rightarrow> True | _ \<Rightarrow> False)
      | XRoomWhere r \<Rightarrow> (case y of KRoom r' _ _ \<Rightarrow> r = r' | _ \<Rightarrow> False)
      | XRoomAll \<Rightarrow> (case y of KRoom _ _ _ \<Rightarrow> True | _ \<Rightarrow> False)
      | XRoomsOf n \<Rightarrow> (case y of KRoom _ n' _ \<Rightarrow> n = n' | _ \<Rightarrow> False)
      | XSessAll \<Rightarrow> (case y of KSess _ _ _ \<Rightarrow> True | _ \<Rightarrow> False)
      | XEvRoom r \<Rightarrow> (case y of KEvRoom r' \<Rightarrow> r = r' | _ \<Rightarrow> False)
      | XEvRoomAll \<Rightarrow> (case y of KEvRoom _ \<Rightarrow> True | _ \<Rightarrow> False)
      | XEvUser u \<Rightarrow> (case y of KEvUser u' \<Rightarrow> u = u' | _ \<Rightarrow> False)
      | XEvUserAll \<Rightarrow> (case y of KEvUser _ \<Rightarrow> True | _ \<Rightarrow> False)
      | XEvNode n \<Rightarrow> (case y of KEvNode n' \<Rightarrow> n = n' | _ \<Rightarrow> False)
      | XServe n \<Rightarrow> (case y of KQuery n' _ \<Rightarrow> n = n' | _ \<Rightarrow> False)
      | XAllNodes path \<Rightarrow> (case y of KQuery _ path' \<Rightarrow> path = path' | _ \<Rightarrow> False))"

text \<open>The chunks after the name space.\<close>

definition key_chunks :: "bus_key \<Rightarrow> string list" where
  "key_chunks y =
     (case y of
        KNode n i \<Rightarrow> [''node'', n, i]
      | KRoom r n i \<Rightarrow> [''room'', r, n, i]
      | KSess u n s \<Rightarrow> [''sess'', u, n, s]
      | KEvRoom r \<Rightarrow> [''ev'', ''room'', r]
      | KEvUser u \<Rightarrow> [''ev'', ''user'', u]
      | KEvNode n \<Rightarrow> [''ev'', ''node'', n]
      | KQuery n path \<Rightarrow> ''q'' # ''node'' # n # path)"

definition expr_chunks :: "bus_expr \<Rightarrow> string list" where
  "expr_chunks x =
     (case x of
        XNodeAll \<Rightarrow> [''node'', ''**'']
      | XRoomWhere r \<Rightarrow> [''room'', r, ''**'']
      | XRoomAll \<Rightarrow> [''room'', ''**'']
      | XRoomsOf n \<Rightarrow> [''room'', ''*'', n, ''**'']
      | XSessAll \<Rightarrow> [''sess'', ''**'']
      | XEvRoom r \<Rightarrow> [''ev'', ''room'', r]
      | XEvRoomAll \<Rightarrow> [''ev'', ''room'', ''*'']
      | XEvUser u \<Rightarrow> [''ev'', ''user'', u]
      | XEvUserAll \<Rightarrow> [''ev'', ''user'', ''*'']
      | XEvNode n \<Rightarrow> [''ev'', ''node'', n]
      | XServe n \<Rightarrow> [''q'', ''node'', n, ''**'']
      | XAllNodes path \<Rightarrow> ''q'' # ''node'' # ''*'' # path)"

lemma key_text_chunks:
  "key_ok y \<Longrightarrow> key_text k y = key_join (''ox'' # k_ns k # ''int'' # key_chunks y)"
  "expr_valid x \<Longrightarrow> expr_text k x = key_join (''ox'' # k_ns k # ''int'' # expr_chunks x)"
proof -
  have q: "q_node k n (key_join path) = key_join (''ox'' # k_ns k # ''int'' # ''q'' # ''node'' # n # path)"
    "q_all_nodes k (key_join path) = key_join (''ox'' # k_ns k # ''int'' # ''q'' # ''node'' # ''*'' # path)"
    if "path \<noteq> []" for n path
    using that by (cases path; simp only: queries_join)+
  show "key_ok y \<Longrightarrow> key_text k y = key_join (''ox'' # k_ns k # ''int'' # key_chunks y)"
    by (cases y) (simp_all only: key_text_def key_chunks_def key_ok_def bus_key.case keys_join q simp_thms)
  show "expr_valid x \<Longrightarrow> expr_text k x = key_join (''ox'' # k_ns k # ''int'' # expr_chunks x)"
    by (cases x) (simp_all only: expr_text_def expr_chunks_def expr_valid_def bus_expr.case keys_join q simp_thms)
qed

lemma some_key_concrete_eq:
  "list_all concrete_chunk a \<Longrightarrow> list_all concrete_chunk b \<Longrightarrow> some_key a b \<longleftrightarrow> a = b"
proof (induction a arbitrary: b)
  case Nil
  then show ?case by (cases b) (auto simp: some_key_Nil dest: concrete_not_wild)
next
  case (Cons c a)
  show ?case
  proof (cases b)
    case Nil
    with Cons.prems show ?thesis by (subst some_key_sym) (auto simp: some_key_Nil dest: concrete_not_wild)
  next
    case (Cons d b')
    with Cons.prems Cons.IH [of b'] show ?thesis by (simp add: some_key_concrete_Cons concrete_path)
  qed
qed

lemma expr_ok_chunks:
  "concrete_chunk c \<Longrightarrow> expr_ok (c # cs) = expr_ok cs" "expr_ok (''*'' # cs) = expr_ok cs" "expr_ok [''**'']" "expr_ok []"
  by (auto dest: concrete_not_wild)

lemma chunks_ok:
  "key_ok y \<Longrightarrow> list_all concrete_chunk (key_chunks y)" "expr_valid x \<Longrightarrow> expr_ok (expr_chunks x)"
proof -
  show "key_ok y \<Longrightarrow> list_all concrete_chunk (key_chunks y)"
    by (cases y) (simp_all add: key_ok_def key_chunks_def valid_piece_concrete list_all_iff)
  have "list_all valid_piece path \<Longrightarrow> expr_ok path" for path
    by (rule concrete_path) (simp add: list_all_iff valid_piece_concrete)
  then show "expr_valid x \<Longrightarrow> expr_ok (expr_chunks x)"
    by (cases x) (auto simp: expr_valid_def expr_chunks_def valid_piece_concrete expr_ok_chunks simp del: expr_ok.simps)
qed

lemma chunks_select:
  assumes "key_ok y" "expr_valid x"
  shows "some_key (expr_chunks x) (key_chunks y) \<longleftrightarrow> selects x y"
proof -
  have path: "list_all valid_piece path \<Longrightarrow> list_all concrete_chunk path" for path
    by (simp add: list_all_iff valid_piece_concrete)
  note key = some_key_concrete_Cons some_key_star some_key_double_end some_key_concrete_eq concrete_path path
  show ?thesis
    using assms
    by (cases x; cases y)
      (simp_all add: key_ok_def expr_valid_def expr_chunks_def key_chunks_def selects_def valid_piece_concrete key expr_ok_chunks
        del: expr_ok.simps)
qed

text \<open>
  On the bus every expression selects exactly its keys (C36): of all the keys built from valid pieces, in whatever name
  space, the subscriptions, served expressions and questions of a name space meet those of the same name space that
  they are meant for and no other: all node tokens; the tokens of one room, of all rooms, of the rooms of one node;
  all session tokens; the events of one room, of all rooms, of one user, of all users, of one node; the queries to one
  node; the same query to every node. And a query to all nodes meets what every node serves.
\<close>

theorem keyspace_routes:
  assumes "valid_piece (k_ns k)" "valid_piece (k_ns k')" "expr_valid x" "key_ok y" "expr_valid (XAllNodes path)" "valid_piece n"
  shows "(key_intersects (expr_text k x) (key_text k' y) \<longleftrightarrow> k_ns k = k_ns k' \<and> selects x y) \<and>
    key_intersects (expr_text k (XServe n)) (expr_text k (XAllNodes path))"
proof
  have ns: "concrete_chunk (k_ns k)" "concrete_chunk (k_ns k')" using assms(1,2) by (simp_all add: valid_piece_concrete)
  have ok: "expr_ok (expr_chunks x)" "expr_ok (key_chunks y)" using chunks_ok(1) [OF assms(4)] chunks_ok(2) [OF assms(3)] concrete_path by auto
  show "key_intersects (expr_text k x) (key_text k' y) \<longleftrightarrow> k_ns k = k_ns k' \<and> selects x y"
    unfolding key_text_chunks(1) [OF assms(4)] key_text_chunks(2) [OF assms(3)]
    using ns ok chunks_select [OF assms(4,3)]
    by (subst key_intersects_join) (simp_all add: expr_ok_chunks some_key_concrete_Cons del: expr_ok.simps)
  have serve: "expr_valid (XServe n)" and n: "concrete_chunk n" using assms(6) by (simp_all add: expr_valid_def valid_piece_concrete)
  have path: "expr_ok path" using chunks_ok(2) [OF assms(5)] by (simp add: expr_chunks_def)
  show "key_intersects (expr_text k (XServe n)) (expr_text k (XAllNodes path))"
    unfolding key_text_chunks(2) [OF serve] key_text_chunks(2) [OF assms(5)] expr_chunks_def bus_expr.case
    using ns n path
    by (subst key_intersects_join)
      (simp_all add: expr_ok_chunks some_key_concrete_Cons some_key_star some_key_double_end del: expr_ok.simps)
qed

theorem keyspace_routes_witness:
  "key_intersects (room_where (keys_new ''c1'') ''r1'') (room_token (keys_new ''c1'') ''r1'' ''n1'' ''e1'') \<and>
   \<not> key_intersects (room_where (keys_new ''c1'') ''r1'') (room_token (keys_new ''c1'') ''r2'' ''n1'' ''e1'') \<and>
   \<not> key_intersects (room_where (keys_new ''c1'') ''r1'') (room_token (keys_new ''c2'') ''r1'' ''n1'' ''e1'') \<and>
   key_intersects (sess_all (keys_new ''c1'')) (sess_token (keys_new ''c1'') ''u1'' ''n1'' ''s1'') \<and>
   \<not> key_intersects (ev_user (keys_new ''c1'') ''u1'') (ev_user (keys_new ''c1'') ''u2'')"
proof -
  let ?k = "keys_new ''c1''" and ?k' = "keys_new ''c2''"
  have v: "valid_piece (k_ns ?k)" "valid_piece (k_ns ?k')" "expr_valid (XRoomWhere ''r1'')" "expr_valid XSessAll" "expr_valid (XEvUser ''u1'')"
    "key_ok (KRoom ''r1'' ''n1'' ''e1'')" "key_ok (KRoom ''r2'' ''n1'' ''e1'')" "key_ok (KSess ''u1'' ''n1'' ''s1'')" "key_ok (KEvUser ''u2'')"
    "expr_valid (XAllNodes [''call''])" "valid_piece ''n1''"
    by (simp_all add: expr_valid_def key_ok_def valid_piece_def PIECE_FORBIDDEN_def keys_new_def)
  note r = keyspace_routes [OF v(1) _ _ _ v(10,11), unfolded expr_text_def key_text_def selects_def]
  show ?thesis
    using r [OF v(1) v(3) v(6)] r [OF v(1) v(3) v(7)] r [OF v(2) v(3) v(6)] r [OF v(1) v(4) v(8)] r [OF v(1) v(5) v(9)]
    by (simp add: keys_new_def)
qed

end
