(* ===== verification/Rtp.thy ===== *)
theory Rtp
  imports Prelude
begin

text \<open>
  RTP packets as the media server reads and writes them: the header and extension readers
  (\<open>oxsfud/src/fwd/mod.rs\<close>), the header extensions written for a subscriber (\<open>sub/ext.rs\<close>), the packet sent down
  a row (\<open>fwd/mod.rs\<close>, \<open>send_down\<close>), the packet built for retransmission (\<open>rtcp/mod.rs\<close>) and the repair of a
  retransmitted packet (\<open>pub/mod.rs\<close>).
\<close>

section \<open>Reading\<close>

record rtp_view =
  rtp_raw :: "u8 list"
  rtp_pt :: u8
  rtp_marker :: bool
  rtp_seq :: u16
  rtp_ts :: u32
  rtp_ssrc :: u32
  rtp_hlen :: nat
  rtp_ext :: "(u16 \<times> u8 list) option"

definition rtp_fields :: "u8 list \<Rightarrow> nat \<Rightarrow> (u16 \<times> u8 list) option \<Rightarrow> rtp_view" where
  "rtp_fields b h ext = \<lparr>rtp_raw = b, rtp_pt = b ! 1 AND 0x7f, rtp_marker = (b ! 1 AND 0x80 \<noteq> 0),
     rtp_seq = of_be16 (b ! 2) (b ! 3), rtp_ts = of_be32 (b ! 4) (b ! 5) (b ! 6) (b ! 7),
     rtp_ssrc = of_be32 (b ! 8) (b ! 9) (b ! 10) (b ! 11), rtp_hlen = h, rtp_ext = ext\<rparr>"

definition parse_rtp :: "u8 list \<Rightarrow> rtp_view option" where
  "parse_rtp b =
     (if length b < 12 then None
      else if drop_bit 6 (b ! 0) \<noteq> 2 then None
      else
        (let cc = unat (b ! 0 AND 0x0f);
             x = (b ! 0 AND 0x10 \<noteq> 0);
             h = 12 + cc * 4
         in if length b < h then None
            else if \<not> x then Some (rtp_fields b h None)
            else if length b < h + 4 then None
            else
              (let profile = of_be16 (b ! h) (b ! (h + 1));
                   words = unat (of_be16 (b ! (h + 2)) (b ! (h + 3)));
                   e = h + 4 + words * 4
               in if length b < e then None
                  else Some (rtp_fields b e (Some (profile, take (words * 4) (drop (h + 4) b)))))))"

function ext_one :: "u8 \<Rightarrow> u8 list \<Rightarrow> u8 list option" where
  "ext_one eid d =
     (case d of [] \<Rightarrow> None
      | b # r \<Rightarrow>
          if b = 0 then ext_one eid r
          else
            (let e = drop_bit 4 b; len = unat (b AND 0x0f) + 1
             in if e = 15 then None
                else if length r < len then None
                else if e = eid then Some (take len r)
                else ext_one eid (drop len r)))"
  by pat_completeness auto
termination
  by (relation "measure (length \<circ> snd)") auto

function ext_two :: "u8 \<Rightarrow> u8 list \<Rightarrow> u8 list option" where
  "ext_two eid d =
     (case d of
        e # l # r \<Rightarrow>
          if e = 0 then ext_two eid (l # r)
          else if length r < unat l then None
          else if e = eid then Some (take (unat l) r)
          else ext_two eid (drop (unat l) r)
      | _ \<Rightarrow> None)"
  by pat_completeness auto
termination
  by (relation "measure (length \<circ> snd)") auto

declare ext_one.simps [simp del] ext_two.simps [simp del]

definition ext_get :: "(u16 \<times> u8 list) option \<Rightarrow> u8 \<Rightarrow> u8 list option" where
  "ext_get ext eid =
     (case ext of
        None \<Rightarrow> None
      | Some (profile, d) \<Rightarrow>
          if eid = 0 then None
          else if profile = 0xbede then ext_one eid d
          else if profile AND 0xfff0 = 0x1000 then ext_two eid d
          else None)"

section \<open>Writing extensions\<close>

record ext_table =
  et_mid :: "u8 option"
  et_audio_level :: "u8 option"
  et_abs_send_time :: "u8 option"
  et_twcc :: "u8 option"

definition one_byte :: "ext_table \<Rightarrow> bool" where
  "one_byte t \<longleftrightarrow> (\<forall>o1 \<in> set [et_mid t, et_audio_level t, et_abs_send_time t, et_twcc t].
     case o1 of None \<Rightarrow> True | Some i \<Rightarrow> 1 \<le> i \<and> i \<le> 14)"

definition abs_send_time :: "nat \<Rightarrow> u32" where
  "abs_send_time t_us = of_nat ((t_us mod 64000000) * 2 ^ 18 div 1000000) AND 0x00ffffff"

record ext_input =
  ei_mid :: "u8 list"
  ei_audio_level :: "u8 option"
  ei_t_us :: nat
  ei_twcc_seq :: "u16 option"

definition ext_put :: "bool \<Rightarrow> u8 \<Rightarrow> u8 list \<Rightarrow> u8 list" where
  "ext_put one i v =
     (if v = [] then []
      else (if one then [push_bit 4 i OR ((of_nat (length v) - 1) AND 0x0f)] else [i, of_nat (length v)]) @ v)"

text \<open>The extensions written, in the order of the code.\<close>

definition ext_items :: "ext_table \<Rightarrow> ext_input \<Rightarrow> (u8 \<times> u8 list) list" where
  "ext_items t inp =
     (case et_mid t of Some i \<Rightarrow> if ei_mid inp \<noteq> [] then [(i, ei_mid inp)] else [] | None \<Rightarrow> [])
     @ (case (et_audio_level t, ei_audio_level inp) of (Some i, Some l) \<Rightarrow> [(i, [l])] | _ \<Rightarrow> [])
     @ (case et_abs_send_time t of Some i \<Rightarrow> [(i, drop 1 (be32 (abs_send_time (ei_t_us inp))))] | None \<Rightarrow> [])
     @ (case (et_twcc t, ei_twcc_seq inp) of (Some i, Some s) \<Rightarrow> [(i, be16 s)] | _ \<Rightarrow> [])"

definition ext_build :: "ext_table \<Rightarrow> ext_input \<Rightarrow> u8 list \<Rightarrow> u8 list \<times> nat" where
  "ext_build t inp out =
     (let one = one_byte t;
          items = concat (map (\<lambda>(i, v). ext_put one i v) (ext_items t inp));
          body = items @ replicate ((4 - length items mod 4) mod 4) 0;
          words = (of_nat (length body div 4) :: u16)
      in if words = 0 then (out, 0)
         else (out @ (if one then [0xbe, 0xde] else [0x10, 0x00]) @ be16 words @ body, 4 + length body))"

section \<open>Writing packets\<close>

text \<open>
  What \<open>send_down\<close> and \<open>send_built\<close> share: the fixed header, the extensions after it, the extension bit when any
  was written, and the payload.
\<close>

definition header12 :: "u8 \<Rightarrow> u8 \<Rightarrow> u16 \<Rightarrow> u32 \<Rightarrow> u32 \<Rightarrow> u8 list" where
  "header12 b0 b1 seq ts ssrc = [b0, b1] @ be16 seq @ be32 ts @ be32 ssrc"

definition wire_packet :: "u8 \<Rightarrow> u8 \<Rightarrow> u16 \<Rightarrow> u32 \<Rightarrow> u32 \<Rightarrow> ext_table \<Rightarrow> ext_input \<Rightarrow> u8 list \<Rightarrow> u8 list" where
  "wire_packet b0 b1 seq ts ssrc t inp payload =
     (case ext_build t inp (header12 b0 b1 seq ts ssrc) of (out, n) \<Rightarrow>
        (if 0 < n then out[0 := out ! 0 OR 0x10] else out) @ payload)"

section \<open>What is written is read\<close>

lemma nibbles:
  assumes "i < (16 :: u8)" "k < 16"
  shows "drop_bit 4 (push_bit 4 i OR k) = i" "(push_bit 4 i OR k) AND 0x0f = k"
proof -
  have i: "bit i j \<Longrightarrow> j < 4" for j using bit_of_small [of i 4 j] assms(1) by (simp add: word_less_nat_alt)
  have k: "bit k j \<Longrightarrow> j < 4" for j using bit_of_small [of k 4 j] assms(2) by (simp add: word_less_nat_alt)
  show "drop_bit 4 (push_bit 4 i OR k) = i"
    using i k by (intro bit_word_eqI) (fastforce simp: bit_simps)
  have "(push_bit 4 i OR k) AND 0x0f = take_bit 4 (push_bit 4 i OR k)" by (simp add: take_bit_eq_mask mask_eq_exp_minus_1)
  also have "\<dots> = k" using k by (intro bit_word_eqI) (auto simp: bit_simps)
  finally show "(push_bit 4 i OR k) AND 0x0f = k" .
qed

definition item_ok :: "bool \<Rightarrow> u8 \<times> u8 list \<Rightarrow> bool" where
  "item_ok one e \<longleftrightarrow> fst e \<noteq> 0 \<and> snd e \<noteq> [] \<and> (if one then fst e < 15 \<and> length (snd e) \<le> 16 else length (snd e) < 256)"

lemma ext_one_zeros: "ext_one eid (replicate n 0) = None"
  by (induction n) (simp_all add: ext_one.simps)

lemma ext_two_zeros: "ext_two eid (replicate n 0) = None"
proof (induction n)
  case (Suc n)
  then show ?case by (cases n) (simp_all add: ext_two.simps)
qed (simp add: ext_two.simps)

lemma ext_one_item:
  assumes "item_ok True (i, v)"
  shows "ext_one eid (ext_put True i v @ r) = (if i = eid then Some v else ext_one eid r)"
proof -
  define k where "k = ((of_nat (length v) - 1 :: u8) AND 0x0f)"
  have v: "v \<noteq> []" "length v \<le> 16" and i: "i \<noteq> 0" "i < 15" using assms by (simp_all add: item_ok_def)
  have len: "of_nat (length v) - 1 = (of_nat (length v - 1) :: u8)" using v(1) by (cases v) simp_all
  have small: "unat (of_nat (length v - 1) :: u8) = length v - 1" using v(2) by (simp add: unat_of_nat take_bit_eq_mod)
  then have k: "k = of_nat (length v - 1)"
    using v unfolding k_def len by (intro nibbles(2) [of 0, simplified]) (simp add: word_less_nat_alt)
  have k16: "k < 16" using small v unfolding k by (simp add: word_less_nat_alt)
  have i16: "i < 16" using i(2) by (simp add: word_less_nat_alt)
  note nib = nibbles [OF i16 k16]
  have "push_bit 4 i OR k \<noteq> 0" using nib(1) i(1) by (metis drop_bit_of_0)
  then show ?thesis
    using v i nib small unfolding ext_put_def k_def [symmetric]
    by (subst ext_one.simps) (auto simp: Let_def k)
qed

lemma ext_two_item:
  assumes "item_ok False (i, v)"
  shows "ext_two eid (ext_put False i v @ r) = (if i = eid then Some v else ext_two eid r)"
proof -
  have "unat (of_nat (length v) :: u8) = length v" using assms by (simp add: item_ok_def unat_of_nat take_bit_eq_mod)
  then show ?thesis using assms by (subst ext_two.simps) (auto simp: ext_put_def item_ok_def)
qed

lemma ext_items_read:
  assumes "\<forall>e \<in> set items. item_ok one e"
  shows "(if one then ext_one else ext_two) eid (concat (map (\<lambda>(i, v). ext_put one i v) items) @ replicate n 0) = map_of items eid"
  using assms
proof (induction items)
  case Nil
  then show ?case by (simp add: ext_one_zeros ext_two_zeros)
next
  case (Cons e items)
  then show ?case by (cases one; cases e) (auto simp: ext_one_item ext_two_item)
qed

lemma length_ext_items: "length (ext_items t inp) \<le> 4"
  by (auto simp: ext_items_def split: option.split prod.split)

lemma length_ext_put: "item_ok one (i, v) \<Longrightarrow> 2 \<le> length (ext_put one i v) \<and> length (ext_put one i v) \<le> 257"
  by (cases v) (auto simp: ext_put_def item_ok_def split: if_splits)

lemma length_items:
  "\<forall>e \<in> set items. item_ok one e \<Longrightarrow> length (concat (map (\<lambda>(i, v). ext_put one i v) items)) \<le> 257 * length items \<and>
     (concat (map (\<lambda>(i, v). ext_put one i v) items) = [] \<longleftrightarrow> items = [])"
proof (induction items)
  case (Cons e items)
  obtain i v where e: "e = (i, v)" by (cases e)
  have "2 \<le> length (ext_put one i v) \<and> length (ext_put one i v) \<le> 257" using Cons.prems by (intro length_ext_put) (simp add: e)
  with Cons show ?case by (auto simp: e)
qed simp

text \<open>The extension block: absent when there is nothing to write, otherwise a whole number of words.\<close>

lemma ext_build_cases:
  assumes "\<forall>e \<in> set (ext_items t inp). item_ok (one_byte t) e"
  obtains (none) "ext_items t inp = []" "ext_build t inp out = (out, 0)"
    | (some) body m where "ext_build t inp out =
          (out @ (if one_byte t then [0xbe, 0xde] else [0x10, 0x00]) @ be16 (of_nat m) @ body, 4 + length body)"
        "length body = 4 * m" "m < 65536"
        "\<And>eid. (if one_byte t then ext_one else ext_two) eid body = map_of (ext_items t inp) eid"
proof -
  define items where "items = concat (map (\<lambda>(i, v). ext_put (one_byte t) i v) (ext_items t inp))"
  define n where "n = (4 - length items mod 4) mod 4"
  define m where "m = (length items + n) div 4"
  have len: "length items \<le> 1028" "items = [] \<longleftrightarrow> ext_items t inp = []"
    using length_items [OF assms] length_ext_items [of t inp] by (simp_all add: items_def)
  have "4 dvd length items + n" "n \<le> 3" using pad4 [of "length items"] by (simp_all add: n_def)
  then have m: "length items + n = 4 * m" by (simp add: m_def)
  with \<open>n \<le> 3\<close> len(1) have small: "m < 65536" by simp
  have m0: "m = 0 \<longleftrightarrow> items = []" using m by (cases items) (auto simp: n_def)
  have word: "(of_nat m :: u16) = 0 \<longleftrightarrow> m = 0" using unat_u16_of_nat [OF small] by (auto simp: unat_eq_zero [symmetric])
  have build: "ext_build t inp out = (if items = [] then (out, 0)
      else (out @ (if one_byte t then [0xbe, 0xde] else [0x10, 0x00]) @ be16 (of_nat m) @ items @ replicate n 0, 4 + (length items + n)))"
    using word m0 by (simp add: ext_build_def Let_def m_def flip: items_def n_def)
  show thesis
  proof (cases "items = []")
    case True
    then show thesis using none len(2) build by simp
  next
    case False
    have "(if one_byte t then ext_one else ext_two) eid (items @ replicate n 0) = map_of (ext_items t inp) eid" for eid
      unfolding items_def by (rule ext_items_read [OF assms])
    with False show thesis using some [of m "items @ replicate n 0"] build m small by simp
  qed
qed

lemma length_header12 [simp]: "length (header12 b0 b1 seq ts ssrc) = 12"
  by (simp add: header12_def)

lemma header12_fields:
  "header12 b0 b1 seq ts ssrc ! 0 = b0" "(header12 b0 b1 seq ts ssrc)[0 := x] = header12 x b1 seq ts ssrc"
  "rtp_fields (header12 b0 b1 seq ts ssrc @ r) h e = \<lparr>rtp_raw = header12 b0 b1 seq ts ssrc @ r, rtp_pt = b1 AND 0x7f,
     rtp_marker = (b1 AND 0x80 \<noteq> 0), rtp_seq = seq, rtp_ts = ts, rtp_ssrc = ssrc, rtp_hlen = h, rtp_ext = e\<rparr>"
  by (simp_all add: header12_def rtp_fields_def be16_def be32_def of_be16_be16 of_be32_be32)

lemma first_byte:
  assumes "b0 = 0x80 \<or> b0 = (0xa0 :: u8)"
  shows "drop_bit 6 b0 = 2" "b0 AND 0x0f = 0" "b0 AND 0x10 = 0"
    "drop_bit 6 (b0 OR 0x10) = 2" "(b0 OR 0x10) AND 0x0f = 0" "(b0 OR 0x10) AND 0x10 \<noteq> 0"
  using assms by auto

lemma wire_packet_parse:
  assumes b0: "b0 = 0x80 \<or> b0 = 0xa0" and ok: "\<forall>e \<in> set (ext_items t inp). item_ok (one_byte t) e"
  shows "\<exists>r. parse_rtp (wire_packet b0 b1 seq ts ssrc t inp payload) = Some r \<and>
    rtp_pt r = b1 AND 0x7f \<and> rtp_marker r = (b1 AND 0x80 \<noteq> 0) \<and> rtp_seq r = seq \<and> rtp_ts r = ts \<and> rtp_ssrc r = ssrc \<and>
    rtp_raw r = wire_packet b0 b1 seq ts ssrc t inp payload \<and>
    12 \<le> rtp_hlen r \<and> drop (rtp_hlen r) (rtp_raw r) = payload \<and>
    (\<forall>eid. eid \<noteq> 0 \<longrightarrow> ext_get (rtp_ext r) eid = map_of (ext_items t inp) eid)"
  using ok
proof (cases rule: ext_build_cases [where out = "header12 b0 b1 seq ts ssrc"])
  case none
  let ?p = "header12 b0 b1 seq ts ssrc @ payload"
  have w: "wire_packet b0 b1 seq ts ssrc t inp payload = ?p" using none(2) by (simp add: wire_packet_def)
  have "parse_rtp ?p = Some (rtp_fields ?p 12 None)" using first_byte [OF b0] by (simp add: parse_rtp_def nth_append header12_fields(1))
  then show ?thesis unfolding w using none(1) by (simp add: header12_fields(3) ext_get_def)
next
  case (some body m)
  let ?pr = "if one_byte t then [0xbe, 0xde] else [0x10, 0x00 :: u8]"
  let ?p = "header12 (b0 OR 0x10) b1 seq ts ssrc @ ?pr @ be16 (of_nat m) @ body @ payload"
  have w: "wire_packet b0 b1 seq ts ssrc t inp payload = ?p" using some(1) by (simp add: wire_packet_def list_update_append nth_append header12_fields(1,2))
  have words: "of_be16 (?p ! 14) (?p ! 15) = of_nat m" "of_be16 (?p ! 12) (?p ! 13) = (if one_byte t then 0xbede else 0x1000)"
    by (simp_all add: nth_append be16_def of_be16_be16) (simp_all add: of_be16_def)
  have len: "length ?p = 16 + m * 4 + length payload" using some(2) by simp
  have ext: "take (m * 4) (drop 16 ?p) = body" "drop (16 + m * 4) ?p = payload" using some(2) by simp_all
  have "parse_rtp ?p = Some (rtp_fields ?p (16 + m * 4) (Some (if one_byte t then 0xbede else 0x1000, body)))"
    using first_byte [OF b0] words len ext(1) unat_u16_of_nat [OF some(3)] unfolding parse_rtp_def
    by (simp add: Let_def add.commute nth_append header12_fields(1))
  then show ?thesis unfolding w header12_fields(3) using ext(2) some(4) by (simp add: ext_get_def split: if_splits)
qed

end
