(* ===== verification/Pub_Track.thy ===== *)
theory Pub_Track
  imports Prelude
begin

text \<open>
  What the media server keeps per uplink track (\<open>oxsfud/src/pub/mod.rs\<close>): the cache of recent packets, the
  numbers missing upstream and when to ask for them again, the throttle of picture-loss requests
  (\<open>request_pli\<close> and the flush of the uplink tick in \<open>rtcp/mod.rs\<close>), and the repair of a retransmitted
  packet.
\<close>

section \<open>The packet cache\<close>

definition CACHE :: nat where "CACHE = 1024"

type_synonym cache = "(u16 \<times> u8 list) option list"

definition cache_put :: "u16 \<Rightarrow> u8 list \<Rightarrow> cache \<Rightarrow> cache" where
  "cache_put seq b c =
     (let slots = (if c = [] then replicate CACHE None else c)
      in slots[unat seq mod CACHE := Some (seq, b)])"

definition cache_get :: "u16 \<Rightarrow> cache \<Rightarrow> u8 list option" where
  "cache_get seq c =
     (let i = unat seq mod CACHE in
      if i < length c then
        (case c ! i of Some (s, b) \<Rightarrow> if s = seq then Some b else None | None \<Rightarrow> None)
      else None)"

section \<open>Upstream NACK\<close>

definition NACK_RESEND_MS :: nat where "NACK_RESEND_MS = 200"
definition NACK_GIVEUP_MS :: nat where "NACK_GIVEUP_MS = 1000"
definition NACK_MAX :: nat where "NACK_MAX = 128"

record nack_up =
  n_last :: "u16 option"
  missing :: "(int, nat \<times> nat option) btree"
  n_base :: int
  n_sent :: nat

definition nack_new :: nack_up where
  "nack_new = \<lparr>n_last = None, missing = [], n_base = 0, n_sent = 0\<rparr>"

fun mark_missing :: "nat \<Rightarrow> int list \<Rightarrow> (int, nat \<times> nat option) btree \<Rightarrow> (int, nat \<times> nat option) btree" where
  "mark_missing now [] m = m"
| "mark_missing now (s # ss) m =
     (if NACK_MAX \<le> length m then m
      else mark_missing now ss (case bt_get m s of None \<Rightarrow> bt_insert s (now, None) m | Some _ \<Rightarrow> m))"

definition nack_on_packet :: "u16 \<Rightarrow> nat \<Rightarrow> nack_up \<Rightarrow> nack_up" where
  "nack_on_packet seq now n =
     (case n_last n of
        None \<Rightarrow> n\<lparr>n_last := Some seq, n_base := int (unat seq)\<rparr>
      | Some l \<Rightarrow>
          (let u = n_base n + i16_of (seq - l);
               diff = u - n_base n
           in if diff \<le> 0 then n\<lparr>missing := bt_remove u (missing n)\<rparr>
              else
                (let n1 = (if 1 < diff \<and> diff < 128
                           then n\<lparr>missing := mark_missing now [n_base n + 1..u - 1] (missing n)\<rparr> else n)
                 in n1\<lparr>n_last := Some seq, n_base := u\<rparr>)))"

fun due_scan :: "nat \<Rightarrow> (int, nat \<times> nat option) btree \<Rightarrow> (int, nat \<times> nat option) btree \<times> u16 list \<times> bool" where
  "due_scan now [] = ([], [], False)"
| "due_scan now ((s, (t0, tr)) # m) =
     (case due_scan now m of (m', out, gave_up) \<Rightarrow>
        if NACK_GIVEUP_MS < now - t0 then (m', out, True)
        else if (case tr of None \<Rightarrow> True | Some t \<Rightarrow> NACK_RESEND_MS \<le> now - t)
        then ((s, (t0, Some now)) # m', word_of_int (s mod 65536) # out, gave_up)
        else ((s, (t0, tr)) # m', out, gave_up))"

definition nack_due :: "nat \<Rightarrow> nack_up \<Rightarrow> u16 list \<times> bool \<times> nack_up" where
  "nack_due now n =
     (case due_scan now (missing n) of (m, out, gave_up) \<Rightarrow>
        (out, gave_up, n\<lparr>missing := m, n_sent := n_sent n + length out\<rparr>))"

section \<open>Picture loss\<close>

record pli_state =
  pli_last_ms :: nat
  pli_pending :: bool
  pli_sent :: nat

text \<open>\<open>gap\<close> is the throttle of the track's layer. The result tells whether a request goes out.\<close>

definition request_pli :: "nat \<Rightarrow> nat \<Rightarrow> bool \<Rightarrow> pli_state \<Rightarrow> bool \<times> pli_state" where
  "request_pli gap now infra p =
     (if pli_last_ms p = 0 \<or> gap \<le> now - pli_last_ms p
      then (True, p\<lparr>pli_last_ms := now, pli_pending := False, pli_sent := pli_sent p + 1\<rparr>)
      else (False, if infra then p\<lparr>pli_pending := True\<rparr> else p))"

definition pli_flush :: "nat \<Rightarrow> nat \<Rightarrow> pli_state \<Rightarrow> bool \<times> pli_state" where
  "pli_flush gap now p =
     (if pli_pending p \<and> gap \<le> now - pli_last_ms p then request_pli gap now True p else (False, p))"

section \<open>Repair\<close>

definition unwrap_rtx :: "u8 \<Rightarrow> u32 \<Rightarrow> u8 list \<Rightarrow> nat \<Rightarrow> (u16 \<times> u8 list) option" where
  "unwrap_rtx pt ssrc plain hlen =
     (if length plain < hlen + 2 \<or> hlen < 12 then None
      else
        (let osn = of_be16 (plain ! hlen) (plain ! (hlen + 1));
             out = take hlen plain;
             out = out[1 := (out ! 1 AND 0x80) OR (pt AND 0x7f)];
             out = take 2 out @ be16 osn @ drop 4 out;
             out = take 8 out @ be32 ssrc @ drop 12 out
         in Some (osn, out @ drop (hlen + 2) plain)))"

definition BLOCKED_NOTIFY_US :: nat where "BLOCKED_NOTIFY_US = 500000"

definition blocked_notify :: "nat \<Rightarrow> nat \<Rightarrow> bool \<times> nat" where
  "blocked_notify at_us pv = (if pv = 0 \<or> BLOCKED_NOTIFY_US \<le> at_us - pv then (True, at_us) else (False, pv))"

section \<open>The cache keeps the last thousand\<close>

definition same_slot :: "u16 \<Rightarrow> u16 \<Rightarrow> bool" where
  "same_slot a b \<longleftrightarrow> unat a mod CACHE = unat b mod CACHE"

definition cache_ok :: "cache \<Rightarrow> bool" where
  "cache_ok c \<longleftrightarrow> c = [] \<or> length c = CACHE"

lemma cache_put_get:
  assumes "cache_ok c"
  shows "cache_ok (cache_put seq b c)"
    and "cache_get s (cache_put seq b c) = (if s = seq then Some b else if same_slot s seq then None else cache_get s c)"
proof -
  have pos: "unat x mod CACHE < CACHE" for x :: u16 by (simp add: CACHE_def)
  show "cache_ok (cache_put seq b c)" using assms by (auto simp: cache_ok_def cache_put_def Let_def)
  show "cache_get s (cache_put seq b c) = (if s = seq then Some b else if same_slot s seq then None else cache_get s c)"
    using assms pos [of s] pos [of seq]
    by (auto simp: cache_ok_def cache_put_def cache_get_def same_slot_def Let_def nth_list_update)
qed

definition cache_of :: "(u16 \<times> u8 list) list \<Rightarrow> cache" where
  "cache_of ps = foldl (\<lambda>c (s, b). cache_put s b c) [] ps"

lemma cache_of_snoc: "cache_of (ps @ [(s, b)]) = cache_put s b (cache_of ps)"
  by (simp add: cache_of_def)

lemma cache_of_ok: "cache_ok (cache_of ps)"
proof (induction ps rule: rev_induct)
  case Nil
  then show ?case by (simp add: cache_of_def cache_ok_def)
next
  case (snoc p ps)
  then show ?case by (cases p) (simp add: cache_of_snoc cache_put_get)
qed

text \<open>
  What is found for a number: the bytes of the last packet of its slot, if that packet has this very number.
\<close>

lemma cache_get_of:
  "cache_get s (cache_of ps) =
     (let es = filter (\<lambda>q. same_slot s (fst q)) ps in if es \<noteq> [] \<and> fst (last es) = s then Some (snd (last es)) else None)"
proof (induction ps rule: rev_induct)
  case Nil
  then show ?case by (simp add: cache_of_def cache_get_def)
next
  case (snoc q ps)
  obtain t d where q: "q = (t, d)" by (cases q)
  have "same_slot s s" by (simp add: same_slot_def)
  with snoc show ?case unfolding q cache_of_snoc cache_put_get(2) [OF cache_of_ok] by (auto simp: Let_def)
qed

lemma cache_last:
  "(\<And>q. q \<in> set qs \<Longrightarrow> \<not> same_slot s (fst q)) \<Longrightarrow> cache_get s (cache_of (ps @ (s, b) # qs)) = Some b"
  using cache_get_of [of s "ps @ (s, b) # qs"] by (auto simp: same_slot_def filter_empty_conv [THEN iffD2])

text \<open>In a stream in order, a packet is found as long as at most 1023 followed it.\<close>

lemma distinct_slots: "0 < k \<Longrightarrow> k < 1024 \<Longrightarrow> \<not> same_slot s (s + of_nat k)"
proof -
  assume k: "0 < k" "k < 1024"
  have "unat (s + of_nat k) mod 1024 = (unat s + k) mod 1024"
    using k by (simp add: unat_word_ariths unat_of_nat take_bit_eq_mod mod_mod_cancel)
  then have "same_slot s (s + of_nat k) \<longleftrightarrow> unat s mod 1024 = (unat s + k) mod 1024"
    by (simp add: same_slot_def CACHE_def)
  moreover have "(unat s + k) mod 1024 \<noteq> unat s mod 1024" using k by (simp add: mod_eq_iff_dvd_symdiff_nat nat_dvd_not_less)
  ultimately show ?thesis by simp
qed

definition in_order_stream :: "u16 \<Rightarrow> u8 list list \<Rightarrow> (u16 \<times> u8 list) list" where
  "in_order_stream s0 bs = map (\<lambda>i. (s0 + of_nat i, bs ! i)) [0..<length bs]"

text \<open>
  The cache keeps the last 1024 packets: of a stream received in order, from any first number and across
  any wraps, each of the last 1024 packets is found under its number.
\<close>

theorem cache_keeps_recent:
  assumes "k < length bs" "length bs \<le> k + 1024"
  shows "cache_get (s0 + of_nat k) (cache_of (in_order_stream s0 bs)) = Some (bs ! k)"
proof -
  let ?f = "\<lambda>i. (s0 + of_nat i :: u16, bs ! i)"
  have "[0..<length bs] = [0..<k] @ k # [Suc k..<length bs]"
    using assms(1) upt_add_eq_append [of 0 k "length bs - k"] by (simp add: upt_conv_Cons)
  then have stream: "in_order_stream s0 bs = map ?f [0..<k] @ (s0 + of_nat k, bs ! k) # map ?f [Suc k..<length bs]"
    by (simp add: in_order_stream_def)
  show ?thesis unfolding stream
  proof (rule cache_last)
    fix q assume "q \<in> set (map ?f [Suc k..<length bs])"
    then obtain i where i: "q = ?f i" "k < i" "i < length bs" by auto
    then have "s0 + of_nat i = s0 + of_nat k + of_nat (i - k)" by (simp add: of_nat_diff)
    then show "\<not> same_slot (s0 + of_nat k) (fst q)"
      using distinct_slots [of "i - k" "s0 + of_nat k"] i assms(2) by simp
  qed
qed

theorem cache_keeps_recent_witness:
  "cache_get 65535 (cache_of (in_order_stream 65533 [[1], [2], [3], [4]])) = Some [3]"
  using cache_keeps_recent [of 2 "[[1], [2], [3], [4]]" 65533] by simp

section \<open>Only what is missing is asked for\<close>

text \<open>
  The tracker with its history: the numbers received, unwrapped, and the requests made with their times.
\<close>

datatype nack_event = NPacket u16 nat | NDue nat

type_synonym nack_trace = "nack_up \<times> int list \<times> (int \<times> nat) list"

definition unwrapped :: "u16 \<Rightarrow> nack_up \<Rightarrow> int" where
  "unwrapped seq n = (case n_last n of None \<Rightarrow> int (unat seq) | Some l \<Rightarrow> n_base n + i16_of (seq - l))"

fun due_keys :: "nat \<Rightarrow> (int, nat \<times> nat option) btree \<Rightarrow> int list" where
  "due_keys now [] = []"
| "due_keys now ((s, (t0, tr)) # m) =
     (if \<not> NACK_GIVEUP_MS < now - t0 \<and> (case tr of None \<Rightarrow> True | Some t \<Rightarrow> NACK_RESEND_MS \<le> now - t)
      then s # due_keys now m else due_keys now m)"

definition nack_step :: "nack_trace \<Rightarrow> nack_event \<Rightarrow> nack_trace" where
  "nack_step x e =
     (case x of (n, got, asked) \<Rightarrow>
        case e of
          NPacket seq now \<Rightarrow> (nack_on_packet seq now n, unwrapped seq n # got, asked)
        | NDue now \<Rightarrow> (snd (snd (nack_due now n)), got, map (\<lambda>k. (k, now)) (due_keys now (missing n)) @ asked))"

lemma due_scan_keys: "fst (snd (due_scan now m)) = map (\<lambda>k. word_of_int (k mod 65536)) (due_keys now m)"
  by (induction now m rule: due_scan.induct) (auto split: prod.splits option.splits)

definition entry_due :: "nat \<Rightarrow> nat \<times> nat option \<Rightarrow> bool" where
  "entry_due now e \<longleftrightarrow> \<not> NACK_GIVEUP_MS < now - fst e
     \<and> (case snd e of None \<Rightarrow> True | Some t \<Rightarrow> NACK_RESEND_MS \<le> now - t)"

definition entry_after :: "nat \<Rightarrow> nat \<times> nat option \<Rightarrow> (nat \<times> nat option) option" where
  "entry_after now e = (if NACK_GIVEUP_MS < now - fst e then None else if entry_due now e then Some (fst e, Some now) else Some e)"

lemma bt_keys_Cons [simp]: "bt_keys ((k, v) # m) = k # bt_keys m"
  by (simp add: bt_keys_def)

lemma due_scan_sub: "set (bt_keys (fst (due_scan now m))) \<subseteq> set (bt_keys m) \<and> length (fst (due_scan now m)) \<le> length m"
  by (induction now m rule: due_scan.induct) (auto split: prod.splits option.splits)

lemma bt_ok_Cons: "bt_ok ((k, v) # m) \<longleftrightarrow> (\<forall>x \<in> set (bt_keys m). k < x) \<and> bt_ok m"
  by (auto simp: bt_ok_def bt_keys_def)

lemma due_scan_ok: "bt_ok m \<Longrightarrow> bt_ok (fst (due_scan now m))"
proof (induction now m rule: due_scan.induct)
  case (2 now s t0 tr m)
  moreover have "set (bt_keys (fst (due_scan now m))) \<subseteq> set (bt_keys m)" using due_scan_sub by blast
  ultimately show ?case by (auto simp: bt_ok_Cons split: prod.splits option.splits)
qed simp

lemma due_scan_get: "bt_ok m \<Longrightarrow> bt_get (fst (due_scan now m)) k = Option.bind (bt_get m k) (entry_after now)"
proof (induction now m rule: due_scan.induct)
  case (2 now s t0 tr m)
  have "bt_ok m" "s \<notin> set (bt_keys m)" using 2(2) by (auto simp: bt_ok_Cons)
  moreover have "s \<notin> set (bt_keys (fst (due_scan now m)))" using \<open>s \<notin> set (bt_keys m)\<close> due_scan_sub by blast
  then have "bt_get (fst (due_scan now m)) s = None" by (meson bt_keys_iff)
  ultimately show ?case using 2(1)
    by (auto simp: bt_get_def entry_after_def entry_due_def split: prod.splits option.splits)
qed simp

lemma due_keys_iff: "bt_ok m \<Longrightarrow> k \<in> set (due_keys now m) \<longleftrightarrow> (\<exists>e. bt_get m k = Some e \<and> entry_due now e)"
proof (induction now m rule: due_keys.induct)
  case (2 now s t0 tr m)
  have "bt_ok m" "s \<notin> set (bt_keys m)" using 2(3) by (auto simp: bt_ok_Cons)
  then have "s \<notin> fst ` set m" by (simp add: bt_keys_def)
  then have "map_of m s = None" by (simp add: map_of_eq_None_iff)
  then show ?case using 2(1, 2) \<open>bt_ok m\<close>
    by (cases "k = s") (auto simp: bt_get_def entry_due_def split: option.splits)
qed simp

lemma due_keys_sub: "set (due_keys now m) \<subseteq> set (bt_keys m) \<and> length (due_keys now m) \<le> length m"
  by (induction now m rule: due_keys.induct) (auto simp: bt_keys_def split: option.splits)

lemma due_keys_distinct: "bt_ok m \<Longrightarrow> sorted_wrt (<) (due_keys now m)"
proof (induction now m rule: due_keys.induct)
  case (2 now s t0 tr m)
  then show ?case using due_keys_sub [of now m] by (auto simp: bt_ok_Cons)
qed simp

lemma bt_insert_length: "length (bt_insert k v m) \<le> Suc (length m)"
  by (induction k v m rule: bt_insert.induct) auto

lemma mark_missing_props:
  "bt_ok m \<Longrightarrow> length m \<le> NACK_MAX \<Longrightarrow>
     bt_ok (mark_missing now ss m) \<and> length (mark_missing now ss m) \<le> NACK_MAX
   \<and> (\<forall>k. bt_get (mark_missing now ss m) k = bt_get m k
          \<or> k \<in> set ss \<and> bt_get m k = None \<and> bt_get (mark_missing now ss m) k = Some (now, None))"
proof (induction now ss m rule: mark_missing.induct)
  case (2 now s ss m)
  let ?m = "case bt_get m s of None \<Rightarrow> bt_insert s (now, None) m | Some _ \<Rightarrow> m"
  show ?case
  proof (cases "NACK_MAX \<le> length m")
    case True
    with 2 show ?thesis by simp
  next
    case False
    have "bt_ok ?m" "length ?m \<le> NACK_MAX"
      using 2 False le_trans [OF bt_insert_length [of s "(now, None)" m]] by (auto split: option.splits)
    from 2(1) [OF False this] show ?thesis using False
      by (cases "bt_get m s") (auto simp del: not_None_eq not_Some_eq split_paired_All, metis+)
  qed
qed simp

definition nack_inv :: "nack_trace \<Rightarrow> bool" where
  "nack_inv x =
     (case x of (n, got, asked) \<Rightarrow>
        bt_ok (missing n) \<and> length (missing n) \<le> NACK_MAX
      \<and> (case n_last n of
           None \<Rightarrow> missing n = [] \<and> got = [] \<and> asked = []
         | Some l \<Rightarrow> l = word_of_int (n_base n) \<and> n_base n \<in> set got)
      \<and> (\<forall>k e. bt_get (missing n) k = Some e \<longrightarrow> k < n_base n \<and> k \<notin> set got \<and> snd e = map_of asked k)
      \<and> (\<forall>g \<in> set got. g \<le> n_base n) \<and> (\<forall>a \<in> fst ` set asked. a < n_base n))"

lemma nack_invI:
  assumes "bt_ok (missing n)" "length (missing n) \<le> NACK_MAX" "n_last n = Some (word_of_int (n_base n))"
    and "n_base n \<in> set got" "\<And>k e. bt_get (missing n) k = Some e \<Longrightarrow> k < n_base n \<and> k \<notin> set got \<and> snd e = map_of asked k"
    and "\<And>g. g \<in> set got \<Longrightarrow> g \<le> n_base n" "\<And>a. a \<in> fst ` set asked \<Longrightarrow> a < n_base n"
  shows "nack_inv (n, got, asked)"
  unfolding nack_inv_def prod.case using assms by (simp del: split_paired_All image_iff)

lemma nack_invD:
  assumes "nack_inv (n, got, asked)"
  shows "bt_ok (missing n)" "length (missing n) \<le> NACK_MAX"
    and "n_last n = Some l \<Longrightarrow> l = word_of_int (n_base n) \<and> n_base n \<in> set got"
    and "n_last n = None \<Longrightarrow> missing n = [] \<and> got = [] \<and> asked = []"
    and "bt_get (missing n) k = Some e \<Longrightarrow> k < n_base n \<and> k \<notin> set got \<and> snd e = map_of asked k"
    and "g \<in> set got \<Longrightarrow> g \<le> n_base n" "a \<in> fst ` set asked \<Longrightarrow> a < n_base n"
  using assms unfolding nack_inv_def prod.case by (simp_all del: split_paired_All image_iff ball_simps)

lemma unwrapped_low: "nack_inv (n, got, asked) \<Longrightarrow> word_of_int (unwrapped seq n) = seq"
  by (auto simp: nack_inv_def unwrapped_def i16_of_def split: option.splits)

lemma nack_packet_inv:
  assumes "nack_inv (n, got, asked)"
  shows "nack_inv (nack_on_packet seq now n, unwrapped seq n # got, asked)"
proof (cases "n_last n")
  case None
  with assms show ?thesis by (auto simp: nack_inv_def nack_on_packet_def unwrapped_def)
next
  case (Some l)
  let ?u = "n_base n + i16_of (seq - l)"
  let ?m = "mark_missing now [n_base n + 1..?u - 1] (missing n)"
  have low: "word_of_int ?u = seq" using unwrapped_low [OF assms, of seq] Some by (simp add: unwrapped_def)
  have mm: "bt_ok ?m" "length ?m \<le> NACK_MAX"
    "\<And>k. bt_get ?m k = bt_get (missing n) k
          \<or> k \<in> {n_base n + 1..?u - 1} \<and> bt_get (missing n) k = None \<and> bt_get ?m k = Some (now, None)"
    using assms mark_missing_props [of "missing n" now "[n_base n + 1..?u - 1]"] by (auto simp: nack_inv_def)
  have new: "k \<notin> set got \<and> map_of asked k = None" if "n_base n < k" for k
    using assms that by (force simp: nack_inv_def map_of_eq_None_iff)
  note inv = nack_invD [OF assms]
  let ?n = "nack_on_packet seq now n"
  have un: "unwrapped seq n = ?u" by (simp add: unwrapped_def Some)
  consider "?u - n_base n \<le> 0" | "1 < ?u - n_base n \<and> ?u - n_base n < 128"
    | "\<not> ?u - n_base n \<le> 0" "\<not> (1 < ?u - n_base n \<and> ?u - n_base n < 128)"
    by blast
  then show ?thesis
  proof cases
    case 1
    then have n: "?n = n\<lparr>missing := bt_remove ?u (missing n)\<rparr>" by (simp add: nack_on_packet_def Some)
    show ?thesis unfolding n un
    proof (rule nack_invI)
      show "length (missing (n\<lparr>missing := bt_remove ?u (missing n)\<rparr>)) \<le> NACK_MAX"
        using inv(2) by (simp add: bt_remove_def le_trans [OF length_filter_le])
      show "k < n_base (n\<lparr>missing := bt_remove ?u (missing n)\<rparr>) \<and> k \<notin> set (?u # got) \<and> snd e = map_of asked k"
        if "bt_get (missing (n\<lparr>missing := bt_remove ?u (missing n)\<rparr>)) k = Some e" for k e
        using that inv(5) [of k e] by (auto split: if_splits)
    qed (use 1 inv(1, 3, 6, 7) Some in auto)
  next
    case 2
    then have n: "?n = n\<lparr>missing := ?m, n_last := Some seq, n_base := ?u\<rparr>" by (simp add: nack_on_packet_def Some Let_def)
    have "k < ?u \<and> k \<noteq> ?u \<and> k \<notin> set got \<and> snd e = map_of asked k" if e: "bt_get ?m k = Some e" for k e
    proof (cases "bt_get ?m k = bt_get (missing n) k")
      case True
      with e inv(5) [of k e] 2 show ?thesis by simp
    next
      case False
      with mm(3) [of k] e new [of k] show ?thesis by auto
    qed
    then show ?thesis unfolding n un using 2 mm(1, 2) low inv(6, 7)
      by (intro nack_invI) (fastforce simp del: image_iff)+
  next
    case 3
    then have n: "?n = n\<lparr>n_last := Some seq, n_base := ?u\<rparr>" by (auto simp add: nack_on_packet_def Some Let_def)
    have "k < ?u \<and> k \<noteq> ?u \<and> k \<notin> set got \<and> snd e = map_of asked k" if "bt_get (missing n) k = Some e" for k e
      using inv(5) [OF that] 3 by simp
    then show ?thesis unfolding n un using 3 inv(1, 2, 6, 7) low
      by (intro nack_invI) (fastforce simp del: image_iff)+
  qed
qed

lemma nack_due_state: "snd (snd (nack_due now n)) = n\<lparr>missing := fst (due_scan now (missing n)), n_sent := n_sent n + length (fst (nack_due now n))\<rparr>"
  by (simp add: nack_due_def split: prod.splits)

lemma map_of_const: "map_of (map (\<lambda>k. (k, v)) ks @ al) k = (if k \<in> set ks then Some v else map_of al k)"
  by (induction ks) auto

lemma nack_due_inv:
  assumes "nack_inv (n, got, asked)"
  shows "nack_inv (snd (snd (nack_due now n)), got, map (\<lambda>k. (k, now)) (due_keys now (missing n)) @ asked)"
proof -
  note inv = nack_invD [OF assms]
  note ok = inv(1)
  let ?n = "snd (snd (nack_due now n))" and ?asked = "map (\<lambda>k. (k, now)) (due_keys now (missing n)) @ asked"
  have get: "k < n_base n \<and> k \<notin> set got \<and> snd e = map_of ?asked k"
    if e: "bt_get (fst (due_scan now (missing n))) k = Some e" for k e
  proof -
    obtain e0 where e0: "bt_get (missing n) k = Some e0" "entry_after now e0 = Some e"
      using e unfolding due_scan_get [OF ok] bind_eq_Some_conv by blast
    have "k \<in> set (due_keys now (missing n)) \<longleftrightarrow> entry_due now e0" by (metis due_keys_iff [OF ok] e0(1) option.inject)
    then have "map_of ?asked k = (if entry_due now e0 then Some now else map_of asked k)" by (simp only: map_of_const)
    then show ?thesis using inv(5) [OF e0(1)] e0(2) by (auto simp: entry_after_def split: if_splits)
  qed
  show ?thesis
  proof (cases "n_last n")
    case None
    with inv(4) show ?thesis by (simp add: nack_due_def nack_inv_def NACK_MAX_def)
  next
    case (Some l)
    have "k < n_base n" if "k \<in> set (due_keys now (missing n))" for k
      using that inv(5) by (metis due_keys_iff [OF ok])
    then have "a < n_base n" if "a \<in> fst ` set ?asked" for a using that inv(7) [of a] by force
    then show ?thesis using get due_scan_ok [OF ok] due_scan_sub [of now "missing n"] inv(2, 3, 6) Some
      by (intro nack_invI) (simp_all add: nack_due_state del: split_paired_All set_append set_map map_of_append)
  qed
qed

definition nack_start :: nack_trace where
  "nack_start = (nack_new, [], [])"

interpretation nack: machine nack_start nack_step nack_inv
proof unfold_locales
  show "nack_inv nack_start" by (simp add: nack_inv_def nack_start_def nack_new_def)
  show "nack_inv (nack_step s e)" if "nack_inv s" for s e
    using that by (cases s; cases e) (auto simp: nack_step_def nack_packet_inv nack_due_inv)
qed

definition nack_run :: "nack_event list \<Rightarrow> nack_trace" where
  "nack_run es = run_from nack_step nack_start es"

lemma nack_run_inv: "nack_run es = (n, got, asked) \<Longrightarrow> nack_inv (n, got, asked)"
  using nack.inv_run [of es] by (simp add: nack_run_def)

lemma nack_due_out: "fst (nack_due now n) = map (\<lambda>k. word_of_int (k mod 65536)) (due_keys now (missing n))"
  unfolding nack_due_def due_scan_keys [symmetric] by (simp add: case_prod_beta)

text \<open>
  The uplink NACK asks only for what is missing (C37): after any packets in any order and any earlier rounds, what
  a round asks for is the low sixteen bits of distinct numbers, in ascending order and at most 128 of them,
  each below the newest number received, never itself received, and not asked for in the last 200 ms.
\<close>

theorem nack_asks_only_missing:
  assumes "nack_run es = (n, got, asked)"
  shows "\<exists>ks. fst (nack_due now n) = map (\<lambda>k. word_of_int (k mod 65536)) ks
           \<and> sorted_wrt (<) ks \<and> length ks \<le> 128
           \<and> (\<forall>k \<in> set ks. k < n_base n \<and> n_base n \<in> set got \<and> k \<notin> set got
                 \<and> (case map_of asked k of None \<Rightarrow> True | Some t \<Rightarrow> t + 200 \<le> now))"
proof (intro exI conjI)
  note inv = nack_run_inv [OF assms]
  then have ok: "bt_ok (missing n)" "length (missing n) \<le> 128" by (simp_all add: nack_inv_def NACK_MAX_def)
  show "fst (nack_due now n) = map (\<lambda>k. word_of_int (k mod 65536)) (due_keys now (missing n))" by (rule nack_due_out)
  show "sorted_wrt (<) (due_keys now (missing n))" by (rule due_keys_distinct [OF ok(1)])
  show "length (due_keys now (missing n)) \<le> 128" using ok(2) due_keys_sub [of now "missing n"] by linarith
  show "\<forall>k \<in> set (due_keys now (missing n)). k < n_base n \<and> n_base n \<in> set got \<and> k \<notin> set got
          \<and> (case map_of asked k of None \<Rightarrow> True | Some t \<Rightarrow> t + 200 \<le> now)"
  proof
    fix k assume "k \<in> set (due_keys now (missing n))"
    then obtain e where e: "bt_get (missing n) k = Some e" "entry_due now e" using due_keys_iff [OF ok(1)] by blast
    then have "missing n \<noteq> []" by auto
    then have "n_base n \<in> set got" using nack_invD(3, 4) [OF inv] by (cases "n_last n") auto
    moreover note nack_invD(5) [OF inv e(1)]
    ultimately show "k < n_base n \<and> n_base n \<in> set got \<and> k \<notin> set got
          \<and> (case map_of asked k of None \<Rightarrow> True | Some t \<Rightarrow> t + 200 \<le> now)"
      using e(2) by (auto simp: entry_due_def NACK_RESEND_MS_def split: option.splits)
  qed
qed

text \<open>And it does ask: the first round after a gap of fewer than 128 numbers asks for the whole gap.\<close>

lemma mark_missing_fresh:
  "sorted_wrt (<) (map fst m @ ss) \<Longrightarrow> length m + length ss \<le> NACK_MAX \<Longrightarrow>
     mark_missing now ss m = m @ map (\<lambda>s. (s, (now, None))) ss"
proof (induction now ss m rule: mark_missing.induct)
  case (2 now s ss m)
  have less: "\<forall>k \<in> fst ` set m. k < s" using 2(2) by (auto simp: sorted_wrt_append)
  then have "bt_get m s = None" by (auto simp: bt_get_def map_of_eq_None_iff)
  moreover have "bt_insert s v m = m @ [(s, v)]" for v using less
    by (induction s v m rule: bt_insert.induct) (auto simp: not_less_iff_gr_or_eq)
  ultimately show ?case using 2 by (simp add: sorted_wrt_append)
qed simp

lemma due_keys_fresh: "due_keys now (map (\<lambda>s. (s, (now, None))) ss) = ss"
  by (induction ss) (auto simp: NACK_GIVEUP_MS_def)

lemma sorted_upto: "sorted_wrt (<) [i..j]"
  using sorted_upto [of i j] distinct_upto [of i j] strict_sorted_iff by blast

theorem nack_gap_asked:
  assumes "n_last n = Some l" "missing n = []" "unat (seq - l) < 128"
  shows "fst (nack_due now (nack_on_packet seq now n))
           = map (\<lambda>k. word_of_int (k mod 65536)) [n_base n + 1..n_base n + int (unat (seq - l)) - 1]"
proof -
  define d where "d = int (unat (seq - l))"
  have d: "i16_of (seq - l) = d" "0 \<le> d" "d < 128" using assms(3) by (simp_all only: d_def i16_of_eq) simp_all
  have "missing (nack_on_packet seq now n) = map (\<lambda>s. (s, (now, None))) [n_base n + 1..n_base n + d - 1]"
    using assms(1, 2) d(2, 3) mark_missing_fresh [of "[]" "[n_base n + 1..n_base n + d - 1]" now]
    by (auto simp: nack_on_packet_def d(1) Let_def bt_remove_def sorted_upto NACK_MAX_def)
  then show ?thesis by (simp add: nack_due_out due_keys_fresh d_def [symmetric] del: of_nat_unat)
qed

text \<open>Numbers 65534 to 1 are asked for after 65533 is followed by 2; then not again for 200 ms, and not 0, which came.\<close>

theorem nack_asks_only_missing_witness:
  "\<exists>n got asked. nack_run [NPacket 65533 10, NPacket 2 20, NDue 30, NPacket 0 40] = (n, got, asked)
     \<and> n_base n = 65538 \<and> asked = [(65534, 30), (65535, 30), (65536, 30), (65537, 30)]
     \<and> fst (nack_due 100 n) = [] \<and> fst (nack_due 230 n) = [65534, 65535, 1]
     \<and> (\<exists>ks. fst (nack_due 230 n) = map (\<lambda>k. word_of_int (k mod 65536)) ks \<and> sorted_wrt (<) ks \<and> length ks \<le> 128)"
proof -
  obtain n got asked where r: "nack_run [NPacket 65533 10, NPacket 2 20, NDue 30, NPacket 0 40] = (n, got, asked)"
    by (metis prod_cases3)
  have "case nack_run [NPacket 65533 10, NPacket 2 20, NDue 30, NPacket 0 40] of (n, got, asked) \<Rightarrow>
     n_base n = 65538 \<and> asked = [(65534, 30), (65535, 30), (65536, 30), (65537, 30)]
     \<and> fst (nack_due 100 n) = [] \<and> fst (nack_due 230 n) = [65534, 65535, 1]"
    by (simp add: nack_run_def nack_start_def nack_new_def nack_step_def nack_on_packet_def nack_due_def i16_of_eq unwrapped_def
        upto.simps bt_get_def bt_remove_def NACK_MAX_def NACK_GIVEUP_MS_def NACK_RESEND_MS_def)
  then have "n_base n = 65538 \<and> asked = [(65534, 30), (65535, 30), (65536, 30), (65537, 30)]
     \<and> fst (nack_due 100 n) = [] \<and> fst (nack_due 230 n) = [65534, 65535, 1]"
    unfolding r by simp
  with nack_asks_only_missing [OF r, of 230] r show ?thesis by blast
qed

theorem nack_gap_asked_witness:
  "fst (nack_due 20 (nack_on_packet 2 20 (nack_on_packet 65533 10 nack_new))) = [65534, 65535, 0, 1]"
  using nack_gap_asked [of "nack_on_packet 65533 10 nack_new" 65533 2 20]
  by (simp add: nack_on_packet_def nack_new_def upto.simps)

section \<open>Picture-loss requests are spaced and not lost\<close>

datatype pli_event = PliAsk bool nat | PliTick nat

fun pli_event_time :: "pli_event \<Rightarrow> nat" where
  "pli_event_time (PliAsk _ t) = t"
| "pli_event_time (PliTick t) = t"

definition pli_step :: "nat \<Rightarrow> pli_state \<times> nat list \<Rightarrow> pli_event \<Rightarrow> pli_state \<times> nat list" where
  "pli_step gap x e =
     (case (case e of PliAsk infra t \<Rightarrow> request_pli gap t infra (fst x) | PliTick t \<Rightarrow> pli_flush gap t (fst x))
      of (out, p) \<Rightarrow> (p, if out then pli_event_time e # snd x else snd x))"

definition pli_new :: pli_state where
  "pli_new = \<lparr>pli_last_ms = 0, pli_pending = False, pli_sent = 0\<rparr>"

definition pli_run :: "nat \<Rightarrow> pli_event list \<Rightarrow> pli_state \<times> nat list" where
  "pli_run gap es = run_from (pli_step gap) (pli_new, []) es"

text \<open>The times requests went out, newest first: each is at least the gap after the one before.\<close>

fun spaced :: "nat \<Rightarrow> nat list \<Rightarrow> bool" where
  "spaced gap (b # a # ts) \<longleftrightarrow> (a = 0 \<or> a + gap \<le> b) \<and> spaced gap (a # ts)"
| "spaced gap _ \<longleftrightarrow> True"

definition pli_inv :: "nat \<Rightarrow> pli_state \<times> nat list \<Rightarrow> bool" where
  "pli_inv gap x \<longleftrightarrow> spaced gap (snd x) \<and> pli_last_ms (fst x) = (case snd x of [] \<Rightarrow> 0 | t # _ \<Rightarrow> t)
     \<and> pli_sent (fst x) = length (snd x)"

lemma pli_inv_step: "0 < gap \<Longrightarrow> pli_inv gap x \<Longrightarrow> pli_inv gap (pli_step gap x e)"
  by (cases "snd x"; cases e)
    (auto simp: pli_inv_def pli_step_def request_pli_def pli_flush_def split: if_splits)

interpretation pli: machine "(pli_new, [])" "pli_step (Suc g)" "pli_inv (Suc g)" for g
  by unfold_locales (simp_all add: pli_inv_step, simp add: pli_inv_def pli_new_def)

lemma pli_step_pending:
  "pli_pending (fst x) \<Longrightarrow> pli_pending (fst (pli_step gap x e)) \<or> length (snd x) < length (snd (pli_step gap x e))"
  by (cases e) (auto simp: pli_step_def request_pli_def pli_flush_def)

lemma pli_step_grows: "length (snd x) \<le> length (snd (pli_step gap x e))"
  by (cases e) (auto simp: pli_step_def request_pli_def pli_flush_def)

lemma pli_grows: "length (snd x) \<le> length (snd (run_from (pli_step gap) x es))"
proof (induction es arbitrary: x)
  case (Cons e es)
  then show ?case using le_trans [OF pli_step_grows [of x gap e] Cons [of "pli_step gap x e"]] by simp
qed simp

lemma pli_pending_kept:
  "pli_pending (fst x) \<Longrightarrow> pli_pending (fst (run_from (pli_step gap) x es)) \<or> length (snd x) < length (snd (run_from (pli_step gap) x es))"
proof (induction es arbitrary: x)
  case (Cons e es)
  let ?y = "pli_step gap x e"
  show ?case
  proof (cases "pli_pending (fst ?y)")
    case True
    then show ?thesis using Cons.IH [of ?y] pli_step_grows [of x gap e] by auto
  next
    case False
    then show ?thesis using pli_step_pending [OF Cons.prems, of gap e] pli_grows [of ?y gap es] by auto
  qed
qed simp

text \<open>
  Picture-loss requests are spaced and not lost: whatever asks for them, two requests of a track never go
  out closer than its throttle; and a request of the server itself that the throttle held back is made up
  for, by the first tick after the throttle at the latest.
\<close>

theorem pli_spaced_not_lost:
  assumes "0 < gap" "pli_last_ms (fst (pli_run gap (es @ PliAsk True t # fs))) + gap \<le> t'"
  shows "spaced gap (snd (pli_run gap (es @ PliAsk True t # fs @ [PliTick t'])))
       \<and> length (snd (pli_run gap es)) < length (snd (pli_run gap (es @ PliAsk True t # fs @ [PliTick t'])))"
proof -
  obtain g where g: "gap = Suc g" using assms(1) by (cases gap) auto
  let ?x = "pli_run gap es" and ?y = "pli_step gap (pli_run gap es) (PliAsk True t)"
  let ?z = "run_from (pli_step gap) ?y fs"
  have run: "pli_run gap (es @ PliAsk True t # fs @ [PliTick t']) = pli_step gap ?z (PliTick t')"
    and z: "pli_run gap (es @ PliAsk True t # fs) = ?z"
    by (simp_all add: pli_run_def run_from_append run_from_snoc)
  have asked: "pli_pending (fst ?y) \<or> length (snd ?x) < length (snd ?y)"
    by (auto simp: pli_step_def request_pli_def)
  have last: "length (snd ?z) < length (snd (pli_step gap ?z (PliTick t')))" if "pli_pending (fst ?z)"
    using that assms(2) unfolding z by (auto simp: pli_step_def pli_flush_def request_pli_def)
  have "length (snd ?x) < length (snd (pli_step gap ?z (PliTick t')))"
    using asked last pli_pending_kept [of ?y gap fs] pli_grows [of ?y gap fs] pli_step_grows [of ?z gap "PliTick t'"]
      pli_step_grows [of ?x gap "PliAsk True t"] by linarith
  moreover have "pli_inv gap (pli_run gap (es @ PliAsk True t # fs @ [PliTick t']))"
    unfolding pli_run_def g by (rule pli.inv_run)
  ultimately show ?thesis by (simp add: run pli_inv_def)
qed

theorem pli_spaced_not_lost_witness:
  "snd (pli_run 500 ([PliAsk False 1000] @ PliAsk True 1200 # [PliAsk False 1300] @ [PliTick 1500])) = [1500, 1000]
   \<and> spaced 500 (snd (pli_run 500 ([PliAsk False 1000] @ PliAsk True 1200 # [PliAsk False 1300] @ [PliTick 1500])))"
proof -
  have "pli_last_ms (fst (pli_run 500 ([PliAsk False 1000] @ PliAsk True 1200 # [PliAsk False 1300]))) + 500 \<le> 1500"
    by code_simp
  from pli_spaced_not_lost [OF _ this] show ?thesis by code_simp
qed

end
