(* ===== verification/Link.thy ===== *)
theory Link
  imports Prelude
begin

text \<open>
  The connection of a peer (\<open>oxsfud/src/link\<close>): the framing of packets over TCP (\<open>tcp.rs\<close>), the ICE
  credentials and their restart (\<open>creds.rs\<close>), the paths a transport may send on and its liveness
  (\<open>mod.rs\<close>).
\<close>

section \<open>Framing over TCP\<close>

definition tcp_frame :: "u8 list \<Rightarrow> u8 list option" where
  "tcp_frame payload =
     (if 65535 < length payload then None else Some (be16 (of_nat (length payload)) @ payload))"

function next_frame :: "u8 list \<Rightarrow> u8 list option \<times> u8 list" where
  "next_frame buf =
     (case buf of
        a # b # r \<Rightarrow>
          (let n = unat (of_be16 a b) in
           if length r < n then (None, buf)
           else if n = 0 then next_frame r
           else (Some (take n r), drop n r))
      | _ \<Rightarrow> (None, buf))"
  by pat_completeness auto
termination
  by (relation "measure length") auto

declare next_frame.simps [simp del]

text \<open>The reader pushes what arrived and takes out frames until there is none.\<close>

lemma next_frame_shorter: "next_frame buf = (Some f, rest) \<Longrightarrow> length rest < length buf"
proof (induction buf rule: next_frame.induct)
  case (1 buf)
  then show ?case by (subst (asm) (2) next_frame.simps) (fastforce simp: Let_def split: list.splits if_splits)
qed

function drain_frames :: "u8 list \<Rightarrow> u8 list list \<times> u8 list" where
  "drain_frames buf =
     (case next_frame buf of
        (None, rest) \<Rightarrow> ([], rest)
      | (Some f, rest) \<Rightarrow> (case drain_frames rest of (fs, rest') \<Rightarrow> (f # fs, rest')))"
  by pat_completeness auto
termination
  by (relation "measure length") (auto dest: next_frame_shorter [OF sym])

declare drain_frames.simps [simp del]

definition tcp_push :: "u8 list \<Rightarrow> u8 list \<Rightarrow> u8 list list \<times> u8 list" where
  "tcp_push buf data = drain_frames (buf @ data)"

fun tcp_read :: "u8 list \<Rightarrow> u8 list list \<Rightarrow> u8 list list \<times> u8 list" where
  "tcp_read buf [] = ([], buf)"
| "tcp_read buf (d # ds) =
     (case tcp_push buf d of (fs, rest) \<Rightarrow> case tcp_read rest ds of (fs', rest') \<Rightarrow> (fs @ fs', rest'))"

lemma next_frame_append:
  "next_frame (buf @ d) =
     (case next_frame buf of (Some f, rest) \<Rightarrow> (Some f, rest @ d) | (None, rest) \<Rightarrow> next_frame (rest @ d))"
proof (induction buf rule: next_frame.induct)
  case (1 buf)
  show ?case
  proof (cases buf)
    case (Cons a r1)
    show ?thesis
    proof (cases r1)
      case (Cons b r)
      with \<open>buf = a # r1\<close> have buf: "buf = a # b # r" by simp
      show ?thesis
      proof (cases "unat (of_be16 a b) = 0")
        case True
        with 1 [OF buf refl refl] show ?thesis by (simp add: buf next_frame.simps [of "a # b # _"])
      next
        case False
        then show ?thesis by (simp add: buf next_frame.simps [of "a # b # _"] Let_def)
      qed
    qed (simp add: \<open>buf = a # r1\<close> next_frame.simps [of "[a]"])
  qed (simp add: next_frame.simps [of "[]"])
qed

lemma next_frame_rest: "next_frame buf = (None, rest) \<Longrightarrow> next_frame rest = (None, rest)"
proof (induction buf rule: next_frame.induct)
  case (1 buf)
  show ?case
  proof (cases "\<exists>a b r. buf = a # b # r \<and> unat (of_be16 a b) = 0")
    case True
    then obtain a b r where buf: "buf = a # b # r" "unat (of_be16 a b) = 0" by blast
    have "next_frame r = (None, rest)" using "1.prems" by (simp add: buf next_frame.simps [of "a # b # r"])
    with "1.IH" [OF buf(1) refl refl] buf show ?thesis by simp
  next
    case False
    with "1.prems" have "rest = buf" by (subst (asm) next_frame.simps) (auto simp: Let_def split: list.splits if_splits)
    with "1.prems" show ?thesis by simp
  qed
qed

lemma drain_append:
  "drain_frames (buf @ d) =
     (case drain_frames buf of (fs, rest) \<Rightarrow> case drain_frames (rest @ d) of (fs', rest') \<Rightarrow> (fs @ fs', rest'))"
proof (induction buf rule: drain_frames.induct)
  case (1 buf)
  show ?case
  proof (cases "next_frame buf")
    case (Pair o1 rest)
    show ?thesis
    proof (cases o1)
      case None
      then have "next_frame (buf @ d) = next_frame (rest @ d)" using Pair next_frame_append [of buf d] by simp
      then have "drain_frames (buf @ d) = drain_frames (rest @ d)" by (simp add: drain_frames.simps [of "_ @ d"])
      then show ?thesis using Pair None by (simp add: drain_frames.simps [of buf] split: prod.split)
    next
      case (Some f)
      then have "next_frame (buf @ d) = (Some f, rest @ d)" using Pair next_frame_append [of buf d] by simp
      then have "drain_frames (buf @ d) = (case drain_frames (rest @ d) of (fs, r') \<Rightarrow> (f # fs, r'))"
        by (simp add: drain_frames.simps [of "buf @ d"])
      also have "\<dots> = (case drain_frames buf of (fs, r) \<Rightarrow> case drain_frames (r @ d) of (fs', r') \<Rightarrow> (fs @ fs', r'))"
        using 1 [OF Pair [symmetric] Some] Pair Some by (simp add: drain_frames.simps [of buf] split: prod.splits)
      finally show ?thesis .
    qed
  qed
qed

lemma drain_rest: "drain_frames buf = (fs, rest) \<Longrightarrow> next_frame rest = (None, rest)"
proof (induction buf arbitrary: fs rule: drain_frames.induct)
  case (1 buf)
  then show ?case
    by (subst (asm) (2) drain_frames.simps) (auto simp: next_frame_rest split: prod.splits option.splits)
qed

lemma drain_held: "next_frame rest = (None, rest) \<Longrightarrow> drain_frames rest = ([], rest)"
  by (simp add: drain_frames.simps)

lemma tcp_read_concat: "next_frame buf = (None, buf) \<Longrightarrow> tcp_read buf ds = drain_frames (buf @ concat ds)"
proof (induction ds arbitrary: buf)
  case Nil
  then show ?case by (simp add: drain_held)
next
  case (Cons d ds)
  obtain fs rest where d: "drain_frames (buf @ d) = (fs, rest)" by (cases "drain_frames (buf @ d)")
  with Cons.IH [OF drain_rest [OF d]] drain_append [of "buf @ d" "concat ds"] show ?case
    by (simp add: tcp_push_def split: prod.splits)
qed

lemma drain_frame:
  assumes "length p \<le> 65535"
  shows "drain_frames (be16 (of_nat (length p)) @ p @ r) =
    (case drain_frames r of (fs, rest) \<Rightarrow> (if p = [] then fs else p # fs, rest))"
proof -
  obtain a b where ab: "be16 (of_nat (length p)) = [a, b]" by (simp add: be16_def)
  have n: "unat (of_be16 a b) = length p"
    using ab assms unat_u16_of_nat [of "length p"] of_be16_be16 [of "of_nat (length p)"] by (auto simp: be16_def)
  show ?thesis
  proof (cases "p = []")
    case True
    then have "next_frame (a # b # r) = next_frame r" using n by (simp add: next_frame.simps [of "a # b # r"])
    then have "drain_frames (a # b # r) = drain_frames r"
      by (simp add: drain_frames.simps [of "a # b # r"] drain_frames.simps [of r])
    with True ab show ?thesis by (simp split: prod.split)
  next
    case False
    then have "next_frame (a # b # p @ r) = (Some p, r)" using n by (simp add: next_frame.simps [of "a # b # _"] Let_def)
    then have "drain_frames (a # b # p @ r) = (case drain_frames r of (fs, rest) \<Rightarrow> (p # fs, rest))"
      by (simp add: drain_frames.simps [of "a # b # _"])
    with False ab show ?thesis by simp
  qed
qed

text \<open>
  Framing over TCP is transparent: however the stream of framed packets is cut into reads, exactly the
  non-empty packets come out, in order; what was not yet received in full is held back, and nothing else.
\<close>

theorem tcp_frames_any_chunks:
  assumes "list_all (\<lambda>p. length p \<le> 65535) ps"
    and "concat chunks = concat (map (\<lambda>p. the (tcp_frame p)) ps) @ t" and "next_frame t = (None, t)"
  shows "tcp_read [] chunks = (filter (\<lambda>p. p \<noteq> []) ps, t)"
proof -
  have "drain_frames (concat (map (\<lambda>p. the (tcp_frame p)) ps) @ t) = (filter (\<lambda>p. p \<noteq> []) ps, t)"
    using assms(1)
  proof (induction ps)
    case Nil
    then show ?case using drain_held [OF assms(3)] by simp
  next
    case (Cons p ps)
    then have p: "length p \<le> 65535" and f: "the (tcp_frame p) = be16 (of_nat (length p)) @ p"
      by (simp_all add: tcp_frame_def)
    from Cons drain_frame [OF p] show ?case by (simp add: f)
  qed
  with assms(2) tcp_read_concat [of "[]" chunks] show ?thesis by (simp add: next_frame.simps)
qed

theorem tcp_frames_any_chunks_witness:
  "tcp_read [] [[0], [3, 1, 2], [3, 0, 0], [0, 1, 9, 0, 5], [7]] = ([[1, 2, 3], [9]], [0, 5, 7])"
  using tcp_frames_any_chunks [of "[[1, 2, 3], [], [9]]" "[[0], [3, 1, 2], [3, 0, 0], [0, 1, 9, 0, 5], [7]]" "[0, 5, 7]"]
  by (simp add: tcp_frame_def be16_def of_be16_def next_frame.simps [of "_ # _"] del: tcp_read.simps)

section \<open>ICE credentials\<close>

record cred =
  c_ufrag :: string
  c_pwd :: string

record creds =
  cr_active :: cred
  cr_pending :: "cred option"

datatype checked = Current | Promoted string

definition creds_new :: "cred \<Rightarrow> creds" where
  "creds_new fresh = \<lparr>cr_active = fresh, cr_pending = None\<rparr>"

definition cred_restart :: "cred \<Rightarrow> creds \<Rightarrow> string option \<times> creds" where
  "cred_restart nxt c = (map_option c_ufrag (cr_pending c), c\<lparr>cr_pending := Some nxt\<rparr>)"

definition cred_pwd :: "creds \<Rightarrow> string \<Rightarrow> string option" where
  "cred_pwd c ufrag =
     (if c_ufrag (cr_active c) = ufrag then Some (c_pwd (cr_active c))
      else case cr_pending c of
             Some p \<Rightarrow> if c_ufrag p = ufrag then Some (c_pwd p) else None
           | None \<Rightarrow> None)"

definition cred_checked :: "string \<Rightarrow> creds \<Rightarrow> checked \<times> creds" where
  "cred_checked ufrag c =
     (case cr_pending c of
        Some p \<Rightarrow>
          if c_ufrag p = ufrag then (Promoted (c_ufrag (cr_active c)), c\<lparr>cr_pending := None, cr_active := p\<rparr>)
          else (Current, c)
      | None \<Rightarrow> (Current, c))"

definition cred_ufrags :: "creds \<Rightarrow> string list" where
  "cred_ufrags c = c_ufrag (cr_active c) # (case cr_pending c of Some p \<Rightarrow> [c_ufrag p] | None \<Rightarrow> [])"

definition use_ufrag :: "creds \<Rightarrow> string" where
  "use_ufrag c = (case cr_pending c of Some p \<Rightarrow> c_ufrag p | None \<Rightarrow> c_ufrag (cr_active c))"

section \<open>Paths and liveness\<close>

datatype 'a path_key = PUdp 'a | PTcp nat
datatype peer_state = Alive | Suspect

record 'a pair =
  pr_key :: "'a path_key"
  pr_last_ms :: nat

record 'a transport =
  t_user :: string
  t_worker :: nat
  t_creds :: creds
  t_ready :: bool
  t_closed :: bool
  t_path :: "'a path_key option"
  t_pairs :: "'a pair list"
  t_state :: peer_state
  t_suspect_since :: nat
  t_state_since :: nat

definition UDP_PAIR_EXPIRE_MS :: nat where "UDP_PAIR_EXPIRE_MS = 30000"

definition transport_new :: "string \<Rightarrow> nat \<Rightarrow> cred \<Rightarrow> nat \<Rightarrow> 'a transport" where
  "transport_new user worker fresh now = \<lparr>t_user = user, t_worker = worker, t_creds = creds_new fresh, t_ready = False,
     t_closed = False, t_path = None, t_pairs = [], t_state = Alive, t_suspect_since = 0, t_state_since = now\<rparr>"

definition set_state :: "peer_state \<Rightarrow> nat \<Rightarrow> 'a transport \<Rightarrow> peer_state option \<times> 'a transport" where
  "set_state s now t =
     (let pv = t_state t; t1 = t\<lparr>t_state := s\<rparr> in
      if pv = s then (None, t1)
      else
        (let t2 = t1\<lparr>t_state_since := now\<rparr>;
             t3 = (if s = Suspect
                   then (if t_suspect_since t2 = 0 then t2\<lparr>t_suspect_since := now\<rparr> else t2)
                   else t2\<lparr>t_suspect_since := 0\<rparr>)
         in (Some pv, t3)))"

definition find_pair :: "'a path_key \<Rightarrow> 'a pair list \<Rightarrow> 'a pair option" where
  "find_pair key ps = find (\<lambda>x. pr_key x = key) ps"

fun touch :: "'a path_key \<Rightarrow> nat \<Rightarrow> 'a pair list \<Rightarrow> 'a pair list" where
  "touch key now [] = [\<lparr>pr_key = key, pr_last_ms = now\<rparr>]"
| "touch key now (x # ps) = (if pr_key x = key then x\<lparr>pr_last_ms := now\<rparr> # ps else x # touch key now ps)"

definition touch_pair :: "'a path_key \<Rightarrow> nat \<Rightarrow> 'a transport \<Rightarrow> 'a transport" where
  "touch_pair key now t = t\<lparr>t_pairs := touch key now (t_pairs t)\<rparr>"

definition path_alive :: "(nat \<Rightarrow> bool) \<Rightarrow> nat \<Rightarrow> 'a transport \<Rightarrow> bool" where
  "path_alive tcp_open now t =
     (case t_path t of
        None \<Rightarrow> True
      | Some (PTcp n) \<Rightarrow> tcp_open n
      | Some (PUdp a) \<Rightarrow>
          (case find_pair (PUdp a) (t_pairs t) of
             Some x \<Rightarrow> now - pr_last_ms x \<le> UDP_PAIR_EXPIRE_MS
           | None \<Rightarrow> False))"

definition send_ok :: "(nat \<Rightarrow> bool) \<Rightarrow> nat \<Rightarrow> 'a transport \<Rightarrow> 'a path_key option" where
  "send_ok tcp_open now t =
     (case t_path t of None \<Rightarrow> None | Some p \<Rightarrow> if path_alive tcp_open now t then Some p else None)"

definition control_path :: "(nat \<Rightarrow> bool) \<Rightarrow> nat \<Rightarrow> 'a transport \<Rightarrow> 'a path_key option" where
  "control_path tcp_open now t =
     (if t_path t \<noteq> None then send_ok tcp_open now t
      else if t_pairs t = [] then None
      else
        (let l = last (t_pairs t);
             alive = (case pr_key l of PUdp _ \<Rightarrow> now - pr_last_ms l \<le> UDP_PAIR_EXPIRE_MS | PTcp n \<Rightarrow> tcp_open n)
         in if alive then Some (pr_key l) else None))"

text \<open>The sweep that suspects a transport whose path has gone silent (\<open>ops/timers.rs\<close>, \<open>liveness\<close>). The result
  tells whether the client is notified.\<close>

definition liveness_one :: "(nat \<Rightarrow> bool) \<Rightarrow> nat \<Rightarrow> 'a transport \<Rightarrow> bool \<times> 'a transport" where
  "liveness_one tcp_open now t =
     (if t_path t = None \<or> t_state t = Suspect then (False, t)
      else if path_alive tcp_open now t then (False, t)
      else (case set_state Suspect now t of (pv, t') \<Rightarrow> (pv = Some Alive, t')))"

lemma find_touch:
  "find_pair k (touch key now ps) = (if k = key then Some \<lparr>pr_key = key, pr_last_ms = now\<rparr> else find_pair k ps)"
proof (induction ps)
  case (Cons x ps)
  then show ?case by (cases x) (auto simp: find_pair_def)
qed (simp add: find_pair_def)

lemma touch_keys: "set (map pr_key (touch key now ps)) = insert key (set (map pr_key ps))"
  by (induction ps) auto

lemma touch_distinct: "distinct (map pr_key ps) \<Longrightarrow> distinct (map pr_key (touch key now ps))"
proof (induction ps)
  case (Cons x ps)
  moreover have "pr_key ` set (touch key now ps) = insert key (pr_key ` set ps)" using touch_keys [of key now ps] by simp
  ultimately show ?case by auto
qed simp

lemma path_alive_after_check:
  "t_path t = Some (PUdp a) \<Longrightarrow> path_alive tcp_open now' (touch_pair (PUdp a) now t) \<longleftrightarrow> now' - now \<le> 30000"
  by (simp add: path_alive_def touch_pair_def find_touch UDP_PAIR_EXPIRE_MS_def)

end
