(* ===== verification/Stun.thy ===== *)
theory Stun
  imports Prelude
begin

text \<open>
  STUN binding checks (\<open>oxsfud/src/link/stun.rs\<close>): the reader of requests, the check of MESSAGE-INTEGRITY, the
  responses and requests the server writes. The keyed hash and the checksum are library code: \<open>hmac\<close> and
  \<open>crc\<close> are parameters.
\<close>

definition STUN_MAGIC :: u32 where "STUN_MAGIC = 0x2112a442"
definition BINDING_REQUEST :: u16 where "BINDING_REQUEST = 0x0001"
definition BINDING_SUCCESS :: u16 where "BINDING_SUCCESS = 0x0101"
definition ATTR_USERNAME :: u16 where "ATTR_USERNAME = 0x0006"
definition ATTR_MESSAGE_INTEGRITY :: u16 where "ATTR_MESSAGE_INTEGRITY = 0x0008"
definition ATTR_XOR_MAPPED_ADDRESS :: u16 where "ATTR_XOR_MAPPED_ADDRESS = 0x0020"
definition ATTR_USE_CANDIDATE :: u16 where "ATTR_USE_CANDIDATE = 0x0025"
definition ATTR_SOFTWARE :: u16 where "ATTR_SOFTWARE = 0x8022"
definition ATTR_FINGERPRINT :: u16 where "ATTR_FINGERPRINT = 0x8028"
definition SOFTWARE :: string where "SOFTWARE = ''oxsfud''"

lemmas stun_types = BINDING_REQUEST_def BINDING_SUCCESS_def ATTR_USERNAME_def ATTR_MESSAGE_INTEGRITY_def
  ATTR_XOR_MAPPED_ADDRESS_def ATTR_USE_CANDIDATE_def ATTR_SOFTWARE_def ATTR_FINGERPRINT_def

record binding =
  b_txid :: "u8 list"
  b_local :: string
  b_remote :: string
  b_use_candidate :: bool
  b_mi_offset :: nat
  b_mi :: "u8 list"

datatype stun_error = NotStun | NotBinding | Malformed | NoUsername | NoIntegrity | UnknownUfrag | BadIntegrity

definition word16_at :: "u8 list \<Rightarrow> nat \<Rightarrow> u16" where
  "word16_at b i = of_be16 (b ! i) (b ! (i + 1))"

definition is_stun :: "u8 list \<Rightarrow> bool" where
  "is_stun b \<longleftrightarrow> 20 \<le> length b \<and> b ! 0 < 4 \<and> of_be32 (b ! 4) (b ! 5) (b ! 6) (b ! 7) = STUN_MAGIC"

text \<open>The attributes seen so far: USERNAME, offset and value of MESSAGE-INTEGRITY, USE-CANDIDATE.\<close>

type_synonym attrs_seen = "string option \<times> (nat \<times> u8 list) option \<times> bool"

definition attr_seen :: "u8 list \<Rightarrow> nat \<Rightarrow> u16 \<Rightarrow> nat \<Rightarrow> attrs_seen \<Rightarrow> attrs_seen" where
  "attr_seen b i at1 al s =
     (case s of (username, mi, uc) \<Rightarrow>
        let v = take al (drop (i + 4) b) in
        if at1 = ATTR_USERNAME then (Some (from_utf8_lossy v), mi, uc)
        else if at1 = ATTR_MESSAGE_INTEGRITY \<and> al = 20 then (username, Some (i, v), uc)
        else if at1 = ATTR_USE_CANDIDATE \<and> mi = None then (username, mi, True)
        else s)"

function stun_attrs :: "u8 list \<Rightarrow> nat \<Rightarrow> nat \<Rightarrow> attrs_seen \<Rightarrow> stun_error + attrs_seen" where
  "stun_attrs b e i s =
     (if e < i + 4 then Inr s
      else
        (let at1 = word16_at b i; al = unat (word16_at b (i + 2)); v = i + 4 in
         if length b < v + al then Inl Malformed
         else
           (let s' = attr_seen b i at1 al s in
            if fst (snd s') \<noteq> None \<and> at1 \<noteq> ATTR_MESSAGE_INTEGRITY then Inr s'
            else stun_attrs b e (v + (al + 3) div 4 * 4) s')))"
  by pat_completeness auto
termination
  by (relation "measure (\<lambda>(b, e, i, s). Suc e - i)") auto

declare stun_attrs.simps [simp del]

definition split_once :: "char \<Rightarrow> string \<Rightarrow> (string \<times> string) option" where
  "split_once c s = (if c \<in> set s then Some (takeWhile (\<lambda>x. x \<noteq> c) s, tl (dropWhile (\<lambda>x. x \<noteq> c) s)) else None)"

definition stun_parse :: "u8 list \<Rightarrow> stun_error + binding" where
  "stun_parse b =
     (if \<not> is_stun b then Inl NotStun
      else if word16_at b 0 \<noteq> BINDING_REQUEST then Inl NotBinding
      else
        (let len = unat (word16_at b 2) in
         if length b < 20 + len then Inl Malformed
         else
           case stun_attrs b (20 + len) 20 (None, None, False) of
             Inl err \<Rightarrow> Inl err
           | Inr (username, mi, uc) \<Rightarrow>
               (case Option.bind username (split_once CHR '':'') of
                  None \<Rightarrow> Inl NoUsername
                | Some (l, r) \<Rightarrow>
                    (case mi of
                       None \<Rightarrow> Inl NoIntegrity
                     | Some (off, m) \<Rightarrow>
                         Inr \<lparr>b_txid = take 12 (drop 8 b), b_local = l, b_remote = r, b_use_candidate = uc,
                              b_mi_offset = off, b_mi = m\<rparr>))))"

definition set_len :: "u16 \<Rightarrow> u8 list \<Rightarrow> u8 list" where
  "set_len n b = take 2 b @ be16 n @ drop 4 b"

definition stun_verify :: "(u8 list \<Rightarrow> u8 list \<Rightarrow> u8 list) \<Rightarrow> u8 list \<Rightarrow> binding \<Rightarrow> string \<Rightarrow> bool" where
  "stun_verify hmac raw b pwd =
     (let head = set_len (of_nat (b_mi_offset b - 20 + 24)) (take (b_mi_offset b) raw);
          calc = hmac (as_bytes pwd) head
      in foldl (\<lambda>acc (x, y). acc OR (x XOR y)) 0 (zip calc (b_mi b)) = 0)"

definition stun_check :: "(u8 list \<Rightarrow> u8 list \<Rightarrow> u8 list) \<Rightarrow> (string \<Rightarrow> string option) \<Rightarrow> u8 list \<Rightarrow> stun_error + binding" where
  "stun_check hmac pwd_of raw =
     (case stun_parse raw of
        Inl e \<Rightarrow> Inl e
      | Inr b \<Rightarrow>
          (case pwd_of (b_local b) of
             None \<Rightarrow> Inl UnknownUfrag
           | Some pwd \<Rightarrow> if stun_verify hmac raw b pwd then Inr b else Inl BadIntegrity))"

section \<open>Writing\<close>

definition stun_attr :: "u16 \<Rightarrow> u8 list \<Rightarrow> u8 list \<Rightarrow> u8 list" where
  "stun_attr ty v out =
     (let o1 = out @ be16 ty @ be16 (of_nat (length v)) @ v in o1 @ replicate ((4 - length o1 mod 4) mod 4) 0)"

definition stun_head :: "u16 \<Rightarrow> u8 list \<Rightarrow> u8 list" where
  "stun_head ty txid = be16 ty @ [0, 0] @ be32 STUN_MAGIC @ txid"

text \<open>The end of every message: the length up to and with the keyed hash, the hash, the whole length, the checksum.\<close>

definition stun_seal :: "(u8 list \<Rightarrow> u8 list \<Rightarrow> u8 list) \<Rightarrow> (u8 list \<Rightarrow> u32) \<Rightarrow> string \<Rightarrow> u8 list \<Rightarrow> u8 list" where
  "stun_seal hmac crc pwd out =
     (let o1 = set_len (of_nat (length out - 20 + 24)) out;
          o2 = stun_attr ATTR_MESSAGE_INTEGRITY (hmac (as_bytes pwd) o1) o1;
          o3 = set_len (of_nat (length o2 - 20 + 8)) o2
      in stun_attr ATTR_FINGERPRINT (be32 (crc o3 XOR 0x5354554e)) o3)"

datatype sock_addr = V4 u32 u16 | V6 "u8 list" u16

definition xor_mapped :: "u8 list \<Rightarrow> sock_addr \<Rightarrow> u8 list" where
  "xor_mapped txid from =
     (case from of
        V4 ip port \<Rightarrow> [0, 1] @ be16 (port XOR ucast (drop_bit 16 STUN_MAGIC)) @ be32 (ip XOR STUN_MAGIC)
      | V6 ip port \<Rightarrow> [0, 2] @ be16 (port XOR ucast (drop_bit 16 STUN_MAGIC))
                        @ map2 (XOR) ip (be32 STUN_MAGIC @ txid))"

definition stun_success ::
  "(u8 list \<Rightarrow> u8 list \<Rightarrow> u8 list) \<Rightarrow> (u8 list \<Rightarrow> u32) \<Rightarrow> u8 list \<Rightarrow> sock_addr \<Rightarrow> string \<Rightarrow> u8 list" where
  "stun_success hmac crc txid from pwd =
     (let out = stun_attr ATTR_XOR_MAPPED_ADDRESS (xor_mapped txid from) (stun_head BINDING_SUCCESS txid);
          out = stun_attr ATTR_SOFTWARE (as_bytes SOFTWARE) out
      in stun_seal hmac crc pwd out)"

definition stun_request ::
  "(u8 list \<Rightarrow> u8 list \<Rightarrow> u8 list) \<Rightarrow> (u8 list \<Rightarrow> u32) \<Rightarrow> string \<Rightarrow> string \<Rightarrow> string \<Rightarrow> u8 list \<Rightarrow> bool \<Rightarrow> u8 list" where
  "stun_request hmac crc l r pwd txid uc =
     (let out = stun_attr ATTR_USERNAME (as_bytes (l @ '':'' @ r)) (stun_head BINDING_REQUEST txid);
          out = (if uc then stun_attr ATTR_USE_CANDIDATE [] out else out)
      in stun_seal hmac crc pwd out)"

section \<open>The check is exact\<close>

lemma xor_eq_zero: "a OR (x XOR y) = 0 \<longleftrightarrow> a = 0 \<and> x = (y :: u8)"
  by (auto simp: or_eq_0_iff) (metis xor_self_eq xor.left_neutral xor.assoc)

lemma xor_fold_zero:
  "length xs = length ys \<Longrightarrow> foldl (\<lambda>acc (x, y). acc OR (x XOR y)) a (zip xs ys) = (0 :: u8) \<longleftrightarrow> a = 0 \<and> xs = ys"
  by (induction xs ys arbitrary: a rule: list_induct2) (auto simp: xor_eq_zero)

text \<open>What the keyed hash is computed over: the message up to its MESSAGE-INTEGRITY, as if it ended with it.\<close>

definition mac_input :: "u8 list \<Rightarrow> nat \<Rightarrow> u8 list" where
  "mac_input raw off = set_len (of_nat (off - 20 + 24)) (take off raw)"

lemma stun_verify_iff:
  "length (hmac (as_bytes pwd) (mac_input raw (b_mi_offset b))) = length (b_mi b) \<Longrightarrow>
    stun_verify hmac raw b pwd \<longleftrightarrow> b_mi b = hmac (as_bytes pwd) (mac_input raw (b_mi_offset b))"
  unfolding stun_verify_def Let_def mac_input_def by (subst xor_fold_zero) auto

definition mi_ok :: "u8 list \<Rightarrow> (nat \<times> u8 list) option \<Rightarrow> bool" where
  "mi_ok b mi = (case mi of None \<Rightarrow> True
     | Some (off, m) \<Rightarrow> 20 \<le> off \<and> off + 24 \<le> length b \<and> m = take 20 (drop (off + 4) b))"

lemma stun_attrs_mi:
  "stun_attrs b e i s = Inr s' \<Longrightarrow> 20 \<le> i \<Longrightarrow> mi_ok b (fst (snd s)) \<Longrightarrow> mi_ok b (fst (snd s'))"
proof (induction b e i s rule: stun_attrs.induct)
  case (1 b e i s)
  show ?case
  proof (cases "e < i + 4")
    case True
    with 1(2, 4) show ?thesis by (simp add: stun_attrs.simps)
  next
    case False
    define at1 al s1 where d: "at1 = word16_at b i" "al = unat (word16_at b (i + 2))" "s1 = attr_seen b i at1 al s"
    have step: "stun_attrs b e i s = (if length b < i + 4 + al then Inl Malformed
        else if fst (snd s1) \<noteq> None \<and> at1 \<noteq> ATTR_MESSAGE_INTEGRITY then Inr s1
        else stun_attrs b e (i + 4 + (al + 3) div 4 * 4) s1)"
      using False by (subst stun_attrs.simps) (simp add: Let_def d)
    have len: "i + 4 + al \<le> length b" using 1(2) step by (auto split: if_splits)
    have ok: "mi_ok b (fst (snd s1))" using 1(3, 4) len
      by (auto simp: d(3) attr_seen_def mi_ok_def Let_def split: prod.splits option.splits if_splits)
    show ?thesis
    proof (cases "fst (snd s1) \<noteq> None \<and> at1 \<noteq> ATTR_MESSAGE_INTEGRITY")
      case True
      with 1(2) step len ok show ?thesis by simp
    next
      case no: False
      then have "stun_attrs b e (i + 4 + (al + 3) div 4 * 4) s1 = Inr s'" using 1(2) step len by (simp split: if_splits)
      moreover have "20 \<le> i + 4 + (al + 3) div 4 * 4" using 1(3) by simp
      ultimately show ?thesis using 1(1) [OF False d(1, 2) refl _ d(3) no] len ok by simp
    qed
  qed
qed

lemma stun_parse_mi:
  "stun_parse raw = Inr b \<Longrightarrow> 20 \<le> b_mi_offset b \<and> b_mi_offset b + 24 \<le> length raw \<and> b_mi b = take 20 (drop (b_mi_offset b + 4) raw)"
  using stun_attrs_mi [of raw "20 + unat (word16_at raw 2)" 20 "(None, None, False)"]
  by (fastforce simp: stun_parse_def Let_def mi_ok_def split: if_splits sum.splits option.splits prod.splits)

section \<open>A request is accepted\<close>

definition attr_bytes :: "u16 \<Rightarrow> u8 list \<Rightarrow> u8 list" where
  "attr_bytes ty v = be16 ty @ be16 (of_nat (length v)) @ v @ replicate ((4 - length v mod 4) mod 4) 0"

lemma length_attr_bytes: "length (attr_bytes ty v) = 4 + (length v + 3) div 4 * 4"
proof -
  have "n + (4 - n mod 4) mod 4 = (n + 3) div 4 * 4" for n :: nat
  proof -
    define q r where qr: "q = n div 4" "r = n mod 4"
    then have n: "n = 4 * q + r" and "r = 0 \<or> r = 1 \<or> r = 2 \<or> r = 3" by auto
    then have "n + (4 - r) mod 4 = (n + 3) div 4 * 4" by (elim disjE) simp_all
    then show ?thesis by (simp add: qr(2))
  qed
  then show ?thesis by (simp add: attr_bytes_def)
qed

lemma stun_attr_bytes: "4 dvd length out \<Longrightarrow> stun_attr ty v out = out @ attr_bytes ty v"
proof -
  assume "4 dvd length out"
  then have "(length out + (2 + (2 + length v))) mod 4 = length v mod 4" by (auto simp: dvd_def)
  then show ?thesis by (simp add: stun_attr_def attr_bytes_def Let_def)
qed

lemma four_dvd_attr [simp]: "4 dvd length (attr_bytes ty v)"
  by (simp add: length_attr_bytes)

definition stun_head_len :: "u16 \<Rightarrow> u16 \<Rightarrow> u8 list \<Rightarrow> u8 list" where
  "stun_head_len ty n txid = be16 ty @ be16 n @ be32 STUN_MAGIC @ txid"

lemma set_len_head: "set_len n (stun_head ty txid @ r) = stun_head_len ty n txid @ r"
    "set_len n (stun_head_len ty k txid @ r) = stun_head_len ty n txid @ r"
  by (simp_all add: set_len_def stun_head_def stun_head_len_def be16_def)

lemma length_heads [simp]: "length txid = 12 \<Longrightarrow> length (stun_head ty txid) = 20"
    "length txid = 12 \<Longrightarrow> length (stun_head_len ty n txid) = 20"
  by (simp_all add: stun_head_def stun_head_len_def)

lemma stun_attrs_step:
  assumes b: "b = pre @ attr_bytes ty v @ r" and i: "length pre = i" and e: "i + 4 \<le> e" and v: "length v < 65536"
    and s': "s' = (case s of (username, mi, uc) \<Rightarrow>
        if ty = ATTR_USERNAME then (Some (from_utf8_lossy v), mi, uc)
        else if ty = ATTR_MESSAGE_INTEGRITY \<and> length v = 20 then (username, Some (i, v), uc)
        else if ty = ATTR_USE_CANDIDATE \<and> mi = None then (username, mi, True) else s)"
  shows "stun_attrs b e i s = (if fst (snd s') \<noteq> None \<and> ty \<noteq> ATTR_MESSAGE_INTEGRITY then Inr s'
     else stun_attrs b e (i + length (attr_bytes ty v)) s')"
proof -
  have at1: "word16_at b i = ty" and al: "word16_at b (i + 2) = of_nat (length v)"
    using i by (auto simp: b word16_at_def attr_bytes_def be16_def nth_append of_be16_be16)
  have len: "unat (of_nat (length v) :: u16) = length v" using v by (rule unat_u16_of_nat)
  have val: "take (length v) (drop (i + 4) b) = v" using i by (simp add: b attr_bytes_def)
  have seen: "attr_seen b i ty (length v) s = s'" by (simp add: attr_seen_def val s' Let_def)
  have bl: "\<not> length b < i + 4 + length v" and el: "\<not> e < i + 4" using i e by (simp_all add: b attr_bytes_def)
  show ?thesis
    unfolding stun_attrs.simps [of b e i s] Let_def at1 al len seen length_attr_bytes if_not_P [OF bl] if_not_P [OF el]
    by (simp only: add.assoc)
qed

lemma stun_seal_bytes:
  assumes out: "out = stun_head ty txid @ as1" and "length txid = 12" "4 dvd length as1"
    and hmac: "length (hmac (as_bytes pwd) (stun_head_len ty (of_nat (length as1 + 24)) txid @ as1)) = 20"
  shows "\<exists>fp. length fp = 4 \<and> stun_seal hmac crc pwd out =
    stun_head_len ty (of_nat (length as1 + 32)) txid @ as1
      @ attr_bytes ATTR_MESSAGE_INTEGRITY (hmac (as_bytes pwd) (stun_head_len ty (of_nat (length as1 + 24)) txid @ as1))
      @ attr_bytes ATTR_FINGERPRINT fp"
proof -
  let ?o1 = "stun_head_len ty (of_nat (length as1 + 24)) txid @ as1"
  let ?mi = "attr_bytes ATTR_MESSAGE_INTEGRITY (hmac (as_bytes pwd) ?o1)"
  have lm: "length ?mi = 24" unfolding length_attr_bytes hmac by simp
  have o1: "set_len (of_nat (length out - 20 + 24)) out = ?o1"
    using assms(2) by (simp add: out set_len_head add.commute)
  have o2: "stun_attr ATTR_MESSAGE_INTEGRITY (hmac (as_bytes pwd) ?o1) ?o1 = ?o1 @ ?mi"
    using assms(2, 3) by (intro stun_attr_bytes) simp
  have n: "length (?o1 @ ?mi) - 20 + 8 = length as1 + 32" using assms(2) lm by simp
  let ?o3 = "stun_head_len ty (of_nat (length as1 + 32)) txid @ as1 @ ?mi"
  have o3: "set_len (of_nat (length (?o1 @ ?mi) - 20 + 8)) (?o1 @ ?mi) = ?o3"
    unfolding n by (simp only: append_assoc set_len_head)
  have o4: "stun_attr ATTR_FINGERPRINT v ?o3 = ?o3 @ attr_bytes ATTR_FINGERPRINT v" for v
    using assms(2, 3) by (intro stun_attr_bytes) simp
  show ?thesis unfolding stun_seal_def Let_def o1 o2 o3 o4
    by (intro exI [of _ "be32 (crc ?o3 XOR 0x5354554e)"]) simp
qed

lemma split_once_append: "c \<notin> set l \<Longrightarrow> split_once c (l @ c # r) = Some (l, r)"
  by (induction l) (auto simp: split_once_def)

lemma stun_request_bytes:
  "length txid = 12 \<Longrightarrow> stun_request hmac crc l r pwd txid uc =
     stun_seal hmac crc pwd (stun_head BINDING_REQUEST txid
       @ attr_bytes ATTR_USERNAME (as_bytes (l @ '':'' @ r)) @ (if uc then attr_bytes ATTR_USE_CANDIDATE [] else []))"
  by (simp add: stun_request_def Let_def stun_attr_bytes)

lemma stun_parse_sealed:
  assumes as1: "as1 = attr_bytes ATTR_USERNAME (as_bytes (l @ '':'' @ r)) @ (if uc then attr_bytes ATTR_USE_CANDIDATE [] else [])"
    and raw: "raw = stun_head_len BINDING_REQUEST (of_nat (length as1 + 32)) txid @ as1
        @ attr_bytes ATTR_MESSAGE_INTEGRITY mac @ attr_bytes ATTR_FINGERPRINT fp"
    and len: "length txid = 12" "length mac = 20" "length fp = 4" "length l + length r \<le> 60000"
    and name: "utf8 (l @ '':'' @ r)" "CHR '':'' \<notin> set l"
  shows "stun_parse raw = Inr \<lparr>b_txid = txid, b_local = l, b_remote = r, b_use_candidate = uc,
     b_mi_offset = 20 + length as1, b_mi = mac\<rparr>"
proof -
  let ?u = "as_bytes (l @ '':'' @ r)" and ?n = "length as1 + 32"
  let ?h = "stun_head_len BINDING_REQUEST (of_nat ?n) txid"
  let ?A = "attr_bytes ATTR_USERNAME ?u" and ?C = "if uc then attr_bytes ATTR_USE_CANDIDATE [] else []"
  let ?M = "attr_bytes ATTR_MESSAGE_INTEGRITY mac" and ?F = "attr_bytes ATTR_FINGERPRINT fp"
  have lu: "length ?u < 65536" using len(4) by simp
  have "(length ?u + 3) div 4 * 4 \<le> length ?u + 3" by (rule div_times_less_eq_dividend)
  then have small: "?n < 65536" using len(4) by (cases uc) (simp_all add: as1 length_attr_bytes)
  have lens: "length ?h = 20" "length ?M = 24" "length ?F = 8" "length ?C = (if uc then 4 else 0)"
    using len by (simp_all add: length_attr_bytes)
  have lr: "length raw = 20 + ?n" using lens by (simp add: raw)
  have head: "is_stun raw" "word16_at raw 0 = BINDING_REQUEST" "unat (word16_at raw 2) = ?n" "take 12 (drop 8 raw) = txid"
    using len(1) lr unat_u16_of_nat [OF small]
    by (simp_all add: raw is_stun_def word16_at_def stun_head_len_def be16_def be32_def of_be16_be16 of_be32_be32 of_be16_def [of 0 1] stun_types)
  let ?s1 = "(Some (l @ '':'' @ r), None, False)" and ?s2 = "(Some (l @ '':'' @ r), None, uc)"
  let ?s3 = "(Some (l @ '':'' @ r), Some (20 + length as1, mac), uc)"
  have 1: "stun_attrs raw (20 + ?n) 20 (None, None, False) = stun_attrs raw (20 + ?n) (20 + length ?A) ?s1"
    using lens lu from_utf8_lossy_as_bytes [OF name(1)]
    by (subst stun_attrs_step [of raw ?h ATTR_USERNAME ?u "?C @ ?M @ ?F"]) (auto simp: raw as1 stun_types)
  have 2: "stun_attrs raw (20 + ?n) (20 + length ?A) ?s1 = stun_attrs raw (20 + ?n) (20 + length as1) ?s2"
  proof (cases uc)
    case True
    then show ?thesis using lens
      by (subst stun_attrs_step [of raw "?h @ ?A" ATTR_USE_CANDIDATE "[]" "?M @ ?F"]) (auto simp: raw as1 stun_types)
  qed (simp add: as1)
  have 3: "stun_attrs raw (20 + ?n) (20 + length as1) ?s2 = stun_attrs raw (20 + ?n) (20 + length as1 + length ?M) ?s3"
    using lens len(2)
    by (subst stun_attrs_step [of raw "?h @ as1" ATTR_MESSAGE_INTEGRITY mac ?F]) (auto simp: raw stun_types)
  have 4: "stun_attrs raw (20 + ?n) (20 + length as1 + length ?M) ?s3 = Inr ?s3"
    using lens len(2, 3)
    by (subst stun_attrs_step [of raw "?h @ as1 @ ?M" ATTR_FINGERPRINT fp "[]"]) (auto simp: raw stun_types)
  have "split_once CHR '':'' (l @ '':'' @ r) = Some (l, r)" using split_once_append [OF name(2)] by simp
  then show ?thesis unfolding stun_parse_def Let_def head(2, 3) using 1 2 3 4 head(1, 4) lr by simp
qed

text \<open>
  A check written with the right password is accepted (C33): the server's reader gets back the transaction, both
  fragments and the nomination of any request; with another password of the fragment it refuses, unless the
  keyed hashes agree.
\<close>

theorem stun_request_check:
  assumes "\<And>k d. length (hmac k d) = 20" "length txid = 12" "length l + length r \<le> 60000"
    and "utf8 (l @ '':'' @ r)" "CHR '':'' \<notin> set l" "pwd_of l = Some pwd'"
  shows "\<exists>d. stun_check hmac pwd_of (stun_request hmac crc l r pwd txid uc) =
    (if hmac (as_bytes pwd') d = hmac (as_bytes pwd) d
     then Inr \<lparr>b_txid = txid, b_local = l, b_remote = r, b_use_candidate = uc, b_mi_offset = length d,
            b_mi = hmac (as_bytes pwd) d\<rparr>
     else Inl BadIntegrity)"
proof -
  define as1 where "as1 = attr_bytes ATTR_USERNAME (as_bytes (l @ '':'' @ r)) @ (if uc then attr_bytes ATTR_USE_CANDIDATE [] else [])"
  let ?d = "stun_head_len BINDING_REQUEST (of_nat (length as1 + 24)) txid @ as1"
  let ?raw = "stun_request hmac crc l r pwd txid uc"
  have four: "4 dvd length as1" by (simp add: as1_def)
  obtain fp where fp: "length fp = 4" and raw: "?raw = stun_head_len BINDING_REQUEST (of_nat (length as1 + 32)) txid @ as1
      @ attr_bytes ATTR_MESSAGE_INTEGRITY (hmac (as_bytes pwd) ?d) @ attr_bytes ATTR_FINGERPRINT fp"
    using stun_seal_bytes [where hmac = hmac, OF refl assms(2) four assms(1)]
    unfolding stun_request_bytes [OF assms(2)] as1_def [symmetric] by blast
  note parse = stun_parse_sealed [OF as1_def raw assms(2) assms(1) fp assms(3-5)]
  have "mac_input ?raw (20 + length as1) = ?d"
    using assms(2) by (simp add: mac_input_def raw set_len_head(2) add.commute)
  then have "stun_verify hmac ?raw b pwd' \<longleftrightarrow> hmac (as_bytes pwd) ?d = hmac (as_bytes pwd') ?d"
    if "b_mi_offset b = 20 + length as1" "b_mi b = hmac (as_bytes pwd) ?d" for b
    using stun_verify_iff [of hmac pwd' ?raw b] assms(1) that by simp
  then show ?thesis
    using assms(2, 6) by (intro exI [of _ ?d]) (auto simp: stun_check_def parse)
qed

theorem stun_request_check_witness:
  "let hmac = (\<lambda>k d. take 20 (k @ replicate 20 0)); crc = (\<lambda>_. 0);
       pwd_of = (\<lambda>u. if u = ''srv1'' then Some ''pw'' else None);
       raw = (\<lambda>pwd. stun_request hmac crc ''srv1'' ''cli1'' pwd [1, 2, 3, 4, 5, 6, 7, 8, 9, 10, 11, 12] True)
   in (\<exists>b. stun_check hmac pwd_of (raw ''pw'') = Inr b \<and> b_use_candidate b \<and> b_remote b = ''cli1'')
    \<and> stun_check hmac pwd_of (raw ''other'') = Inl BadIntegrity"
proof -
  let ?hmac = "\<lambda>k (d :: u8 list). take 20 (k @ replicate 20 (0 :: u8))"
  let ?pwd = "\<lambda>u. if u = ''srv1'' then Some ''pw'' else None"
  have a: "\<And>k d. length (?hmac k d) = 20" by simp
  have t: "length [1, 2, 3, 4, 5, 6, 7, 8, 9, 10, 11, 12 :: u8] = 12" "length ''srv1'' + length ''cli1'' \<le> 60000" by simp_all
  have u: "utf8 (''srv1'' @ '':'' @ ''cli1'')" "CHR '':'' \<notin> set ''srv1''" "?pwd ''srv1'' = Some ''pw''" by code_simp+
  note chk = stun_request_check [where hmac = ?hmac and pwd_of = ?pwd and l = "''srv1''" and crc = "\<lambda>_. 0" and uc = True, OF a t u]
  have "?hmac (as_bytes ''pw'') d \<noteq> ?hmac (as_bytes ''other'') d" for d by code_simp
  then show ?thesis using chk [of "''pw''"] chk [of "''other''"] unfolding Let_def by auto
qed

end
