(* ===== verification/Demux.thy ===== *)
theory Demux
  imports Link Stun
begin

text \<open>
  The receive thread (\<open>oxsfud/src/fwd/rt.rs\<close>): every datagram, and every frame of a TCP connection, is told
  apart by its first byte. A connectivity check is answered at once; handshake bytes go to the transport's
  DTLS task and media to its worker. The indexes by user fragment and by path are this thread's own; the
  transports are shared objects, named by numbers here.
\<close>

type_synonym path = "sock_addr path_key"

record recv_state =
  by_ufrag :: "string \<Rightarrow> nat option"
  by_addr :: "path \<Rightarrow> nat option"
  tcp_known :: "nat \<Rightarrow> nat option"
  links :: "nat \<Rightarrow> sock_addr transport option"

datatype demux_out =
    DReply path "u8 list"
  | DDtls nat "u8 list"
  | DIngress nat "u8 list"
  | DPromoted nat string
  | DAlive nat bool
  | DDrop string

text \<open>The library functions and the address the server tells clients of a TCP connection.\<close>

record demux_env =
  env_hmac :: "u8 list \<Rightarrow> u8 list \<Rightarrow> u8 list"
  env_crc :: "u8 list \<Rightarrow> u32"
  env_local :: sock_addr

definition MAX_DATAGRAM :: nat where "MAX_DATAGRAM = 2048"

definition put_link :: "nat \<Rightarrow> sock_addr transport \<Rightarrow> recv_state \<Rightarrow> recv_state" where
  "put_link n t st = st\<lparr>links := (links st)(n \<mapsto> t)\<rparr>"

text \<open>Who a check is for, and whether its keyed hash is right: the transport, its state, password and request.\<close>

definition stun_verified :: "demux_env \<Rightarrow> recv_state \<Rightarrow> u8 list \<Rightarrow> (nat \<times> sock_addr transport \<times> string \<times> binding) option" where
  "stun_verified env st data =
     (case stun_parse data of
        Inl _ \<Rightarrow> None
      | Inr b \<Rightarrow>
          (case by_ufrag st (b_local b) of
             None \<Rightarrow> None
           | Some n \<Rightarrow>
               (case links st n of
                  None \<Rightarrow> None
                | Some t \<Rightarrow>
                    (case cred_pwd (t_creds t) (b_local b) of
                       None \<Rightarrow> None
                     | Some pwd \<Rightarrow> if stun_verify (env_hmac env) data b pwd then Some (n, t, pwd, b) else None))))"

definition stun_accept :: "demux_env \<Rightarrow> path \<Rightarrow> nat \<Rightarrow> nat \<times> sock_addr transport \<times> string \<times> binding \<Rightarrow> recv_state
    \<Rightarrow> demux_out list \<times> recv_state" where
  "stun_accept env key now v st =
     (case v of (n, t, pwd, b) \<Rightarrow>
        let t1 = touch_pair key now t;
            st1 = st\<lparr>by_addr := (by_addr st)(key \<mapsto> n)\<rparr>;
            (chk, cr) = cred_checked (b_local b) (t_creds t1);
            t2 = t1\<lparr>t_creds := cr\<rparr>;
            (st2, fx1) = (case chk of
                Promoted retired \<Rightarrow> (st1\<lparr>by_ufrag := (by_ufrag st1)(retired := None)\<rparr>, [DPromoted n (b_local b)])
              | Current \<Rightarrow> (st1, []));
            (t3, fx2) = (if b_use_candidate b
              then (let changed = t_path t2 \<noteq> Some key;
                        (pv, t4) = set_state Alive now (t2\<lparr>t_path := Some key\<rparr>)
                    in (t4, if pv = Some Suspect \<or> changed then [DAlive n changed] else []))
              else (t2, []));
            from = (case key of PUdp a \<Rightarrow> a | PTcp _ \<Rightarrow> env_local env)
        in (fx1 @ fx2 @ [DReply key (stun_success (env_hmac env) (env_crc env) (b_txid b) from pwd)], put_link n t3 st2))"

definition datagram :: "demux_env \<Rightarrow> u8 list \<Rightarrow> path \<Rightarrow> nat \<Rightarrow> nat option \<Rightarrow> recv_state
    \<Rightarrow> nat option \<times> demux_out list \<times> recv_state" where
  "datagram env data key now known st =
     (case data of
        [] \<Rightarrow> (None, [], st)
      | b0 # _ \<Rightarrow>
          if b0 \<le> 3 then
            (case stun_verified env st data of
               None \<Rightarrow> (None, [DDrop ''stun_unverified''], st)
             | Some v \<Rightarrow> (case stun_accept env key now v st of (fx, st') \<Rightarrow> (Some (fst v), fx, st')))
          else if 20 \<le> b0 \<and> b0 \<le> 63 then
            (case (case by_addr st key of Some n \<Rightarrow> Some n | None \<Rightarrow> known) of
               Some n \<Rightarrow> (Some n, [DDtls n data], st)
             | None \<Rightarrow> (None, [DDrop ''rtp_unknown_path''], st))
          else if 128 \<le> b0 \<and> b0 \<le> 191 then
            (case by_addr st key of
               None \<Rightarrow> (None, [DDrop ''rtp_unknown_path''], st)
             | Some n \<Rightarrow>
                 if MAX_DATAGRAM < length data then (Some n, [DDrop ''oversize''], st)
                 else (Some n, [DIngress n data], st))
          else (None, [DDrop ''demux_unknown''], st))"

text \<open>
  The events of the loop: a UDP datagram, a frame of a TCP connection, its end, and the commands of other
  threads. \<open>Changed\<close> is what another thread does to a transport; it never touches the indexes.
\<close>

datatype recv_event =
    UdpIn sock_addr "u8 list" nat
  | TcpIn nat "u8 list" nat
  | TcpClosed nat
  | Register string nat
  | DropUfrag string
  | Unregister nat
  | Changed nat "sock_addr transport"

definition forget :: "nat \<Rightarrow> ('k \<Rightarrow> nat option) \<Rightarrow> 'k \<Rightarrow> nat option" where
  "forget n m k = (if m k = Some n then None else m k)"

definition tcp_closed :: "nat \<Rightarrow> recv_state \<Rightarrow> recv_state" where
  "tcp_closed i st = st\<lparr>tcp_known := (tcp_known st)(i := None), by_addr := (by_addr st)(PTcp i := None)\<rparr>"

definition recv_step :: "demux_env \<Rightarrow> recv_event \<Rightarrow> recv_state \<Rightarrow> demux_out list \<times> recv_state" where
  "recv_step env e st =
     (case e of
        UdpIn a data now \<Rightarrow> (case datagram env data (PUdp a) now None st of (_, fx, st') \<Rightarrow> (fx, st'))
      | TcpIn i data now \<Rightarrow>
          if MAX_DATAGRAM < length data then ([DDrop ''oversize''], st)
          else
            (case datagram env data (PTcp i) now (tcp_known st i) st of (r, fx, st') \<Rightarrow>
               (fx, case r of Some n \<Rightarrow> st'\<lparr>tcp_known := (tcp_known st')(i \<mapsto> n)\<rparr> | None \<Rightarrow> st'))
      | TcpClosed i \<Rightarrow> ([], tcp_closed i st)
      | Register u n \<Rightarrow> ([], st\<lparr>by_ufrag := (by_ufrag st)(u \<mapsto> n)\<rparr>)
      | DropUfrag u \<Rightarrow> ([], st\<lparr>by_ufrag := (by_ufrag st)(u := None)\<rparr>)
      | Unregister n \<Rightarrow> ([], st\<lparr>by_ufrag := forget n (by_ufrag st), by_addr := forget n (by_addr st)\<rparr>)
      | Changed n t \<Rightarrow> ([], st\<lparr>links := (links st)(n \<mapsto> t)\<rparr>))"

definition recv_start :: recv_state where
  "recv_start = \<lparr>by_ufrag = Map.empty, by_addr = Map.empty, tcp_known = Map.empty, links = Map.empty\<rparr>"

section \<open>Nothing moves without a verified check\<close>

lemma stun_verified_first: "stun_verified env st data = Some v \<Longrightarrow> \<exists>b0 r. data = b0 # r \<and> b0 \<le> 3"
proof -
  assume "stun_verified env st data = Some v"
  then obtain b where "stun_parse data = Inr b" by (auto simp: stun_verified_def split: sum.splits)
  then have "is_stun data" by (auto simp: stun_parse_def split: if_splits)
  then show ?thesis by (cases data) (auto simp: is_stun_def word_le_nat_alt word_less_nat_alt)
qed

text \<open>
  A datagram that is not a verified check changes nothing and is not answered: neither the indexes nor any transport
  is touched and no reply is sent, whatever its bytes are.
\<close>

theorem demux_inert:
  assumes "stun_verified env st data = None"
  shows "snd (snd (datagram env data key now known st)) = st
       \<and> list_all (\<lambda>x. case x of DDtls _ _ \<Rightarrow> True | DIngress _ _ \<Rightarrow> True | DDrop _ \<Rightarrow> True | _ \<Rightarrow> False)
           (fst (snd (datagram env data key now known st)))"
  using assms by (simp add: datagram_def split: list.split option.split)

text \<open>The path and the bytes of an arriving datagram or frame; a frame that is too long is not looked at.\<close>

definition arrival :: "recv_event \<Rightarrow> (path \<times> u8 list) option" where
  "arrival e =
     (case e of
        UdpIn a data _ \<Rightarrow> Some (PUdp a, data)
      | TcpIn i data _ \<Rightarrow> if MAX_DATAGRAM < length data then None else Some (PTcp i, data)
      | _ \<Rightarrow> None)"

text \<open>The check a step passes: the path it came on and the transport it is for.\<close>

definition check_event :: "demux_env \<Rightarrow> recv_state \<Rightarrow> recv_event \<Rightarrow> (path \<times> nat) option" where
  "check_event env st e =
     (case arrival e of
        Some (key, data) \<Rightarrow> map_option (\<lambda>v. (key, fst v)) (stun_verified env st data)
      | None \<Rightarrow> None)"

definition recv_run :: "demux_env \<Rightarrow> recv_event list \<Rightarrow> recv_state" where
  "recv_run env es = run_from (\<lambda>st e. snd (recv_step env e st)) recv_start es"

text \<open>
  What ends a path: the transport is taken out, the connection of the path is closed, or a check for another
  transport passes on it.
\<close>

definition cuts :: "demux_env \<Rightarrow> recv_state \<Rightarrow> path \<Rightarrow> nat \<Rightarrow> recv_event \<Rightarrow> bool" where
  "cuts env st key n e \<longleftrightarrow> e = Unregister n \<or> (case e of TcpClosed i \<Rightarrow> key = PTcp i | _ \<Rightarrow> False)
     \<or> (case check_event env st e of Some (k, m) \<Rightarrow> k = key \<and> m \<noteq> n | None \<Rightarrow> False)"

fun still_bound :: "demux_env \<Rightarrow> recv_state \<Rightarrow> path \<Rightarrow> nat \<Rightarrow> recv_event list \<Rightarrow> bool" where
  "still_bound env st key n [] = True"
| "still_bound env st key n (e # es) = (\<not> cuts env st key n e \<and> still_bound env (snd (recv_step env e st)) key n es)"

lemma recv_run_snoc: "recv_run env (es @ [e]) = snd (recv_step env e (recv_run env es))"
  by (simp add: recv_run_def run_from_snoc)

lemma recv_run_append: "recv_run env (es @ fs) = run_from (\<lambda>st e. snd (recv_step env e st)) (recv_run env es) fs"
  by (simp add: recv_run_def run_from_append)

lemma still_bound_snoc:
  "still_bound env st key n (es @ [e]) \<longleftrightarrow> still_bound env st key n es \<and> \<not> cuts env (run_from (\<lambda>st e. snd (recv_step env e st)) st es) key n e"
  by (induction es arbitrary: st) auto

definition passed :: "demux_env \<Rightarrow> recv_event list \<Rightarrow> path \<Rightarrow> nat \<Rightarrow> bool" where
  "passed env es key n \<longleftrightarrow>
     (\<exists>es1 e es2. es = es1 @ e # es2 \<and> check_event env (recv_run env es1) e = Some (key, n)
        \<and> still_bound env (recv_run env (es1 @ [e])) key n es2)"

lemma passed_now: "check_event env (recv_run env es) e = Some (key, n) \<Longrightarrow> passed env (es @ [e]) key n"
  unfolding passed_def by (rule exI [of _ es], rule exI [of _ e], rule exI [of _ "[]"]) simp

lemma passed_snoc: "passed env es key n \<Longrightarrow> \<not> cuts env (recv_run env es) key n e \<Longrightarrow> passed env (es @ [e]) key n"
proof -
  assume "passed env es key n" and e: "\<not> cuts env (recv_run env es) key n e"
  then obtain es1 e1 es2 where p: "es = es1 @ e1 # es2" "check_event env (recv_run env es1) e1 = Some (key, n)"
      "still_bound env (recv_run env (es1 @ [e1])) key n es2" by (auto simp: passed_def)
  have "still_bound env (recv_run env (es1 @ [e1])) key n (es2 @ [e])"
    using p(1,3) e recv_run_append [of env "es1 @ [e1]" es2] by (simp add: still_bound_snoc)
  with p show ?thesis unfolding passed_def by (intro exI [of _ es1] exI [of _ e1] exI [of _ "es2 @ [e]"]) simp
qed

lemma accept_addr [simp]:
  "by_addr (snd (stun_accept env key now v st)) = (by_addr st)(key \<mapsto> fst v)"
  "tcp_known (snd (stun_accept env key now v st)) = tcp_known st"
  by (auto simp: stun_accept_def put_link_def Let_def split: prod.split checked.split if_split)

lemma datagram_addr:
  "by_addr (snd (snd (datagram env data key now known st))) =
     (case stun_verified env st data of Some v \<Rightarrow> (by_addr st)(key \<mapsto> fst v) | None \<Rightarrow> by_addr st)"
  "tcp_known (snd (snd (datagram env data key now known st))) = tcp_known st"
  using stun_verified_first [of env st data]
  by (auto simp: datagram_def case_prod_beta split: list.split option.split)

text \<open>A step enters a path for the check it passes, and otherwise keeps the entry unless it is cut.\<close>

lemma recv_step_addr:
  "by_addr (snd (recv_step env e st)) key = Some n \<longleftrightarrow>
     check_event env st e = Some (key, n) \<or> by_addr st key = Some n \<and> \<not> cuts env st key n e"
proof (cases e)
  case (TcpIn i data now)
  let ?d = "datagram env data (PTcp i) now (tcp_known st i) st"
  have "by_addr (snd (recv_step env e st)) = (if MAX_DATAGRAM < length data then by_addr st else by_addr (snd (snd ?d)))"
    by (simp add: TcpIn recv_step_def case_prod_beta split: option.split)
  then show ?thesis
    by (auto simp: TcpIn check_event_def arrival_def cuts_def datagram_addr split: option.split)
qed (auto simp: recv_step_def check_event_def arrival_def cuts_def datagram_addr tcp_closed_def forget_def case_prod_beta
       split: if_splits option.split)

lemma addr_passed: "by_addr (recv_run env es) key = Some n \<longleftrightarrow> passed env es key n"
proof
  show "by_addr (recv_run env es) key = Some n \<Longrightarrow> passed env es key n"
  proof (induction es rule: rev_induct)
    case Nil
    then show ?case by (simp add: recv_run_def recv_start_def)
  next
    case (snoc e es)
    then show ?case using passed_now passed_snoc by (auto simp: recv_run_snoc recv_step_addr)
  qed
next
  assume "passed env es key n"
  then obtain es1 e1 es2 where p: "es = es1 @ e1 # es2" "check_event env (recv_run env es1) e1 = Some (key, n)"
      "still_bound env (recv_run env (es1 @ [e1])) key n es2" by (auto simp: passed_def)
  have "by_addr (run_from (\<lambda>st e. snd (recv_step env e st)) st fs) key = Some n"
    if "by_addr st key = Some n" "still_bound env st key n fs" for st fs
    using that by (induction fs arbitrary: st) (simp_all add: recv_step_addr)
  from this [OF _ p(3)] p(1,2) recv_run_append [of env "es1 @ [e1]" es2]
  show "by_addr (recv_run env es) key = Some n" by (simp add: recv_run_snoc recv_step_addr)
qed

definition is_media :: "u8 list \<Rightarrow> bool" where
  "is_media data \<longleftrightarrow> (case data of [] \<Rightarrow> False | b0 # _ \<Rightarrow> 128 \<le> b0 \<and> b0 \<le> 191)"

lemma recv_step_ingress:
  "DIngress n data \<in> set (fst (recv_step env e st)) \<longleftrightarrow>
     (\<exists>key. arrival e = Some (key, data) \<and> is_media data \<and> length data \<le> MAX_DATAGRAM \<and> by_addr st key = Some n)"
proof -
  have d: "DIngress n data \<in> set (fst (snd (datagram env raw key now known st))) \<longleftrightarrow>
      raw = data \<and> is_media data \<and> length data \<le> MAX_DATAGRAM \<and> by_addr st key = Some n" for raw key now known
    by (auto simp: datagram_def stun_accept_def is_media_def Let_def word_le_nat_alt
      split: list.splits option.splits if_splits prod.splits checked.splits)
  show ?thesis by (cases e) (auto simp: recv_step_def arrival_def case_prod_beta d)
qed

text \<open>What a passed check means: the request named a fragment of the transport and its keyed hash is the one of
  that fragment's password.\<close>

definition proves_password :: "demux_env \<Rightarrow> recv_state \<Rightarrow> u8 list \<Rightarrow> nat \<Rightarrow> bool" where
  "proves_password env st raw n \<longleftrightarrow>
     (\<exists>b t pwd. stun_parse raw = Inr b \<and> by_ufrag st (b_local b) = Some n \<and> links st n = Some t
        \<and> cred_pwd (t_creds t) (b_local b) = Some pwd
        \<and> take 20 (drop (b_mi_offset b + 4) raw) = env_hmac env (as_bytes pwd) (mac_input raw (b_mi_offset b)))"

lemma stun_verified_proves:
  assumes "\<And>k d. length (env_hmac env k d) = 20"
  shows "proves_password env st raw n \<longleftrightarrow> (\<exists>v. stun_verified env st raw = Some v \<and> fst v = n)"
proof -
  have "stun_verify (env_hmac env) raw b pwd \<longleftrightarrow>
      take 20 (drop (b_mi_offset b + 4) raw) = env_hmac env (as_bytes pwd) (mac_input raw (b_mi_offset b))"
    if "stun_parse raw = Inr b" for b pwd
  proof -
    note mi = stun_parse_mi [OF that]
    then have "length (b_mi b) = 20" by (auto simp: min_def)
    then show ?thesis using stun_verify_iff [of "env_hmac env" pwd raw b] assms mi by simp
  qed
  then show ?thesis
    by (auto simp: proves_password_def stun_verified_def split: sum.splits option.splits if_splits)
qed

lemma check_event_proves:
  assumes "\<And>k d. length (env_hmac env k d) = 20"
  shows "check_event env st e = Some (key, n) \<longleftrightarrow> (\<exists>raw. arrival e = Some (key, raw) \<and> proves_password env st raw n)"
  unfolding stun_verified_proves [OF assms] by (auto simp: check_event_def split: option.split)

text \<open>
  Media is taken exactly from proven paths (C28): whatever the receive thread has read before, bytes go to a worker for a
  transport if and only if they look like media, are not too long and came on a path on which an earlier check proved the
  password of a fragment of that transport, and since that check the transport was not taken out, the
  path's connection not closed and no check for another transport passed on the path, which would take it over.
\<close>

theorem demux_media_from_checked_paths:
  assumes "\<And>k d. length (env_hmac env k d) = 20"
  shows "DIngress n data \<in> set (fst (recv_step env e (recv_run env es))) \<longleftrightarrow>
    (\<exists>key. arrival e = Some (key, data) \<and> is_media data \<and> length data \<le> 2048
      \<and> (\<exists>es1 e1 raw es2. es = es1 @ e1 # es2 \<and> arrival e1 = Some (key, raw)
            \<and> proves_password env (recv_run env es1) raw n \<and> still_bound env (recv_run env (es1 @ [e1])) key n es2))"
  unfolding recv_step_ingress addr_passed passed_def check_event_proves [OF assms] MAX_DATAGRAM_def by blast

text \<open>A transport registered under a fragment; a check with its password, then a media packet from the same address.\<close>

definition demo_env :: demux_env where
  "demo_env = \<lparr>env_hmac = (\<lambda>k d. take 20 (k @ replicate 20 0)), env_crc = (\<lambda>_. 0), env_local = V4 1 2\<rparr>"

definition demo_events :: "recv_event list" where
  "demo_events = [Changed 7 (transport_new ''u1'' 0 \<lparr>c_ufrag = ''srv1'', c_pwd = ''pw''\<rparr> 10), Register ''srv1'' 7,
     UdpIn (V4 9 9) (stun_request (env_hmac demo_env) (env_crc demo_env) ''srv1'' ''cli1'' ''pw'' (replicate 12 3) True) 20]"

definition demo_takeover :: "recv_event list" where
  "demo_takeover = demo_events @ [Changed 8 (transport_new ''u2'' 0 \<lparr>c_ufrag = ''srv2'', c_pwd = ''pv''\<rparr> 10), Register ''srv2'' 8,
     UdpIn (V4 9 9) (stun_request (env_hmac demo_env) (env_crc demo_env) ''srv2'' ''cli2'' ''pv'' (replicate 12 4) True) 25]"

theorem demux_media_from_checked_paths_witness:
  "DIngress 7 [0x80, 111] \<in> set (fst (recv_step demo_env (UdpIn (V4 9 9) [0x80, 111] 30) (recv_run demo_env demo_events)))
   \<and> DIngress 7 [0x80, 111] \<notin> set (fst (recv_step demo_env (UdpIn (V4 9 8) [0x80, 111] 30) (recv_run demo_env demo_events)))
   \<and> fst (recv_step demo_env (UdpIn (V4 9 9) [0x80, 111] 30) (recv_run demo_env demo_takeover)) = [DIngress 8 [0x80, 111]]
   \<and> (\<exists>es1 raw. proves_password demo_env (recv_run demo_env es1) raw 7)"
proof -
  have in1: "DIngress 7 [0x80, 111] \<in> set (fst (recv_step demo_env (UdpIn (V4 9 9) [0x80, 111] 30) (recv_run demo_env demo_events)))"
    by code_simp
  have out1: "DIngress 7 [0x80, 111] \<notin> set (fst (recv_step demo_env (UdpIn (V4 9 8) [0x80, 111] 30) (recv_run demo_env demo_events)))"
    by code_simp
  have over: "fst (recv_step demo_env (UdpIn (V4 9 9) [0x80, 111] 30) (recv_run demo_env demo_takeover)) = [DIngress 8 [0x80, 111]]"
    by code_simp
  have "\<And>k d. length (env_hmac demo_env k d) = 20" by (simp add: demo_env_def)
  from demux_media_from_checked_paths [OF this, THEN iffD1, OF in1] in1 out1 over show ?thesis by blast
qed

theorem demux_inert_witness:
  "stun_verified demo_env (recv_run demo_env demo_events) [0, 1, 0, 0] = None
   \<and> snd (snd (datagram demo_env [0, 1, 0, 0] (PUdp (V4 9 9)) 40 None (recv_run demo_env demo_events))) = recv_run demo_env demo_events"
proof -
  have "stun_verified demo_env (recv_run demo_env demo_events) [0, 1, 0, 0] = None" by code_simp
  with demux_inert [OF this] show ?thesis by blast
qed

end
