(* ===== verification/Worker_Queue.thy ===== *)
theory Worker_Queue
  imports Prelude "HOL-Library.Multiset"
begin

text \<open>
  The inbox of a media worker (\<open>oxsfud/src/fwd/rt.rs\<close>, \<open>Worker.push\<close>, and \<open>worker_loop\<close> in \<open>fwd/mod.rs\<close>) under
  interleaving: any number of threads push into bounded rings while the worker takes items out, gives back
  their packets, and goes to sleep. Every atomic operation of the code is a step of its own.
\<close>

text \<open>How many packets an item stands for.\<close>

datatype item = ItemIn | ItemOut nat | CtlRtcp | CtlRtx nat | CtlFrames nat

fun item_packets :: "item \<Rightarrow> nat" where
  "item_packets ItemIn = 1"
| "item_packets (ItemOut targets) = max targets 1"
| "item_packets CtlRtcp = 1"
| "item_packets (CtlRtx seqs) = max seqs 1"
| "item_packets (CtlFrames rows) = max rows 1"

text \<open>
  Where the worker stands: taking items, or on its way to sleep with the first rings already looked at.
  \<open>Looking (length rings)\<close> is parked.
\<close>

datatype worker_pc = Running | Looking nat

record worker_queue =
  wq_queued :: nat
  wq_rings :: "item list list"
  wq_res :: "(nat \<times> item \<times> bool) multiset"
  wq_pushed :: nat
  wq_unpark :: nat
  wq_proc :: "item option"
  wq_pc :: worker_pc
  wq_sleeping :: bool
  wq_token :: bool

definition RECV_RING :: nat where "RECV_RING = 4096"
definition WORKER_RING :: nat where "WORKER_RING = 1024"
definition CTL_RING :: nat where "CTL_RING = 4096"

definition ring_cap :: "nat \<Rightarrow> nat \<Rightarrow> nat" where
  "ring_cap workers k = (if k = 0 then RECV_RING else if k = workers + 1 then CTL_RING else WORKER_RING)"

definition worker_new :: "nat \<Rightarrow> worker_queue" where
  "worker_new workers = \<lparr>wq_queued = 0, wq_rings = replicate (workers + 2) [], wq_res = {#}, wq_pushed = 0, wq_unpark = 0,
     wq_proc = None, wq_pc = Running, wq_sleeping = False, wq_token = False\<rparr>"

text \<open>The steps of the threads that push (\<open>Worker.push\<close>).\<close>

inductive push_step :: "nat \<Rightarrow> nat \<Rightarrow> worker_queue \<Rightarrow> worker_queue \<Rightarrow> bool" for limit workers where
  push_count: "src < length (wq_rings q) \<Longrightarrow>
     push_step limit workers q (q\<lparr>wq_queued := wq_queued q + item_packets x,
       wq_res := add_mset (src, x, wq_queued q + item_packets x \<le> limit) (wq_res q)\<rparr>)"
| push_refused: "wq_res q = add_mset (src, x, False) r \<Longrightarrow>
     push_step limit workers q (q\<lparr>wq_queued := wq_queued q - item_packets x, wq_res := r\<rparr>)"
| push_full: "wq_res q = add_mset (src, x, True) r \<Longrightarrow> ring_cap workers src \<le> length (wq_rings q ! src) \<Longrightarrow>
     push_step limit workers q (q\<lparr>wq_queued := wq_queued q - item_packets x, wq_res := r\<rparr>)"
| push_done: "wq_res q = add_mset (src, x, True) r \<Longrightarrow> length (wq_rings q ! src) < ring_cap workers src \<Longrightarrow>
     push_step limit workers q (q\<lparr>wq_rings := (wq_rings q)[src := wq_rings q ! src @ [x]], wq_res := r,
       wq_pushed := wq_pushed q + 1\<rparr>)"
| push_awake: "0 < wq_pushed q \<Longrightarrow> \<not> wq_sleeping q \<Longrightarrow> push_step limit workers q (q\<lparr>wq_pushed := wq_pushed q - 1\<rparr>)"
| push_asleep: "0 < wq_pushed q \<Longrightarrow> wq_sleeping q \<Longrightarrow>
     push_step limit workers q (q\<lparr>wq_pushed := wq_pushed q - 1, wq_unpark := wq_unpark q + 1\<rparr>)"
| unpark: "0 < wq_unpark q \<Longrightarrow> push_step limit workers q (q\<lparr>wq_unpark := wq_unpark q - 1, wq_token := True\<rparr>)"

text \<open>The steps of the worker (\<open>worker_loop\<close>).\<close>

inductive loop_step :: "worker_queue \<Rightarrow> worker_queue \<Rightarrow> bool" where
  pop: "wq_pc q = Running \<Longrightarrow> wq_proc q = None \<Longrightarrow> k < length (wq_rings q) \<Longrightarrow> wq_rings q ! k = x # xs \<Longrightarrow>
     loop_step q (q\<lparr>wq_rings := (wq_rings q)[k := xs], wq_proc := Some x\<rparr>)"
| processed: "wq_proc q = Some x \<Longrightarrow>
     loop_step q (q\<lparr>wq_proc := None, wq_queued := wq_queued q - item_packets x\<rparr>)"
| sleepy: "wq_pc q = Running \<Longrightarrow> wq_proc q = None \<Longrightarrow> loop_step q (q\<lparr>wq_sleeping := True, wq_pc := Looking 0\<rparr>)"
| look_empty: "wq_pc q = Looking k \<Longrightarrow> k < length (wq_rings q) \<Longrightarrow> wq_rings q ! k = [] \<Longrightarrow>
     loop_step q (q\<lparr>wq_pc := Looking (k + 1)\<rparr>)"
| look_full: "wq_pc q = Looking k \<Longrightarrow> k < length (wq_rings q) \<Longrightarrow> wq_rings q ! k \<noteq> [] \<Longrightarrow>
     loop_step q (q\<lparr>wq_sleeping := False, wq_pc := Running\<rparr>)"
| unparked: "wq_pc q = Looking (length (wq_rings q)) \<Longrightarrow>
     loop_step q (q\<lparr>wq_sleeping := False, wq_pc := Running, wq_token := False\<rparr>)"

inductive wq_step :: "nat \<Rightarrow> nat \<Rightarrow> worker_queue \<Rightarrow> worker_queue \<Rightarrow> bool" for limit workers where
  pushes: "push_step limit workers q q' \<Longrightarrow> wq_step limit workers q q'"
| works: "loop_step q q' \<Longrightarrow> wq_step limit workers q q'"

inductive wq_reach :: "nat \<Rightarrow> nat \<Rightarrow> worker_queue \<Rightarrow> bool" for limit workers where
  start: "wq_reach limit workers (worker_new workers)"
| step: "wq_reach limit workers q \<Longrightarrow> wq_step limit workers q q' \<Longrightarrow> wq_reach limit workers q'"

inductive_simps wq_step_iff: "wq_step limit workers q q'"

section \<open>The count and the limit\<close>

text \<open>Packets of items in the rings and in the worker's hand, and of pushes that counted themselves in.\<close>

definition ring_load :: "item list list \<Rightarrow> nat" where
  "ring_load rs = sum_list (map item_packets (concat rs))"

definition proc_load :: "item option \<Rightarrow> nat" where
  "proc_load p = (case p of None \<Rightarrow> 0 | Some x \<Rightarrow> item_packets x)"

definition res_load :: "(nat \<times> item \<times> bool) multiset \<Rightarrow> nat" where
  "res_load r = (\<Sum>(f, x, ok) \<in># r. item_packets x)"

definition admitted :: "(nat \<times> item \<times> bool) multiset \<Rightarrow> nat" where
  "admitted r = (\<Sum>(f, x, ok) \<in># r. if ok then item_packets x else 0)"

lemma res_load_add [simp]: "res_load (add_mset (f, x, ok) r) = item_packets x + res_load r"
  and res_load_empty [simp]: "res_load {#} = 0"
  and admitted_add [simp]: "admitted (add_mset (f, x, ok) r) = (if ok then item_packets x else 0) + admitted r"
  and admitted_empty [simp]: "admitted {#} = 0"
  by (simp_all add: res_load_def admitted_def)

lemma admitted_le: "admitted r \<le> res_load r"
  by (induction r) auto

lemma ring_load_update:
  "k < length rs \<Longrightarrow> ring_load (rs[k := ys]) + sum_list (map item_packets (rs ! k)) = ring_load rs + sum_list (map item_packets ys)"
proof (induction rs arbitrary: k)
  case (Cons r rs)
  then show ?case by (cases k) (auto simp: ring_load_def)
qed simp

lemma ring_load_push: "k < length rs \<Longrightarrow> ring_load (rs[k := rs ! k @ [x]]) = ring_load rs + item_packets x"
  using ring_load_update [of k rs "rs ! k @ [x]"] by simp

lemma ring_load_pop: "k < length rs \<Longrightarrow> rs ! k = x # xs \<Longrightarrow> ring_load (rs[k := xs]) + item_packets x = ring_load rs"
  using ring_load_update [of k rs xs] by simp

definition wq_inv :: "nat \<Rightarrow> nat \<Rightarrow> worker_queue \<Rightarrow> bool" where
  "wq_inv limit workers q \<longleftrightarrow>
     length (wq_rings q) = workers + 2
   \<and> (\<forall>(f, x, ok) \<in># wq_res q. f < workers + 2)
   \<and> wq_queued q = ring_load (wq_rings q) + proc_load (wq_proc q) + res_load (wq_res q)
   \<and> ring_load (wq_rings q) + proc_load (wq_proc q) + admitted (wq_res q) \<le> limit
   \<and> (\<forall>k < workers + 2. length (wq_rings q ! k) \<le> ring_cap workers k)
   \<and> (wq_sleeping q \<longleftrightarrow> wq_pc q \<noteq> Running) \<and> (wq_pc q \<noteq> Running \<longrightarrow> wq_proc q = None)
   \<and> (\<forall>k. wq_pc q = Looking k \<longrightarrow> k \<le> workers + 2
         \<and> (wq_pushed q = 0 \<and> wq_unpark q = 0 \<and> \<not> wq_token q \<longrightarrow> (\<forall>j < k. wq_rings q ! j = [])))"

lemma wq_inv_new: "wq_inv limit workers (worker_new workers)"
proof -
  define rs where "rs = replicate (workers + 2) ([] :: item list)"
  have "length rs = workers + 2" "ring_load rs = 0" and nth: "k < workers + 2 \<Longrightarrow> rs ! k = []" for k
    unfolding rs_def by (simp_all add: ring_load_def del: replicate_Suc)
  then show ?thesis unfolding wq_inv_def worker_new_def rs_def [symmetric] by (simp add: proc_load_def nth)
qed

lemma wq_inv_push:
  assumes inv: "wq_inv limit workers q" and step: "push_step limit workers q q'"
  shows "wq_inv limit workers q'"
  using step
proof (cases rule: push_step.cases)
  case (push_count src x)
  have "admitted (wq_res q) \<le> res_load (wq_res q)" by (rule admitted_le)
  with inv push_count show ?thesis by (auto simp: wq_inv_def)
next
  case (push_refused src x r)
  with inv show ?thesis by (auto simp: wq_inv_def)
next
  case (push_full src x r)
  with inv show ?thesis by (auto simp: wq_inv_def)
next
  case (push_done src x r)
  with inv have "src < length (wq_rings q)" by (auto simp: wq_inv_def)
  from ring_load_push [OF this, of x] inv push_done show ?thesis
    by (auto simp: wq_inv_def nth_list_update)
qed (use inv in \<open>auto simp: wq_inv_def\<close>)

lemma wq_inv_loop:
  assumes inv: "wq_inv limit workers q" and step: "loop_step q q'"
  shows "wq_inv limit workers q'"
  using step
proof (cases rule: loop_step.cases)
  case (pop k x xs)
  from ring_load_pop [OF pop(4, 5)] inv pop show ?thesis
    by (auto simp: wq_inv_def proc_load_def nth_list_update)
next
  case (processed x)
  with inv show ?thesis by (auto simp: wq_inv_def proc_load_def)
next
  case (look_empty k)
  with inv show ?thesis by (auto simp: wq_inv_def less_Suc_eq)
qed (use inv in \<open>auto simp: wq_inv_def\<close>)

lemma wq_inv_step: "wq_inv limit workers q \<Longrightarrow> wq_step limit workers q q' \<Longrightarrow> wq_inv limit workers q'"
  by (auto simp: wq_step_iff intro: wq_inv_push wq_inv_loop)

lemma wq_reach_inv: "wq_reach limit workers q \<Longrightarrow> wq_inv limit workers q"
  by (induction rule: wq_reach.induct) (auto intro: wq_inv_new wq_inv_step)

text \<open>
  The inbox of a worker is bounded and its count exact under every interleaving of pushes with the worker (C32):
  the counter is the packets in the rings, in the worker's hand and of the pushes under way, so it returns to
  what is queued when none is; and the packets queued and in hand never exceed the limit, although pushes
  count themselves in before they look at it.
\<close>

theorem worker_queue_bounded:
  assumes "wq_reach limit workers q"
  shows "wq_queued q = ring_load (wq_rings q) + proc_load (wq_proc q) + res_load (wq_res q)
       \<and> ring_load (wq_rings q) + proc_load (wq_proc q) \<le> limit
       \<and> (\<forall>k < workers + 2. length (wq_rings q ! k) \<le> ring_cap workers k)"
  using wq_reach_inv [OF assms] by (auto simp: wq_inv_def)

text \<open>
  No wake-up is lost (C31): when the worker is parked with an item in some ring, then a push is still about to look
  whether it sleeps, or a wake-up is on its way, or has arrived.
\<close>

theorem worker_no_lost_wakeup:
  assumes "wq_reach limit workers q" "wq_pc q = Looking (workers + 2)" "k < workers + 2" "wq_rings q ! k \<noteq> []"
  shows "0 < wq_pushed q \<or> 0 < wq_unpark q \<or> wq_token q"
  using wq_reach_inv [OF assms(1)] assms(2-4) by (auto simp: wq_inv_def)

text \<open>A push while the worker looks at its rings: the worker parks with an item in the ring it had looked at, and is woken.\<close>

definition demo_queue :: worker_queue where
  "demo_queue = \<lparr>wq_queued = 1, wq_rings = [[ItemIn], [], []], wq_res = {#}, wq_pushed = 1, wq_unpark = 0,
     wq_proc = None, wq_pc = Looking 3, wq_sleeping = True, wq_token = False\<rparr>"

lemma demo_queue_reach: "wq_reach 6000 1 demo_queue"
proof -
  let ?q0 = "worker_new 1"
  let ?q1 = "?q0\<lparr>wq_sleeping := True, wq_pc := Looking 0\<rparr>"
  let ?q2 = "?q1\<lparr>wq_pc := Looking 1\<rparr>"
  let ?q3 = "?q2\<lparr>wq_queued := 1, wq_res := {#(0, ItemIn, True)#}\<rparr>"
  let ?q4 = "?q3\<lparr>wq_rings := [[ItemIn], [], []], wq_res := {#}, wq_pushed := 1\<rparr>"
  let ?q5 = "?q4\<lparr>wq_pc := Looking 2\<rparr>"
  let ?q6 = "?q5\<lparr>wq_pc := Looking 3\<rparr>"
  have "wq_reach 6000 1 ?q0" by (rule wq_reach.start)
  moreover have "wq_step 6000 1 ?q0 ?q1" using loop_step.sleepy [of ?q0] by (simp add: wq_step_iff worker_new_def)
  moreover have "wq_step 6000 1 ?q1 ?q2" using loop_step.look_empty [of ?q1 0] by (simp add: wq_step_iff worker_new_def)
  moreover have "wq_step 6000 1 ?q2 ?q3" using push_step.push_count [of 0 ?q2 6000 1 ItemIn] by (simp add: wq_step_iff worker_new_def)
  moreover have "wq_step 6000 1 ?q3 ?q4" using push_step.push_done [of ?q3 0 ItemIn "{#}" 1] by (simp add: wq_step_iff worker_new_def ring_cap_def RECV_RING_def numeral_3_eq_3)
  moreover have "wq_step 6000 1 ?q4 ?q5" using loop_step.look_empty [of ?q4 1] by (simp add: wq_step_iff worker_new_def numeral_2_eq_2)
  moreover have "wq_step 6000 1 ?q5 ?q6" using loop_step.look_empty [of ?q5 2] by (simp add: wq_step_iff worker_new_def)
  moreover have "?q6 = demo_queue" by (simp add: demo_queue_def worker_new_def)
  ultimately show ?thesis by (metis wq_reach.step)
qed

theorem worker_queue_bounded_witness:
  "wq_queued demo_queue = ring_load (wq_rings demo_queue) + proc_load (wq_proc demo_queue) + res_load (wq_res demo_queue)
   \<and> wq_queued demo_queue = 1"
  using worker_queue_bounded [OF demo_queue_reach] by (simp add: demo_queue_def)

theorem worker_no_lost_wakeup_witness:
  "wq_rings demo_queue ! 0 = [ItemIn] \<and> (0 < wq_pushed demo_queue \<or> 0 < wq_unpark demo_queue \<or> wq_token demo_queue)"
  using worker_no_lost_wakeup [OF demo_queue_reach, of 0] by (simp add: demo_queue_def)

end
