(* ===== verification/Egress.thy ===== *)
theory Egress
  imports Rtp Fwd_Core Pub_Track Link
begin

text \<open>
  Sending down a row (\<open>oxsfud/src/fwd/mod.rs\<close>, \<open>send_down\<close>) and answering retransmission requests
  (\<open>rtcp/mod.rs\<close>, \<open>send_rtx\<close>, \<open>send_built\<close>): the gates, the rewriter, the header and extensions of the row, the
  counters of row and connection. The clocks, the encryption and the socket are parameters of a send.
\<close>

record down_row =
  dr_user :: string
  dr_mid :: "u8 list"
  dr_kind :: media_kind
  dr_slot :: bool
  dr_ssrc :: u32
  dr_rtx_ssrc :: "u32 option"
  dr_pt :: u8
  dr_rtx_pt :: u8
  dr_since :: nat
  dr_ext :: ext_table
  dr_rw :: rewriter
  dr_rtx_seq :: u16
  dr_gate :: "bool option"
  dr_src_track :: "u64 option"
  dr_rtx_gate :: bool
  dr_sent :: nat
  dr_bytes :: nat
  dr_last_at :: nat

definition row_clock :: "media_kind \<Rightarrow> u32" where
  "row_clock k = (if k = KAudio then 48000 else 90000)"

definition row_create :: "string \<Rightarrow> u8 list \<Rightarrow> media_kind \<Rightarrow> bool \<Rightarrow> u32 \<Rightarrow> u32 option \<Rightarrow> u16 \<Rightarrow> down_row" where
  "row_create user mid k slot ssrc rtx_ssrc rseq = \<lparr>dr_user = user, dr_mid = mid, dr_kind = k, dr_slot = slot, dr_ssrc = ssrc,
     dr_rtx_ssrc = rtx_ssrc, dr_pt = 0, dr_rtx_pt = 0, dr_since = 0,
     dr_ext = \<lparr>et_mid = None, et_audio_level = None, et_abs_send_time = None, et_twcc = None\<rparr>,
     dr_rw = rewriter_new (row_clock k), dr_rtx_seq = rseq, dr_gate = None, dr_src_track = None, dr_rtx_gate = False,
     dr_sent = 0, dr_bytes = 0, dr_last_at = 0\<rparr>"

definition row_open :: "nat \<Rightarrow> down_row \<Rightarrow> bool" where
  "row_open acked r \<longleftrightarrow> dr_since r \<le> acked"

record sent_rec =
  sn_seq :: u16
  sn_at_us :: nat
  sn_size :: nat
  sn_probe :: bool

record 'a conn =
  cn_link :: "'a transport"
  cn_twcc_seq :: u16
  cn_sent :: "sent_rec list"
  cn_packets :: nat
  cn_bytes :: nat
  cn_retransmitted :: nat

definition SENT_KEEP :: nat where "SENT_KEEP = 32768"

definition sent_twcc :: "u16 \<Rightarrow> nat \<Rightarrow> nat \<Rightarrow> bool \<Rightarrow> 'a conn \<Rightarrow> 'a conn" where
  "sent_twcc seq n_bytes now_us probe c =
     (let l = cn_sent c @ [\<lparr>sn_seq = seq, sn_at_us = now_us, sn_size = n_bytes, sn_probe = probe\<rparr>]
      in c\<lparr>cn_sent := drop (length l - SENT_KEEP) l\<rparr>)"

record pkt =
  pk_data :: "u8 list"
  pk_hlen :: nat
  pk_seq :: u16
  pk_ts :: u32
  pk_audio_level :: "u8 option"
  pk_src_key :: u64
  pk_covers :: u32
  pk_keyframe :: bool
  pk_track :: "u64 option"

record 'a tx_env =
  tx_now_ms :: u64
  tx_us :: nat
  tx_tcp_open :: "nat \<Rightarrow> bool"
  tx_encrypt :: "u8 list \<Rightarrow> u8 list option"
  tx_send :: "'a path_key \<Rightarrow> u8 list \<Rightarrow> bool"

text \<open>The outcome of a send: the packet before encryption, or why nothing went out.\<close>

datatype tx_result = TxSent "u8 list" | TxDrop string | TxSkip | TxAwaitKeyframe "u64 option"

text \<open>What both senders do with a finished packet: take a transport-wide number, encrypt, send.\<close>

definition tx_wire :: "'a tx_env \<Rightarrow> 'a path_key \<Rightarrow> u8 list \<Rightarrow> u16 \<Rightarrow> bool \<Rightarrow> 'a conn \<Rightarrow> tx_result \<times> nat \<times> 'a conn" where
  "tx_wire env path out twcc probe c =
     (case tx_encrypt env out of
        None \<Rightarrow> (TxSkip, 0, c)
      | Some e \<Rightarrow>
          if \<not> tx_send env path e then (TxDrop ''send_fail'', 0, c)
          else (TxSent out, length e, sent_twcc twcc (length e) (tx_us env) probe c))"

definition send_down :: "'a tx_env \<Rightarrow> pkt \<Rightarrow> down_row \<Rightarrow> 'a conn \<Rightarrow> tx_result \<times> down_row \<times> 'a conn" where
  "send_down env p row c =
     (if t_closed (cn_link c) then (TxDrop ''transport_gone'', row, c)
      else if \<not> t_ready (cn_link c) then (TxSkip, row, c)
      else case send_ok (tx_tcp_open env) (unat (tx_now_ms env)) (cn_link c) of
        None \<Rightarrow> (TxSkip, row, c)
      | Some path \<Rightarrow>
          if dr_kind row = KVideo \<and> rw_src (dr_rw row) \<noteq> Some (pk_src_key p) \<and> \<not> pk_keyframe p
          then (TxAwaitKeyframe (pk_track p), row, c)
          else
            (case rw_map (pk_src_key p) (pk_seq p) (pk_ts p) (tx_now_ms env) (pk_covers p) (dr_rw row) of (m, rw') \<Rightarrow>
               let row1 = row\<lparr>dr_rw := rw'\<rparr>;
                   row2 = (if m_switched m \<or> dr_src_track row1 = None
                     then (let r = (if dr_kind row1 = KVideo then row1\<lparr>dr_rtx_gate := False\<rparr> else row1)
                           in case pk_track p of Some t \<Rightarrow> r\<lparr>dr_src_track := Some t\<rparr> | None \<Rightarrow> r)
                     else row1);
                   twcc = cn_twcc_seq c;
                   c1 = c\<lparr>cn_twcc_seq := twcc + 1\<rparr>;
                   out = wire_packet (0x80 OR (pk_data p ! 0 AND 0x20)) (pt_byte1 (pk_data p ! 1) (dr_pt row2)) (m_seq m) (m_ts m)
                           (dr_ssrc row2) (dr_ext row2)
                           \<lparr>ei_mid = dr_mid row2, ei_audio_level = pk_audio_level p, ei_t_us = tx_us env, ei_twcc_seq = Some twcc\<rparr>
                           (drop (pk_hlen p) (pk_data p))
               in case tx_wire env path out twcc False c1 of (r, n_bytes, c2) \<Rightarrow>
                  (case r of
                     TxSent _ \<Rightarrow> (r, row2\<lparr>dr_sent := dr_sent row2 + 1, dr_bytes := dr_bytes row2 + n_bytes,
                                          dr_last_at := unat (tx_now_ms env)\<rparr>,
                                  c2\<lparr>cn_packets := cn_packets c2 + 1, cn_bytes := cn_bytes c2 + n_bytes\<rparr>)
                   | _ \<Rightarrow> (r, row2, c2))))"

section \<open>Retransmission\<close>

definition RTX_BUDGET :: nat where "RTX_BUDGET = 200"
definition RTX_WINDOW_MS :: nat where "RTX_WINDOW_MS = 3000"

type_synonym budget = "string \<Rightarrow> (nat \<times> nat) option"

definition budget_ok :: "string \<Rightarrow> nat \<Rightarrow> budget \<Rightarrow> bool \<times> budget" where
  "budget_ok user now b =
     (let (t0, n) = (case b user of Some e \<Rightarrow> e | None \<Rightarrow> (now, 0));
          (t0, n) = (if RTX_WINDOW_MS \<le> now - t0 then (now, 0) else (t0, n))
      in if RTX_BUDGET \<le> n then (False, b(user \<mapsto> (t0, n))) else (True, b(user \<mapsto> (t0, n + 1))))"

definition forget_user :: "string \<Rightarrow> budget \<Rightarrow> budget" where
  "forget_user user b = b(user := None)"

record built =
  bl_pt :: u8
  bl_seq :: u16
  bl_ts :: u32
  bl_ssrc :: u32
  bl_marker :: bool
  bl_payload :: "u8 list"
  bl_probe :: bool
  bl_padding :: bool

definition send_built :: "'a tx_env \<Rightarrow> built \<Rightarrow> down_row \<Rightarrow> 'a conn \<Rightarrow> tx_result \<times> 'a conn" where
  "send_built env b row c =
     (if t_closed (cn_link c) \<or> \<not> t_ready (cn_link c) then (TxSkip, c)
      else case send_ok (tx_tcp_open env) (unat (tx_now_ms env)) (cn_link c) of
        None \<Rightarrow> (TxSkip, c)
      | Some path \<Rightarrow>
          (let twcc = cn_twcc_seq c;
               c1 = c\<lparr>cn_twcc_seq := twcc + 1\<rparr>;
               out = wire_packet (if bl_padding b then 0xa0 else 0x80)
                       (if bl_marker b then 0x80 OR (bl_pt b AND 0x7f) else bl_pt b AND 0x7f) (bl_seq b) (bl_ts b) (bl_ssrc b)
                       (dr_ext row)
                       \<lparr>ei_mid = dr_mid row, ei_audio_level = None, ei_t_us = tx_us env, ei_twcc_seq = Some twcc\<rparr>
                       (bl_payload b)
           in case tx_wire env path out twcc (bl_probe b) c1 of (r, _, c2) \<Rightarrow> (r, c2)))"

text \<open>One requested number. \<open>caches\<close> are the packet caches of the uplink tracks, by source key.\<close>

definition rtx_one :: "'a tx_env \<Rightarrow> (u64 \<Rightarrow> cache) \<Rightarrow> u16 \<Rightarrow> u32 \<Rightarrow> down_row \<times> 'a conn \<times> budget
    \<Rightarrow> tx_result \<times> down_row \<times> 'a conn \<times> budget" where
  "rtx_one env caches out_seq rtx_ssrc s =
     (case s of (row, c, bud) \<Rightarrow>
        if dr_rtx_gate row then (TxDrop ''rtx_gate'', s)
        else case unmap_nack (dr_rw row) out_seq of
          None \<Rightarrow> (TxDrop ''rtx_gate'', s)
        | Some src_seq \<Rightarrow>
            (case dr_src_track row of
               None \<Rightarrow> (TxDrop ''rtx_cache_miss'', s)
             | Some t \<Rightarrow>
                 (case cache_get src_seq (caches t) of
                    None \<Rightarrow> (TxDrop ''rtx_cache_miss'', s)
                  | Some orig \<Rightarrow>
                      (case budget_ok (dr_user row) (unat (tx_now_ms env)) bud of (ok, bud') \<Rightarrow>
                         if \<not> ok then (TxDrop ''rtx_budget'', row, c, bud')
                         else case parse_rtp orig of
                           None \<Rightarrow> (TxSkip, row, c, bud')
                         | Some rtp \<Rightarrow>
                             (let b = \<lparr>bl_pt = dr_rtx_pt row, bl_seq = dr_rtx_seq row, bl_ts = rtp_ts rtp + ts_off (dr_rw row),
                                       bl_ssrc = rtx_ssrc, bl_marker = rtp_marker rtp,
                                       bl_payload = be16 out_seq @ drop (rtp_hlen rtp) orig, bl_probe = False, bl_padding = False\<rparr>;
                                  row1 = row\<lparr>dr_rtx_seq := dr_rtx_seq row + 1\<rparr>
                              in case send_built env b row1 c of (r, c1) \<Rightarrow>
                                   (r, row1, (case r of TxSent _ \<Rightarrow> c1\<lparr>cn_retransmitted := cn_retransmitted c1 + 1\<rparr> | _ \<Rightarrow> c1), bud'))))))"

fun send_rtx :: "'a tx_env \<Rightarrow> (u64 \<Rightarrow> cache) \<Rightarrow> u16 list \<Rightarrow> down_row \<times> 'a conn \<times> budget
    \<Rightarrow> tx_result list \<times> down_row \<times> 'a conn \<times> budget" where
  "send_rtx env caches [] s = ([], s)"
| "send_rtx env caches (q # qs) s =
     (case dr_rtx_ssrc (fst s) of
        None \<Rightarrow> ([], s)
      | Some rtx_ssrc \<Rightarrow>
          (case rtx_one env caches q rtx_ssrc s of (r, s1) \<Rightarrow>
             case send_rtx env caches qs s1 of (rs, s2) \<Rightarrow> (r # rs, s2)))"

section \<open>What goes out\<close>

definition ext_ok :: "down_row \<Rightarrow> bool" where
  "ext_ok row \<longleftrightarrow> length (dr_mid row) \<le> 16 \<and>
     list_all (\<lambda>o1. o1 \<noteq> Some 0) [et_mid (dr_ext row), et_audio_level (dr_ext row), et_abs_send_time (dr_ext row), et_twcc (dr_ext row)]"

lemma ext_items_ok:
  assumes "ext_ok row" "ei_mid inp = dr_mid row"
  shows "\<forall>e \<in> set (ext_items (dr_ext row) inp). item_ok (one_byte (dr_ext row)) e"
proof -
  have small: "i \<le> 14 \<Longrightarrow> i < 15" for i :: u8 by (simp add: word_le_nat_alt word_less_nat_alt)
  show ?thesis using assms
    by (auto simp: ext_ok_def ext_items_def item_ok_def one_byte_def be16_def be32_def split: option.splits intro: small)
qed

lemma ext_build_append: "\<exists>e. \<forall>out. ext_build t inp out = (out @ e, length e)"
  by (rule exI [of _ "fst (ext_build t inp [])"]) (simp add: ext_build_def Let_def)

lemma wire_packet_form:
  "\<exists>b e. \<forall>b1 seq ts ssrc pl. wire_packet b0 b1 seq ts ssrc t inp pl = header12 b b1 seq ts ssrc @ e @ pl"
proof -
  obtain e where e: "\<And>out. ext_build t inp out = (out @ e, length e)" using ext_build_append by blast
  show ?thesis
    by (intro exI [of _ "if e = [] then b0 else b0 OR 0x10"] exI [of _ e])
      (auto simp: wire_packet_def e list_update_append nth_append header12_fields(1,2))
qed

lemma bit_single:
  "bit (0x20 :: u8) n \<longleftrightarrow> n = 5" "bit (0x80 :: u8) n \<longleftrightarrow> n = 7" "bit (0x7f :: u8) n \<longleftrightarrow> n < 7"
proof -
  have "bit (2 ^ 5 :: u8) n \<longleftrightarrow> n = 5" "bit (2 ^ 7 :: u8) n \<longleftrightarrow> n = 7"
    by (auto simp only: bit_exp_iff possible_bit_word) simp_all
  then show "bit (0x20 :: u8) n \<longleftrightarrow> n = 5" "bit (0x80 :: u8) n \<longleftrightarrow> n = 7" by simp_all
  have "(0x7f :: u8) = mask 7" by (simp add: mask_eq_exp_minus_1)
  then show "bit (0x7f :: u8) n \<longleftrightarrow> n < 7" by (simp only: bit_mask_iff possible_bit_word) auto
qed

lemma and_bit: "k < 8 \<Longrightarrow> (\<And>n. bit m n \<longleftrightarrow> n = k) \<Longrightarrow> b AND m = (if bit b k then m else (0 :: u8))"
  by (rule bit_word_eqI) (auto simp: bit_and_iff)

lemma padding_byte: "0x80 OR (b AND 0x20) = (if bit b 5 then 0xa0 else (0x80 :: u8))"
  using and_bit [of 5 "0x20" b] bit_single(1) by simp

lemma pt_byte1_bits: "pt_byte1 a b AND 0x7f = b AND 0x7f" "(pt_byte1 a b AND 0x80 \<noteq> 0) = bit a 7"
proof -
  show "pt_byte1 a b AND 0x7f = b AND 0x7f"
    unfolding pt_byte1_def by (rule bit_word_eqI) (unfold bit_and_iff bit_or_iff bit_single, auto)
  have "pt_byte1 a b AND 0x80 = a AND 0x80"
    unfolding pt_byte1_def by (rule bit_word_eqI) (unfold bit_and_iff bit_or_iff bit_single, auto)
  also have "\<dots> = (if bit a 7 then 0x80 else 0)" by (rule and_bit) (simp, rule bit_single(2))
  finally show "(pt_byte1 a b AND 0x80 \<noteq> 0) = bit a 7" by simp
qed

lemma tx_wire_sent: "tx_wire env path out twcc probe c = (TxSent out', n, c') \<Longrightarrow> out' = out"
  by (auto simp: tx_wire_def split: option.splits if_splits)

text \<open>The rewriter's answer for a packet, and the packet as it leaves.\<close>

definition row_mapped :: "'a tx_env \<Rightarrow> pkt \<Rightarrow> down_row \<Rightarrow> mapped \<times> rewriter" where
  "row_mapped env p row = rw_map (pk_src_key p) (pk_seq p) (pk_ts p) (tx_now_ms env) (pk_covers p) (dr_rw row)"

definition row_input :: "'a tx_env \<Rightarrow> u8 option \<Rightarrow> down_row \<Rightarrow> 'a conn \<Rightarrow> ext_input" where
  "row_input env level row c = \<lparr>ei_mid = dr_mid row, ei_audio_level = level, ei_t_us = tx_us env, ei_twcc_seq = Some (cn_twcc_seq c)\<rparr>"

text \<open>The fields of a row that no send changes.\<close>

definition row_frame :: "down_row \<Rightarrow> _" where
  "row_frame r = (dr_user r, dr_mid r, dr_kind r, dr_ssrc r, dr_rtx_ssrc r, dr_pt r, dr_rtx_pt r, dr_ext r)"

lemma send_down_sent:
  assumes "send_down env p row c = (TxSent out, row', c')"
  shows "out = wire_packet (0x80 OR (pk_data p ! 0 AND 0x20)) (pt_byte1 (pk_data p ! 1) (dr_pt row))
      (m_seq (fst (row_mapped env p row))) (m_ts (fst (row_mapped env p row))) (dr_ssrc row) (dr_ext row)
      (row_input env (pk_audio_level p) row c) (drop (pk_hlen p) (pk_data p))"
    and "dr_rw row' = snd (row_mapped env p row)"
proof -
  obtain m rw' where m: "row_mapped env p row = (m, rw')" by (cases "row_mapped env p row")
  note m' = m [unfolded row_mapped_def]
  show "out = wire_packet (0x80 OR (pk_data p ! 0 AND 0x20)) (pt_byte1 (pk_data p ! 1) (dr_pt row))
      (m_seq (fst (row_mapped env p row))) (m_ts (fst (row_mapped env p row))) (dr_ssrc row) (dr_ext row)
      (row_input env (pk_audio_level p) row c) (drop (pk_hlen p) (pk_data p))"
    using assms m by (auto simp: send_down_def m' row_input_def Let_def split: if_splits option.splits prod.splits tx_result.splits
        dest: tx_wire_sent)
  show "dr_rw row' = snd (row_mapped env p row)"
    using assms m by (auto simp: send_down_def m' Let_def split: if_splits option.splits prod.splits tx_result.splits)
qed

lemma send_down_frame:
  "send_down env p row c = (r, row', c') \<Longrightarrow> row_frame row' = row_frame row"
  by (auto simp: send_down_def row_frame_def Let_def split: if_splits option.splits prod.splits tx_result.splits)

lemma egress_sent:
  assumes "send_down env p row c = (TxSent out, row', c')" "ext_ok row"
  shows "\<exists>r. parse_rtp out = Some r
     \<and> rtp_pt r = dr_pt row AND 0x7f \<and> rtp_marker r = bit (pk_data p ! 1) 7 \<and> rtp_ssrc r = dr_ssrc row
     \<and> rtp_seq r = m_seq (fst (row_mapped env p row)) \<and> rtp_ts r = m_ts (fst (row_mapped env p row))
     \<and> drop (rtp_hlen r) out = drop (pk_hlen p) (pk_data p)
     \<and> (\<forall>eid. eid \<noteq> 0 \<longrightarrow> ext_get (rtp_ext r) eid = map_of (ext_items (dr_ext row) (row_input env (pk_audio_level p) row c)) eid)"
proof -
  have "dr_mid row = ei_mid (row_input env (pk_audio_level p) row c)" by (simp add: row_input_def)
  note ok = ext_items_ok [OF assms(2) this [symmetric]]
  have b0: "0x80 OR (pk_data p ! 0 AND 0x20) = 0x80 \<or> 0x80 OR (pk_data p ! 0 AND 0x20) = (0xa0 :: u8)"
    by (simp add: padding_byte)
  note out = send_down_sent(1) [OF assms(1)]
  from wire_packet_parse [OF b0 ok, where ?b1.0 = "pt_byte1 (pk_data p ! 1) (dr_pt row)"] obtain r where
    "parse_rtp out = Some r" "rtp_pt r = pt_byte1 (pk_data p ! 1) (dr_pt row) AND 0x7f"
    "rtp_marker r = (pt_byte1 (pk_data p ! 1) (dr_pt row) AND 0x80 \<noteq> 0)" "rtp_ssrc r = dr_ssrc row"
    "rtp_seq r = m_seq (fst (row_mapped env p row))" "rtp_ts r = m_ts (fst (row_mapped env p row))"
    "rtp_raw r = out" "drop (rtp_hlen r) (rtp_raw r) = drop (pk_hlen p) (pk_data p)"
    "\<forall>eid. eid \<noteq> 0 \<longrightarrow> ext_get (rtp_ext r) eid = map_of (ext_items (dr_ext row) (row_input env (pk_audio_level p) row c)) eid"
    unfolding out by blast
  then show ?thesis unfolding pt_byte1_bits by (intro exI [of _ r]) simp
qed

text \<open>
  A row forwards the packet and nothing else (C29): what goes out has the row's payload type and source number, the
  rewriter's number and timestamp, the marker, the padding bit and the payload of the packet, and exactly the
  extensions of the subscriber's own table; none of the sender's extensions passes.
\<close>

theorem egress_packet_exact:
  assumes "send_down env p row c = (TxSent out, row', c')" "ext_ok row"
  shows "\<exists>r. parse_rtp out = Some r
     \<and> rtp_pt r = dr_pt row AND 0x7f \<and> rtp_marker r = bit (pk_data p ! 1) 7 \<and> rtp_ssrc r = dr_ssrc row
     \<and> rtp_seq r = m_seq (fst (row_mapped env p row)) \<and> rtp_ts r = m_ts (fst (row_mapped env p row))
     \<and> drop (rtp_hlen r) out = drop (pk_hlen p) (pk_data p)
     \<and> (\<forall>eid. eid \<noteq> 0 \<longrightarrow> ext_get (rtp_ext r) eid = map_of (ext_items (dr_ext row) (row_input env (pk_audio_level p) row c)) eid)"
  by (rule egress_sent [OF assms])

end
