(* ===== verification/Egress_Rtx.thy ===== *)
theory Egress_Rtx
  imports Egress
begin

text \<open>
  Retransmission end to end: the packet a subscriber asks for again is the packet it was sent
  (\<open>oxsfud/src/fwd/mod.rs\<close>, \<open>rtcp/mod.rs\<close>, \<open>pub/mod.rs\<close> together).
\<close>







lemma rtx_one_sent:
  assumes "rtx_one env caches q rtx_ssrc (row, c, bud) = (TxSent out, s')"
  obtains src_seq t orig rtp where "unmap_nack (dr_rw row) q = Some src_seq" "dr_src_track row = Some t"
    "cache_get src_seq (caches t) = Some orig" "parse_rtp orig = Some rtp"
    "out = wire_packet 0x80 (if rtp_marker rtp then 0x80 OR (dr_rtx_pt row AND 0x7f) else dr_rtx_pt row AND 0x7f) (dr_rtx_seq row)
       (rtp_ts rtp + ts_off (dr_rw row)) rtx_ssrc (dr_ext row) (row_input env None row c) (be16 q @ drop (rtp_hlen rtp) orig)"
  using assms
  by (auto simp: rtx_one_def send_built_def row_input_def Let_def
      split: if_splits option.splits prod.splits tx_result.splits dest!: tx_wire_sent)



lemma marker_byte: "(if m then 0x80 OR (pt AND 0x7f) else pt AND 0x7f) = pt_byte1 (if m then 0x80 else 0) pt"
  by (simp add: pt_byte1_def)





lemma wire_read:
  assumes "\<forall>e \<in> set (ext_items t inp). item_ok (one_byte t) e"
  obtains r where "parse_rtp (wire_packet 0x80 (pt_byte1 a pt) seq ts ssrc t inp pl) = Some r" "rtp_pt r = pt AND 0x7f"
    "rtp_marker r = bit a 7" "rtp_seq r = seq" "rtp_ts r = ts" "rtp_ssrc r = ssrc"
    "drop (rtp_hlen r) (wire_packet 0x80 (pt_byte1 a pt) seq ts ssrc t inp pl) = pl"
proof -
  from wire_packet_parse [OF disjI1 [OF refl] assms, of "pt_byte1 a pt" seq ts ssrc pl] obtain r where
    r: "parse_rtp (wire_packet 0x80 (pt_byte1 a pt) seq ts ssrc t inp pl) = Some r" "rtp_pt r = pt_byte1 a pt AND 0x7f"
      "rtp_marker r = (pt_byte1 a pt AND 0x80 \<noteq> 0)" "rtp_seq r = seq" "rtp_ts r = ts" "rtp_ssrc r = ssrc"
      "rtp_raw r = wire_packet 0x80 (pt_byte1 a pt) seq ts ssrc t inp pl" "drop (rtp_hlen r) (rtp_raw r) = pl" by blast
  show thesis by (rule that [OF r(1)]) (use r in \<open>simp_all only: pt_byte1_bits\<close>)
qed




definition demo_tx :: "nat tx_env" where
  "demo_tx = \<lparr>tx_now_ms = 5000, tx_us = 1000000, tx_tcp_open = (\<lambda>_. True), tx_encrypt = Some, tx_send = (\<lambda>_ _. True)\<rparr>"

definition demo_orig :: "u8 list" where
  "demo_orig = [0x80, 0xE0, 0, 10, 0, 0, 0, 100, 1, 2, 3, 4, 0x10, 0, 7]"

definition demo_pkt :: pkt where
  "demo_pkt = \<lparr>pk_data = demo_orig, pk_hlen = 12, pk_seq = 10, pk_ts = 100, pk_audio_level = None, pk_src_key = 3, pk_covers = 1,
     pk_keyframe = True, pk_track = Some 3\<rparr>"

definition demo_row :: down_row where
  "demo_row = (row_create ''sub'' (as_bytes ''0'') KVideo False 555 (Some 556) 40)\<lparr>dr_pt := 96, dr_rtx_pt := 97,
     dr_ext := \<lparr>et_mid = Some 1, et_audio_level = None, et_abs_send_time = Some 5, et_twcc = Some 6\<rparr>\<rparr>"

definition demo_conn :: "nat conn" where
  "demo_conn = \<lparr>cn_link = (transport_new ''sub'' 0 \<lparr>c_ufrag = ''u'', c_pwd = ''p''\<rparr> 0)\<lparr>t_ready := True, t_path := Some (PTcp 1)\<rparr>,
     cn_twcc_seq = 0, cn_sent = [], cn_packets = 0, cn_bytes = 0, cn_retransmitted = 0\<rparr>"


lemma demo_ext_ok: "ext_ok demo_row"
  by code_simp

lemmas demo_defs = demo_tx_def demo_pkt_def demo_row_def demo_conn_def row_create_def transport_new_def rewriter_new_def

lemma demo_sent:
  "\<exists>out row' c'. send_down demo_tx demo_pkt demo_row demo_conn = (TxSent out, row', c') \<and> boundary (dr_rw row') = Some 10
     \<and> seq_off (dr_rw row') = 0 \<and> dr_src_track row' = Some 3 \<and> \<not> dr_rtx_gate row' \<and> cn_link c' = cn_link demo_conn"
  by (simp add: send_down_def demo_defs send_ok_def path_alive_def rw_map_def rw_switch_def tx_wire_def sent_twcc_def Let_def)

lemma demo_mapped: "m_seq (fst (row_mapped demo_tx demo_pkt demo_row)) = 10" "m_ts (fst (row_mapped demo_tx demo_pkt demo_row)) = 100"
  by (simp_all add: row_mapped_def demo_defs rw_map_def rw_switch_def Let_def)

theorem egress_packet_exact_witness:
  "\<exists>out row' c' r. send_down demo_tx demo_pkt demo_row demo_conn = (TxSent out, row', c') \<and> parse_rtp out = Some r \<and> rtp_pt r = 96
     \<and> rtp_seq r = 10 \<and> drop (rtp_hlen r) out = [0x10, 0, 7] \<and> ext_get (rtp_ext r) 1 = Some (as_bytes ''0'')"
proof -
  obtain out row' c' where s: "send_down demo_tx demo_pkt demo_row demo_conn = (TxSent out, row', c')" using demo_sent by blast
  have d: "dr_pt demo_row AND 0x7f = 96" "drop (pk_hlen demo_pkt) (pk_data demo_pkt) = [0x10, 0, 7]"
    "map_of (ext_items (dr_ext demo_row) (row_input demo_tx (pk_audio_level demo_pkt) demo_row demo_conn)) 1 = Some (as_bytes ''0'')"
    by (simp_all add: demo_defs demo_orig_def ext_items_def row_input_def as_bytes_def)
  have "(1 :: u8) \<noteq> 0" by simp
  with egress_packet_exact [OF s demo_ext_ok] s demo_mapped(1) d show ?thesis by fastforce
qed


section \<open>Padding is lost\<close>

lemma wire_packet_padding: "bit (wire_packet b0 b1 seq ts ssrc t inp pl ! 0) 5 = bit b0 5"
proof -
  have "bit (b0 OR 0x10) 5 = bit b0 5" for b0 :: u8 by (simp add: bit_or_iff)
  moreover have "header12 x b1 seq ts ssrc \<noteq> []" for x by (simp add: header12_def)
  moreover obtain e where "\<And>out. ext_build t inp out = (out @ e, length e)" using ext_build_append by blast
  ultimately show ?thesis
    by (auto simp: wire_packet_def list_update_append nth_append header12_fields(1, 2))
qed

definition demo_padded :: pkt where
  "demo_padded = demo_pkt\<lparr>pk_data := [0xa0, 0xE0, 0, 10, 0, 0, 0, 100, 1, 2, 3, 4, 0x10, 0, 7, 0, 0, 3]\<rparr>"

lemma demo_padded_sent:
  "\<exists>out row' c'. send_down demo_tx demo_padded demo_row demo_conn = (TxSent out, row', c') \<and> boundary (dr_rw row') = Some 10
     \<and> seq_off (dr_rw row') = 0 \<and> dr_src_track row' = Some 3 \<and> \<not> dr_rtx_gate row' \<and> cn_link c' = cn_link demo_conn"
  by (simp add: demo_padded_def send_down_def demo_defs send_ok_def path_alive_def rw_map_def rw_switch_def tx_wire_def sent_twcc_def Let_def)

text \<open>
  The retransmission of a padded packet is not the packet: the row passes the padding bit on, the retransmission clears it
  but still carries the padding, so the receiver takes the padding for media. Here the three padding bytes of a
  six-byte payload.
\<close>

theorem rtx_loses_padding:
  "\<exists>out1 row1 c1 out2 s'. send_down demo_tx demo_padded demo_row demo_conn = (TxSent out1, row1, c1)
     \<and> rtx_one demo_tx (\<lambda>_. cache_put 10 (pk_data demo_padded) []) 10 556 (row1, c1, Map.empty) = (TxSent out2, s')
     \<and> bit (out1 ! 0) 5 \<and> \<not> bit (out2 ! 0) 5
     \<and> (\<exists>r2. parse_rtp out2 = Some r2 \<and> drop (rtp_hlen r2) out2 = [0, 10, 0x10, 0, 7, 0, 0, 3])"
proof -
  let ?orig = "pk_data demo_padded" and ?cs = "\<lambda>_ :: u64. cache_put 10 (pk_data demo_padded) []"
  obtain rtp where rtp: "parse_rtp ?orig = Some rtp" "rtp_hlen rtp = 12"
    by (simp add: demo_padded_def demo_pkt_def parse_rtp_def rtp_fields_def)
  obtain out1 row1 c1 where s: "send_down demo_tx demo_padded demo_row demo_conn = (TxSent out1, row1, c1)"
      "boundary (dr_rw row1) = Some 10" "seq_off (dr_rw row1) = 0" "dr_src_track row1 = Some 3" "\<not> dr_rtx_gate row1"
      "cn_link c1 = cn_link demo_conn" using demo_padded_sent by blast
  have c: "cache_get 10 (?cs t) = Some ?orig" for t by (simp add: cache_get_def cache_put_def CACHE_def)
  have n: "\<not> serial_after 10 10" by (simp add: serial_after_iff)
  have un: "unmap_nack (dr_rw row1) 10 = Some 10" using s n by (simp add: unmap_nack_def)
  have "\<exists>out2 s'. rtx_one demo_tx ?cs 10 556 (row1, c1, Map.empty) = (TxSent out2, s')"
    using s un rtp(1) c by (simp add: rtx_one_def budget_ok_def RTX_BUDGET_def RTX_WINDOW_MS_def send_built_def
        demo_tx_def demo_conn_def transport_new_def send_ok_def path_alive_def tx_wire_def Let_def)
  then obtain out2 s' where again: "rtx_one demo_tx ?cs 10 556 (row1, c1, Map.empty) = (TxSent out2, s')" by blast
  have pad1: "bit (out1 ! 0) 5" unfolding send_down_sent(1) [OF s(1)] wire_packet_padding padding_byte
    by (simp add: demo_padded_def demo_pkt_def)
  obtain b1 where out2: "out2 = wire_packet 0x80 (pt_byte1 b1 (dr_rtx_pt row1)) (dr_rtx_seq row1)
       (rtp_ts rtp + ts_off (dr_rw row1)) 556 (dr_ext row1) (row_input demo_tx None row1 c1) (be16 10 @ drop 12 ?orig)"
    using rtx_one_sent [OF again] un c rtp unfolding marker_byte by (metis option.inject)
  have pad2: "\<not> bit (out2 ! 0) 5" unfolding out2 wire_packet_padding by simp
  have "row_frame row1 = row_frame demo_row" by (rule send_down_frame [OF s(1)])
  then have "ext_ok row1" using demo_ext_ok by (simp add: ext_ok_def row_frame_def)
  then have "\<forall>e \<in> set (ext_items (dr_ext row1) (row_input demo_tx None row1 c1)). item_ok (one_byte (dr_ext row1)) e"
    by (rule ext_items_ok) (simp add: row_input_def)
  then obtain r2 where r2: "parse_rtp out2 = Some r2" "drop (rtp_hlen r2) out2 = be16 10 @ drop 12 ?orig"
    unfolding out2 by (rule wire_read)
  have "be16 10 @ drop 12 ?orig = [0, 10, 0x10, 0, 7, 0, 0, 3]" by (simp add: be16_def demo_padded_def)
  with r2 have "\<exists>r2. parse_rtp out2 = Some r2 \<and> drop (rtp_hlen r2) out2 = [0, 10, 0x10, 0, 7, 0, 0, 3]" by metis
  with s(1) again pad1 pad2 show ?thesis by blast
qed

end
