(* ===== verification/Trk.thy ===== *)
theory Trk
  imports Prelude
begin

text \<open>
  Tracks and codecs (\<open>oxsfud/src/trk/mod.rs\<close>): the codecs of a room and what matches them, and the detection of
  key frames in VP8 and H264 payloads. Strings are UTF-8 bytes; cutting one inside a character ends the
  thread, which is the value \<open>Inl Panic\<close>.
\<close>

datatype panic = Panic

record media_codecs =
  mc_audio :: "string option"
  mc_video :: "string option"

section \<open>Strings\<close>

definition ascii_lower :: "char \<Rightarrow> char" where
  "ascii_lower c = (if CHR ''A'' \<le> c \<and> c \<le> CHR ''Z'' then char_of (of_char c + 32 :: nat) else c)"

definition eq_ignore_case :: "string \<Rightarrow> string \<Rightarrow> bool" where
  "eq_ignore_case a b \<longleftrightarrow> map ascii_lower a = map ascii_lower b"

text \<open>The encodings of the characters \<open>str::trim\<close> takes off (Unicode White_Space).\<close>

definition white_space :: "u8 list list" where
  "white_space = [[9], [10], [11], [12], [13], [32], [0xC2, 0x85], [0xC2, 0xA0], [0xE1, 0x9A, 0x80], [0xE2, 0x80, 0x80],
     [0xE2, 0x80, 0x81], [0xE2, 0x80, 0x82], [0xE2, 0x80, 0x83], [0xE2, 0x80, 0x84], [0xE2, 0x80, 0x85], [0xE2, 0x80, 0x86],
     [0xE2, 0x80, 0x87], [0xE2, 0x80, 0x88], [0xE2, 0x80, 0x89], [0xE2, 0x80, 0x8A], [0xE2, 0x80, 0xA8], [0xE2, 0x80, 0xA9],
     [0xE2, 0x80, 0xAF], [0xE2, 0x81, 0x9F], [0xE3, 0x80, 0x80]]"

definition starts_with :: "u8 list \<Rightarrow> u8 list \<Rightarrow> bool" where
  "starts_with s w \<longleftrightarrow> w \<noteq> [] \<and> take (length w) s = w"

definition white_at :: "u8 list list \<Rightarrow> u8 list \<Rightarrow> nat" where
  "white_at ws s = (case find (starts_with s) ws of Some w \<Rightarrow> length w | None \<Rightarrow> 0)"

function strip_start :: "u8 list list \<Rightarrow> u8 list \<Rightarrow> u8 list" where
  "strip_start ws s = (let n = white_at ws s in if n = 0 \<or> s = [] then s else strip_start ws (drop n s))"
  by pat_completeness auto
termination
  by (relation "measure (length \<circ> snd)") auto

declare strip_start.simps [simp del]

definition str_trim :: "string \<Rightarrow> string" where
  "str_trim s = of_bytes (rev (strip_start (map rev white_space) (rev (strip_start white_space (as_bytes s)))))"

fun split_semi :: "string \<Rightarrow> string list" where
  "split_semi [] = [[]]"
| "split_semi (c # s) =
     (if c = CHR '';'' then [] # split_semi s
      else (case split_semi s of [] \<Rightarrow> [[c]] | x # xs \<Rightarrow> (c # x) # xs))"

definition split_eq :: "string \<Rightarrow> (string \<times> string) option" where
  "split_eq s = (if CHR ''='' \<in> set s then Some (takeWhile (\<lambda>x. x \<noteq> CHR ''='') s, drop 1 (dropWhile (\<lambda>x. x \<noteq> CHR ''='') s)) else None)"

section \<open>Codecs\<close>

definition SUPPORTED_VIDEO :: "string list" where "SUPPORTED_VIDEO = [''VP8'', ''H264'']"
definition DEFAULT_AUDIO :: string where "DEFAULT_AUDIO = ''opus''"
definition DEFAULT_VIDEO :: string where "DEFAULT_VIDEO = ''H264''"
definition ROOM_H264_PROFILE :: string where "ROOM_H264_PROFILE = ''42e0''"
definition FMTP_H264 :: string where
  "FMTP_H264 = ''level-asymmetry-allowed=1;packetization-mode=1;profile-level-id=42e01f''"
definition FMTP_OPUS :: string where "FMTP_OPUS = ''minptime=10;useinbandfec=1''"

definition canonical_video :: "string \<Rightarrow> string option" where
  "canonical_video name = find (\<lambda>c. eq_ignore_case c name) SUPPORTED_VIDEO"

definition row_fmtp :: "string \<Rightarrow> string option" where
  "row_fmtp codec =
     (if eq_ignore_case codec ''H264'' then Some FMTP_H264
      else if eq_ignore_case codec ''opus'' then Some FMTP_OPUS else None)"

fun find_param :: "string \<Rightarrow> string list \<Rightarrow> string option" where
  "find_param key [] = None"
| "find_param key (kv # kvs) =
     (case split_eq (str_trim kv) of
        None \<Rightarrow> find_param key kvs
      | Some (k, v) \<Rightarrow> if eq_ignore_case (str_trim k) key then Some (str_trim v) else find_param key kvs)"

definition fmtp_param :: "string option \<Rightarrow> string \<Rightarrow> string option" where
  "fmtp_param fmtp key = (case fmtp of None \<Rightarrow> None | Some f \<Rightarrow> find_param key (split_semi f))"

text \<open>\<open>p[..4]\<close> ends the thread when the fourth byte is not the end of a character.\<close>

definition char_boundary :: "string \<Rightarrow> nat \<Rightarrow> bool" where
  "char_boundary s n \<longleftrightarrow> n = 0 \<or> n = length s \<or> n < length s \<and> \<not> utf8_cont (as_bytes s ! n)"

definition h264_profile :: "string option \<Rightarrow> panic + string option" where
  "h264_profile fmtp =
     (case fmtp_param fmtp ''profile-level-id'' of
        None \<Rightarrow> Inr None
      | Some p \<Rightarrow>
          if length p < 4 then Inr None
          else if \<not> char_boundary p 4 then Inl Panic
          else Inr (Some (map ascii_lower (take 4 p))))"

definition resolve_room_codecs :: "media_codecs option \<Rightarrow> media_codecs option" where
  "resolve_room_codecs req =
     (let audio = (case Option.bind req mc_audio of
            None \<Rightarrow> Some DEFAULT_AUDIO
          | Some a \<Rightarrow> if eq_ignore_case a ''opus'' then Some DEFAULT_AUDIO else None)
      in case audio of
           None \<Rightarrow> None
         | Some a \<Rightarrow>
             (case (case Option.bind req mc_video of None \<Rightarrow> Some DEFAULT_VIDEO | Some v \<Rightarrow> canonical_video v) of
                None \<Rightarrow> None
              | Some v \<Rightarrow> Some \<lparr>mc_audio = Some a, mc_video = Some v\<rparr>))"

definition room_video :: "media_codecs \<Rightarrow> string" where
  "room_video m = (case mc_video m of Some v \<Rightarrow> v | None \<Rightarrow> DEFAULT_VIDEO)"

definition matches_room :: "media_kind \<Rightarrow> string option \<Rightarrow> string option \<Rightarrow> media_codecs \<Rightarrow> panic + bool" where
  "matches_room k codec fmtp room =
     (case k of
        KAudio \<Rightarrow> Inr (case codec of Some c \<Rightarrow> eq_ignore_case c ''opus'' | None \<Rightarrow> True)
      | KVideo \<Rightarrow>
          (case Option.bind codec canonical_video of
             None \<Rightarrow> Inr False
           | Some c \<Rightarrow>
               if \<not> eq_ignore_case c (room_video room) then Inr False
               else if c = ''H264'' then
                 (let pm = (case fmtp_param fmtp ''packetization-mode'' of Some v \<Rightarrow> v | None \<Rightarrow> ''0'')
                  in if pm \<noteq> ''1'' then Inr False
                     else case h264_profile fmtp of Inl e \<Rightarrow> Inl e | Inr p \<Rightarrow> Inr (p = Some ROOM_H264_PROFILE))
               else Inr True))"

section \<open>Key frames\<close>

definition vp8_key :: "u8 list \<Rightarrow> bool" where
  "vp8_key p =
     (case p of
        [] \<Rightarrow> False
      | b0 # _ \<Rightarrow>
          if b0 AND 0x10 = 0 \<or> b0 AND 0x07 \<noteq> 0 then False
          else if b0 AND 0x80 = 0 then 1 < length p \<and> p ! 1 AND 1 = 0
          else if length p \<le> 1 then False
          else
            (let x = p ! 1 in
             if x AND 0x80 \<noteq> 0 \<and> length p \<le> 2 then False
             else
               (let i = 2 + (if x AND 0x80 \<noteq> 0 then (if p ! 2 AND 0x80 \<noteq> 0 then 2 else 1) else 0);
                    i = (if x AND 0x40 \<noteq> 0 then i + 1 else i);
                    i = (if x AND 0x30 \<noteq> 0 then i + 1 else i)
                in i < length p \<and> p ! i AND 1 = 0)))"

definition h264_nal_key :: "u8 \<Rightarrow> bool" where
  "h264_nal_key t \<longleftrightarrow> t = 5 \<or> t = 7"

function stap_key :: "u8 list \<Rightarrow> bool" where
  "stap_key p =
     (case p of
        a # b # h # r \<Rightarrow> h264_nal_key (h AND 0x1f) \<or> stap_key (drop (unat (of_be16 a b)) (h # r))
      | _ \<Rightarrow> False)"
  by pat_completeness auto
termination
  by (relation "measure length") auto

declare stap_key.simps [simp del]

definition h264_key :: "u8 list \<Rightarrow> bool" where
  "h264_key p =
     (case p of
        [] \<Rightarrow> False
      | b0 # r \<Rightarrow>
          (let t = b0 AND 0x1f in
           if t = 24 then stap_key r
           else if t = 28 then (case r of [] \<Rightarrow> False | h # _ \<Rightarrow> h AND 0x80 \<noteq> 0 \<and> h264_nal_key (h AND 0x1f))
           else h264_nal_key t))"

definition is_keyframe :: "string \<Rightarrow> u8 list \<Rightarrow> bool" where
  "is_keyframe codec p =
     (if eq_ignore_case codec ''VP8'' then vp8_key p
      else if eq_ignore_case codec ''H264'' then h264_key p else False)"

end
