(* ===== verification/Trk_Props.thy ===== *)
theory Trk_Props
  imports Trk
begin

text \<open>
  Key frames are recognised exactly, a room accepts the codecs it announces, and an input that ends the thread.
\<close>

section \<open>Detection is exact\<close>

text \<open>
  The packets of H264: a unit alone, units aggregated with their lengths, and a fragment of a unit. The first byte
  of a unit has its type in the lower five bits; a fragment carries the type of its unit in a second byte,
  with a bit for the first and one for the last fragment.
\<close>

record nal =
  nal_hi :: u8
  nal_type :: u8
  nal_body :: "u8 list"

datatype h264_packet = HSingle nal | HStap u8 "nal list" | HFu u8 bool bool u8 "u8 list"

definition nal_byte :: "u8 \<Rightarrow> u8 \<Rightarrow> u8" where
  "nal_byte hi t = (hi AND 0xe0) OR t"

definition nal_bytes :: "nal \<Rightarrow> u8 list" where
  "nal_bytes n = nal_byte (nal_hi n) (nal_type n) # nal_body n"

definition stap_packet :: "u8 \<Rightarrow> u8 list list \<Rightarrow> u8 list" where
  "stap_packet hi nals = nal_byte hi 24 # concat (map (\<lambda>n. be16 (of_nat (length n)) @ n) nals)"

definition h264_bytes :: "h264_packet \<Rightarrow> u8 list" where
  "h264_bytes p =
     (case p of
        HSingle n \<Rightarrow> nal_bytes n
      | HStap hi ns \<Rightarrow> stap_packet hi (map nal_bytes ns)
      | HFu hi s e t body \<Rightarrow> [nal_byte hi 28, (if s then 0x80 else 0) OR (if e then 0x40 else 0) OR t] @ body)"

definition nal_ok :: "nal \<Rightarrow> bool" where
  "nal_ok n \<longleftrightarrow> 1 \<le> nal_type n \<and> nal_type n \<le> 23 \<and> length (nal_body n) + 1 < 65536"

definition h264_ok :: "h264_packet \<Rightarrow> bool" where
  "h264_ok p = (case p of HSingle n \<Rightarrow> nal_ok n | HStap _ ns \<Rightarrow> list_all nal_ok ns | HFu _ _ _ t _ \<Rightarrow> 1 \<le> t \<and> t \<le> 23)"

text \<open>A key frame begins with an IDR slice (5) or with the parameter set before it (7).\<close>

definition begins_key :: "h264_packet \<Rightarrow> bool" where
  "begins_key p =
     (case p of
        HSingle n \<Rightarrow> nal_type n = 5 \<or> nal_type n = 7
      | HStap _ ns \<Rightarrow> list_ex (\<lambda>n. nal_type n = 5 \<or> nal_type n = 7) ns
      | HFu _ first _ t _ \<Rightarrow> first \<and> (t = 5 \<or> t = 7))"

lemma five_bits: "(t :: u8) \<le> 31 \<Longrightarrow> t AND 0x1f = t"
proof -
  assume "t \<le> 31"
  then have "unat t < 2 ^ 5" by (simp add: word_le_nat_alt)
  then have "take_bit 5 (unat t) = unat t" by (simp add: take_bit_nat_eq_self)
  then have "take_bit 5 t = t" by (simp only: word_unat_eq_iff unsigned_take_bit_eq)
  then show ?thesis by (simp add: take_bit_eq_mask mask_eq_exp_minus_1)
qed

lemma nal_byte_type: "t \<le> 31 \<Longrightarrow> nal_byte hi t AND 0x1f = t"
  unfolding nal_byte_def by (subst (2) five_bits [symmetric]) (simp_all add: bit.conj_disj_distrib2 and.assoc five_bits)

lemma fu_byte:
  assumes "(t :: u8) \<le> 31"
  shows "((if s then 0x80 else 0) OR (if e then 0x40 else 0) OR t) AND 0x1f = t"
    "(((if s then 0x80 else 0) OR (if e then 0x40 else 0) OR t) AND 0x80 = 0) = (\<not> s)"
proof -
  have "t AND 0x80 = t AND (0x1f AND 0x80)" by (simp only: and.assoc [symmetric] five_bits [OF assms])
  also have "\<dots> = 0" by simp
  finally show "(((if s then 0x80 else 0) OR (if e then 0x40 else 0) OR t) AND 0x80 = 0) = (\<not> s)"
    by (cases s; cases e) (simp_all add: bit.conj_disj_distrib2)
  show "((if s then 0x80 else 0) OR (if e then 0x40 else 0) OR t) AND 0x1f = t"
    by (cases s; cases e) (simp_all add: bit.conj_disj_distrib2 five_bits [OF assms])
qed

lemma stap_key_units:
  "list_all (\<lambda>n. n \<noteq> [] \<and> length n < 65536) nals \<Longrightarrow>
     stap_key (concat (map (\<lambda>n. be16 (of_nat (length n)) @ n) nals)) \<longleftrightarrow> (\<exists>n \<in> set nals. h264_nal_key (hd n AND 0x1f))"
proof (induction nals)
  case Nil
  then show ?case by (simp add: stap_key.simps)
next
  case (Cons n nals)
  then obtain h r where n: "n = h # r" by (cases n) auto
  have len: "unat (of_nat (length n) :: u16) = length n" using Cons.prems by (intro unat_u16_of_nat) simp
  obtain a b where ab: "be16 (of_nat (length n)) = [a, b]" by (simp add: be16_def)
  have "of_be16 a b = of_nat (length n)" using ab of_be16_be16 [of "of_nat (length n)"] by (auto simp: be16_def)
  with len have "drop (unat (of_be16 a b)) (h # r @ x) = x" for x by (simp add: n)
  with Cons ab show ?case by (subst stap_key.simps) (simp add: n)
qed

text \<open>The payload descriptor of VP8: picture number of one or two bytes, the optional fields, start of partition and its number.\<close>

record vp8_desc =
  v_start :: bool
  v_part :: u8
  v_ext :: "(u8 list option \<times> u8 option \<times> bool \<times> bool \<times> u8) option"

definition vp8_bytes :: "vp8_desc \<Rightarrow> u8 list" where
  "vp8_bytes d =
     (let b0 = (if v_start d then 0x10 else 0) OR (v_part d AND 7) in
      case v_ext d of
        None \<Rightarrow> [b0]
      | Some (pic, l, t, k, tk) \<Rightarrow>
          [0x80 OR b0, (if pic \<noteq> None then 0x80 else 0) OR (if l \<noteq> None then 0x40 else 0) OR (if t then 0x20 else 0) OR (if k then 0x10 else 0)]
          @ (case pic of None \<Rightarrow> [] | Some bs \<Rightarrow> bs) @ (case l of None \<Rightarrow> [] | Some b \<Rightarrow> [b]) @ (if t \<or> k then [tk] else []))"

definition pic_ok :: "vp8_desc \<Rightarrow> bool" where
  "pic_ok d \<longleftrightarrow> (case v_ext d of Some (Some bs, _) \<Rightarrow>
      (case bs of [b] \<Rightarrow> b AND 0x80 = 0 | [b, _] \<Rightarrow> b AND 0x80 \<noteq> 0 | _ \<Rightarrow> False) | _ \<Rightarrow> True)"

lemma vp8_first:
  assumes "b0 = (if s then 0x10 else 0) OR (part AND 7 :: u8)"
  shows "(b0 AND 0x10 = 0) = (\<not> s)" "b0 AND 7 = part AND 7" "b0 AND 0x80 = 0"
    "((0x80 OR b0) AND 0x10 = 0) = (\<not> s)" "(0x80 OR b0) AND 7 = part AND 7" "(0x80 OR b0) AND 0x80 \<noteq> 0"
proof -
  have "(7 :: u8) = mask 3" by (simp add: mask_eq_exp_minus_1)
  then have seven: "part AND 7 = take_bit 3 part" by (simp add: take_bit_eq_mask)
  define q where "q = take_bit 3 part"
  have "unat (take_bit 3 part) < 8" by (simp only: unsigned_take_bit_eq) (simp add: take_bit_eq_mod)
  then have "unat q = 0 \<or> unat q = 1 \<or> unat q = 2 \<or> unat q = 3 \<or> unat q = 4 \<or> unat q = 5 \<or> unat q = 6 \<or> unat q = 7"
    unfolding q_def by linarith
  then have "q = 0 \<or> q = 1 \<or> q = 2 \<or> q = 3 \<or> q = 4 \<or> q = 5 \<or> q = 6 \<or> q = 7"
    by (simp only: word_unat_eq_iff) simp
  then show "(b0 AND 0x10 = 0) = (\<not> s)" "b0 AND 7 = part AND 7" "b0 AND 0x80 = 0"
    "((0x80 OR b0) AND 0x10 = 0) = (\<not> s)" "(0x80 OR b0) AND 7 = part AND 7" "(0x80 OR b0) AND 0x80 \<noteq> 0"
    unfolding assms seven q_def [symmetric] by (cases s; auto)+
qed

lemma vp8_second:
  fixes x :: u8
  assumes "x = (if i then 0x80 else 0) OR (if l then 0x40 else 0) OR (if t then 0x20 else 0) OR (if k then 0x10 else 0)"
  shows "(x AND 0x80 = 0) = (\<not> i)" "(x AND 0x40 = 0) = (\<not> l)" "(x AND 0x30 = 0) = (\<not> t \<and> \<not> k)"
  using assms by (cases i; cases l; cases t; cases k; simp)+

lemma h264_key_exact:
  assumes "h264_ok p"
  shows "h264_key (h264_bytes p) \<longleftrightarrow> begins_key p"
proof (cases p)
  case (HSingle n)
  then have t: "nal_type n \<le> 23" using assms by (simp add: h264_ok_def nal_ok_def)
  then have "nal_byte (nal_hi n) (nal_type n) AND 0x1f = nal_type n" by (intro nal_byte_type) (simp add: word_le_nat_alt)
  moreover have "nal_type n \<noteq> 24" "nal_type n \<noteq> 28" using t by auto
  ultimately show ?thesis
    by (simp add: HSingle h264_bytes_def nal_bytes_def h264_key_def h264_nal_key_def begins_key_def Let_def)
next
  case (HStap hi ns)
  have ok: "\<forall>n \<in> set ns. nal_ok n" using assms by (simp add: HStap h264_ok_def list_all_iff)
  have "nal_byte hi 24 AND 0x1f = 24" by (rule nal_byte_type) simp
  moreover have "list_all (\<lambda>n. n \<noteq> [] \<and> length n < 65536) (map nal_bytes ns)"
    using ok by (simp add: list_all_iff nal_ok_def nal_bytes_def)
  moreover have "hd (nal_bytes n) AND 0x1f = nal_type n" if "n \<in> set ns" for n
  proof -
    have "nal_type n \<le> 31" using ok that by (auto simp: nal_ok_def word_le_nat_alt)
    then show ?thesis by (simp add: nal_bytes_def nal_byte_type)
  qed
  ultimately show ?thesis
    using stap_key_units [of "map nal_bytes ns"]
    by (simp add: HStap h264_bytes_def stap_packet_def h264_key_def begins_key_def h264_nal_key_def list_ex_iff)
next
  case (HFu hi s e t body)
  then have t: "t \<le> 31" using assms by (simp add: h264_ok_def word_le_nat_alt)
  have "nal_byte hi 28 AND 0x1f = 28" by (rule nal_byte_type) simp
  with fu_byte [OF t, of s e] show ?thesis
    by (simp add: HFu h264_bytes_def h264_key_def begins_key_def h264_nal_key_def)
qed

text \<open>
  Key frames are recognised exactly (C34): a VP8 packet with any descriptor is taken for one if and only if it begins the first
  partition and the frame header says so; an H264 packet if and only if it is a unit alone that is an IDR slice or
  a sequence parameter set, aggregates one, or is the first fragment of one.
\<close>

theorem keyframe_exact:
  assumes "pic_ok d" "frame \<noteq> []" "h264_ok p"
  shows "(is_keyframe ''VP8'' (vp8_bytes d @ frame) \<longleftrightarrow> v_start d \<and> v_part d AND 7 = 0 \<and> hd frame AND 1 = 0)
       \<and> (is_keyframe ''H264'' (h264_bytes p) \<longleftrightarrow> begins_key p)"
proof
  obtain f fs where frame: "frame = f # fs" using assms(2) by (cases frame) auto
  have vp8: "is_keyframe ''VP8'' p = vp8_key p" "is_keyframe ''H264'' p = h264_key p" for p
    by (simp_all add: is_keyframe_def eq_ignore_case_def ascii_lower_def)
  show "is_keyframe ''H264'' (h264_bytes p) \<longleftrightarrow> begins_key p" by (simp add: vp8 h264_key_exact [OF assms(3)])
  define b0 where "b0 = (if v_start d then 0x10 else 0) OR (v_part d AND 7)"
  note b = vp8_first [OF b0_def]
  show "is_keyframe ''VP8'' (vp8_bytes d @ frame) \<longleftrightarrow> v_start d \<and> v_part d AND 7 = 0 \<and> hd frame AND 1 = 0"
  proof (cases "v_ext d")
    case None
    then show ?thesis using b(1-3) by (auto simp: vp8 vp8_key_def vp8_bytes_def frame Let_def simp flip: b0_def)
  next
    case (Some e)
    obtain pic l t k tk where e: "e = (pic, l, t, k, tk)" by (cases e)
    define x :: u8 where "x = (if pic \<noteq> None then 0x80 else 0) OR (if l \<noteq> None then 0x40 else 0) OR (if t then 0x20 else 0) OR (if k then 0x10 else 0)"
    note x = vp8_second [OF x_def]
    have bytes: "vp8_bytes d = [0x80 OR b0, x] @ (case pic of None \<Rightarrow> [] | Some bs \<Rightarrow> bs) @ (case l of None \<Rightarrow> [] | Some b \<Rightarrow> [b]) @ (if t \<or> k then [tk] else [])"
      by (simp add: vp8_bytes_def Some e Let_def x_def b0_def)
    consider "pic = None" | b1 where "pic = Some [b1]" "b1 AND 0x80 = 0" | b1 b2 where "pic = Some [b1, b2]" "b1 AND 0x80 \<noteq> 0"
      using assms(1) by (auto simp: pic_ok_def Some e split: option.splits list.splits)
    then have "vp8_key (vp8_bytes d @ frame) = (v_start d \<and> v_part d AND 7 = 0 \<and> f AND 1 = 0)"
    proof cases
      case 1
      then show ?thesis unfolding bytes vp8_key_def using b(4-6) x
        by (cases l; cases "t \<or> k") (simp add: frame Let_def; blast)+
    next
      case 2
      then show ?thesis unfolding bytes vp8_key_def using b(4-6) x
        by (cases l; cases "t \<or> k") (simp add: frame Let_def; blast)+
    next
      case 3
      then show ?thesis unfolding bytes vp8_key_def using b(4-6) x
        by (cases l; cases "t \<or> k") (simp add: frame Let_def; blast)+
    qed
    then show ?thesis by (simp add: vp8 frame)
  qed
qed

theorem keyframe_exact_witness:
  "let d = \<lparr>v_start = True, v_part = 0, v_ext = Some (Some [0x81, 2], Some 7, True, False, 0)\<rparr>;
       slice = \<lparr>nal_hi = 0x40, nal_type = 1, nal_body = [0]\<rparr>; sps = \<lparr>nal_hi = 0x60, nal_type = 7, nal_body = [0x42]\<rparr>
   in is_keyframe ''VP8'' (vp8_bytes d @ [0x10, 1]) \<and> \<not> is_keyframe ''VP8'' (vp8_bytes d @ [0x11, 1])
    \<and> is_keyframe ''H264'' (h264_bytes (HSingle sps)) \<and> \<not> is_keyframe ''H264'' (h264_bytes (HSingle slice))
    \<and> is_keyframe ''H264'' (h264_bytes (HStap 0x60 [slice, sps])) \<and> \<not> is_keyframe ''H264'' (h264_bytes (HStap 0x60 [slice]))
    \<and> is_keyframe ''H264'' (h264_bytes (HFu 0x60 True False 5 [9])) \<and> \<not> is_keyframe ''H264'' (h264_bytes (HFu 0x60 False True 5 [9]))"
proof -
  let ?d = "\<lparr>v_start = True, v_part = 0, v_ext = Some (Some [0x81, 2], Some 7, True, False, 0)\<rparr>"
  have ok: "pic_ok ?d" by (simp add: pic_ok_def)
  have f: "[0x10, 1 :: u8] \<noteq> []" "[0x11, 1 :: u8] \<noteq> []" by simp_all
  let ?sl = "\<lparr>nal_hi = 0x40, nal_type = 1, nal_body = [0]\<rparr>" and ?sp = "\<lparr>nal_hi = 0x60, nal_type = 7, nal_body = [0x42]\<rparr>"
  have p: "h264_ok (HSingle ?sp)" "h264_ok (HSingle ?sl)" "h264_ok (HStap 0x60 [?sl, ?sp])" "h264_ok (HStap 0x60 [?sl])"
      "h264_ok (HFu 0x60 True False 5 [9])" "h264_ok (HFu 0x60 False True 5 [9])"
    "begins_key (HSingle ?sp)" "\<not> begins_key (HSingle ?sl)" "begins_key (HStap 0x60 [?sl, ?sp])" "\<not> begins_key (HStap 0x60 [?sl])"
      "begins_key (HFu 0x60 True False 5 [9])" "\<not> begins_key (HFu 0x60 False True 5 [9])"
    by (simp_all add: h264_ok_def nal_ok_def begins_key_def)
  note k = keyframe_exact [OF ok f(1)] keyframe_exact [OF ok f(2)]
  show ?thesis
    unfolding Let_def using k [OF p(1)] k(1) [OF p(2)] k(1) [OF p(3)] k(1) [OF p(4)] k(1) [OF p(5)] k(1) [OF p(6)] p(7-12) by simp
qed

section \<open>Codecs of a room\<close>

text \<open>
  A room accepts what it asks for: whatever codecs a room was created with, video in the room's codec with the
  parameters the server itself announces for it matches the room, and opus audio does.
\<close>

theorem room_accepts_its_own:
  assumes "resolve_room_codecs req = Some m"
  shows "matches_room KVideo (Some (room_video m)) (row_fmtp (room_video m)) m = Inr True
       \<and> matches_room KAudio (Some ''opus'') (row_fmtp ''opus'') m = Inr True"
proof -
  have supp: "canonical_video v = Some c \<Longrightarrow> c = ''VP8'' \<or> c = ''H264''" for v c
    by (auto simp: canonical_video_def SUPPORTED_VIDEO_def split: if_splits)
  have "room_video m = ''VP8'' \<or> room_video m = ''H264''"
    using assms by (auto simp: resolve_room_codecs_def room_video_def DEFAULT_VIDEO_def Let_def dest: supp split: option.splits if_splits)
  moreover have "matches_room KVideo (Some ''VP8'') (row_fmtp ''VP8'') m = Inr True" if "room_video m = ''VP8''"
    using that by (simp add: matches_room_def canonical_video_def SUPPORTED_VIDEO_def eq_ignore_case_def ascii_lower_def)
  moreover have "fmtp_param (row_fmtp ''H264'') ''packetization-mode'' = Some ''1''"
    "h264_profile (row_fmtp ''H264'') = Inr (Some ROOM_H264_PROFILE)"
    by code_simp+
  then have "matches_room KVideo (Some ''H264'') (row_fmtp ''H264'') m = Inr True" if "room_video m = ''H264''"
    using that by (simp add: matches_room_def canonical_video_def SUPPORTED_VIDEO_def eq_ignore_case_def ascii_lower_def)
  ultimately have "matches_room KVideo (Some (room_video m)) (row_fmtp (room_video m)) m = Inr True" by metis
  then show ?thesis by (simp add: matches_room_def eq_ignore_case_def)
qed

theorem room_accepts_its_own_witness:
  "resolve_room_codecs (Some \<lparr>mc_audio = Some ''OPUS'', mc_video = Some ''vp8''\<rparr>) = Some \<lparr>mc_audio = Some ''opus'', mc_video = Some ''VP8''\<rparr>
   \<and> matches_room KVideo (Some ''VP8'') None \<lparr>mc_audio = Some ''opus'', mc_video = Some ''VP8''\<rparr> = Inr True"
proof -
  have r: "resolve_room_codecs (Some \<lparr>mc_audio = Some ''OPUS'', mc_video = Some ''vp8''\<rparr>) = Some \<lparr>mc_audio = Some ''opus'', mc_video = Some ''VP8''\<rparr>"
    by code_simp
  have "row_fmtp ''VP8'' = None" by code_simp
  with room_accepts_its_own [OF r] r show ?thesis by (simp add: room_video_def)
qed

text \<open>
  A client can end the thread that reads its codecs: the profile is cut after four bytes without looking for the end of a
  character. With the profile 42e followed by a euro sign the fourth byte is the first of the three bytes of
  the euro sign.
\<close>

definition euro_profile :: string where
  "euro_profile = ''packetization-mode=1;profile-level-id=42e'' @ of_bytes [0xE2, 0x82, 0xAC]"

theorem profile_cut_panics:
  "utf8 euro_profile
   \<and> matches_room KVideo (Some ''H264'') (Some euro_profile) \<lparr>mc_audio = Some ''opus'', mc_video = Some ''H264''\<rparr> = Inl Panic"
  by code_simp

end
