(* ===== verification/Sub_Table.thy ===== *)
theory Sub_Table
  imports Trk Rtp "HOL-Library.Product_Lexorder"
begin

text \<open>
  The table of subscription lines of a connection (\<open>oxsfud/src/sub/mod.rs\<close>): a row per m-line, its number
  and source numbers fixed for life; \<open>sync\<close> assigns the tracks a subscriber may see to rows, by class,
  kind, codec and rank; \<open>ready\<close> acknowledges a revision and opens the rows loaded up to it. Random
  numbers are drawn until one is unused: \<open>pick\<close> stands for the draw that ends the loop. A row names
  its gate by the room it was loaded for.
\<close>

definition START_1PC :: nat where "START_1PC = 32"
definition START_2PC :: nat where "START_2PC = 0"
definition SUB_1PC :: nat where "SUB_1PC = 96"
definition SUB_2PC :: nat where "SUB_2PC = 128"
definition FULL_AUDIO :: nat where "FULL_AUDIO = 25"
definition FULL_VIDEO :: nat where "FULL_VIDEO = 25"
definition T_GATE_MS :: nat where "T_GATE_MS = 5000"

datatype row_class = Full | Slot
datatype sub_state = Created | Active

definition SLOT_STREAM :: string where "SLOT_STREAM = ''ox-ptt''"
definition URI_MID :: string where "URI_MID = ''urn:ietf:params:rtp-hdrext:sdes:mid''"
definition URI_AUDIO_LEVEL :: string where "URI_AUDIO_LEVEL = ''urn:ietf:params:rtp-hdrext:ssrc-audio-level''"
definition URI_ABS_SEND_TIME :: string where
  "URI_ABS_SEND_TIME = ''http://www.webrtc.org/experiments/rtp-hdrext/abs-send-time''"
definition URI_TWCC :: string where
  "URI_TWCC = ''http://www.ietf.org/id/draft-holmer-rmcat-transport-wide-cc-extensions-01''"
definition URI_RID :: string where "URI_RID = ''urn:ietf:params:rtp-hdrext:sdes:rtp-stream-id''"
definition URI_REPAIR_RID :: string where
  "URI_REPAIR_RID = ''urn:ietf:params:rtp-hdrext:sdes:repaired-rtp-stream-id''"

type_synonym ext_map = "u8 \<times> string"

definition server_extmap :: "ext_map list" where
  "server_extmap = [(1, URI_MID), (4, URI_AUDIO_LEVEL), (5, URI_ABS_SEND_TIME), (6, URI_TWCC), (10, URI_RID), (11, URI_REPAIR_RID)]"

definition ext_table_of :: "ext_map list \<Rightarrow> ext_table" where
  "ext_table_of m =
     (let ext = (\<lambda>u. map_option fst (find (\<lambda>e. snd e = u) m)) in
      \<lparr>et_mid = ext URI_MID, et_audio_level = ext URI_AUDIO_LEVEL, et_abs_send_time = ext URI_ABS_SEND_TIME, et_twcc = ext URI_TWCC\<rparr>)"

definition merge_extmap :: "ext_map list \<Rightarrow> ext_map list" where
  "merge_extmap offered =
     map (\<lambda>(i, u). (case find (\<lambda>e. snd e = u) offered of Some (j, _) \<Rightarrow> j | None \<Rightarrow> i, u)) server_extmap"

definition tuple_of :: "media_kind \<Rightarrow> string \<Rightarrow> string" where
  "tuple_of k codec =
     (let name = map ascii_lower codec in
      case k of
        KAudio \<Rightarrow> name @ ''/48000/2''
      | KVideo \<Rightarrow> if name = ''h264'' then ''h264/90000/pm1/42e0'' else name @ ''/90000'')"

record join_codec =
  jc_kind :: media_kind
  jc_name :: string
  jc_pt :: u8
  jc_rtx_pt :: "u8 option"
  jc_fmtp :: "string option"

definition join_tuple :: "join_codec \<Rightarrow> panic + string option" where
  "join_tuple c =
     (let name = map ascii_lower (jc_name c) in
      case jc_kind c of
        KAudio \<Rightarrow>
          if name = ''opus'' then
            (let st = (case fmtp_param (jc_fmtp c) ''sprop-stereo'' of Some v \<Rightarrow> v | None \<Rightarrow> ''0'')
             in Inr (Some (if st = ''1'' then ''opus/48000/2/stereo'' else tuple_of KAudio ''opus'')))
          else Inr None
      | KVideo \<Rightarrow>
          if name = ''h264'' then
            (let pm = (case fmtp_param (jc_fmtp c) ''packetization-mode'' of Some v \<Rightarrow> v | None \<Rightarrow> ''0'')
             in case h264_profile (jc_fmtp c) of
                  Inl e \<Rightarrow> Inl e
                | Inr p \<Rightarrow> Inr (Some (''h264/90000/pm'' @ pm @ ''/'' @ (case p of Some v \<Rightarrow> v | None \<Rightarrow> ''''))))
          else Inr (Some (tuple_of KVideo name)))"

record cand =
  cd_track :: string
  cd_room :: string
  cd_kind :: media_kind
  cd_class :: row_class
  cd_codec :: string
  cd_rank :: int
  cd_paused :: bool

record sub_row =
  r_mid :: nat
  r_kind :: media_kind
  r_class :: row_class
  r_tuple :: string
  r_codec :: string
  r_pt :: u8
  r_rtx_pt :: "u8 option"
  r_ssrc :: u32
  r_rtx_ssrc :: "u32 option"
  r_track :: "(string \<times> string) option"
  r_since :: nat
  r_loaded_at :: nat
  r_state :: sub_state
  r_gate :: "string option"
  r_ext :: ext_table

type_synonym change = "nat \<times> (string \<times> string) option \<times> (string \<times> string) option"

record sub_table =
  tb_one_pc :: bool
  tb_slot_budget :: nat
  tb_acked :: nat
  tb_rows :: "sub_row list"
  tb_arev :: nat
  tb_pts :: "(string, u8 \<times> u8 option) btree"
  tb_reserved :: "u8 list"
  tb_ssrcs :: "u32 set"
  tb_uplink :: "u32 set"
  tb_waiting :: "string \<Rightarrow> nat option"
  tb_gates :: "(string, bool \<times> nat \<times> bool) btree"
  tb_ready_at :: "string \<Rightarrow> nat option"
  tb_seeded :: bool
  tb_prefs :: "string \<Rightarrow> (u8 \<times> bool) option"
  tb_ext :: ext_table

definition table_new :: "bool \<Rightarrow> nat \<Rightarrow> sub_table" where
  "table_new one_pc budget = \<lparr>tb_one_pc = one_pc, tb_slot_budget = budget, tb_acked = 0, tb_rows = [], tb_arev = 0, tb_pts = [],
     tb_reserved = [], tb_ssrcs = {}, tb_uplink = {}, tb_waiting = Map.empty, tb_gates = [], tb_ready_at = Map.empty,
     tb_seeded = False, tb_prefs = Map.empty, tb_ext = ext_table_of server_extmap\<rparr>"

definition tb_start :: "sub_table \<Rightarrow> nat" where
  "tb_start t = (if tb_one_pc t then START_1PC else START_2PC)"

definition tb_limit :: "sub_table \<Rightarrow> nat" where
  "tb_limit t = (if tb_one_pc t then SUB_1PC else SUB_2PC)"

section \<open>Payload types and rows\<close>

definition used_pts :: "sub_table \<Rightarrow> u8 list" where
  "used_pts t = concat (map (\<lambda>(_, a, b). a # (case b of Some x \<Rightarrow> [x] | None \<Rightarrow> [])) (tb_pts t)) @ tb_reserved t"

definition free_pts :: "sub_table \<Rightarrow> u8 list" where
  "free_pts t = filter (\<lambda>x. x \<notin> set (used_pts t)) (map of_nat ([96..<128] @ [35..<64]))"

definition seed_pt :: "bool \<Rightarrow> media_kind \<Rightarrow> string \<Rightarrow> (u8 \<times> u8 option) option" where
  "seed_pt one_pc k codec =
     (if one_pc then None
      else
        (let name = map ascii_lower codec in
         if k = KAudio \<and> name = ''opus'' then Some (111, None)
         else if k = KVideo \<and> name = ''vp8'' then Some (96, Some 97)
         else if k = KVideo \<and> name = ''h264'' then Some (102, Some 103)
         else None))"

definition pt_for :: "media_kind \<Rightarrow> string \<Rightarrow> string \<Rightarrow> sub_table \<Rightarrow> (u8 \<times> u8 option) \<times> sub_table" where
  "pt_for k tup codec t =
     (case bt_get (tb_pts t) tup of
        Some p \<Rightarrow> (p, t)
      | None \<Rightarrow>
          (let used = set (used_pts t);
               p = (case seed_pt (tb_one_pc t) k codec of
                      Some (a, b) \<Rightarrow>
                        if a \<notin> used \<and> (case b of Some x \<Rightarrow> x \<notin> used | None \<Rightarrow> True) then Some (a, b) else None
                    | None \<Rightarrow> None);
               free = free_pts t;
               p' = (case p of
                      Some q \<Rightarrow> q
                    | None \<Rightarrow>
                        if k = KAudio then (case free of a # _ \<Rightarrow> a | [] \<Rightarrow> 127, None)
                        else (case free of a # _ \<Rightarrow> a | [] \<Rightarrow> 126, Some (case free of _ # b # _ \<Rightarrow> b | _ \<Rightarrow> 127)))
           in (p', t\<lparr>tb_pts := bt_insert tup p' (tb_pts t)\<rparr>)))"

definition fresh_ssrc :: "(u32 set \<Rightarrow> u32 set \<Rightarrow> u32) \<Rightarrow> sub_table \<Rightarrow> u32 \<times> sub_table" where
  "fresh_ssrc pick t = (let v = pick (tb_ssrcs t) (tb_uplink t) in (v, t\<lparr>tb_ssrcs := insert v (tb_ssrcs t)\<rparr>))"

text \<open>What the loop guarantees of the draw, as long as any number is left.\<close>

definition fresh_pick :: "(u32 set \<Rightarrow> u32 set \<Rightarrow> u32) \<Rightarrow> bool" where
  "fresh_pick pick \<longleftrightarrow> (\<forall>s u. (\<exists>v. 1 < v \<and> v \<notin> s \<and> v \<notin> u) \<longrightarrow> 1 < pick s u \<and> pick s u \<notin> s \<and> pick s u \<notin> u)"

definition new_row :: "(u32 set \<Rightarrow> u32 set \<Rightarrow> u32) \<Rightarrow> media_kind \<Rightarrow> row_class \<Rightarrow> string \<Rightarrow> sub_table \<Rightarrow> sub_table" where
  "new_row pick k cl codec t =
     (let tup = tuple_of k codec;
          ((pt, rtx_pt), t1) = pt_for k tup codec t;
          (ssrc, t2) = fresh_ssrc pick t1;
          (rtx_ssrc, t3) = (if k = KVideo then (case fresh_ssrc pick t2 of (v, t3) \<Rightarrow> (Some v, t3)) else (None, t2));
          r = \<lparr>r_mid = tb_start t + length (tb_rows t), r_kind = k, r_class = cl, r_tuple = tup, r_codec = codec, r_pt = pt,
               r_rtx_pt = rtx_pt, r_ssrc = ssrc, r_rtx_ssrc = rtx_ssrc, r_track = None, r_since = 0, r_loaded_at = 0,
               r_state = Created, r_gate = None, r_ext = tb_ext t\<rparr>
      in t3\<lparr>tb_rows := tb_rows t @ [r]\<rparr>)"

definition upd_row :: "nat \<Rightarrow> (sub_row \<Rightarrow> sub_row) \<Rightarrow> sub_table \<Rightarrow> sub_table" where
  "upd_row i f t = t\<lparr>tb_rows := (tb_rows t)[i := f (tb_rows t ! i)]\<rparr>"

definition retune :: "nat \<Rightarrow> string \<Rightarrow> sub_table \<Rightarrow> sub_table" where
  "retune i codec t =
     (let k = r_kind (tb_rows t ! i);
          tup = tuple_of k codec;
          ((pt, rtx_pt), t1) = pt_for k tup codec t
      in upd_row i (\<lambda>r. r\<lparr>r_tuple := tup, r_codec := codec, r_pt := pt, r_rtx_pt := rtx_pt\<rparr>) t1)"

section \<open>Loading\<close>

definition open_gate :: "string \<Rightarrow> nat \<Rightarrow> sub_table \<Rightarrow> sub_table" where
  "open_gate room now t =
     (case bt_get (tb_gates t) room of
        Some _ \<Rightarrow> t
      | None \<Rightarrow> t\<lparr>tb_gates := bt_insert room (False, now, False) (tb_gates t)\<rparr>)"

definition row_load :: "nat \<Rightarrow> cand \<Rightarrow> nat \<Rightarrow> nat \<Rightarrow> sub_table \<times> change list \<Rightarrow> sub_table \<times> change list" where
  "row_load i c rv now x =
     (case x of (t, ch) \<Rightarrow>
        let gated = (cd_class c = Full \<and> cd_kind c = KVideo);
            t1 = (if gated then open_gate (cd_room c) now t else t);
            old = r_track (tb_rows t1 ! i);
            nw = Some (cd_track c, cd_room c)
        in (upd_row i (\<lambda>r. r\<lparr>r_track := nw, r_since := rv, r_loaded_at := now, r_state := Created,
                            r_gate := (if gated then Some (cd_room c) else None)\<rparr>) t1, ch @ [(i, old, nw)]))"

definition row_rehome :: "nat \<Rightarrow> cand \<Rightarrow> nat \<Rightarrow> nat \<Rightarrow> sub_table \<times> change list \<Rightarrow> sub_table \<times> change list" where
  "row_rehome i c rv now x =
     (case x of (t, ch) \<Rightarrow>
        let gated = (cd_kind c = KVideo);
            t1 = (if gated then open_gate (cd_room c) now t else t);
            old = r_track (tb_rows t1 ! i);
            nw = Some (cd_track c, cd_room c)
        in (upd_row i (\<lambda>r. r\<lparr>r_track := nw, r_since := rv, r_gate := (if gated then Some (cd_room c) else None)\<rparr>) t1, ch @ [(i, old, nw)]))"

definition row_unload :: "nat \<Rightarrow> nat \<Rightarrow> sub_table \<times> change list \<Rightarrow> sub_table \<times> change list" where
  "row_unload i rv x =
     (case x of (t, ch) \<Rightarrow>
        case r_track (tb_rows t ! i) of
          None \<Rightarrow> (t, ch)
        | Some old \<Rightarrow>
            (upd_row i (\<lambda>r. r\<lparr>r_track := None, r_since := rv, r_state := Created, r_gate := None\<rparr>) t, ch @ [(i, Some old, None)]))"

section \<open>Synchronising\<close>

definition find_idx :: "('a \<Rightarrow> bool) \<Rightarrow> 'a list \<Rightarrow> nat option" where
  "find_idx p xs = find (\<lambda>i. p (xs ! i)) [0..<length xs]"

fun min_by :: "('a \<Rightarrow> nat) \<Rightarrow> 'a list \<Rightarrow> 'a option" where
  "min_by f [] = None"
| "min_by f (x # xs) = (case min_by f xs of None \<Rightarrow> Some x | Some y \<Rightarrow> Some (if f x \<le> f y then x else y))"

definition is_slot :: "cand \<Rightarrow> bool" where
  "is_slot c \<longleftrightarrow> cd_class c = Slot"

definition want_slot :: "cand list \<Rightarrow> (string \<times> media_kind) set" where
  "want_slot cs = (\<lambda>c. (cd_room c, cd_kind c)) ` set (filter is_slot cs)"

definition unwanted :: "(string \<times> media_kind) set \<Rightarrow> sub_row \<Rightarrow> bool" where
  "unwanted want r \<longleftrightarrow> r_class r = Slot \<and> (case r_track r of Some (_, room) \<Rightarrow> (room, r_kind r) \<notin> want | None \<Rightarrow> False)"

definition slot_loaded :: "cand \<Rightarrow> sub_row \<Rightarrow> bool" where
  "slot_loaded c r \<longleftrightarrow> r_class r = Slot \<and> r_kind r = cd_kind c \<and> (case r_track r of Some (_, room) \<Rightarrow> room = cd_room c | None \<Rightarrow> False)"

definition has_slot :: "sub_row list \<Rightarrow> cand \<Rightarrow> bool" where
  "has_slot rows c \<longleftrightarrow> list_ex (slot_loaded c) rows"

definition slot_fits :: "cand \<Rightarrow> sub_row \<Rightarrow> bool" where
  "slot_fits c r \<longleftrightarrow> r_class r = Slot \<and> r_kind r = cd_kind c \<and> r_tuple r = tuple_of (cd_kind c) (cd_codec c)"

fun fresh_scan :: "sub_row list \<Rightarrow> (string \<times> media_kind) set \<Rightarrow> nat set \<Rightarrow> cand list \<Rightarrow> nat" where
  "fresh_scan rows want claimed [] = 0"
| "fresh_scan rows want claimed (c # cs) =
     (if has_slot rows c then fresh_scan rows want claimed cs
      else case find (\<lambda>i. i \<notin> claimed \<and> slot_fits c (rows ! i) \<and> (r_track (rows ! i) = None \<or> unwanted want (rows ! i))) [0..<length rows] of
             Some i \<Rightarrow> fresh_scan rows want (insert i claimed) cs
           | None \<Rightarrow> Suc (fresh_scan rows want claimed cs))"

definition fresh_slot_rows :: "sub_row list \<Rightarrow> cand list \<Rightarrow> (string \<times> media_kind) set \<Rightarrow> nat" where
  "fresh_slot_rows rows cs want = fresh_scan rows want {} (filter is_slot cs)"

definition count_class :: "row_class \<Rightarrow> sub_row list \<Rightarrow> nat" where
  "count_class cl rows = length (filter (\<lambda>r. r_class r = cl) rows)"

definition unload_where :: "(sub_row \<Rightarrow> bool) \<Rightarrow> nat \<Rightarrow> sub_table \<times> change list \<Rightarrow> sub_table \<times> change list" where
  "unload_where p rv x = foldl (\<lambda>x i. if p (tb_rows (fst x) ! i) then row_unload i rv x else x) x [0..<length (tb_rows (fst x))]"

text \<open>The slot candidates without a row, one after the other; a shortage ends the loop with the budget and what is used of it.\<close>

fun place_slots :: "(u32 set \<Rightarrow> u32 set \<Rightarrow> u32) \<Rightarrow> nat \<Rightarrow> nat \<Rightarrow> cand list \<Rightarrow> sub_table \<times> change list
    \<Rightarrow> (sub_table \<times> change list) \<times> (nat \<times> nat) option" where
  "place_slots pick rv now [] x = (x, None)"
| "place_slots pick rv now (c # cs) x =
     (let t = fst x in
      case find_idx (\<lambda>r. slot_fits c r \<and> r_track r = None) (tb_rows t) of
        Some i \<Rightarrow> place_slots pick rv now cs (row_load i c rv now x)
      | None \<Rightarrow>
          (let n = count_class Slot (tb_rows t) in
           if tb_slot_budget t \<le> n \<or> tb_limit t \<le> length (tb_rows t)
           then (x, Some (if tb_slot_budget t \<le> n then (tb_slot_budget t, n) else (tb_limit t, length (tb_rows t))))
           else place_slots pick rv now cs
                  (row_load (length (tb_rows t)) c rv now (new_row pick (cd_kind c) Slot (cd_codec c) t, snd x))))"

definition full_of :: "media_kind \<Rightarrow> sub_row \<Rightarrow> bool" where
  "full_of k r \<longleftrightarrow> r_class r = Full \<and> r_kind r = k"

definition rehome_one :: "media_kind \<Rightarrow> cand list \<Rightarrow> nat \<Rightarrow> nat \<Rightarrow> sub_table \<times> change list \<Rightarrow> nat \<Rightarrow> sub_table \<times> change list" where
  "rehome_one k cs rv now x i =
     (let r = tb_rows (fst x) ! i in
      if \<not> full_of k r then x
      else case r_track r of
        None \<Rightarrow> x
      | Some (tid, room) \<Rightarrow>
          if list_ex (\<lambda>c. cd_class c = Full \<and> cd_track c = tid \<and> cd_room c = room) cs then x
          else case find (\<lambda>c. cd_class c = Full \<and> cd_kind c = k \<and> cd_track c = tid \<and> \<not> cd_paused c) cs of
                 Some c \<Rightarrow> row_rehome i c rv now x
               | None \<Rightarrow> x)"

definition cd_key :: "cand \<Rightarrow> string \<times> string" where
  "cd_key c = (cd_track c, cd_room c)"

definition loaded_map :: "media_kind \<Rightarrow> sub_row list \<Rightarrow> string \<times> string \<Rightarrow> nat option" where
  "loaded_map k rows = map_of (rev (concat (map (\<lambda>r. case r_track r of Some tr \<Rightarrow> if full_of k r then [(tr, r_loaded_at r)] else [] | None \<Rightarrow> []) rows)))"

definition mark_waiting :: "(string \<times> string \<Rightarrow> nat option) \<Rightarrow> nat \<Rightarrow> cand list \<Rightarrow> (string \<Rightarrow> nat option) \<Rightarrow> string \<Rightarrow> nat option" where
  "mark_waiting loaded now cs w =
     foldl (\<lambda>w c. if loaded (cd_key c) = None \<and> w (cd_track c) = None then w(cd_track c \<mapsto> now) else w) w cs"

text \<open>The order of the candidates: by rank, then the rows last loaded, then the longest waiting.\<close>

definition order_key :: "(string \<times> string \<Rightarrow> nat option) \<Rightarrow> (string \<Rightarrow> nat option) \<Rightarrow> nat \<Rightarrow> cand \<Rightarrow> int \<times> nat \<times> nat" where
  "order_key loaded w now c =
     (- cd_rank c, case loaded (cd_key c) of Some at1 \<Rightarrow> (0, 2 ^ 64 - 1 - at1) | None \<Rightarrow> (1, case w (cd_track c) of Some at1 \<Rightarrow> at1 | None \<Rightarrow> now))"

definition desired :: "media_kind \<Rightarrow> cand list \<Rightarrow> cand list" where
  "desired k cs = filter (\<lambda>c. cd_class c = Full \<and> cd_kind c = k \<and> \<not> cd_paused c) cs"

definition full_loaded :: "cand \<Rightarrow> sub_row \<Rightarrow> bool" where
  "full_loaded c r \<longleftrightarrow> r_track r = Some (cd_key c) \<and> r_class r = Full"

definition drop_waiting :: "string \<Rightarrow> sub_table \<Rightarrow> sub_table" where
  "drop_waiting tid t = t\<lparr>tb_waiting := (tb_waiting t)(tid := None)\<rparr>"

definition fill_one :: "(u32 set \<Rightarrow> u32 set \<Rightarrow> u32) \<Rightarrow> media_kind \<Rightarrow> nat \<Rightarrow> nat \<Rightarrow> nat \<Rightarrow> (sub_table \<times> change list) \<times> bool \<Rightarrow> cand
    \<Rightarrow> (sub_table \<times> change list) \<times> bool" where
  "fill_one pick k cap rv now y c =
     (case y of ((t, ch), tuned) \<Rightarrow>
        if list_ex (full_loaded c) (tb_rows t) then ((drop_waiting (cd_track c) t, ch), tuned)
        else
          (let rows = tb_rows t;
               empty_rows = filter (\<lambda>i. full_of k (rows ! i) \<and> r_track (rows ! i) = None) [0..<length rows];
               free = min_by (\<lambda>i. r_mid (rows ! i)) (filter (\<lambda>i. r_tuple (rows ! i) = tuple_of k (cd_codec c)) empty_rows);
               full_rows = length (filter (full_of k) rows)
           in case free of
                Some i \<Rightarrow> (row_load i c rv now (drop_waiting (cd_track c) t, ch), tuned)
              | None \<Rightarrow>
                  if full_rows < cap \<and> length rows < tb_limit t
                  then (row_load (length rows) c rv now (drop_waiting (cd_track c) (new_row pick k Full (cd_codec c) t), ch), tuned)
                  else (case min_by (\<lambda>i. r_loaded_at (rows ! i)) empty_rows of
                          Some i \<Rightarrow> (row_load i c rv now (drop_waiting (cd_track c) (retune i (cd_codec c) t), ch), True)
                        | None \<Rightarrow> y)))"

definition full_cap :: "media_kind \<Rightarrow> nat" where
  "full_cap k = (if k = KAudio then FULL_AUDIO else FULL_VIDEO)"

definition target_of :: "cand list \<Rightarrow> nat \<Rightarrow> media_kind \<Rightarrow> sub_table \<Rightarrow> cand list" where
  "target_of cs now k t =
     take (full_cap k) (sort_key (order_key (loaded_map k (tb_rows t)) (tb_waiting t) now) (desired k cs))"

definition outside :: "cand list \<Rightarrow> media_kind \<Rightarrow> sub_row \<Rightarrow> bool" where
  "outside target k r \<longleftrightarrow> full_of k r \<and> (case r_track r of Some tr \<Rightarrow> tr \<notin> cd_key ` set target | None \<Rightarrow> False)"

definition sync_kind :: "(u32 set \<Rightarrow> u32 set \<Rightarrow> u32) \<Rightarrow> cand list \<Rightarrow> nat \<Rightarrow> nat \<Rightarrow> media_kind \<Rightarrow> (sub_table \<times> change list) \<times> bool
    \<Rightarrow> (sub_table \<times> change list) \<times> bool" where
  "sync_kind pick cs rv now k y =
     (let x1 = foldl (rehome_one k cs rv now) (fst y) [0..<length (tb_rows (fst (fst y)))];
          t1 = (fst x1)\<lparr>tb_waiting := mark_waiting (loaded_map k (tb_rows (fst x1))) now (desired k cs) (tb_waiting (fst x1))\<rparr>;
          target = target_of cs now k t1;
          x2 = unload_where (outside target k) rv (t1, snd x1)
      in foldl (fill_one pick k (full_cap k) rv now) (x2, snd y) target)"

record sync_out =
  so_changes :: "change list"
  so_changed :: bool
  so_mid_limit :: bool
  so_budget :: "(nat \<times> nat) option"

definition table_sync :: "(u32 set \<Rightarrow> u32 set \<Rightarrow> u32) \<Rightarrow> cand list \<Rightarrow> nat \<Rightarrow> sub_table \<Rightarrow> sync_out \<times> sub_table" where
  "table_sync pick cs now t =
     (let rv = tb_arev t + 1;
          want = want_slot cs;
          fresh = fresh_slot_rows (tb_rows t) cs want;
          n = count_class Slot (tb_rows t);
          short = (\<lambda>b. \<lparr>so_changes = [], so_changed = False, so_mid_limit = True, so_budget = Some b\<rparr>)
      in if 0 < fresh \<and> (tb_slot_budget t < n + fresh \<or> tb_limit t < length (tb_rows t) + fresh)
         then (short (if tb_slot_budget t < n + fresh then (tb_slot_budget t, n) else (tb_limit t, length (tb_rows t))), t)
         else
           (let x1 = unload_where (unwanted want) rv (t, []);
                needed = filter (\<lambda>c. is_slot c \<and> \<not> has_slot (tb_rows (fst x1)) c) cs
            in case place_slots pick rv now needed x1 of
                 (x2, Some b) \<Rightarrow> (short b, fst x2)
               | (x2, None) \<Rightarrow>
                   (let y = sync_kind pick cs rv now KVideo (sync_kind pick cs rv now KAudio (x2, False));
                        t3 = fst (fst y); ch = snd (fst y);
                        t4 = t3\<lparr>tb_waiting := (\<lambda>tid. if tid \<in> cd_track ` set cs then tb_waiting t3 tid else None)\<rparr>;
                        changed = (ch \<noteq> [] \<or> length (tb_rows t4) \<noteq> length (tb_rows t) \<or> snd y)
                    in (\<lparr>so_changes = ch, so_changed = changed, so_mid_limit = False, so_budget = None\<rparr>,
                        if changed then t4\<lparr>tb_arev := rv\<rparr> else t4))))"

section \<open>Acknowledging\<close>

definition ready_mark :: "string \<Rightarrow> nat \<Rightarrow> sub_table \<Rightarrow> sub_table" where
  "ready_mark room now t =
     (let t1 = (if tb_ready_at t room = None then t\<lparr>tb_ready_at := (tb_ready_at t)(room \<mapsto> now)\<rparr> else t)
      in case bt_get (tb_gates t1) room of
           Some (_, since, latched) \<Rightarrow> t1\<lparr>tb_gates := bt_insert room (True, since, latched) (tb_gates t1)\<rparr>
         | None \<Rightarrow> t1)"

definition ready_ack :: "nat \<Rightarrow> sub_table \<Rightarrow> sub_table" where
  "ready_ack ar t = (let ack = min (tb_arev t) ar in if tb_acked t < ack then t\<lparr>tb_acked := ack\<rparr> else t)"

definition becomes_active :: "nat \<Rightarrow> sub_row \<Rightarrow> bool" where
  "becomes_active acked r \<longleftrightarrow> r_state r = Created \<and> r_track r \<noteq> None \<and> r_since r \<le> acked"

definition table_ready :: "string \<Rightarrow> nat \<Rightarrow> nat \<Rightarrow> sub_table \<Rightarrow> (bool \<times> (string \<times> string) list) \<times> sub_table" where
  "table_ready room ar now t =
     (let t1 = ready_ack ar (ready_mark room now t);
          became = concat (map (\<lambda>r. case r_track r of Some tr \<Rightarrow> [tr] | None \<Rightarrow> []) (filter (becomes_active (tb_acked t1)) (tb_rows t1)))
      in ((tb_ready_at t room = None, became),
          t1\<lparr>tb_rows := map (\<lambda>r. if becomes_active (tb_acked t1) r then r\<lparr>r_state := Active\<rparr> else r) (tb_rows t1)\<rparr>))"

definition gate_timeouts :: "nat \<Rightarrow> sub_table \<Rightarrow> string list \<times> sub_table" where
  "gate_timeouts now t =
     (let due = (\<lambda>(op1, since, _). \<not> op1 \<and> T_GATE_MS \<le> now - since) in
      (map fst (filter (\<lambda>(_, g). due g \<and> \<not> snd (snd g)) (tb_gates t)),
       t\<lparr>tb_gates := map (\<lambda>(room, g). (room, if due g then (True, fst (snd g), True) else g)) (tb_gates t)\<rparr>))"

definition table_carry :: "nat \<Rightarrow> sub_table \<Rightarrow> sub_table" where
  "table_carry ar t = (if tb_arev t < ar then t\<lparr>tb_arev := ar\<rparr> else t)"

definition add_uplink :: "u32 list \<Rightarrow> sub_table \<Rightarrow> sub_table" where
  "add_uplink xs t = t\<lparr>tb_uplink := tb_uplink t \<union> set xs\<rparr>"

definition remove_uplink :: "u32 list \<Rightarrow> sub_table \<Rightarrow> sub_table" where
  "remove_uplink xs t = t\<lparr>tb_uplink := tb_uplink t - set xs\<rparr>"

definition forget_room :: "string \<Rightarrow> sub_table \<Rightarrow> sub_table" where
  "forget_room room t = t\<lparr>tb_gates := bt_remove room (tb_gates t), tb_ready_at := (tb_ready_at t)(room := None)\<rparr>"

definition row_by_ssrc :: "u32 \<Rightarrow> sub_table \<Rightarrow> (sub_row \<times> bool) option" where
  "row_by_ssrc ssrc t =
     (case find (\<lambda>r. r_ssrc r = ssrc \<or> r_rtx_ssrc r = Some ssrc) (tb_rows t) of
        Some r \<Rightarrow> Some (r, r_ssrc r \<noteq> ssrc)
      | None \<Rightarrow> None)"

definition set_pref :: "string \<Rightarrow> u8 option \<Rightarrow> bool option \<Rightarrow> sub_table \<Rightarrow> bool \<times> sub_table" where
  "set_pref track prio paused t =
     (let e = (case tb_prefs t track of Some e \<Rightarrow> e | None \<Rightarrow> (0, False));
          e' = (case prio of Some p \<Rightarrow> p | None \<Rightarrow> fst e, case paused of Some p \<Rightarrow> p | None \<Rightarrow> snd e)
      in (e \<noteq> e', t\<lparr>tb_prefs := (tb_prefs t)(track \<mapsto> e')\<rparr>))"

fun seed_codecs :: "join_codec list \<Rightarrow> sub_table \<Rightarrow> panic + sub_table" where
  "seed_codecs [] t = Inr t"
| "seed_codecs (c # cs) t =
     (let t1 = t\<lparr>tb_reserved := jc_pt c # (case jc_rtx_pt c of Some r \<Rightarrow> [r] | None \<Rightarrow> []) @ tb_reserved t\<rparr>
      in case join_tuple c of
           Inl e \<Rightarrow> Inl e
         | Inr None \<Rightarrow> seed_codecs cs t1
         | Inr (Some tup) \<Rightarrow>
             seed_codecs cs (case bt_get (tb_pts t1) tup of
                               None \<Rightarrow> t1\<lparr>tb_pts := bt_insert tup (jc_pt c, jc_rtx_pt c) (tb_pts t1)\<rparr>
                             | Some _ \<Rightarrow> t1))"

definition table_seed :: "join_codec list \<Rightarrow> ext_map list \<Rightarrow> sub_table \<Rightarrow> panic + (bool \<times> sub_table)" where
  "table_seed cs extmap t =
     (if tb_seeded t then Inr (False, t)
      else case seed_codecs cs (t\<lparr>tb_seeded := True\<rparr>) of
             Inl e \<Rightarrow> Inl e
           | Inr t' \<Rightarrow> Inr (True, if extmap = [] then t' else t'\<lparr>tb_ext := ext_table_of (merge_extmap extmap)\<rparr>))"

definition mark_seeded :: "sub_table \<Rightarrow> sub_table" where
  "mark_seeded t = t\<lparr>tb_seeded := True\<rparr>"

section \<open>What the client is shown\<close>

fun dec_digits :: "nat \<Rightarrow> string" where
  "dec_digits n = (if n < 10 then [char_of (48 + n)] else dec_digits (n div 10) @ [char_of (48 + n mod 10)])"

declare dec_digits.simps [simp del]

record mline =
  ml_mid :: string
  ml_kind :: media_kind
  ml_pt :: u8
  ml_codec :: string
  ml_fmtp :: "string option"
  ml_rtx_pt :: "u8 option"
  ml_track :: "string option"
  ml_room :: "string option"
  ml_ssrc :: u32
  ml_rtx_ssrc :: "u32 option"
  ml_stream :: string

definition row_entry :: "sub_row \<Rightarrow> mline" where
  "row_entry r = \<lparr>ml_mid = dec_digits (r_mid r), ml_kind = r_kind r, ml_pt = r_pt r, ml_codec = r_codec r, ml_fmtp = row_fmtp (r_codec r),
     ml_rtx_pt = r_rtx_pt r, ml_track = map_option fst (r_track r), ml_room = map_option snd (r_track r), ml_ssrc = r_ssrc r,
     ml_rtx_ssrc = r_rtx_ssrc r,
     ml_stream = (case r_class r of Full \<Rightarrow> ''ox-m'' @ dec_digits (r_mid r) | Slot \<Rightarrow> SLOT_STREAM)\<rparr>"

definition snapshot :: "sub_table \<Rightarrow> nat \<times> mline list" where
  "snapshot t = (tb_arev t, map row_entry (tb_rows t))"

definition loaded_rows :: "sub_table \<Rightarrow> (string \<times> string \<times> nat) list" where
  "loaded_rows t =
     concat (map (\<lambda>r. case r_track r of Some (tid, room) \<Rightarrow> [(tid, room, r_mid r)] | None \<Rightarrow> []) (tb_rows t))"

definition row_of_track :: "string \<Rightarrow> sub_table \<Rightarrow> sub_row option" where
  "row_of_track track t = find (\<lambda>r. case r_track r of Some (tid, _) \<Rightarrow> tid = track | None \<Rightarrow> False) (tb_rows t)"

definition pref :: "string \<Rightarrow> sub_table \<Rightarrow> u8 \<times> bool" where
  "pref track t = (case tb_prefs t track of Some e \<Rightarrow> e | None \<Rightarrow> (0, False))"

section \<open>The revision of a session across its connections\<close>

definition keep_floor :: "string \<Rightarrow> nat \<Rightarrow> (string \<Rightarrow> nat option) \<Rightarrow> string \<Rightarrow> nat option" where
  "keep_floor sid ar floors = floors(sid \<mapsto> max (case floors sid of Some v \<Rightarrow> v | None \<Rightarrow> 0) ar)"

definition session_floor :: "string \<Rightarrow> (string \<Rightarrow> nat option) \<Rightarrow> nat" where
  "session_floor sid floors = (case floors sid of Some v \<Rightarrow> v | None \<Rightarrow> 0)"

definition forget_floor :: "string \<Rightarrow> (string \<Rightarrow> nat option) \<Rightarrow> string \<Rightarrow> nat option" where
  "forget_floor sid floors = floors(sid := None)"

end
