(* ===== verification/Sub_Act.thy ===== *)
theory Sub_Act
  imports Sub_Table
begin

text \<open>
  A synchronisation of the subscription table as a sequence of elementary actions on rows of one class:
  unload, rehome, load, retune and load, add and load, and bookkeeping of who waits. What each action
  does to the rows is computed once; the invariants of the table follow by induction on the sequence.
\<close>

definition wants :: "cand list \<Rightarrow> row_class \<Rightarrow> cand \<Rightarrow> bool" where
  "wants cs cl c \<longleftrightarrow> c \<in> set cs \<and> cd_class c = cl \<and> (cl = Full \<longrightarrow> \<not> cd_paused c)"

definition room_for :: "row_class \<Rightarrow> media_kind \<Rightarrow> sub_table \<Rightarrow> bool" where
  "room_for cl k t \<longleftrightarrow> length (tb_rows t) < tb_limit t \<and>
     (case cl of Slot \<Rightarrow> count_class Slot (tb_rows t) < tb_slot_budget t
               | Full \<Rightarrow> length (filter (full_of k) (tb_rows t)) < full_cap k)"

definition row_for :: "row_class \<Rightarrow> cand \<Rightarrow> sub_row \<Rightarrow> bool" where
  "row_for cl c r \<longleftrightarrow> r_class r = cl \<and> r_kind r = cd_kind c"

inductive act :: "(u32 set \<Rightarrow> u32 set \<Rightarrow> u32) \<Rightarrow> cand list \<Rightarrow> nat \<Rightarrow> nat \<Rightarrow> row_class
    \<Rightarrow> sub_table \<times> change list \<Rightarrow> sub_table \<times> change list \<Rightarrow> bool"
  for pick cs rv now cl where
  act_wait: "act pick cs rv now cl (t, ch) (t\<lparr>tb_waiting := w\<rparr>, ch)"
| act_unload: "i < length (tb_rows t) \<Longrightarrow> r_class (tb_rows t ! i) = cl \<Longrightarrow> r_track (tb_rows t ! i) \<noteq> None
    \<Longrightarrow> act pick cs rv now cl (t, ch) (row_unload i rv (t, ch))"
| act_rehome: "i < length (tb_rows t) \<Longrightarrow> cl = Full \<Longrightarrow> row_for cl c (tb_rows t ! i) \<Longrightarrow> wants cs cl c
    \<Longrightarrow> act pick cs rv now cl (t, ch) (row_rehome i c rv now (t, ch))"
| act_load: "i < length (tb_rows t) \<Longrightarrow> row_for cl c (tb_rows t ! i) \<Longrightarrow> wants cs cl c
    \<Longrightarrow> act pick cs rv now cl (t, ch) (row_load i c rv now (t, ch))"
| act_tune: "i < length (tb_rows t) \<Longrightarrow> row_for cl c (tb_rows t ! i) \<Longrightarrow> wants cs cl c
    \<Longrightarrow> act pick cs rv now cl (t, ch) (row_load i c rv now ((retune i (cd_codec c) t)\<lparr>tb_waiting := w\<rparr>, ch))"
| act_add: "room_for cl (cd_kind c) t \<Longrightarrow> wants cs cl c
    \<Longrightarrow> act pick cs rv now cl (t, ch)
          (row_load (length (tb_rows t)) c rv now ((new_row pick (cd_kind c) cl (cd_codec c) t)\<lparr>tb_waiting := w\<rparr>, ch))"

abbreviation acts where
  "acts pick cs rv now cl \<equiv> (act pick cs rv now cl)\<^sup>*\<^sup>*"

section \<open>What an action does to the table\<close>

text \<open>The fields no action touches, and the shape of the rows after one.\<close>

definition tb_frame :: "sub_table \<Rightarrow> _" where
  "tb_frame t = (tb_one_pc t, tb_slot_budget t, tb_acked t, tb_arev t, tb_uplink t, tb_seeded t, tb_reserved t, tb_ready_at t, tb_prefs t, tb_ext t)"

definition row_name :: "sub_row \<Rightarrow> _" where
  "row_name r = (r_mid r, r_kind r, r_class r, r_ssrc r, r_rtx_ssrc r)"

definition good_track :: "cand list \<Rightarrow> sub_row \<Rightarrow> bool" where
  "good_track cs r \<longleftrightarrow> (case r_track r of None \<Rightarrow> True
     | Some tr \<Rightarrow> (\<exists>c \<in> set cs. wants cs (r_class r) c \<and> row_for (r_class r) c r \<and> snd tr = cd_room c \<and> (r_class r = Full \<longrightarrow> tr = cd_key c)))"

definition redone :: "cand list \<Rightarrow> nat \<Rightarrow> sub_row \<Rightarrow> sub_row \<Rightarrow> bool" where
  "redone cs rv r r' \<longleftrightarrow> row_name r' = row_name r \<and> r_since r' = rv \<and> (r_state r' = Created \<or> r_track r' \<noteq> None) \<and> good_track cs r'"

definition added :: "(u32 set \<Rightarrow> u32 set \<Rightarrow> u32) \<Rightarrow> cand list \<Rightarrow> nat \<Rightarrow> row_class \<Rightarrow> sub_table \<Rightarrow> sub_row \<Rightarrow> bool" where
  "added pick cs rv cl t r \<longleftrightarrow> room_for cl (r_kind r) t \<and> r_class r = cl \<and> r_mid r = tb_start t + length (tb_rows t) \<and>
     r_since r = rv \<and> r_state r = Created \<and> r_track r \<noteq> None \<and> good_track cs r \<and>
     r_ssrc r = pick (tb_ssrcs t) (tb_uplink t) \<and>
     r_rtx_ssrc r = (if r_kind r = KVideo then Some (pick (insert (r_ssrc r) (tb_ssrcs t)) (tb_uplink t)) else None)"

definition row_ssrcs :: "sub_row \<Rightarrow> u32 list" where
  "row_ssrcs r = r_ssrc r # (case r_rtx_ssrc r of Some x \<Rightarrow> [x] | None \<Rightarrow> [])"

lemma tb_frame_simps [simp]:
  "tb_frame (t\<lparr>tb_waiting := w\<rparr>) = tb_frame t" "tb_frame (t\<lparr>tb_rows := rs\<rparr>) = tb_frame t" "tb_frame (t\<lparr>tb_pts := ps\<rparr>) = tb_frame t"
  "tb_frame (t\<lparr>tb_ssrcs := s\<rparr>) = tb_frame t" "tb_frame (t\<lparr>tb_gates := g\<rparr>) = tb_frame t"
  by (simp_all add: tb_frame_def)

lemma tb_frame_eqs:
  assumes "tb_frame t = tb_frame u"
  shows "tb_one_pc t = tb_one_pc u" "tb_slot_budget t = tb_slot_budget u" "tb_acked t = tb_acked u" "tb_arev t = tb_arev u"
    "tb_uplink t = tb_uplink u" "tb_start t = tb_start u" "tb_limit t = tb_limit u"
  using assms by (simp_all add: tb_frame_def tb_start_def tb_limit_def)

lemma open_gate_keeps [simp]:
  "tb_rows (open_gate room now t) = tb_rows t" "tb_frame (open_gate room now t) = tb_frame t" "tb_ssrcs (open_gate room now t) = tb_ssrcs t"
  by (simp_all add: open_gate_def split: option.splits)

lemma pt_for_keeps [simp]:
  "tb_rows (snd (pt_for k tup codec t)) = tb_rows t" "tb_frame (snd (pt_for k tup codec t)) = tb_frame t"
  "tb_ssrcs (snd (pt_for k tup codec t)) = tb_ssrcs t" "tb_uplink (snd (pt_for k tup codec t)) = tb_uplink t"
  by (cases "bt_get (tb_pts t) tup"; simp add: pt_for_def Let_def)+

lemma upd_row_keeps [simp]:
  "tb_rows (upd_row i f t) = (tb_rows t)[i := f (tb_rows t ! i)]" "tb_frame (upd_row i f t) = tb_frame t"
  "tb_ssrcs (upd_row i f t) = tb_ssrcs t"
  by (simp_all add: upd_row_def)

lemma retune_keeps [simp]:
  "tb_frame (retune i codec t) = tb_frame t" "tb_ssrcs (retune i codec t) = tb_ssrcs t"
  "length (tb_rows (retune i codec t)) = length (tb_rows t)"
  by (simp_all add: retune_def Let_def case_prod_unfold)

lemma retune_rows:
  "\<exists>r. tb_rows (retune i codec t) = (tb_rows t)[i := r] \<and> row_name r = row_name (tb_rows t ! i)"
  unfolding retune_def Let_def case_prod_unfold by (simp add: row_name_def) (rule exI, rule conjI, rule refl, simp)

lemma fresh_ssrc_keeps [simp]:
  "tb_rows (snd (fresh_ssrc pick t)) = tb_rows t" "tb_frame (snd (fresh_ssrc pick t)) = tb_frame t"
  "fst (fresh_ssrc pick t) = pick (tb_ssrcs t) (tb_uplink t)"
  "tb_ssrcs (snd (fresh_ssrc pick t)) = insert (pick (tb_ssrcs t) (tb_uplink t)) (tb_ssrcs t)"
  "tb_uplink (snd (fresh_ssrc pick t)) = tb_uplink t"
  by (simp_all add: fresh_ssrc_def Let_def)

lemma new_row_frame [simp]:
  "tb_frame (new_row pick k cl codec t) = tb_frame t"
  by (simp add: new_row_def Let_def case_prod_unfold)

lemma new_row_adds:
  obtains r where "tb_rows (new_row pick k cl codec t) = tb_rows t @ [r]" "r_mid r = tb_start t + length (tb_rows t)" "r_kind r = k" "r_class r = cl"
    "r_ssrc r = pick (tb_ssrcs t) (tb_uplink t)"
    "r_rtx_ssrc r = (if k = KVideo then Some (pick (insert (r_ssrc r) (tb_ssrcs t)) (tb_uplink t)) else None)"
    "tb_ssrcs (new_row pick k cl codec t) = tb_ssrcs t \<union> set (row_ssrcs r)"
proof (cases k)
  case KAudio
  then show ?thesis
    by (intro that [of "last (tb_rows (new_row pick k cl codec t))"])
      (simp_all add: new_row_def Let_def case_prod_unfold row_ssrcs_def)
next
  case KVideo
  then show ?thesis
    by (intro that [of "last (tb_rows (new_row pick k cl codec t))"])
      (simp_all add: new_row_def Let_def case_prod_unfold row_ssrcs_def insert_commute)
qed

section \<open>The rows after an action\<close>

lemma row_name_simps [simp]:
  "row_name (r\<lparr>r_track := a, r_since := b, r_loaded_at := d, r_state := e, r_gate := f\<rparr>) = row_name r"
  "row_name (r\<lparr>r_track := a, r_since := b, r_gate := f\<rparr>) = row_name r"
  "row_name (r\<lparr>r_track := a, r_since := b, r_state := e, r_gate := f\<rparr>) = row_name r"
  by (simp_all add: row_name_def)

lemma row_nameD:
  assumes "row_name r = row_name s"
  shows "r_mid r = r_mid s" "r_kind r = r_kind s" "r_class r = r_class s" "r_ssrc r = r_ssrc s" "r_rtx_ssrc r = r_rtx_ssrc s" "row_ssrcs r = row_ssrcs s"
  using assms by (simp_all add: row_name_def row_ssrcs_def)

lemma good_loaded:
  assumes "wants cs cl c" "row_for cl c r" "r_track r = Some (cd_track c, cd_room c)"
  shows "good_track cs r"
  using assms by (auto simp: good_track_def wants_def row_for_def cd_key_def)

definition loaded_row :: "cand \<Rightarrow> nat \<Rightarrow> nat \<Rightarrow> sub_row \<Rightarrow> sub_row" where
  "loaded_row c rv now r = r\<lparr>r_track := Some (cd_track c, cd_room c), r_since := rv, r_loaded_at := now, r_state := Created,
     r_gate := (if cd_class c = Full \<and> cd_kind c = KVideo then Some (cd_room c) else None)\<rparr>"

lemma loaded_row_simps [simp]:
  "row_name (loaded_row c rv now r) = row_name r" "r_since (loaded_row c rv now r) = rv" "r_state (loaded_row c rv now r) = Created"
  "r_track (loaded_row c rv now r) = Some (cd_key c)" "r_tuple (loaded_row c rv now r) = r_tuple r"
  by (simp_all add: loaded_row_def cd_key_def)

lemma row_load_shape [simp]:
  "tb_frame (fst (row_load i c rv now (t, ch))) = tb_frame t" "tb_ssrcs (fst (row_load i c rv now (t, ch))) = tb_ssrcs t"
  "tb_rows (fst (row_load i c rv now (t, ch))) = (tb_rows t)[i := loaded_row c rv now (tb_rows t ! i)]"
  "snd (row_load i c rv now (t, ch)) = ch @ [(i, r_track (tb_rows t ! i), Some (cd_key c))]"
  by (simp_all add: row_load_def Let_def loaded_row_def cd_key_def)

lemma loaded_redone:
  assumes "wants cs cl c" "row_for cl c r" "row_name r' = row_name r"
  shows "redone cs rv r (loaded_row c rv now r')"
  using assms row_nameD [OF assms(3)] row_nameD [OF loaded_row_simps(1) [of c rv now r']]
  by (auto simp: redone_def row_for_def cd_key_def intro!: good_loaded [of cs cl c])

lemma act_tune_shape:
  assumes "i < length (tb_rows t)" "row_for cl c (tb_rows t ! i)" "wants cs cl c"
  shows "\<exists>r. tb_rows (fst (row_load i c rv now ((retune i codec t)\<lparr>tb_waiting := w\<rparr>, ch))) = (tb_rows t)[i := r] \<and> redone cs rv (tb_rows t ! i) r"
proof -
  obtain r where r: "tb_rows (retune i codec t) = (tb_rows t)[i := r]" "row_name r = row_name (tb_rows t ! i)" using retune_rows by blast
  then show ?thesis using assms loaded_redone [OF assms(3,2) r(2)] by auto
qed

lemma act_add_shape:
  assumes "room_for cl (cd_kind c) t" "wants cs cl c"
  shows "\<exists>r. tb_rows (fst (row_load (length (tb_rows t)) c rv now ((new_row pick (cd_kind c) cl codec t)\<lparr>tb_waiting := w\<rparr>, ch))) = tb_rows t @ [r] \<and>
     added pick cs rv cl t r \<and> tb_ssrcs (new_row pick (cd_kind c) cl codec t) = tb_ssrcs t \<union> set (row_ssrcs r)"
proof -
  obtain r where r: "tb_rows (new_row pick (cd_kind c) cl codec t) = tb_rows t @ [r]" "r_mid r = tb_start t + length (tb_rows t)" "r_kind r = cd_kind c" "r_class r = cl"
    "r_ssrc r = pick (tb_ssrcs t) (tb_uplink t)"
    "r_rtx_ssrc r = (if cd_kind c = KVideo then Some (pick (insert (r_ssrc r) (tb_ssrcs t)) (tb_uplink t)) else None)"
    "tb_ssrcs (new_row pick (cd_kind c) cl codec t) = tb_ssrcs t \<union> set (row_ssrcs r)" by (rule new_row_adds)
  have red: "redone cs rv r (loaded_row c rv now r)"
    by (rule loaded_redone [OF assms(2)]) (simp_all add: row_for_def r)
  note eqs = row_nameD [OF loaded_row_simps(1) [of c rv now r]]
  show ?thesis
    using red r assms(1) by (intro exI [of _ "loaded_row c rv now r"]) (auto simp: added_def redone_def eqs)
qed

lemma act_shape:
  assumes "act pick cs rv now cl x y"
  shows "tb_frame (fst y) = tb_frame (fst x) \<and>
    (tb_rows (fst y) = tb_rows (fst x) \<and> tb_ssrcs (fst y) = tb_ssrcs (fst x) \<and> snd y = snd x \<or>
     (\<exists>i r. i < length (tb_rows (fst x)) \<and> r_class (tb_rows (fst x) ! i) = cl \<and> tb_rows (fst y) = (tb_rows (fst x))[i := r] \<and>
        redone cs rv (tb_rows (fst x) ! i) r \<and> tb_ssrcs (fst y) = tb_ssrcs (fst x) \<and> snd y \<noteq> []) \<or>
     (\<exists>r. tb_rows (fst y) = tb_rows (fst x) @ [r] \<and> added pick cs rv cl (fst x) r \<and>
        tb_ssrcs (fst y) = tb_ssrcs (fst x) \<union> set (row_ssrcs r) \<and> snd y \<noteq> []))"
  using assms
proof cases
  case (act_unload i t ch)
  then show ?thesis by (auto simp: row_unload_def redone_def good_track_def intro!: exI [of _ i])
next
  case (act_rehome i t c ch)
  then show ?thesis
    by (auto simp: row_rehome_def Let_def redone_def row_for_def intro!: exI [of _ i] good_loaded [of cs cl c])
next
  case (act_load i t c ch)
  then show ?thesis
    using loaded_redone [of cs cl c "tb_rows t ! i"] by (auto simp: row_for_def intro!: exI [of _ i])
next
  case (act_tune i t c ch w)
  then show ?thesis using act_tune_shape [of i t cl c cs rv now w "cd_codec c" ch] by (auto simp: row_for_def)
next
  case (act_add c t ch w)
  then show ?thesis using act_add_shape [of cl c t cs rv now w pick "cd_codec c" ch] by auto
qed auto

section \<open>What every sequence of actions keeps\<close>

definition lines_ok :: "sub_table \<Rightarrow> bool" where
  "lines_ok t \<longleftrightarrow> (\<forall>i < length (tb_rows t). r_mid (tb_rows t ! i) = tb_start t + i) \<and> length (tb_rows t) \<le> tb_limit t \<and>
     count_class Slot (tb_rows t) \<le> tb_slot_budget t \<and> (\<forall>k. length (filter (full_of k) (tb_rows t)) \<le> full_cap k) \<and>
     (\<forall>r \<in> set (tb_rows t). r_state r = Created \<or> r_track r \<noteq> None)"

definition ssrcs_ok :: "sub_table \<Rightarrow> bool" where
  "ssrcs_ok t \<longleftrightarrow> distinct (concat (map row_ssrcs (tb_rows t))) \<and> tb_ssrcs t = set (concat (map row_ssrcs (tb_rows t))) \<and> (\<forall>v \<in> tb_ssrcs t. 1 < v)"

definition rows_follow :: "nat \<Rightarrow> sub_row list \<Rightarrow> sub_row list \<Rightarrow> bool" where
  "rows_follow rv rs rs' \<longleftrightarrow> length rs \<le> length rs' \<and>
     (\<forall>i < length rs. rs' ! i = rs ! i \<or> row_name (rs' ! i) = row_name (rs ! i) \<and> r_since (rs' ! i) = rv) \<and>
     (\<forall>i < length rs'. length rs \<le> i \<longrightarrow> r_since (rs' ! i) = rv)"

lemma filter_update_same:
  assumes "p y = p (xs ! i)" "i < length xs"
  shows "length (filter p (xs[i := y])) = length (filter p xs)"
  using assms by (induction xs arbitrary: i) (auto split: nat.splits)

lemma redone_counts:
  assumes "redone cs rv (rs ! i) r" "i < length rs"
  shows "count_class cl (rs[i := r]) = count_class cl rs" "length (filter (full_of k) (rs[i := r])) = length (filter (full_of k) rs)"
    "map row_ssrcs (rs[i := r]) = map row_ssrcs rs"
  using assms row_nameD [of r "rs ! i"] unfolding redone_def count_class_def
  by (auto intro!: filter_update_same simp: full_of_def map_update list_update_same_conv)

lemma act_lines:
  assumes "act pick cs rv now cl x y" "lines_ok (fst x)"
  shows "lines_ok (fst y)"
proof -
  note eqs = tb_frame_eqs [of "fst y" "fst x"]
  consider "tb_rows (fst y) = tb_rows (fst x)"
    | i r where "i < length (tb_rows (fst x))" "tb_rows (fst y) = (tb_rows (fst x))[i := r]" "redone cs rv (tb_rows (fst x) ! i) r"
    | r where "tb_rows (fst y) = tb_rows (fst x) @ [r]" "added pick cs rv cl (fst x) r"
    using act_shape [OF assms(1)] by blast
  then show ?thesis
  proof cases
    case 1
    then show ?thesis using act_shape [OF assms(1)] assms(2) eqs by (simp add: lines_ok_def)
  next
    case 2
    then have "r_mid r = r_mid (tb_rows (fst x) ! i)" "r_state r = Created \<or> r_track r \<noteq> None" by (auto simp: redone_def row_name_def)
    then show ?thesis
      using act_shape [OF assms(1)] assms(2) eqs 2 redone_counts [OF 2(3,1)]
      by (auto simp: lines_ok_def nth_list_update dest!: set_update_subset_insert [THEN subsetD])
  next
    case 3
    then show ?thesis
      using act_shape [OF assms(1)] assms(2) eqs
      by (cases cl) (auto simp: lines_ok_def added_def room_for_def count_class_def full_of_def nth_append less_Suc_eq)
  qed
qed

lemma acts_lines: "acts pick cs rv now cl x y \<Longrightarrow> lines_ok (fst x) \<Longrightarrow> lines_ok (fst y)"
  by (induction rule: rtranclp_induct) (auto intro: act_lines)

lemma acts_frame: "acts pick cs rv now cl x y \<Longrightarrow> tb_frame (fst y) = tb_frame (fst x)"
  by (induction rule: rtranclp_induct) (auto dest: act_shape)

lemma rows_follow_refl [simp]: "rows_follow rv rs rs"
  by (simp add: rows_follow_def)

lemma rows_follow_redone:
  assumes "rows_follow rv rs rs'" "redone cs rv (rs' ! i) r" "i < length rs'"
  shows "rows_follow rv rs (rs'[i := r])"
  using assms by (auto simp: rows_follow_def redone_def nth_list_update)

lemma rows_follow_added:
  assumes "rows_follow rv rs rs'" "r_since r = rv"
  shows "rows_follow rv rs (rs' @ [r])"
  using assms by (auto simp: rows_follow_def nth_append)

lemma act_follows:
  assumes "act pick cs rv now cl x y" "rows_follow rv rs (tb_rows (fst x))" "snd x = [] \<longrightarrow> tb_rows (fst x) = rs"
  shows "rows_follow rv rs (tb_rows (fst y)) \<and> (snd y = [] \<longrightarrow> tb_rows (fst y) = rs)"
  using act_shape [OF assms(1)] assms(2,3) rows_follow_redone [OF assms(2)] rows_follow_added [OF assms(2)]
  by (elim conjE disjE exE) (simp_all add: added_def)

lemma acts_follow:
  assumes "acts pick cs rv now cl x y" "rows_follow rv rs (tb_rows (fst x))" "snd x = [] \<longrightarrow> tb_rows (fst x) = rs"
  shows "rows_follow rv rs (tb_rows (fst y)) \<and> (snd y = [] \<longrightarrow> tb_rows (fst y) = rs)"
  using assms by (induction rule: rtranclp_induct) (auto dest!: act_follows)

text \<open>Rows of the other class stay as they are.\<close>

lemma act_other_class:
  assumes "act pick cs rv now cl x y" "r_class r \<noteq> cl" "r \<in> set (tb_rows (fst x))"
  shows "r \<in> set (tb_rows (fst y))"
proof -
  have "r \<in> set ((tb_rows (fst x))[i := r'])" if "i < length (tb_rows (fst x))" "r_class (tb_rows (fst x) ! i) = cl" for i r'
    using assms(2,3) that by (metis in_set_conv_nth length_list_update nth_list_update_neq)
  then show ?thesis using act_shape [OF assms(1)] assms(3) by auto
qed

lemma acts_other_class:
  "acts pick cs rv now cl x y \<Longrightarrow> r_class r \<noteq> cl \<Longrightarrow> r \<in> set (tb_rows (fst x)) \<Longrightarrow> r \<in> set (tb_rows (fst y))"
  by (induction rule: rtranclp_induct) (auto intro: act_other_class)

text \<open>Among rows that carry only wanted tracks, actions put only wanted tracks.\<close>

lemma act_good:
  assumes "act pick cs rv now cl x y" "\<forall>r \<in> set (tb_rows (fst x)). P r \<longrightarrow> good_track cs r"
  shows "\<forall>r \<in> set (tb_rows (fst y)). P r \<longrightarrow> good_track cs r"
  using act_shape [OF assms(1)] assms(2)
  by (auto simp: redone_def added_def dest!: set_update_subset_insert [THEN subsetD])

lemma acts_good:
  assumes "acts pick cs rv now cl x y" "\<forall>r \<in> set (tb_rows (fst x)). P r \<longrightarrow> good_track cs r"
  shows "\<forall>r \<in> set (tb_rows (fst y)). P r \<longrightarrow> good_track cs r"
  using assms
proof (induction rule: rtranclp_induct)
  case (step y z)
  show ?case by (rule act_good [OF step.hyps(2) step.IH [OF step.prems]])
qed

section \<open>Source numbers\<close>

lemma free_number:
  fixes s u :: "u32 set"
  assumes "card s \<le> 300" "card u < 2 ^ 31"
  shows "\<exists>v. 1 < v \<and> v \<notin> s \<and> v \<notin> u"
proof (rule ccontr)
  assume "\<not> ?thesis"
  moreover have "v = 0 \<or> v = 1 \<or> 1 < v" for v :: u32
    by (cases v rule: linorder_cases [of _ 1]) (auto simp: word_less_nat_alt unat_eq_zero)
  ultimately have "UNIV \<subseteq> {0, 1} \<union> s \<union> u" by blast
  then have "card (UNIV :: u32 set) \<le> card ({0, 1} \<union> s \<union> u)" by (intro card_mono) auto
  also have "\<dots> \<le> card {0, 1 :: u32} + card s + card u" by (meson add_mono card_Un_le le_refl le_trans)
  also have "\<dots> \<le> 2 + 300 + (2 ^ 31 - 1)" using assms by simp
  finally show False by (simp add: card_word)
qed

lemma ssrcs_few:
  assumes "ssrcs_ok t" "lines_ok t"
  shows "card (tb_ssrcs t) \<le> 256"
proof -
  have "length (concat (map row_ssrcs rs)) \<le> 2 * length rs" for rs
    by (induction rs) (auto simp: row_ssrcs_def split: option.splits)
  then have "card (tb_ssrcs t) \<le> 2 * length (tb_rows t)" using assms(1) unfolding ssrcs_ok_def by (metis card_length le_trans)
  then show ?thesis using assms(2) by (auto simp: lines_ok_def tb_limit_def SUB_1PC_def SUB_2PC_def split: if_splits)
qed

lemma added_ssrcs:
  assumes "fresh_pick pick" "added pick cs rv cl t r" "card (tb_ssrcs t) \<le> 256" "card (tb_uplink t) < 2 ^ 31"
  shows "distinct (row_ssrcs r)" "set (row_ssrcs r) \<inter> tb_ssrcs t = {}" "\<forall>v \<in> set (row_ssrcs r). 1 < v"
proof -
  let ?s = "tb_ssrcs t" and ?u = "tb_uplink t"
  have pick: "1 < pick s ?u \<and> pick s ?u \<notin> s" if "card s \<le> 300" for s
    using free_number [OF that assms(4)] assms(1) unfolding fresh_pick_def by blast
  have a: "1 < pick ?s ?u" "pick ?s ?u \<notin> ?s" using assms(3) pick [of ?s] by auto
  have b: "1 < pick (insert x ?s) ?u" "pick (insert x ?s) ?u \<notin> insert x ?s" for x
    using pick [of "insert x ?s"] card_insert_le_m1 [of 257 ?s x] assms(3) by auto
  show "distinct (row_ssrcs r)" "set (row_ssrcs r) \<inter> ?s = {}" "\<forall>v \<in> set (row_ssrcs r). 1 < v"
    using assms(2) a b [of "pick ?s ?u"] by (auto simp: added_def row_ssrcs_def split: if_splits)
qed

lemma act_ssrcs:
  assumes "act pick cs rv now cl x y" "fresh_pick pick" "ssrcs_ok (fst x)" "lines_ok (fst x)" "card (tb_uplink (fst x)) < 2 ^ 31"
  shows "ssrcs_ok (fst y)"
  using act_shape [OF assms(1)]
proof (elim conjE disjE exE, goal_cases)
  case (2 i r)
  then show ?case using assms(3) redone_counts(3) [of cs rv "tb_rows (fst x)" i r] by (simp add: ssrcs_ok_def)
next
  case (3 r)
  then show ?case using assms(3) added_ssrcs [OF assms(2) 3(3) ssrcs_few [OF assms(3,4)] assms(5)] by (auto simp: ssrcs_ok_def)
qed (use assms(3) in \<open>simp add: ssrcs_ok_def\<close>)

lemma acts_ssrcs:
  assumes "acts pick cs rv now cl x y" "fresh_pick pick" "ssrcs_ok (fst x)" "lines_ok (fst x)" "card (tb_uplink (fst x)) < 2 ^ 31"
  shows "ssrcs_ok (fst y)"
  using assms
proof (induction rule: rtranclp_induct)
  case (step y z)
  then show ?case
    using act_ssrcs [OF step.hyps(2)] acts_lines [OF step.hyps(1)] tb_frame_eqs(5) [OF acts_frame [OF step.hyps(1)]] by simp
qed

section \<open>A synchronisation is a sequence of actions\<close>

lemma acts_wait: "acts pick cs rv now cl (t, ch) (t\<lparr>tb_waiting := w\<rparr>, ch)"
  by (blast intro: act_wait)

lemma unload_acts:
  assumes "\<And>r. p r \<Longrightarrow> r_class r = cl \<and> r_track r \<noteq> None"
  shows "acts pick cs rv now cl x (unload_where p rv x)"
proof -
  have "acts pick cs rv now cl x (foldl (\<lambda>x i. if p (tb_rows (fst x) ! i) then row_unload i rv x else x) x is) \<and>
      length (tb_rows (fst (foldl (\<lambda>x i. if p (tb_rows (fst x) ! i) then row_unload i rv x else x) x is))) = length (tb_rows (fst x))"
    if "\<forall>i \<in> set is. i < length (tb_rows (fst x))" for "is"
    using that
  proof (induction "is" rule: rev_induct)
    case (snoc i js)
    let ?y = "foldl (\<lambda>x i. if p (tb_rows (fst x) ! i) then row_unload i rv x else x) x js"
    have "act pick cs rv now cl ?y (row_unload i rv ?y)" if "p (tb_rows (fst ?y) ! i)"
      using act_unload [of i "fst ?y" cl pick cs rv now "snd ?y"] snoc assms [OF that] by simp
    moreover have "length (tb_rows (fst (row_unload i rv ?y))) = length (tb_rows (fst ?y))"
      by (simp add: row_unload_def case_prod_unfold split: option.splits)
    ultimately show ?case using snoc by (auto intro: rtranclp.rtrancl_into_rtrancl)
  qed simp
  then show ?thesis unfolding unload_where_def by simp
qed

lemma find_idxD: "find_idx p xs = Some i \<Longrightarrow> i < length xs \<and> p (xs ! i)"
  by (auto simp: find_idx_def find_Some_iff)

lemma min_byD: "min_by f xs = Some x \<Longrightarrow> x \<in> set xs"
  by (induction xs arbitrary: x) (auto split: option.splits if_splits)

lemma place_acts:
  "\<forall>c \<in> set ds. wants cs Slot c \<Longrightarrow> acts pick cs rv now Slot x (fst (place_slots pick rv now ds x))"
proof (induction ds arbitrary: x)
  case (Cons c ds)
  obtain t ch where x: "x = (t, ch)" by (cases x)
  have load: "act pick cs rv now Slot x (row_load i c rv now x)"
    if "find_idx (\<lambda>r. slot_fits c r \<and> r_track r = None) (tb_rows t) = Some i" for i
    using find_idxD [OF that] Cons.prems unfolding x by (auto intro!: act_load simp: row_for_def slot_fits_def)
  have add: "act pick cs rv now Slot x (row_load (length (tb_rows t)) c rv now (new_row pick (cd_kind c) Slot (cd_codec c) t, ch))"
    if "\<not> (tb_slot_budget t \<le> count_class Slot (tb_rows t) \<or> tb_limit t \<le> length (tb_rows t))"
    using act_add [of Slot c t cs pick rv now ch "tb_waiting (new_row pick (cd_kind c) Slot (cd_codec c) t)"] that Cons.prems
    unfolding x by (simp add: room_for_def)
  have "acts pick cs rv now Slot x (fst (place_slots pick rv now ds z))" if "act pick cs rv now Slot x z" for z
    using converse_rtranclp_into_rtranclp [OF that Cons.IH] Cons.prems by simp
  then show ?case using load add by (auto simp: x Let_def split: option.split)
qed simp

lemma rehome_act:
  assumes "i < length (tb_rows (fst x))"
  shows "acts pick cs rv now Full x (rehome_one k cs rv now x i)"
proof -
  obtain t ch where x: "x = (t, ch)" by (cases x)
  have "act pick cs rv now Full x (row_rehome i c rv now x)"
    if "full_of k (tb_rows t ! i)" "find (\<lambda>c. cd_class c = Full \<and> cd_kind c = k \<and> cd_track c = tid \<and> \<not> cd_paused c) cs = Some c" for c tid
    using that assms unfolding x by (intro act_rehome) (auto simp: row_for_def full_of_def wants_def find_Some_iff)
  then show ?thesis by (auto simp: rehome_one_def x Let_def split: option.split)
qed

lemma rehome_length: "length (tb_rows (fst (rehome_one k cs rv now x i))) = length (tb_rows (fst x))"
  by (cases x) (simp add: rehome_one_def row_rehome_def Let_def case_prod_unfold split: option.split)

lemma rehome_acts:
  "\<forall>i \<in> set js. i < length (tb_rows (fst x)) \<Longrightarrow> acts pick cs rv now Full x (foldl (rehome_one k cs rv now) x js)"
proof (induction js arbitrary: x)
  case (Cons i js)
  then show ?case
    using rtranclp_trans [OF rehome_act [of i x pick cs rv now k] Cons.IH [of "rehome_one k cs rv now x i"]] rehome_length [of k cs rv now x i] by simp
qed simp

lemma fill_act:
  assumes "wants cs Full c" "cd_kind c = k" "cap = full_cap k"
  shows "acts pick cs rv now Full (fst y) (fst (fill_one pick k cap rv now y c))"
proof -
  obtain t ch tuned where y: "y = ((t, ch), tuned)" by (metis prod.exhaust)
  let ?rows = "tb_rows t" and ?w = "(tb_waiting t)(cd_track c := None)"
  let ?empty = "filter (\<lambda>i. full_of k (?rows ! i) \<and> r_track (?rows ! i) = None) [0..<length ?rows]"
  have e: "i < length ?rows \<and> row_for Full c (?rows ! i)" if "i \<in> set ?empty" for i
    using that assms(2) by (auto simp: full_of_def row_for_def)
  have load: "acts pick cs rv now Full (t, ch) (row_load i c rv now (drop_waiting (cd_track c) t, ch))" if "i \<in> set ?empty" for i
    unfolding drop_waiting_def using e [OF that] assms(1)
    by (intro rtranclp.rtrancl_into_rtrancl [OF acts_wait [where w = ?w]] act_load) auto
  have tune: "acts pick cs rv now Full (t, ch) (row_load i c rv now (drop_waiting (cd_track c) (retune i (cd_codec c) t), ch))"
    if "i \<in> set ?empty" for i
    unfolding drop_waiting_def using e [OF that] assms(1) by (intro r_into_rtranclp act_tune) auto
  have add: "acts pick cs rv now Full (t, ch) (row_load (length ?rows) c rv now (drop_waiting (cd_track c) (new_row pick k Full (cd_codec c) t), ch))"
    if "length (filter (full_of k) ?rows) < cap" "length ?rows < tb_limit t"
    unfolding drop_waiting_def assms(2) [symmetric] using that assms by (intro r_into_rtranclp act_add) (auto simp: room_for_def)
  show ?thesis
    unfolding fill_one_def y prod.case fst_conv Let_def
    using load tune add acts_wait [of pick cs rv now Full t ch]
    by (auto simp: drop_waiting_def dest!: min_byD split: option.split)
qed

end
