(* ===== verification/Sub_Sync.thy ===== *)
theory Sub_Sync
  imports Sub_Act
begin

text \<open>
  A synchronisation decomposed: each of its stages is a sequence of elementary actions, the count of the
  slot rows taken at its start foresees exactly the rows that placing the slots adds, and what it keeps of
  the table is stated once.
\<close>

lemma fill_acts:
  "\<forall>c \<in> set ds. wants cs Full c \<and> cd_kind c = k \<Longrightarrow>
   acts pick cs rv now Full (fst y) (fst (foldl (fill_one pick k (full_cap k) rv now) y ds))"
proof (induction ds arbitrary: y)
  case (Cons c ds)
  then show ?case
    using rtranclp_trans [OF fill_act [of cs c k "full_cap k" pick rv now y] Cons.IH [of "fill_one pick k (full_cap k) rv now y c"]] by simp
qed simp

lemma set_target: "c \<in> set (target_of cs now k t) \<Longrightarrow> wants cs Full c \<and> cd_kind c = k"
  by (auto simp: target_of_def desired_def wants_def dest: in_set_takeD)

lemma sync_kind_stages:
  obtains x1 where "acts pick cs rv now Full (fst y) x1"
    "sync_kind pick cs rv now k y =
       foldl (fill_one pick k (full_cap k) rv now) (unload_where (outside (target_of cs now k (fst x1)) k) rv x1, snd y) (target_of cs now k (fst x1))"
proof -
  let ?x0 = "foldl (rehome_one k cs rv now) (fst y) [0..<length (tb_rows (fst (fst y)))]"
  let ?w = "mark_waiting (loaded_map k (tb_rows (fst ?x0))) now (desired k cs) (tb_waiting (fst ?x0))"
  have "acts pick cs rv now Full (fst y) ?x0" by (rule rehome_acts) simp
  moreover have "acts pick cs rv now Full ?x0 ((fst ?x0)\<lparr>tb_waiting := ?w\<rparr>, snd ?x0)"
    using acts_wait [of pick cs rv now Full "fst ?x0" "snd ?x0" ?w] by simp
  ultimately show ?thesis by (rule that [OF rtranclp_trans]) (simp add: sync_kind_def Let_def)
qed

lemma outside_acts:
  "acts pick cs rv now Full x (unload_where (outside target k) rv x)"
  by (rule unload_acts) (auto simp: outside_def full_of_def split: option.splits)

lemma sync_kind_acts: "acts pick cs rv now Full (fst y) (fst (sync_kind pick cs rv now k y))"
proof -
  obtain x1 where x1: "acts pick cs rv now Full (fst y) x1" and eq: "sync_kind pick cs rv now k y =
       foldl (fill_one pick k (full_cap k) rv now) (unload_where (outside (target_of cs now k (fst x1)) k) rv x1, snd y) (target_of cs now k (fst x1))"
    by (rule sync_kind_stages)
  let ?x2 = "unload_where (outside (target_of cs now k (fst x1)) k) rv x1"
  have "acts pick cs rv now Full (fst (?x2, snd y)) (fst (sync_kind pick cs rv now k y))"
    unfolding eq by (rule fill_acts) (use set_target in blast)
  then have "acts pick cs rv now Full ?x2 (fst (sync_kind pick cs rv now k y))" by (simp only: fst_conv)
  then show ?thesis by (rule rtranclp_trans [OF x1 rtranclp_trans [OF outside_acts]])
qed

section \<open>Unloading\<close>

definition unloaded :: "nat \<Rightarrow> sub_row \<Rightarrow> sub_row" where
  "unloaded rv r = r\<lparr>r_track := None, r_since := rv, r_state := Created, r_gate := None\<rparr>"

lemma row_unload_rows:
  "r_track (tb_rows t ! i) \<noteq> None \<Longrightarrow> tb_rows (fst (row_unload i rv (t, ch))) = (tb_rows t)[i := unloaded rv (tb_rows t ! i)]"
  by (auto simp: row_unload_def unloaded_def)

definition unload_at :: "(sub_row \<Rightarrow> bool) \<Rightarrow> nat \<Rightarrow> sub_table \<times> change list \<Rightarrow> nat \<Rightarrow> sub_table \<times> change list" where
  "unload_at p rv x i = (if p (tb_rows (fst x) ! i) then row_unload i rv x else x)"

lemma unload_rows:
  assumes "\<And>r. p r \<Longrightarrow> r_track r \<noteq> None"
  shows "tb_rows (fst (unload_where p rv x)) = map (\<lambda>r. if p r then unloaded rv r else r) (tb_rows (fst x))"
proof -
  define f where "f r = (if p r then unloaded rv r else r)" for r
  let ?rs = "tb_rows (fst x)"
  have "tb_rows (fst (foldl (unload_at p rv) x [0..<n])) = map f (take n ?rs) @ drop n ?rs" if "n \<le> length ?rs" for n
    using that
  proof (induction n)
    case (Suc n)
    obtain t ch where y: "foldl (unload_at p rv) x [0..<n] = (t, ch)" by (metis prod.exhaust)
    have n: "n < length ?rs" using Suc.prems by simp
    then have rows: "tb_rows t = map f (take n ?rs) @ ?rs ! n # drop (Suc n) ?rs"
      using Suc.IH y by (simp add: Cons_nth_drop_Suc)
    then have "tb_rows t ! n = ?rs ! n" using n by (simp add: nth_append)
    then have "tb_rows (fst (unload_at p rv (t, ch) n)) = map f (take n ?rs) @ f (?rs ! n) # drop (Suc n) ?rs"
      using rows n row_unload_rows [of t n rv ch] assms [of "?rs ! n"] by (simp add: unload_at_def f_def list_update_append)
    then show ?case using n y by (simp add: take_Suc_conv_app_nth)
  qed simp
  then show ?thesis unfolding unload_where_def unload_at_def [abs_def] f_def by simp
qed

section \<open>All or nothing\<close>

text \<open>
  The count taken before a synchronisation foresees exactly the rows that placing the slots adds: a row of
  the table at the start is free for placing iff the count could still claim it.
\<close>

definition foreseen :: "sub_row list \<Rightarrow> (string \<times> media_kind) set \<Rightarrow> nat set \<Rightarrow> sub_row list \<Rightarrow> bool" where
  "foreseen rs want claimed rs' \<longleftrightarrow> length rs \<le> length rs' \<and>
     (\<forall>i < length rs. r_class (rs' ! i) = r_class (rs ! i) \<and> r_kind (rs' ! i) = r_kind (rs ! i) \<and> r_tuple (rs' ! i) = r_tuple (rs ! i) \<and>
        (r_class (rs ! i) = Slot \<longrightarrow> (r_track (rs' ! i) = None \<longleftrightarrow> i \<notin> claimed \<and> (r_track (rs ! i) = None \<or> unwanted want (rs ! i))))) \<and>
     (\<forall>i < length rs'. length rs \<le> i \<longrightarrow> r_track (rs' ! i) \<noteq> None)"

lemma foreseen_find:
  assumes "foreseen rs want claimed rs'"
  shows "find_idx (\<lambda>r. slot_fits c r \<and> r_track r = None) rs' =
    find (\<lambda>i. i \<notin> claimed \<and> slot_fits c (rs ! i) \<and> (r_track (rs ! i) = None \<or> unwanted want (rs ! i))) [0..<length rs]"
proof -
  let ?p = "\<lambda>i. slot_fits c (rs' ! i) \<and> r_track (rs' ! i) = None"
  have "[0..<length rs'] = [0..<length rs] @ [length rs..<length rs']"
    using assms upt_add_eq_append [of 0 "length rs" "length rs' - length rs"] by (simp add: foreseen_def)
  moreover have "find ?p [length rs..<length rs'] = None"
    using assms by (auto simp: find_None_iff foreseen_def)
  moreover have "find ?p [0..<length rs] =
      find (\<lambda>i. i \<notin> claimed \<and> slot_fits c (rs ! i) \<and> (r_track (rs ! i) = None \<or> unwanted want (rs ! i))) [0..<length rs]"
    using assms by (intro find_cong) (auto simp: foreseen_def slot_fits_def)
  moreover have "find ?p (xs @ ys) = (case find ?p xs of None \<Rightarrow> find ?p ys | Some i \<Rightarrow> Some i)" for xs ys
    by (induction xs) auto
  ultimately show ?thesis by (simp add: find_idx_def split: option.split)
qed

lemma foreseen_load:
  assumes "foreseen rs want claimed rs'" "i < length rs" "r_class (rs ! i) = Slot"
  shows "foreseen rs want (insert i claimed) (rs'[i := loaded_row c rv now (rs' ! i)])"
  using assms row_nameD [OF loaded_row_simps(1) [of c rv now "rs' ! i"]] unfolding foreseen_def by (auto simp: nth_list_update)

lemma foreseen_add:
  assumes "foreseen rs want claimed rs'" "r_track r \<noteq> None"
  shows "foreseen rs want claimed (rs' @ [r])"
  using assms by (auto simp: foreseen_def nth_append)

lemma place_foreseen:
  assumes "foreseen rs want claimed (tb_rows (fst x))" "\<forall>c \<in> set ds. \<not> has_slot rs c"
    "fresh_scan rs want claimed ds = 0 \<or> count_class Slot (tb_rows (fst x)) + fresh_scan rs want claimed ds \<le> tb_slot_budget (fst x) \<and>
       length (tb_rows (fst x)) + fresh_scan rs want claimed ds \<le> tb_limit (fst x)"
  shows "snd (place_slots pick rv now ds x) = None"
  using assms
proof (induction ds arbitrary: claimed x)
  case (Cons c ds)
  obtain t ch where x: "x = (t, ch)" by (cases x)
  let ?find = "find (\<lambda>i. i \<notin> claimed \<and> slot_fits c (rs ! i) \<and> (r_track (rs ! i) = None \<or> unwanted want (rs ! i))) [0..<length rs]"
  have find: "find_idx (\<lambda>r. slot_fits c r \<and> r_track r = None) (tb_rows t) = ?find" using foreseen_find [OF Cons.prems(1)] x by simp
  show ?case
  proof (cases ?find)
    case None
    let ?y = "row_load (length (tb_rows t)) c rv now (new_row pick (cd_kind c) Slot (cd_codec c) t, ch)"
    obtain r where r: "tb_rows (new_row pick (cd_kind c) Slot (cd_codec c) t) = tb_rows t @ [r]" "r_class r = Slot" by (rule new_row_adds)
    then have rows: "tb_rows (fst ?y) = tb_rows t @ [loaded_row c rv now r]" by simp
    have "tb_slot_budget (fst ?y) = tb_slot_budget t" "tb_limit (fst ?y) = tb_limit t"
      using tb_frame_eqs [of "fst ?y" t] by simp_all
    moreover have "r_class (loaded_row c rv now r) = Slot" using r row_nameD(3) [OF loaded_row_simps(1)] by simp
    ultimately have "snd (place_slots pick rv now ds ?y) = None"
      using Cons.prems None rows foreseen_add [of rs want claimed "tb_rows t" "loaded_row c rv now r"]
      by (intro Cons.IH [of claimed]) (auto simp: x count_class_def)
    then show ?thesis using Cons.prems None find by (auto simp: x Let_def)
  next
    case (Some i)
    then have i: "i < length rs" "r_class (rs ! i) = Slot" by (auto simp: find_Some_iff slot_fits_def)
    let ?y = "row_load i c rv now (t, ch)"
    have frame: "tb_slot_budget (fst ?y) = tb_slot_budget t" "tb_limit (fst ?y) = tb_limit t"
      using tb_frame_eqs [of "fst ?y" t] by simp_all
    have "i < length (tb_rows t)" using i(1) Cons.prems(1) x by (simp add: foreseen_def)
    then have cnt: "count_class Slot (tb_rows (fst ?y)) = count_class Slot (tb_rows t)"
      using row_nameD(3) [OF loaded_row_simps(1)] by (simp add: count_class_def filter_update_same)
    have "snd (place_slots pick rv now ds ?y) = None"
      using Cons.prems Some frame cnt foreseen_load [OF Cons.prems(1) i, of c rv now]
      by (intro Cons.IH [of "insert i claimed"]) (auto simp: x)
    then show ?thesis using Some find by (simp add: x)
  qed
qed simp

lemma fresh_scan_filter:
  "fresh_scan rs want claimed cs = fresh_scan rs want claimed (filter (\<lambda>c. \<not> has_slot rs c) cs)"
  by (induction cs arbitrary: claimed) (auto split: option.split)

lemma unwanted_acts: "acts pick cs rv now Slot x (unload_where (unwanted want) rv x)"
  by (rule unload_acts) (auto simp: unwanted_def split: option.splits)

lemma unwanted_rows:
  "tb_rows (fst (unload_where (unwanted want) rv x)) = map (\<lambda>r. if unwanted want r then unloaded rv r else r) (tb_rows (fst x))"
  by (rule unload_rows) (auto simp: unwanted_def split: option.splits)

lemma unwanted_foreseen: "foreseen rs want {} (map (\<lambda>r. if unwanted want r then unloaded rv r else r) rs)"
  by (auto simp: foreseen_def unloaded_def)

lemma has_slot_kept:
  assumes "c \<in> set cs" "is_slot c"
  shows "has_slot (map (\<lambda>r. if unwanted (want_slot cs) r then unloaded rv r else r) rs) c = has_slot rs c"
proof -
  have "(cd_room c, cd_kind c) \<in> want_slot cs" using assms by (auto simp: want_slot_def)
  then show ?thesis
    by (induction rs) (auto simp: has_slot_def slot_loaded_def unwanted_def unloaded_def split: option.splits)
qed

definition slots_needed :: "cand list \<Rightarrow> sub_row list \<Rightarrow> cand list" where
  "slots_needed cs rs = filter (\<lambda>c. is_slot c \<and> \<not> has_slot rs c) cs"

definition too_many :: "cand list \<Rightarrow> sub_table \<Rightarrow> bool" where
  "too_many cs t \<longleftrightarrow>
     (let n = fresh_slot_rows (tb_rows t) cs (want_slot cs) in
      0 < n \<and> (tb_slot_budget t < count_class Slot (tb_rows t) + n \<or> tb_limit t < length (tb_rows t) + n))"

lemma slots_needed_kept:
  "slots_needed cs (map (\<lambda>r. if unwanted (want_slot cs) r then unloaded rv r else r) rs) = slots_needed cs rs"
  unfolding slots_needed_def by (rule filter_cong [OF refl]) (auto simp: has_slot_kept)

lemma needed_wanted: "\<forall>c \<in> set (slots_needed cs rs). wants cs Slot c"
  by (auto simp: slots_needed_def wants_def is_slot_def)

lemma place_succeeds:
  assumes "\<not> too_many cs t" "x = unload_where (unwanted (want_slot cs)) rv (t, [])"
  shows "snd (place_slots pick rv now (slots_needed cs (tb_rows (fst x))) x) = None"
proof -
  let ?rs = "tb_rows t" and ?want = "want_slot cs"
  have rows: "tb_rows (fst x) = map (\<lambda>r. if unwanted ?want r then unloaded rv r else r) ?rs"
    unfolding assms(2) by (simp add: unwanted_rows)
  have "tb_frame (fst x) = tb_frame t" using acts_frame [OF unwanted_acts, of ?want rv "(t, [])"] assms(2) by simp
  note eqs = tb_frame_eqs [OF this]
  have cnt: "count_class Slot (tb_rows (fst x)) = count_class Slot ?rs"
    unfolding rows count_class_def filter_map o_def length_map by (rule arg_cong [where f = length], rule filter_cong) (auto simp: unloaded_def)
  have "fresh_slot_rows ?rs cs ?want = fresh_scan ?rs ?want {} (slots_needed cs ?rs)"
    unfolding fresh_slot_rows_def slots_needed_def by (subst fresh_scan_filter) (simp add: conj_commute)
  then have "snd (place_slots pick rv now (slots_needed cs ?rs) x) = None"
    using assms(1) eqs cnt rows unwanted_foreseen [of ?rs ?want rv]
    by (intro place_foreseen [of ?rs ?want "{}"]) (auto simp: too_many_def Let_def slots_needed_def)
  then show ?thesis unfolding rows slots_needed_kept .
qed

lemma table_sync_cases:
  obtains
    (short) b where "too_many cs t" "table_sync pick cs now t = (\<lparr>so_changes = [], so_changed = False, so_mid_limit = True, so_budget = Some b\<rparr>, t)"
  | (served) x1 x2 y changed w where "\<not> too_many cs t"
      "x1 = unload_where (unwanted (want_slot cs)) (tb_arev t + 1) (t, [])"
      "place_slots pick (tb_arev t + 1) now (slots_needed cs (tb_rows (fst x1))) x1 = (x2, None)"
      "y = sync_kind pick cs (tb_arev t + 1) now KVideo (sync_kind pick cs (tb_arev t + 1) now KAudio (x2, False))"
      "snd (fst y) \<noteq> [] \<or> length (tb_rows (fst (fst y))) \<noteq> length (tb_rows t) \<longrightarrow> changed"
      "table_sync pick cs now t = (\<lparr>so_changes = snd (fst y), so_changed = changed, so_mid_limit = False, so_budget = None\<rparr>,
         (fst (fst y))\<lparr>tb_waiting := w, tb_arev := if changed then tb_arev t + 1 else tb_arev (fst (fst y))\<rparr>)"
proof (cases "too_many cs t")
  case True
  then show ?thesis using short unfolding table_sync_def too_many_def Let_def by simp
next
  case False
  let ?x1 = "unload_where (unwanted (want_slot cs)) (tb_arev t + 1) (t, [])"
  obtain x2 where x2: "place_slots pick (tb_arev t + 1) now (slots_needed cs (tb_rows (fst ?x1))) ?x1 = (x2, None)"
    using place_succeeds [OF False refl, of pick "tb_arev t + 1" now] by (metis prod.collapse)
  let ?y = "sync_kind pick cs (tb_arev t + 1) now KVideo (sync_kind pick cs (tb_arev t + 1) now KAudio (x2, False))"
  let ?w = "\<lambda>tid. if tid \<in> cd_track ` set cs then tb_waiting (fst (fst ?y)) tid else None"
  let ?changed = "snd (fst ?y) \<noteq> [] \<or> length (tb_rows (fst (fst ?y))) \<noteq> length (tb_rows t) \<or> snd ?y"
  have "table_sync pick cs now t = (\<lparr>so_changes = snd (fst ?y), so_changed = ?changed, so_mid_limit = False, so_budget = None\<rparr>,
     (fst (fst ?y))\<lparr>tb_waiting := ?w, tb_arev := if ?changed then tb_arev t + 1 else tb_arev (fst (fst ?y))\<rparr>)"
    using False x2 unfolding table_sync_def too_many_def Let_def slots_needed_def by (simp del: One_nat_def)
  then show ?thesis using served [OF False refl x2 refl, of ?changed ?w] by blast
qed

lemma sync_acts:
  assumes "x1 = unload_where (unwanted (want_slot cs)) rv (t, [])" "place_slots pick rv now (slots_needed cs (tb_rows (fst x1))) x1 = (x2, None)"
    "y = sync_kind pick cs rv now KVideo (sync_kind pick cs rv now KAudio (x2, False))"
  shows "acts pick cs rv now Slot (t, []) x2" "acts pick cs rv now Full x2 (fst y)"
proof -
  have "acts pick cs rv now Slot x1 x2" using place_acts [OF needed_wanted [of cs "tb_rows (fst x1)"], of pick rv now x1] assms(2) by simp
  then show "acts pick cs rv now Slot (t, []) x2" using unwanted_acts assms(1) by (metis rtranclp_trans)
  show "acts pick cs rv now Full x2 (fst y)"
    unfolding assms(3) by (rule rtranclp_trans [OF _ sync_kind_acts], rule sync_kind_acts [of pick cs rv now "(x2, False)", unfolded fst_conv])
qed

text \<open>What a synchronisation keeps, in one place.\<close>

lemma sync_keeps:
  assumes "t' = snd (table_sync pick cs now t)"
  shows "(tb_one_pc t', tb_slot_budget t', tb_acked t', tb_uplink t') = (tb_one_pc t, tb_slot_budget t, tb_acked t, tb_uplink t)"
    and "rows_follow (tb_arev t + 1) (tb_rows t) (tb_rows t')"
    and "tb_arev t' = tb_arev t + 1 \<or> tb_arev t' = tb_arev t \<and> tb_rows t' = tb_rows t"
    and "lines_ok t \<Longrightarrow> lines_ok t'"
    and "fresh_pick pick \<Longrightarrow> ssrcs_ok t \<Longrightarrow> lines_ok t \<Longrightarrow> card (tb_uplink t) < 2 ^ 31 \<Longrightarrow> ssrcs_ok t'"
proof -
  have "(tb_one_pc t', tb_slot_budget t', tb_acked t', tb_uplink t') = (tb_one_pc t, tb_slot_budget t, tb_acked t, tb_uplink t) \<and>
    rows_follow (tb_arev t + 1) (tb_rows t) (tb_rows t') \<and> (tb_arev t' = tb_arev t + 1 \<or> tb_arev t' = tb_arev t \<and> tb_rows t' = tb_rows t) \<and>
    (lines_ok t \<longrightarrow> lines_ok t') \<and> (fresh_pick pick \<and> ssrcs_ok t \<and> lines_ok t \<and> card (tb_uplink t) < 2 ^ 31 \<longrightarrow> ssrcs_ok t')"
  proof (cases rule: table_sync_cases [of cs t pick now])
    case (short b)
    then show ?thesis using assms by simp
  next
    case (served x1 x2 y changed w)
    let ?u = "fst (fst y)"
    note ac = sync_acts [OF served(2,3,4)]
    have fr: "tb_frame (fst x2) = tb_frame t" "tb_frame ?u = tb_frame t"
      using acts_frame [OF ac(1)] acts_frame [OF ac(2)] by simp_all
    have fol: "rows_follow (tb_arev t + 1) (tb_rows t) (tb_rows ?u)" "snd (fst y) = [] \<longrightarrow> tb_rows ?u = tb_rows t"
      using acts_follow [OF ac(2) conjunct1 conjunct2] acts_follow [OF ac(1), of "tb_rows t"] by simp_all
    have t': "t' = ?u\<lparr>tb_waiting := w, tb_arev := if changed then tb_arev t + 1 else tb_arev ?u\<rparr>" using served(6) assms by simp
    have lines: "lines_ok t' = lines_ok ?u" "ssrcs_ok t' = ssrcs_ok ?u"
      unfolding t' by (simp_all add: lines_ok_def ssrcs_ok_def tb_start_def tb_limit_def)
    show ?thesis
      using tb_frame_eqs [OF fr(1)] tb_frame_eqs [OF fr(2)] fol served(5) acts_lines [OF ac(1)] acts_lines [OF ac(2)]
        acts_ssrcs [OF ac(1)] acts_ssrcs [OF ac(2)] lines
      by (auto simp: t')
  qed
  then show "(tb_one_pc t', tb_slot_budget t', tb_acked t', tb_uplink t') = (tb_one_pc t, tb_slot_budget t, tb_acked t, tb_uplink t)"
    "rows_follow (tb_arev t + 1) (tb_rows t) (tb_rows t')" "tb_arev t' = tb_arev t + 1 \<or> tb_arev t' = tb_arev t \<and> tb_rows t' = tb_rows t"
    "lines_ok t \<Longrightarrow> lines_ok t'" "fresh_pick pick \<Longrightarrow> ssrcs_ok t \<Longrightarrow> lines_ok t \<Longrightarrow> card (tb_uplink t) < 2 ^ 31 \<Longrightarrow> ssrcs_ok t'"
    by blast+
qed

end
