(* ===== verification/Sub_Props.thy ===== *)
theory Sub_Props
  imports Sub_Sync
begin

text \<open>
  The properties of the subscription table: its lines stay within the limits and keep their numbers, a row
  is open only for what the client has acknowledged, a synchronisation is all or nothing, and afterwards
  the rows carry only what the subscriber may see.
\<close>

section \<open>The table as a machine\<close>

datatype sub_event =
    SvSync "cand list" nat
  | SvReady string nat nat
  | SvGates nat
  | SvCarry nat
  | SvAddUplink "u32 list"
  | SvRemoveUplink "u32 list"
  | SvForget string
  | SvPref string "u8 option" "bool option"
  | SvSeed "join_codec list" "ext_map list"
  | SvMarkSeeded

text \<open>A panic in \<open>seed\<close> poisons the lock of the table: no later operation has an effect.\<close>

fun sub_step :: "(u32 set \<Rightarrow> u32 set \<Rightarrow> u32) \<Rightarrow> sub_table option \<Rightarrow> sub_event \<Rightarrow> sub_table option" where
  "sub_step pick None e = None"
| "sub_step pick (Some t) (SvSync cs now) = Some (snd (table_sync pick cs now t))"
| "sub_step pick (Some t) (SvReady room ar now) = Some (snd (table_ready room ar now t))"
| "sub_step pick (Some t) (SvGates now) = Some (snd (gate_timeouts now t))"
| "sub_step pick (Some t) (SvCarry ar) = Some (table_carry ar t)"
| "sub_step pick (Some t) (SvAddUplink xs) = Some (add_uplink xs t)"
| "sub_step pick (Some t) (SvRemoveUplink xs) = Some (remove_uplink xs t)"
| "sub_step pick (Some t) (SvForget room) = Some (forget_room room t)"
| "sub_step pick (Some t) (SvPref track prio paused) = Some (snd (set_pref track prio paused t))"
| "sub_step pick (Some t) (SvSeed cs extmap) = (case table_seed cs extmap t of Inl _ \<Rightarrow> None | Inr r \<Rightarrow> Some (snd r))"
| "sub_step pick (Some t) SvMarkSeeded = Some (mark_seeded t)"

definition sub_inv :: "sub_table option \<Rightarrow> bool" where
  "sub_inv o1 \<longleftrightarrow> (case o1 of None \<Rightarrow> True
     | Some t \<Rightarrow> lines_ok t \<and> tb_acked t \<le> tb_arev t \<and> (\<forall>r \<in> set (tb_rows t). r_since r \<le> tb_arev t))"

text \<open>
  The operations other than \<open>sync\<close> keep the rows up to their state, and what the lines and source
  numbers depend on.
\<close>

definition same_rows :: "sub_table \<Rightarrow> sub_table \<Rightarrow> bool" where
  "same_rows t t' \<longleftrightarrow> (tb_one_pc t', tb_slot_budget t', tb_ssrcs t') = (tb_one_pc t, tb_slot_budget t, tb_ssrcs t) \<and>
     tb_arev t \<le> tb_arev t' \<and> (tb_acked t \<le> tb_arev t \<longrightarrow> tb_acked t' \<le> tb_arev t') \<and>
     (\<exists>f. tb_rows t' = map (\<lambda>r. r\<lparr>r_state := f r\<rparr>) (tb_rows t) \<and> (\<forall>r \<in> set (tb_rows t). f r = r_state r \<or> r_track r \<noteq> None))"

lemma same_rows_plain:
  assumes "(tb_one_pc t', tb_slot_budget t', tb_ssrcs t', tb_arev t', tb_acked t', tb_rows t') = (tb_one_pc t, tb_slot_budget t, tb_ssrcs t, tb_arev t, tb_acked t, tb_rows t)"
  shows "same_rows t t'"
  using assms by (auto simp: same_rows_def intro!: exI [of _ r_state])

lemma seed_codecs_keeps:
  "seed_codecs cs t = Inr t' \<Longrightarrow>
   (tb_one_pc t', tb_slot_budget t', tb_ssrcs t', tb_arev t', tb_acked t', tb_rows t', tb_uplink t') =
   (tb_one_pc t, tb_slot_budget t, tb_ssrcs t, tb_arev t, tb_acked t, tb_rows t, tb_uplink t)"
proof (induction cs arbitrary: t)
  case (Cons c cs)
  then show ?case by (auto simp: Let_def split: sum.splits option.splits dest!: Cons.IH)
qed simp

lemma table_seed_keeps:
  "table_seed cs extmap t = Inr r \<Longrightarrow>
   (tb_one_pc (snd r), tb_slot_budget (snd r), tb_ssrcs (snd r), tb_arev (snd r), tb_acked (snd r), tb_rows (snd r), tb_uplink (snd r)) =
   (tb_one_pc t, tb_slot_budget t, tb_ssrcs t, tb_arev t, tb_acked t, tb_rows t, tb_uplink t)"
  by (auto simp: table_seed_def split: if_splits sum.splits dest!: seed_codecs_keeps)

definition rest_of :: "sub_table \<Rightarrow> _" where
  "rest_of t = (tb_one_pc t, tb_slot_budget t, tb_ssrcs t, tb_arev t, tb_rows t, tb_uplink t)"

lemma ready_keeps [simp]:
  "rest_of (ready_mark room now t) = rest_of t" "tb_acked (ready_mark room now t) = tb_acked t" "rest_of (ready_ack ar t) = rest_of t"
  by (auto simp: rest_of_def ready_mark_def ready_ack_def Let_def split: option.split)

lemma ready_same_rows:
  "same_rows t (snd (table_ready room ar now t))" "tb_uplink (snd (table_ready room ar now t)) = tb_uplink t"
proof -
  let ?t1 = "ready_ack ar (ready_mark room now t)"
  let ?f = "\<lambda>r. if becomes_active (tb_acked ?t1) r then Active else r_state r"
  have rest: "rest_of ?t1 = rest_of t" by simp
  have ack: "tb_acked t \<le> tb_arev t \<Longrightarrow> tb_acked ?t1 \<le> tb_arev t"
    using rest ready_keeps(1) [of room now t] by (simp add: ready_ack_def Let_def rest_of_def)
  have rows: "tb_rows (snd (table_ready room ar now t)) = map (\<lambda>r. r\<lparr>r_state := ?f r\<rparr>) (tb_rows t)"
    using rest by (auto simp: table_ready_def Let_def rest_of_def)
  show "same_rows t (snd (table_ready room ar now t))"
    unfolding same_rows_def rows using rest ack
    by (auto simp: table_ready_def Let_def rest_of_def becomes_active_def intro!: exI [of _ ?f])
  show "tb_uplink (snd (table_ready room ar now t)) = tb_uplink t" using rest by (simp add: table_ready_def Let_def rest_of_def)
qed

lemma step_shape:
  assumes "sub_step pick (Some t) e = Some t'"
  shows "(\<exists>cs now. e = SvSync cs now \<and> t' = snd (table_sync pick cs now t)) \<or>
    same_rows t t' \<and> (tb_uplink t' \<subseteq> tb_uplink t \<or> (\<exists>xs. e = SvAddUplink xs \<and> tb_uplink t' = tb_uplink t \<union> set xs))"
  using assms
proof (cases e)
  case (SvReady room ar now)
  then show ?thesis using assms by (auto simp: ready_same_rows)
next
  case (SvCarry ar)
  then show ?thesis using assms by (auto simp: table_carry_def same_rows_def split: if_splits intro!: exI [of _ r_state])
next
  case (SvSeed cs extmap)
  then show ?thesis using assms table_seed_keeps [of cs extmap t] by (auto split: sum.splits intro!: same_rows_plain)
qed (auto intro!: same_rows_plain simp: gate_timeouts_def Let_def add_uplink_def remove_uplink_def forget_room_def set_pref_def mark_seeded_def)

lemma same_rows_lines:
  assumes "same_rows t t'"
  shows "lines_ok t \<Longrightarrow> lines_ok t'" "ssrcs_ok t \<Longrightarrow> ssrcs_ok t'"
proof -
  obtain f where f: "tb_rows t' = map (\<lambda>r. r\<lparr>r_state := f r\<rparr>) (tb_rows t)" "\<forall>r \<in> set (tb_rows t). f r = r_state r \<or> r_track r \<noteq> None"
    and eqs: "tb_one_pc t' = tb_one_pc t" "tb_slot_budget t' = tb_slot_budget t" "tb_ssrcs t' = tb_ssrcs t"
    using assms by (auto simp: same_rows_def)
  have "map row_ssrcs (tb_rows t') = map row_ssrcs (tb_rows t)" unfolding f(1) by (simp add: row_ssrcs_def)
  then show "ssrcs_ok t \<Longrightarrow> ssrcs_ok t'" unfolding ssrcs_ok_def eqs by metis
  have "full_of k \<circ> (\<lambda>r. r\<lparr>r_state := f r\<rparr>) = full_of k" for k by (auto simp: full_of_def)
  moreover have "lines_ok t \<Longrightarrow> r \<in> set (tb_rows t) \<Longrightarrow> f r = Created \<or> r_track r \<noteq> None" for r
    using f(2) by (fastforce simp: lines_ok_def)
  ultimately show "lines_ok t \<Longrightarrow> lines_ok t'"
    using eqs by (auto simp: lines_ok_def f(1) count_class_def tb_start_def tb_limit_def filter_map o_def)
qed

lemma sub_inv_step: "sub_inv o1 \<Longrightarrow> sub_inv (sub_step pick o1 e)"
proof (cases o1)
  case (Some t)
  assume inv: "sub_inv o1"
  show ?thesis
  proof (cases "sub_step pick o1 e")
    case (Some t')
    then consider cs now where "t' = snd (table_sync pick cs now t)" | "same_rows t t'" using step_shape [of pick t e t'] \<open>o1 = Some t\<close> by auto
    then show ?thesis
    proof cases
      case 1
      then have "r_since r \<le> tb_arev t'" if "r \<in> set (tb_rows t')" for r
        using sync_keeps(2,3) [OF 1] inv \<open>o1 = Some t\<close> that
        unfolding in_set_conv_nth rows_follow_def sub_inv_def
        by (smt (verit) add.commute le_add2 le_refl le_trans not_le nth_mem option.simps(5))
      then show ?thesis using sync_keeps(1,3,4) [OF 1] inv Some \<open>o1 = Some t\<close> by (auto simp: sub_inv_def)
    next
      case 2
      then show ?thesis
        using inv Some \<open>o1 = Some t\<close> same_rows_lines(1) [OF 2] by (fastforce simp: sub_inv_def same_rows_def)
    qed
  qed (simp add: sub_inv_def)
qed (simp add: sub_inv_def)

definition uplink_small :: "sub_table option \<Rightarrow> sub_event \<Rightarrow> bool" where
  "uplink_small o1 e \<longleftrightarrow> (case (o1, e) of (Some t, SvAddUplink xs) \<Rightarrow> card (tb_uplink t \<union> set xs) < 2 ^ 31 | _ \<Rightarrow> True)"

definition sub_strict :: "(u32 set \<Rightarrow> u32 set \<Rightarrow> u32) \<Rightarrow> sub_table option \<Rightarrow> bool" where
  "sub_strict pick o1 \<longleftrightarrow> (fresh_pick pick \<longrightarrow> (case o1 of None \<Rightarrow> True | Some t \<Rightarrow> ssrcs_ok t \<and> card (tb_uplink t) < 2 ^ 31))"

lemma sub_strict_step:
  assumes "sub_inv o1" "sub_strict pick o1" "uplink_small o1 e"
  shows "sub_strict pick (sub_step pick o1 e)"
proof (cases "sub_step pick o1 e")
  case (Some t')
  then obtain t where t: "o1 = Some t" by (cases o1) auto
  consider cs now where "t' = snd (table_sync pick cs now t)"
    | "same_rows t t'" "tb_uplink t' \<subseteq> tb_uplink t"
    | xs where "same_rows t t'" "e = SvAddUplink xs" "tb_uplink t' = tb_uplink t \<union> set xs"
    using step_shape [of pick t e t'] Some t by auto
  then show ?thesis
  proof cases
    case 1
    then show ?thesis using sync_keeps(1,5) [OF 1] assms Some t by (auto simp: sub_strict_def sub_inv_def)
  next
    case 2
    then show ?thesis
      using assms Some t same_rows_lines(2) [OF 2(1)] card_mono [OF _ 2(2)] by (auto simp: sub_strict_def intro: le_less_trans)
  next
    case 3
    then show ?thesis using assms Some t same_rows_lines(2) [OF 3(1)] by (auto simp: sub_strict_def uplink_small_def)
  qed
qed (simp add: sub_strict_def)

interpretation sub: guarded_machine "Some (table_new one_pc budget)" "sub_step pick" sub_inv uplink_small "sub_strict pick"
  for one_pc budget pick
proof
  show "sub_inv (Some (table_new one_pc budget))" "sub_strict pick (Some (table_new one_pc budget))"
    by (simp_all add: sub_inv_def sub_strict_def table_new_def lines_ok_def ssrcs_ok_def count_class_def)
qed (auto intro: sub_inv_step sub_strict_step)

section \<open>Lines and source numbers\<close>

text \<open>The draw of a source number as a scan, to show that the assumption on it can be met.\<close>

definition first_free :: "u32 set \<Rightarrow> u32 set \<Rightarrow> u32" where
  "first_free s u = (case find (\<lambda>v. v \<notin> s \<and> v \<notin> u) (map of_nat [2..<2 ^ 32]) of Some v \<Rightarrow> v | None \<Rightarrow> 0)"

lemma first_free_fresh: "fresh_pick first_free"
proof -
  let ?all = "map of_nat [2..<2 ^ 32] :: u32 list"
  have all: "v \<in> set ?all \<longleftrightarrow> 1 < v" for v :: u32
  proof -
    have "1 < v \<longleftrightarrow> unat v \<in> {2..<2 ^ 32}" using unsigned_less [of v] by (auto simp: word_less_nat_alt)
    also have "\<dots> \<longleftrightarrow> v \<in> of_nat ` {2..<2 ^ 32}" by (force simp: image_iff unat_of_nat)
    finally show ?thesis by (simp only: set_map set_upt)
  qed
  have "1 < first_free s u \<and> first_free s u \<notin> s \<and> first_free s u \<notin> u" if "1 < v" "v \<notin> s" "v \<notin> u" for s u and v :: u32
  proof -
    have "find (\<lambda>v. v \<notin> s \<and> v \<notin> u) ?all \<noteq> None" using that all unfolding find_None_iff by metis
    then obtain w where w: "find (\<lambda>v. v \<notin> s \<and> v \<notin> u) ?all = Some w" by blast
    then have "w \<notin> s \<and> w \<notin> u \<and> w \<in> set ?all" unfolding find_Some_iff by (metis nth_mem)
    moreover have "first_free s u = w" unfolding first_free_def w by (simp only: option.case)
    ultimately show ?thesis using all by metis
  qed
  then show ?thesis unfolding fresh_pick_def by blast
qed

lemma sub_run_induct:
  assumes "run_from (sub_step pick) (Some t0) es = Some t" "Q t0" "\<And>u e u'. Q u \<Longrightarrow> sub_step pick (Some u) e = Some u' \<Longrightarrow> Q u'"
  shows "Q t"
  using assms(1,2)
proof (induction es arbitrary: t0)
  case (Cons e es)
  have stuck: "run_from (sub_step pick) None es = None" for es by (induction es) auto
  show ?case using Cons assms(3) stuck [of es] by (cases "sub_step pick (Some t0) e") auto
qed simp

lemma step_config:
  assumes "sub_step pick (Some t) e = Some t'"
  shows "tb_one_pc t' = tb_one_pc t \<and> tb_slot_budget t' = tb_slot_budget t"
  using step_shape [OF assms]
proof (elim disjE exE conjE)
  fix cs now assume "t' = snd (table_sync pick cs now t)"
  then show ?thesis using sync_keeps(1) by blast
qed (simp_all add: same_rows_def)

lemma run_config:
  assumes "run_from (sub_step pick) (Some t0) es = Some t"
  shows "tb_one_pc t = tb_one_pc t0 \<and> tb_slot_budget t = tb_slot_budget t0"
  using assms by (rule sub_run_induct) (auto dest: step_config)

definition demo_slot :: cand where
  "demo_slot = \<lparr>cd_track = ''ptt'', cd_room = ''r1'', cd_kind = KAudio, cd_class = Slot, cd_codec = ''opus'', cd_rank = 0, cd_paused = False\<rparr>"

text \<open>
  Lines (C12): after any sequence of operations the lines are numbered from the start of the mode without
  a gap, there are at most 96 of them with one peer connection and 128 with two, at most the budget for
  slots and at most 25 for full tracks of each kind; all source numbers, of media and of repair, are
  different; and neither an acknowledgement nor a row is ahead of the revision. The draw of a number
  is assumed to end with an unused one, and the client to have fewer than \<open>2^31\<close> numbers of its own.
\<close>

theorem sub_table_sound:
  assumes "fresh_pick pick" "admits (sub_step pick) uplink_small (Some (table_new one_pc budget)) es"
    "run_from (sub_step pick) (Some (table_new one_pc budget)) es = Some t"
  shows "map r_mid (tb_rows t) = map (\<lambda>i. (if one_pc then 32 else 0) + i) [0..<length (tb_rows t)] \<and>
    length (tb_rows t) \<le> (if one_pc then 96 else 128) \<and>
    length (filter (\<lambda>r. r_class r = Slot) (tb_rows t)) \<le> budget \<and>
    (\<forall>k. length (filter (full_of k) (tb_rows t)) \<le> 25) \<and>
    distinct (concat (map row_ssrcs (tb_rows t))) \<and>
    tb_acked t \<le> tb_arev t \<and> (\<forall>r \<in> set (tb_rows t). r_since r \<le> tb_arev t)"
proof -
  have inv: "sub_inv (Some t)" using sub.inv_run [of pick one_pc budget es] assms(3) by simp
  have strict: "sub_strict pick (Some t)" using sub.strict_run [OF assms(2)] assms(3) by simp
  have cap: "full_cap k = 25" for k by (simp add: full_cap_def FULL_AUDIO_def FULL_VIDEO_def)
  have "tb_one_pc t = one_pc" "tb_slot_budget t = budget" using run_config [OF assms(3)] by (simp_all add: table_new_def)
  then show ?thesis
    using inv strict assms(1)
    by (auto simp: sub_inv_def sub_strict_def lines_ok_def ssrcs_ok_def tb_start_def tb_limit_def START_1PC_def START_2PC_def SUB_1PC_def SUB_2PC_def
        count_class_def cap intro!: nth_equalityI split: if_splits)
qed

theorem sub_table_sound_witness:
  "length (tb_rows (snd (table_sync first_free [demo_slot] 5 (table_new True 2)))) \<le> 96 \<and>
   distinct (concat (map row_ssrcs (tb_rows (snd (table_sync first_free [demo_slot] 5 (table_new True 2))))))"
  using sub_table_sound [OF first_free_fresh, of True 2 "[SvSync [demo_slot] 5]"] by (simp add: uplink_small_def)

section \<open>Open rows are as announced\<close>

lemma state_only [simp]:
  "row_entry (r\<lparr>r_state := st\<rparr>) = row_entry r" "row_name (r\<lparr>r_state := st\<rparr>) = row_name r"
  by (simp_all add: row_entry_def row_name_def split: row_class.split)

lemma step_announced:
  assumes "sub_step pick (Some t) e = Some t'"
  shows "tb_arev t \<le> tb_arev t'" "length (tb_rows t) \<le> length (tb_rows t')"
    "i < length (tb_rows t) \<Longrightarrow> row_name (tb_rows t' ! i) = row_name (tb_rows t ! i)"
    "i < length (tb_rows t') \<Longrightarrow> r_since (tb_rows t' ! i) \<le> tb_arev t \<Longrightarrow>
       i < length (tb_rows t) \<and> row_entry (tb_rows t' ! i) = row_entry (tb_rows t ! i) \<and> r_since (tb_rows t' ! i) = r_since (tb_rows t ! i)"
proof -
  have "tb_arev t \<le> tb_arev t' \<and> length (tb_rows t) \<le> length (tb_rows t') \<and>
    (\<forall>i < length (tb_rows t). row_name (tb_rows t' ! i) = row_name (tb_rows t ! i)) \<and>
    (\<forall>i < length (tb_rows t'). r_since (tb_rows t' ! i) \<le> tb_arev t \<longrightarrow>
       i < length (tb_rows t) \<and> row_entry (tb_rows t' ! i) = row_entry (tb_rows t ! i) \<and> r_since (tb_rows t' ! i) = r_since (tb_rows t ! i))"
    using step_shape [OF assms]
  proof (elim disjE exE conjE)
    fix cs now assume t': "t' = snd (table_sync pick cs now t)"
    note fol = sync_keeps(2) [OF t', unfolded rows_follow_def]
    have "i < length (tb_rows t) \<and> tb_rows t' ! i = tb_rows t ! i"
      if "i < length (tb_rows t')" "r_since (tb_rows t' ! i) \<le> tb_arev t" for i
      using fol that by (cases "i < length (tb_rows t)") auto
    then show ?thesis using sync_keeps(3) [OF t'] fol by auto
  qed (auto simp: same_rows_def)
  then show "tb_arev t \<le> tb_arev t'" "length (tb_rows t) \<le> length (tb_rows t')"
    "i < length (tb_rows t) \<Longrightarrow> row_name (tb_rows t' ! i) = row_name (tb_rows t ! i)"
    "i < length (tb_rows t') \<Longrightarrow> r_since (tb_rows t' ! i) \<le> tb_arev t \<Longrightarrow>
       i < length (tb_rows t) \<and> row_entry (tb_rows t' ! i) = row_entry (tb_rows t ! i) \<and> r_since (tb_rows t' ! i) = r_since (tb_rows t ! i)"
    by blast+
qed

text \<open>
  What is forwarded was announced (C13): let a client be shown the table at some moment, and acknowledge no more
  than its revision since; then every row that is open later, whatever happened in between, is exactly the row
  the client was shown, with the same number, codec, track and source numbers. Every line keeps its
  number, kind, class and source numbers for life.
\<close>

theorem open_rows_as_announced:
  assumes "run_from (sub_step pick) (Some t0) es = Some t" "tb_acked t \<le> tb_arev t0"
  shows "(\<forall>i < length (tb_rows t). r_since (tb_rows t ! i) \<le> tb_acked t \<longrightarrow>
      i < length (snd (snapshot t0)) \<and> snd (snapshot t0) ! i = row_entry (tb_rows t ! i)) \<and>
    (\<forall>i < length (tb_rows t0). i < length (tb_rows t) \<and> row_name (tb_rows t ! i) = row_name (tb_rows t0 ! i))"
proof -
  have "tb_arev t0 \<le> tb_arev t \<and>
    (\<forall>i < length (tb_rows t). r_since (tb_rows t ! i) \<le> tb_arev t0 \<longrightarrow> i < length (tb_rows t0) \<and> row_entry (tb_rows t ! i) = row_entry (tb_rows t0 ! i)) \<and>
    (\<forall>i < length (tb_rows t0). i < length (tb_rows t) \<and> row_name (tb_rows t ! i) = row_name (tb_rows t0 ! i))"
    using assms(1)
  proof (rule sub_run_induct)
    fix u e u'
    assume ind: "tb_arev t0 \<le> tb_arev u \<and>
        (\<forall>i < length (tb_rows u). r_since (tb_rows u ! i) \<le> tb_arev t0 \<longrightarrow> i < length (tb_rows t0) \<and> row_entry (tb_rows u ! i) = row_entry (tb_rows t0 ! i)) \<and>
        (\<forall>i < length (tb_rows t0). i < length (tb_rows u) \<and> row_name (tb_rows u ! i) = row_name (tb_rows t0 ! i))"
      and st: "sub_step pick (Some u) e = Some u'"
    note a = step_announced [OF st]
    show "tb_arev t0 \<le> tb_arev u' \<and>
        (\<forall>i < length (tb_rows u'). r_since (tb_rows u' ! i) \<le> tb_arev t0 \<longrightarrow> i < length (tb_rows t0) \<and> row_entry (tb_rows u' ! i) = row_entry (tb_rows t0 ! i)) \<and>
        (\<forall>i < length (tb_rows t0). i < length (tb_rows u') \<and> row_name (tb_rows u' ! i) = row_name (tb_rows t0 ! i))"
    proof (intro conjI allI impI)
      fix i assume i: "i < length (tb_rows u')" "r_since (tb_rows u' ! i) \<le> tb_arev t0"
      then have "i < length (tb_rows u) \<and> row_entry (tb_rows u' ! i) = row_entry (tb_rows u ! i) \<and> r_since (tb_rows u' ! i) = r_since (tb_rows u ! i)"
        using a(4) ind by (meson le_trans)
      then show "i < length (tb_rows t0)" "row_entry (tb_rows u' ! i) = row_entry (tb_rows t0 ! i)" using ind i(2) by auto
    qed (use ind a(1,2,3) in \<open>auto intro: le_trans less_le_trans\<close>)
  qed simp
  then show ?thesis using assms(2) by (auto simp: snapshot_def)
qed

section \<open>What a synchronisation serves\<close>

lemma loaded_has_slot:
  "row_for Slot c r \<Longrightarrow> slot_loaded c (loaded_row c rv now r)"
  using row_nameD [OF loaded_row_simps(1) [of c rv now r]] by (auto simp: slot_loaded_def row_for_def cd_key_def)

lemma place_keeps_slots:
  "has_slot (tb_rows (fst x)) d \<Longrightarrow> has_slot (tb_rows (fst (fst (place_slots pick rv now ds x)))) d"
proof (induction ds arbitrary: x)
  case (Cons c ds)
  obtain t ch where x: "x = (t, ch)" by (cases x)
  obtain j where j: "j < length (tb_rows t)" "slot_loaded d (tb_rows t ! j)" using Cons.prems x by (auto simp: has_slot_def list_ex_length)
  obtain r where r: "tb_rows (new_row pick (cd_kind c) Slot (cd_codec c) t) = tb_rows t @ [r]" by (rule new_row_adds)
  have new: "has_slot (tb_rows (fst (row_load (length (tb_rows t)) c rv now (new_row pick (cd_kind c) Slot (cd_codec c) t, ch)))) d"
    using Cons.prems by (simp add: x r has_slot_def)
  have load: "has_slot (tb_rows (fst (row_load i c rv now x))) d"
    if "find_idx (\<lambda>r. slot_fits c r \<and> r_track r = None) (tb_rows t) = Some i" for i
  proof -
    have "i \<noteq> j" using find_idxD [OF that] j(2) by (auto simp: slot_loaded_def)
    then show ?thesis using j by (auto simp: x has_slot_def list_ex_length intro!: exI [of _ j])
  qed
  show ?case using Cons.IH [OF new] Cons.IH [OF load] Cons.prems by (auto simp: x Let_def split: option.split)
qed simp

lemma place_gives_slots:
  "snd (place_slots pick rv now ds x) = None \<Longrightarrow> d \<in> set ds \<Longrightarrow> has_slot (tb_rows (fst (fst (place_slots pick rv now ds x)))) d"
proof (induction ds arbitrary: x)
  case (Cons c ds)
  obtain t ch where x: "x = (t, ch)" by (cases x)
  obtain r where r: "tb_rows (new_row pick (cd_kind c) Slot (cd_codec c) t) = tb_rows t @ [r]" "r_kind r = cd_kind c" "r_class r = Slot" by (rule new_row_adds)
  have new: "has_slot (tb_rows (fst (row_load (length (tb_rows t)) c rv now (new_row pick (cd_kind c) Slot (cd_codec c) t, ch)))) c"
    using loaded_has_slot [of c r rv now] r by (simp add: has_slot_def row_for_def)
  have load: "has_slot (tb_rows (fst (row_load i c rv now x))) c"
    if "find_idx (\<lambda>r. slot_fits c r \<and> r_track r = None) (tb_rows t) = Some i" for i
    using find_idxD [OF that] loaded_has_slot [of c "tb_rows t ! i" rv now]
    by (auto simp: x has_slot_def row_for_def slot_fits_def list_ex_length intro!: exI [of _ i])
  let ?new = "row_load (length (tb_rows t)) c rv now (new_row pick (cd_kind c) Slot (cd_codec c) t, ch)"
  show ?case
    using Cons.prems Cons.IH [of ?new] Cons.IH [of "row_load i c rv now (t, ch)" for i]
      place_keeps_slots [OF new, of pick rv now ds] place_keeps_slots [OF load, of _ pick rv now ds]
    by (auto simp: x Let_def split: option.splits if_splits)
qed simp

lemma full_acts_keep_slots:
  assumes "acts pick cs rv now Full x y" "has_slot (tb_rows (fst x)) d"
  shows "has_slot (tb_rows (fst y)) d"
  using assms acts_other_class [OF assms(1)] by (auto simp: has_slot_def slot_loaded_def list_ex_iff)

text \<open>
  All or nothing (C14): a synchronisation reports that lines are short exactly when the rows it would have to add for slots
  exceed the budget or the limit; then it leaves the table as it was and reports no change. Otherwise
  every slot asked for has a row that carries its room.
\<close>

theorem sync_all_or_nothing:
  assumes "table_sync pick cs now t = (out, t')"
  shows "so_mid_limit out = too_many cs t \<and>
    (so_mid_limit out \<longrightarrow> t' = t \<and> so_changes out = [] \<and> \<not> so_changed out \<and> so_budget out \<noteq> None) \<and>
    (\<not> so_mid_limit out \<longrightarrow> (\<forall>c \<in> set cs. cd_class c = Slot \<longrightarrow> has_slot (tb_rows t') c))"
proof (cases rule: table_sync_cases [of cs t pick now])
  case (short b)
  then show ?thesis using assms by auto
next
  case (served x1 x2 y changed w)
  have "has_slot (tb_rows t') c" if c: "c \<in> set cs" "cd_class c = Slot" for c
  proof -
    let ?ds = "slots_needed cs (tb_rows (fst x1))"
    have "has_slot (tb_rows (fst x2)) c"
    proof (cases "has_slot (tb_rows (fst x1)) c")
      case True
      then show ?thesis using place_keeps_slots [OF True, of pick "tb_arev t + 1" now ?ds] served(3) by simp
    next
      case False
      then have "c \<in> set ?ds" using c by (auto simp: slots_needed_def is_slot_def)
      then show ?thesis using place_gives_slots [of pick "tb_arev t + 1" now ?ds x1 c] served(3) by simp
    qed
    then have "has_slot (tb_rows (fst (fst y))) c" by (rule full_acts_keep_slots [OF sync_acts(2) [OF served(2,3,4)]])
    then show ?thesis using served(6) assms by simp
  qed
  then show ?thesis using served assms by auto
qed

lemma unwanted_good:
  assumes "r \<in> set (tb_rows (fst (unload_where (unwanted (want_slot cs)) rv x)))" "r_class r = Slot"
  shows "good_track cs r"
proof -
  have "\<not> unwanted (want_slot cs) r" using assms by (auto simp: unwanted_rows unloaded_def unwanted_def split: if_splits)
  then show ?thesis
    using assms(2) by (auto simp: unwanted_def good_track_def want_slot_def wants_def row_for_def is_slot_def split: option.splits)
qed

lemma outside_good:
  assumes "r \<in> set (tb_rows (fst (unload_where (outside (target_of cs now k t) k) rv x)))" "full_of k r"
  shows "good_track cs r"
proof -
  let ?p = "outside (target_of cs now k t) k"
  have "tb_rows (fst (unload_where ?p rv x)) = map (\<lambda>r. if ?p r then unloaded rv r else r) (tb_rows (fst x))"
    by (rule unload_rows) (auto simp: outside_def split: option.splits)
  then have "\<not> ?p r" using assms by (auto simp: unloaded_def outside_def split: if_splits)
  then show ?thesis
    using assms(2) set_target [of _ cs now k t]
    by (fastforce simp: outside_def good_track_def full_of_def row_for_def wants_def cd_key_def split: option.splits)
qed

lemma sync_kind_good:
  "r \<in> set (tb_rows (fst (fst (sync_kind pick cs rv now k y)))) \<Longrightarrow> full_of k r \<Longrightarrow> good_track cs r"
proof -
  obtain x1 where eq: "sync_kind pick cs rv now k y =
       foldl (fill_one pick k (full_cap k) rv now) (unload_where (outside (target_of cs now k (fst x1)) k) rv x1, snd y) (target_of cs now k (fst x1))"
    by (rule sync_kind_stages)
  let ?x2 = "unload_where (outside (target_of cs now k (fst x1)) k) rv x1"
  have "acts pick cs rv now Full (fst (?x2, snd y)) (fst (sync_kind pick cs rv now k y))"
    unfolding eq by (rule fill_acts) (use set_target in blast)
  then have "acts pick cs rv now Full ?x2 (fst (sync_kind pick cs rv now k y))" by (simp only: fst_conv)
  from acts_good [OF this, of "full_of k"] show "r \<in> set (tb_rows (fst (fst (sync_kind pick cs rv now k y)))) \<Longrightarrow> full_of k r \<Longrightarrow> good_track cs r"
    using outside_good by blast
qed

text \<open>
  Nothing else is served (C15): after a synchronisation that is not short of lines, every loaded row carries a track
  for which there is a wanted candidate of the row's class and kind in the same room; for a full row the candidate is
  that of the track itself, and it is not paused. A slot row names the room's shared slot, whatever speaks in it.
\<close>

theorem sync_serves_only_wanted:
  assumes "table_sync pick cs now t = (out, t')" "\<not> so_mid_limit out" "r \<in> set (tb_rows t')" "r_track r = Some (tid, room)"
  shows "\<exists>c \<in> set cs. cd_class c = r_class r \<and> cd_kind c = r_kind r \<and> cd_room c = room \<and> (r_class r = Full \<longrightarrow> cd_track c = tid \<and> \<not> cd_paused c)"
proof -
  obtain x1 x2 y where s:
      "x1 = unload_where (unwanted (want_slot cs)) (tb_arev t + 1) (t, [])"
      "place_slots pick (tb_arev t + 1) now (slots_needed cs (tb_rows (fst x1))) x1 = (x2, None)"
      "y = sync_kind pick cs (tb_arev t + 1) now KVideo (sync_kind pick cs (tb_arev t + 1) now KAudio (x2, False))"
      "tb_rows t' = tb_rows (fst (fst y))"
    by (cases rule: table_sync_cases [of cs t pick now]) (use assms in auto)
  let ?a = "acts pick cs (tb_arev t + 1) now"
  have a12: "?a Slot x1 x2" using place_acts [OF needed_wanted [of cs "tb_rows (fst x1)"], of pick "tb_arev t + 1" now x1] s(2) by simp
  have slot: "\<forall>r \<in> set (tb_rows (fst (fst y))). r_class r = Slot \<longrightarrow> good_track cs r"
    using acts_good [OF sync_acts(2) [OF s(1-3)], of "\<lambda>r. r_class r = Slot"] acts_good [OF a12, of "\<lambda>r. r_class r = Slot"]
      unwanted_good [of _ cs "tb_arev t + 1" "(t, [])"] s(1) by blast
  have audio: "\<forall>r \<in> set (tb_rows (fst (fst y))). full_of KAudio r \<longrightarrow> good_track cs r"
    unfolding s(3) using acts_good [OF sync_kind_acts, where P = "full_of KAudio"] sync_kind_good by blast
  have video: "\<forall>r \<in> set (tb_rows (fst (fst y))). full_of KVideo r \<longrightarrow> good_track cs r"
    unfolding s(3) using sync_kind_good by blast
  have "r_class r = Slot \<or> full_of KAudio r \<or> full_of KVideo r"
    by (cases "r_class r"; cases "r_kind r") (auto simp: full_of_def)
  then have "good_track cs r" using slot audio video assms(3) s(4) by metis
  then show ?thesis using assms(4) by (auto simp: good_track_def wants_def row_for_def cd_key_def)
qed

section \<open>Examples\<close>

definition demo_table :: sub_table where
  "demo_table = snd (table_sync (\<lambda>_ _. 7) [demo_slot] 5 (table_new True 1))"

definition demo_acked :: sub_table where
  "demo_acked = snd (table_ready ''r1'' 1 9 demo_table)"

lemma demo_sync:
  "\<not> so_mid_limit (fst (table_sync (\<lambda>_ _. 7) [demo_slot] 5 (table_new True 1)))"
  "so_mid_limit (fst (table_sync (\<lambda>_ _. 7) [demo_slot] 5 (table_new True 0)))"
  "map r_track (tb_rows demo_table) = [Some (''ptt'', ''r1'')]" "map r_class (tb_rows demo_table) = [Slot]"
  "map r_since (tb_rows demo_acked) = [1]" "tb_acked demo_acked = 1" "tb_arev demo_table = 1"
  by code_simp+

theorem open_rows_as_announced_witness:
  "snd (snapshot demo_table) ! 0 = row_entry (tb_rows demo_acked ! 0)"
proof -
  have "length (tb_rows demo_acked) = 1" using demo_sync(5) by (metis length_map length_Cons list.size(3) One_nat_def)
  moreover have "r_since (tb_rows demo_acked ! 0) = 1" using demo_sync(5) calculation by (cases "tb_rows demo_acked") auto
  ultimately show ?thesis
    using open_rows_as_announced [of "\<lambda>_ _. 7" demo_table "[SvReady ''r1'' 1 9]" demo_acked] demo_sync(6,7)
    by (simp add: demo_acked_def)
qed

theorem sync_all_or_nothing_witness:
  "snd (table_sync (\<lambda>_ _. 7) [demo_slot] 5 (table_new True 0)) = table_new True 0 \<and> has_slot (tb_rows demo_table) demo_slot"
  using sync_all_or_nothing [OF prod.collapse [symmetric], of "\<lambda>_ _. 7" "[demo_slot]" 5 "table_new True 0"]
    sync_all_or_nothing [OF prod.collapse [symmetric], of "\<lambda>_ _. 7" "[demo_slot]" 5 "table_new True 1"] demo_sync(1,2)
  by (simp add: demo_slot_def demo_table_def)

theorem sync_serves_only_wanted_witness:
  "\<exists>c \<in> set [demo_slot]. cd_class c = Slot \<and> cd_room c = ''r1''"
proof -
  have len: "length (tb_rows demo_table) = 1" using demo_sync(3) by (metis length_map length_Cons list.size(3) One_nat_def)
  then have "tb_rows demo_table ! 0 \<in> set (tb_rows demo_table)" "r_track (tb_rows demo_table ! 0) = Some (''ptt'', ''r1'')" "r_class (tb_rows demo_table ! 0) = Slot"
    using demo_sync(3,4) by (cases "tb_rows demo_table"; auto)+
  then show ?thesis
    using sync_serves_only_wanted [OF prod.collapse [symmetric] demo_sync(1), of "tb_rows demo_table ! 0" "''ptt''" "''r1''"]
    unfolding demo_table_def by fastforce
qed

end
