(* ===== verification/Hub_View.thy ===== *)
theory Hub_View
  imports Placement Keyspace
begin

text \<open>
  What a gateway sees of the bus (\<open>oxhubd/src/bus/view.rs\<close> and the parts of \<open>bus/mod.rs\<close> that feed and ask
  it): the tokens of nodes and rooms, the routing of rooms to nodes, deletions that wait until the bus is
  quiet, and the isolation of the gateway, during which the rooms of other nodes are held.
\<close>

definition SETTLE_MS :: nat where "SETTLE_MS = 1000"

datatype token_ev =
    NodePut string string
  | NodeDel string string
  | RoomPut string string string
  | RoomDel string string string

record node_seen =
  ns_inst :: string
  ns_live :: bool
  ns_gone_at :: "nat option"

record loc =
  lc_node :: string
  lc_inst :: string

record last_event =
  le_at :: nat
  le_kind :: string
  le_key :: string

record view =
  v_self :: string
  v_self_inst :: string
  v_self_declared :: bool
  v_grace :: nat
  v_nodes :: "(string, node_seen) btree"
  v_routing :: "(string, loc) btree"
  v_seen_other :: bool
  v_isolated :: "nat option"
  v_held :: "string btset"
  v_pending :: "token_ev list"
  v_last_token_at :: nat
  v_last_event :: "last_event option"
  v_duplicates :: nat
  v_recovered :: bool

record settled =
  st_dropped :: "string list"
  st_released :: "string list"
  st_isolated_now :: bool

definition settled_none :: settled where
  "settled_none = \<lparr>st_dropped = [], st_released = [], st_isolated_now = False\<rparr>"

definition view_new :: "string \<Rightarrow> string \<Rightarrow> nat \<Rightarrow> view" where
  "view_new node inst grace = \<lparr>v_self = node, v_self_inst = inst, v_self_declared = False, v_grace = grace, v_nodes = [], v_routing = [],
     v_seen_other = False, v_isolated = None, v_held = [], v_pending = [], v_last_token_at = 0, v_last_event = None, v_duplicates = 0,
     v_recovered = False\<rparr>"

section \<open>Tokens\<close>

fun event_name :: "token_ev \<Rightarrow> string \<times> string" where
  "event_name (NodePut n i) = (''put'', ''node/'' @ n @ ''/'' @ i)"
| "event_name (NodeDel n i) = (''delete'', ''node/'' @ n @ ''/'' @ i)"
| "event_name (RoomPut r n i) = (''put'', ''room/'' @ r @ ''/'' @ n @ ''/'' @ i)"
| "event_name (RoomDel r n i) = (''delete'', ''room/'' @ r @ ''/'' @ n @ ''/'' @ i)"

fun apply_token :: "token_ev \<Rightarrow> view \<Rightarrow> view" where
  "apply_token (NodePut n i) v =
     (let v1 = v\<lparr>v_pending := filter (\<lambda>p. p \<noteq> NodeDel n i) (v_pending v)\<rparr>;
          v2 = (if n \<noteq> v_self v
                then (if v_isolated v \<noteq> None then v1\<lparr>v_seen_other := True, v_isolated := None, v_recovered := True\<rparr> else v1\<lparr>v_seen_other := True\<rparr>)
                else v1)
      in v2\<lparr>v_nodes := bt_insert n \<lparr>ns_inst = i, ns_live = True, ns_gone_at = None\<rparr> (v_nodes v2)\<rparr>)"
| "apply_token (RoomPut r n i) v =
     v\<lparr>v_pending := filter (\<lambda>p. p \<noteq> RoomDel r n i) (v_pending v),
       v_duplicates := (case bt_get (v_routing v) r of Some old \<Rightarrow> if lc_node old \<noteq> n then v_duplicates v + 1 else v_duplicates v | None \<Rightarrow> v_duplicates v),
       v_held := bs_remove r (v_held v),
       v_routing := bt_insert r \<lparr>lc_node = n, lc_inst = i\<rparr> (v_routing v)\<rparr>"
| "apply_token del v = v\<lparr>v_pending := v_pending v @ [del]\<rparr>"

definition on_token :: "token_ev \<Rightarrow> nat \<Rightarrow> view \<Rightarrow> view" where
  "on_token ev now v = apply_token ev (v\<lparr>v_last_token_at := now,
     v_last_event := Some \<lparr>le_at = now, le_kind = fst (event_name ev), le_key = snd (event_name ev)\<rparr>\<rparr>)"

section \<open>Settling\<close>

definition settle_due :: "nat \<Rightarrow> view \<Rightarrow> bool" where
  "settle_due now v \<longleftrightarrow> v_pending v \<noteq> [] \<and> v_last_token_at v + SETTLE_MS \<le> now"

definition held_alive :: "view \<Rightarrow> string \<Rightarrow> bool" where
  "held_alive v room =
     (case bt_get (v_routing v) room of
        None \<Rightarrow> False
      | Some l \<Rightarrow> (case bt_get (v_nodes v) (lc_node l) of Some n \<Rightarrow> ns_live n | None \<Rightarrow> lc_node l = v_self v))"

fun release_rooms :: "string list \<Rightarrow> view \<Rightarrow> string list \<times> view" where
  "release_rooms [] v = ([], v)"
| "release_rooms (room # rs) v =
     (if held_alive v room then release_rooms rs v
      else case release_rooms rs (v\<lparr>v_routing := bt_remove room (v_routing v)\<rparr>) of (dropped, v') \<Rightarrow> (room # dropped, v'))"

definition release_held :: "view \<Rightarrow> string list \<times> view" where
  "release_held v = release_rooms (v_held v) (v\<lparr>v_held := []\<rparr>)"

fun settle_nodes :: "nat \<Rightarrow> token_ev list \<Rightarrow> bool \<times> view \<Rightarrow> bool \<times> view" where
  "settle_nodes now [] x = x"
| "settle_nodes now (ev # evs) (other, v) =
     settle_nodes now evs
       (case ev of
          NodeDel n i \<Rightarrow>
            (case bt_get (v_nodes v) n of
               Some s \<Rightarrow>
                 if ns_inst s = i
                 then (other \<or> n \<noteq> v_self v, v\<lparr>v_nodes := bt_insert n (s\<lparr>ns_live := False, ns_gone_at := Some now\<rparr>) (v_nodes v)\<rparr>)
                 else (other, v)
             | None \<Rightarrow> (other, v))
        | _ \<Rightarrow> (other, v))"

fun settle_rooms :: "token_ev list \<Rightarrow> string list \<times> view \<Rightarrow> string list \<times> view" where
  "settle_rooms [] x = x"
| "settle_rooms (ev # evs) (dropped, v) =
     settle_rooms evs
       (case ev of
          RoomDel r n i \<Rightarrow>
            if bt_get (v_routing v) r \<noteq> Some \<lparr>lc_node = n, lc_inst = i\<rparr> then (dropped, v)
            else if v_isolated v \<noteq> None \<and> n \<noteq> v_self v then (dropped, v\<lparr>v_held := bs_insert r (v_held v)\<rparr>)
            else (dropped @ [r], v\<lparr>v_routing := bt_remove r (v_routing v)\<rparr>)
        | _ \<Rightarrow> (dropped, v))"

definition others_live :: "view \<Rightarrow> bool" where
  "others_live v \<longleftrightarrow> list_ex (\<lambda>(k, n). k \<noteq> v_self v \<and> ns_live n) (v_nodes v)"

definition settle :: "nat \<Rightarrow> view \<Rightarrow> settled \<times> view" where
  "settle now v =
     (if v_pending v = [] \<and> v_isolated v = None \<and> v_held v \<noteq> [] then
        (if now < v_last_token_at v + SETTLE_MS then (settled_none, v)
         else case release_held v of (dropped, v') \<Rightarrow> (\<lparr>st_dropped = dropped, st_released = dropped, st_isolated_now = False\<rparr>, v'))
      else if \<not> settle_due now v then (settled_none, v)
      else
        (let batch = v_pending v;
             (other, v1) = settle_nodes now batch (False, v\<lparr>v_pending := []\<rparr>);
             iso = (v_seen_other v1 \<and> other \<and> \<not> others_live v1 \<and> v_isolated v1 = None);
             v2 = (if iso then v1\<lparr>v_isolated := Some now\<rparr> else v1);
             (dropped, v3) = settle_rooms batch ([], v2)
         in if v_isolated v3 = None
            then (case release_held v3 of (r, v4) \<Rightarrow> (\<lparr>st_dropped = dropped @ r, st_released = r, st_isolated_now = iso\<rparr>, v4))
            else (\<lparr>st_dropped = dropped, st_released = [], st_isolated_now = iso\<rparr>, v3)))"

section \<open>Asking the view\<close>

definition candidates :: "nat \<Rightarrow> view \<Rightarrow> string list" where
  "candidates now v =
     foldl (\<lambda>c (k, n). if ns_live n \<or> (case ns_gone_at n of Some g \<Rightarrow> now < g + v_grace v | None \<Rightarrow> False) then bs_insert k c else c)
       [v_self v] (v_nodes v)"

definition node_live :: "string \<Rightarrow> view \<Rightarrow> bool" where
  "node_live node v =
     (if node = v_self v then v_self_declared v else (case bt_get (v_nodes v) node of Some n \<Rightarrow> ns_live n | None \<Rightarrow> False))"

definition room_node :: "string \<Rightarrow> view \<Rightarrow> loc option" where
  "room_node room v = bt_get (v_routing v) room"

definition node_of_inst :: "string \<Rightarrow> view \<Rightarrow> string option" where
  "node_of_inst inst v = map_option lc_node (find (\<lambda>l. lc_inst l = inst) (map snd (v_routing v)))"

definition live_nodes :: "view \<Rightarrow> (string \<times> string) list" where
  "live_nodes v =
     (let xs = map (\<lambda>(k, n). (k, ns_inst n)) (filter (\<lambda>(k, n). ns_live n) (v_nodes v));
          xs' = (if v_self_declared v \<and> \<not> list_ex (\<lambda>(k, _). k = v_self v) xs then xs @ [(v_self v, v_self_inst v)] else xs)
      in sort xs')"

definition declare_self :: "view \<Rightarrow> view" where
  "declare_self v = v\<lparr>v_self_declared := True\<rparr>"

definition place :: "string \<Rightarrow> nat \<Rightarrow> view \<Rightarrow> (string \<times> bool) option" where
  "place room now v = map_option (\<lambda>n. (n, node_live n v)) (pick (candidates now v) room)"

definition on_token_sample :: "keys \<Rightarrow> string \<Rightarrow> bool \<Rightarrow> nat \<Rightarrow> view \<Rightarrow> view" where
  "on_token_sample ks key put now v =
     (case key_parse ks key of
        Some (PNode n i) \<Rightarrow> on_token (if put then NodePut n i else NodeDel n i) now v
      | Some (PRoom r n i) \<Rightarrow> on_token (if put then RoomPut r n i else RoomDel r n i) now v
      | _ \<Rightarrow> v)"

end
