(* ===== verification/Hub_View_Props.thy ===== *)
theory Hub_View_Props
  imports Hub_View
begin

text \<open>
  Properties of the gateway's view of the bus: routes are dropped only on the word of the bus, after it has been
  quiet; the routes of a gateway that was never isolated are current; a route can outlive its room.
\<close>

section \<open>Runs\<close>

datatype view_event = VToken token_ev nat | VSettle nat | VDeclare

fun view_step :: "view \<Rightarrow> view_event \<Rightarrow> view" where
  "view_step v (VToken ev now) = on_token ev now v"
| "view_step v (VSettle now) = snd (settle now v)"
| "view_step v VDeclare = declare_self v"

definition view_run :: "string \<Rightarrow> string \<Rightarrow> nat \<Rightarrow> view_event list \<Rightarrow> view" where
  "view_run node inst grace es = foldl view_step (view_new node inst grace) es"

text \<open>What the bus said last of a room's token: that it stands, or that it is gone.\<close>

fun says :: "string \<Rightarrow> loc \<Rightarrow> view_event \<Rightarrow> bool option" where
  "says r l (VToken (RoomPut r' n i) _) = (if r' = r \<and> \<lparr>lc_node = n, lc_inst = i\<rparr> = l then Some True else None)"
| "says r l (VToken (RoomDel r' n i) _) = (if r' = r \<and> \<lparr>lc_node = n, lc_inst = i\<rparr> = l then Some False else None)"
| "says r l _ = None"

definition last_word :: "string \<Rightarrow> loc \<Rightarrow> view_event list \<Rightarrow> bool option" where
  "last_word r l es = foldl (\<lambda>w e. case says r l e of Some b \<Rightarrow> Some b | None \<Rightarrow> w) None es"

lemma last_word_snoc: "last_word r l (es @ [e]) = (case says r l e of Some b \<Rightarrow> Some b | None \<Rightarrow> last_word r l es)"
  by (simp add: last_word_def split: option.split)

section \<open>What the loops do\<close>

definition v_config :: "view \<Rightarrow> _" where
  "v_config v = (v_self v, v_isolated v, v_pending v, v_last_token_at v, v_seen_other v)"

lemma release_rooms_eff:
  "release_rooms rs v = (d, v') \<Longrightarrow>
   set d \<subseteq> set rs \<and> (\<forall>q. bt_get (v_routing v') q = (if q \<in> set d then None else bt_get (v_routing v) q)) \<and> v_config v' = v_config v \<and> v_held v' = v_held v"
proof (induction rs arbitrary: v d)
  case (Cons room rs)
  show ?case
  proof (cases "held_alive v room")
    case True
    then show ?thesis using Cons by auto
  next
    case False
    then obtain d1 where "release_rooms rs (v\<lparr>v_routing := bt_remove room (v_routing v)\<rparr>) = (d1, v')" "d = room # d1"
      using Cons.prems by (auto split: prod.splits)
    then show ?thesis using Cons.IH by (fastforce simp: v_config_def)
  qed
qed auto

lemma settle_nodes_eff:
  "v_routing (snd (settle_nodes now evs (other, v))) = v_routing v \<and> v_held (snd (settle_nodes now evs (other, v))) = v_held v \<and>
   v_config (snd (settle_nodes now evs (other, v))) = v_config v"
proof (induction evs arbitrary: other v)
  case (Cons ev evs)
  then show ?case by (auto simp: v_config_def split: token_ev.split option.split)
qed simp

definition settling :: "token_ev list \<Rightarrow> view \<Rightarrow> string list \<Rightarrow> view \<Rightarrow> bool" where
  "settling batch v0 d v \<longleftrightarrow> (\<forall>q. bt_get (v_routing v) q = (if q \<in> set d then None else bt_get (v_routing v0) q)) \<and> v_config v = v_config v0 \<and>
     (\<forall>q \<in> set d. \<exists>l. RoomDel q (lc_node l) (lc_inst l) \<in> set batch \<and> bt_get (v_routing v0) q = Some l \<and> (v_isolated v0 = None \<or> lc_node l = v_self v0)) \<and>
     (\<forall>q \<in> set (v_held v). q \<in> set (v_held v0) \<or>
        (\<exists>l. RoomDel q (lc_node l) (lc_inst l) \<in> set batch \<and> bt_get (v_routing v0) q = Some l \<and> lc_node l \<noteq> v_self v0 \<and> v_isolated v0 \<noteq> None))"

lemma settling_hold:
  assumes "settling batch v0 d v" "RoomDel r n i \<in> set batch" "bt_get (v_routing v) r = Some \<lparr>lc_node = n, lc_inst = i\<rparr>" "v_isolated v \<noteq> None" "n \<noteq> v_self v"
  shows "settling batch v0 d (v\<lparr>v_held := bs_insert r (v_held v)\<rparr>)"
proof -
  have r: "bt_get (v_routing v0) r = Some \<lparr>lc_node = n, lc_inst = i\<rparr>" "n \<noteq> v_self v0" "v_isolated v0 \<noteq> None"
    using assms by (auto simp: settling_def v_config_def split: if_splits)
  then have "\<exists>l. RoomDel r (lc_node l) (lc_inst l) \<in> set batch \<and> bt_get (v_routing v0) r = Some l \<and> lc_node l \<noteq> v_self v0 \<and> v_isolated v0 \<noteq> None"
    using assms(2) by (intro exI [of _ "\<lparr>lc_node = n, lc_inst = i\<rparr>"]) auto
  then show ?thesis using assms(1) unfolding settling_def by (simp add: v_config_def)
qed

lemma settling_drop:
  assumes "settling batch v0 d v" "RoomDel r n i \<in> set batch" "bt_get (v_routing v) r = Some \<lparr>lc_node = n, lc_inst = i\<rparr>" "v_isolated v = None \<or> n = v_self v"
  shows "settling batch v0 (d @ [r]) (v\<lparr>v_routing := bt_remove r (v_routing v)\<rparr>)"
proof -
  have "bt_get (v_routing v0) r = Some \<lparr>lc_node = n, lc_inst = i\<rparr>" "v_isolated v0 = None \<or> n = v_self v0"
    using assms by (auto simp: settling_def v_config_def split: if_splits)
  then have "\<exists>l. RoomDel r (lc_node l) (lc_inst l) \<in> set batch \<and> bt_get (v_routing v0) r = Some l \<and> (v_isolated v0 = None \<or> lc_node l = v_self v0)"
    using assms(2) by (intro exI [of _ "\<lparr>lc_node = n, lc_inst = i\<rparr>"]) auto
  then show ?thesis using assms(1) unfolding settling_def by (auto simp: v_config_def)
qed

lemma settle_rooms_eff:
  "settling batch v0 d v \<Longrightarrow> set evs \<subseteq> set batch \<Longrightarrow> settle_rooms evs (d, v) = (d', v') \<Longrightarrow> settling batch v0 d' v'"
proof (induction evs arbitrary: d v)
  case (Cons ev evs)
  show ?case
  proof (cases ev)
    case (RoomDel r n i)
    then have mem: "RoomDel r n i \<in> set batch" using Cons.prems by simp
    let ?at = "bt_get (v_routing v) r = Some \<lparr>lc_node = n, lc_inst = i\<rparr>"
    show ?thesis
    proof (cases "?at \<and> (v_isolated v = None \<or> n = v_self v)")
      case True
      then have "settling batch v0 (d @ [r]) (v\<lparr>v_routing := bt_remove r (v_routing v)\<rparr>)" using settling_drop [OF Cons.prems(1) mem] by blast
      then show ?thesis using Cons.IH [of "d @ [r]"] Cons.prems RoomDel True by (auto split: if_splits)
    next
      case False
      show ?thesis
      proof (cases ?at)
        case True
        with False have "settling batch v0 d (v\<lparr>v_held := bs_insert r (v_held v)\<rparr>)" using settling_hold [OF Cons.prems(1) mem] by blast
        then show ?thesis using Cons.IH [of d] Cons.prems RoomDel True False by auto
      next
        case False
        then show ?thesis using Cons.IH [of d v] Cons.prems RoomDel by auto
      qed
    qed
  qed (use Cons.IH [of d v] Cons.prems in auto)
qed simp

text \<open>What a settling does: the routes it drops, and why; the rooms it holds, and why.\<close>

definition gone :: "view \<Rightarrow> string \<Rightarrow> loc \<Rightarrow> bool" where
  "gone v q l \<longleftrightarrow> RoomDel q (lc_node l) (lc_inst l) \<in> set (v_pending v) \<and> bt_get (v_routing v) q = Some l"

definition settle_spec :: "nat \<Rightarrow> view \<Rightarrow> string list \<Rightarrow> view \<Rightarrow> bool" where
  "settle_spec now v d v' \<longleftrightarrow> v_self v' = v_self v \<and> v_last_token_at v' = v_last_token_at v \<and> set (v_pending v') \<subseteq> set (v_pending v) \<and>
     (\<forall>q. bt_get (v_routing v') q = (if q \<in> set d then None else bt_get (v_routing v) q)) \<and>
     (d \<noteq> [] \<longrightarrow> v_last_token_at v + SETTLE_MS \<le> now) \<and>
     (\<forall>q \<in> set d. q \<in> set (v_held v) \<and> v_isolated v' = None \<or> (\<exists>l. gone v q l \<and> (v_isolated v' = None \<or> lc_node l = v_self v))) \<and>
     (\<forall>q \<in> set (v_held v'). q \<in> set (v_held v) \<and> (v_isolated v' \<noteq> None \<or> d = []) \<or> v_isolated v' \<noteq> None \<and> (\<exists>l. gone v q l \<and> lc_node l \<noteq> v_self v))"

lemma release_held_eff:
  assumes "release_held v = (d, v')"
  shows "set d \<subseteq> set (v_held v)" "\<forall>q. bt_get (v_routing v') q = (if q \<in> set d then None else bt_get (v_routing v) q)"
    "v_config v' = v_config v" "v_held v' = []"
  using release_rooms_eff [OF assms [unfolded release_held_def]] by (simp_all add: v_config_def)

lemma settle_batch:
  assumes "settle now v = (s, v')" "settle_due now v"
  obtains v2 d3 v3 where "v_routing v2 = v_routing v" "v_held v2 = v_held v" "v_self v2 = v_self v" "v_pending v2 = []" "v_last_token_at v2 = v_last_token_at v"
    "settle_rooms (v_pending v) ([], v2) = (d3, v3)" "settling (v_pending v) v2 d3 v3"
    "v_isolated v3 = None \<longrightarrow> (\<exists>r. release_held v3 = (r, v') \<and> st_dropped s = d3 @ r)" "v_isolated v3 \<noteq> None \<longrightarrow> v' = v3 \<and> st_dropped s = d3"
proof -
  obtain other v1 where v1: "settle_nodes now (v_pending v) (False, v\<lparr>v_pending := []\<rparr>) = (other, v1)" by (metis prod.exhaust)
  define iso where "iso = (v_seen_other v1 \<and> other \<and> \<not> others_live v1 \<and> v_isolated v1 = None)"
  define v2 where "v2 = (if iso then v1\<lparr>v_isolated := Some now\<rparr> else v1)"
  obtain d3 v3 where v3: "settle_rooms (v_pending v) ([], v2) = (d3, v3)" by (metis prod.exhaust)
  have "v_routing v1 = v_routing v" "v_held v1 = v_held v" "v_config v1 = v_config (v\<lparr>v_pending := []\<rparr>)"
    using settle_nodes_eff [of now "v_pending v" False "v\<lparr>v_pending := []\<rparr>"] v1 by (simp_all add: v_config_def)
  then have e2: "v_routing v2 = v_routing v" "v_held v2 = v_held v" "v_self v2 = v_self v" "v_pending v2 = []" "v_last_token_at v2 = v_last_token_at v"
    by (auto simp: v2_def v_config_def)
  have "settling (v_pending v) v2 [] v2" by (simp add: settling_def)
  then have e3: "settling (v_pending v) v2 d3 v3" using settle_rooms_eff v3 by blast
  have pend: "v_pending v \<noteq> []" using assms(2) by (simp add: settle_due_def)
  have fin: "v_isolated v3 = None \<longrightarrow> (\<exists>r. release_held v3 = (r, v') \<and> st_dropped s = d3 @ r)" "v_isolated v3 \<noteq> None \<longrightarrow> v' = v3 \<and> st_dropped s = d3"
    using assms pend v1 v3 by (auto simp: settle_def Let_def iso_def v2_def split: prod.splits)
  show ?thesis by (rule that [OF e2 v3 e3 fin])
qed

lemma settle_eff:
  assumes "settle now v = (s, v')"
  shows "settle_spec now v (st_dropped s) v'"
proof (cases "settle_due now v")
  case False
  then consider "v' = v" "st_dropped s = []"
    | d where "release_held v = (d, v')" "st_dropped s = d" "v_isolated v = None" "v_last_token_at v + SETTLE_MS \<le> now"
    using assms by (cases "release_held v") (auto simp: settle_def settled_none_def split: if_splits)
  then show ?thesis
  proof cases
    case 2
    then show ?thesis using release_held_eff [OF 2(1)] by (auto simp: settle_spec_def v_config_def)
  qed (simp add: settle_spec_def)
next
  case due: True
  obtain v2 d3 v3 where e2: "v_routing v2 = v_routing v" "v_held v2 = v_held v" "v_self v2 = v_self v" "v_pending v2 = []" "v_last_token_at v2 = v_last_token_at v"
    and v3: "settle_rooms (v_pending v) ([], v2) = (d3, v3)" and e3: "settling (v_pending v) v2 d3 v3"
    and rel: "v_isolated v3 = None \<longrightarrow> (\<exists>r. release_held v3 = (r, v') \<and> st_dropped s = d3 @ r)" "v_isolated v3 \<noteq> None \<longrightarrow> v' = v3 \<and> st_dropped s = d3"
    by (rule settle_batch [OF assms due])
  have c3: "v_self v3 = v_self v" "v_pending v3 = []" "v_last_token_at v3 = v_last_token_at v" "v_isolated v3 = v_isolated v2"
    using e3 e2 by (auto simp: settling_def v_config_def)
  have quiet: "v_last_token_at v + SETTLE_MS \<le> now" using due by (auto simp: settle_due_def)
  show ?thesis
  proof (cases "v_isolated v3 = None")
    case True
    then obtain r where r: "release_held v3 = (r, v')" "st_dropped s = d3 @ r" using rel by blast
    show ?thesis
      using release_held_eff [OF r(1)] r(2) e3 e2 c3 quiet True unfolding settle_spec_def settling_def gone_def v_config_def
      by (auto split: if_splits)
  next
    case False
    then show ?thesis
      using rel e3 e2 c3 quiet unfolding settle_spec_def settling_def gone_def v_config_def by auto
  qed
qed

section \<open>The word of the bus\<close>

definition view_ok :: "view_event list \<Rightarrow> view \<Rightarrow> bool" where
  "view_ok es v \<longleftrightarrow> (\<forall>r l. RoomDel r (lc_node l) (lc_inst l) \<in> set (v_pending v) \<longrightarrow> last_word r l es = Some False) \<and>
     (\<forall>q \<in> set (v_held v). \<exists>l. bt_get (v_routing v) q = Some l \<and> last_word q l es = Some False \<and> lc_node l \<noteq> v_self v)"

lemma loc_eq: "\<lparr>lc_node = n, lc_inst = i\<rparr> = l \<longleftrightarrow> n = lc_node l \<and> i = lc_inst l"
  by (cases l) auto

lemma view_ok_token:
  assumes "view_ok es v"
  shows "view_ok (es @ [VToken ev now]) (on_token ev now v)"
proof (cases ev)
  case (RoomPut r n i)
  then show ?thesis using assms unfolding view_ok_def on_token_def by (auto simp: last_word_snoc loc_eq)
next
  case (RoomDel r n i)
  then show ?thesis using assms unfolding view_ok_def on_token_def by (auto simp: last_word_snoc loc_eq)
next
  case (NodePut n i)
  then show ?thesis using assms unfolding view_ok_def on_token_def by (auto simp: last_word_snoc Let_def)
next
  case (NodeDel n i)
  then show ?thesis using assms unfolding view_ok_def on_token_def by (auto simp: last_word_snoc)
qed

lemma view_ok_settle:
  assumes "view_ok es v" "settle now v = (s, v')"
  shows "view_ok (es @ [VSettle now]) v'"
proof -
  note sp = settle_eff [OF assms(2), unfolded settle_spec_def]
  have "\<exists>l. bt_get (v_routing v') q = Some l \<and> last_word q l es = Some False \<and> lc_node l \<noteq> v_self v" if q: "q \<in> set (v_held v')" for q
  proof -
    obtain l where l: "bt_get (v_routing v) q = Some l" "last_word q l es = Some False" "lc_node l \<noteq> v_self v" and c: "v_isolated v' \<noteq> None \<or> st_dropped s = []"
      using sp q assms(1) unfolding view_ok_def gone_def by metis
    have "q \<notin> set (st_dropped s)" using sp l c unfolding gone_def by (metis option.inject list.set(1) empty_iff)
    then show ?thesis using sp l by auto
  qed
  then show ?thesis using sp assms(1) unfolding view_ok_def by (auto simp: last_word_snoc)
qed

lemma view_ok_run: "view_ok es (view_run node inst grace es) \<and> v_self (view_run node inst grace es) = node"
proof (induction es rule: rev_induct)
  case Nil
  show ?case by (simp add: view_run_def view_ok_def view_new_def)
next
  case (snoc e es)
  let ?v = "view_run node inst grace es"
  have run: "view_run node inst grace (es @ [e]) = view_step ?v e" by (simp add: view_run_def)
  show ?case
  proof (cases e)
    case (VToken ev now)
    moreover have "v_self (on_token ev now ?v) = v_self ?v" by (cases ev) (auto simp: on_token_def Let_def)
    ultimately show ?thesis using snoc view_ok_token run by simp
  next
    case (VSettle now)
    then show ?thesis
      using snoc view_ok_settle [of es ?v now "fst (settle now ?v)"] settle_eff [of now ?v "fst (settle now ?v)"] run
      by (simp add: settle_spec_def)
  next
    case VDeclare
    then show ?thesis using snoc run by (auto simp: view_ok_def declare_self_def last_word_snoc)
  qed
qed

text \<open>
  Routes are dropped on the word of the bus only (C16): when a settling drops a room, the room was routed to a node
  whose token for it the bus said last to be gone, no token had come for a second, and the gateway
  is not isolated, or the room was its own; the routes of all other rooms stay as they are.
\<close>

theorem view_drops_only_gone_rooms:
  assumes "settle now (view_run node inst grace es) = (s, v')" "r \<in> set (st_dropped s)"
  shows "(\<exists>l. bt_get (v_routing (view_run node inst grace es)) r = Some l \<and> last_word r l es = Some False \<and> (v_isolated v' = None \<or> lc_node l = node)) \<and>
    v_last_token_at (view_run node inst grace es) + 1000 \<le> now \<and>
    (\<forall>q. bt_get (v_routing v') q = (if q \<in> set (st_dropped s) then None else bt_get (v_routing (view_run node inst grace es)) q))"
proof -
  let ?v = "view_run node inst grace es"
  note sp = settle_eff [OF assms(1), unfolded settle_spec_def]
  have ok: "view_ok es ?v" "v_self ?v = node" using view_ok_run by auto
  have "\<exists>l. bt_get (v_routing ?v) r = Some l \<and> last_word r l es = Some False \<and> (v_isolated v' = None \<or> lc_node l = node)"
    using sp assms(2) ok unfolding view_ok_def gone_def by metis
  then show ?thesis using sp assms(2) by (auto simp: SETTLE_MS_def)
qed

definition demo_bus :: "view_event list" where
  "demo_bus = [VToken (NodePut ''b'' ''b1'') 0, VToken (RoomPut ''r'' ''b'' ''b1'') 0, VToken (RoomDel ''r'' ''b'' ''b1'') 1]"

lemma demo_bus_drops: "st_dropped (fst (settle 2000 (view_run ''a'' ''a1'' 30000 demo_bus))) = [''r'']"
  by (simp add: demo_bus_def view_run_def on_token_def view_new_def settle_def settle_due_def SETTLE_MS_def others_live_def release_held_def Let_def
      bt_get_def bs_remove_def bt_remove_def)

theorem view_drops_only_gone_rooms_witness:
  "\<exists>l. bt_get (v_routing (view_run ''a'' ''a1'' 30000 demo_bus)) ''r'' = Some l \<and> last_word ''r'' l demo_bus = Some False"
  using view_drops_only_gone_rooms [OF prod.collapse [symmetric], of "''r''" 2000 "''a''" "''a1''" 30000 demo_bus] demo_bus_drops by auto

section \<open>Current routes\<close>

lemma settle_rooms_grows: "settle_rooms evs (d, v) = (d', v') \<Longrightarrow> set d \<subseteq> set d'"
proof (induction evs arbitrary: d v)
  case (Cons ev evs)
  then show ?case by (auto split: token_ev.splits if_splits) fastforce+
qed simp

lemma settle_rooms_complete:
  "settle_rooms evs (d, v) = (d', v') \<Longrightarrow> v_isolated v = None \<Longrightarrow> RoomDel q n i \<in> set evs \<Longrightarrow>
   bt_get (v_routing v) q = Some \<lparr>lc_node = n, lc_inst = i\<rparr> \<or> q \<in> set d \<Longrightarrow> q \<in> set d'"
proof (induction evs arbitrary: d v)
  case (Cons ev evs)
  show ?case
  proof (cases "q \<in> set d")
    case True
    then show ?thesis using settle_rooms_grows Cons.prems(1) by blast
  next
    case False
    then have at: "bt_get (v_routing v) q = Some \<lparr>lc_node = n, lc_inst = i\<rparr>" using Cons.prems by simp
    show ?thesis
    proof (cases "ev = RoomDel q n i")
      case True
      then show ?thesis using Cons.prems at settle_rooms_grows [of evs "d @ [q]"] by auto
    next
      case False
      then have "RoomDel q n i \<in> set evs" using Cons.prems by simp
      then show ?thesis using Cons.prems Cons.IH at by (auto split: token_ev.splits if_splits)
    qed
  qed
qed simp

lemma settle_flushes:
  assumes "settle now v = (s, v')" "v_isolated v' = None"
  shows "v_pending v' = v_pending v \<or> v_pending v' = [] \<and> (\<forall>q l. gone v q l \<longrightarrow> q \<in> set (st_dropped s))"
proof (cases "settle_due now v")
  case False
  then consider "v' = v" | d where "release_held v = (d, v')"
    using assms(1) by (cases "release_held v") (auto simp: settle_def split: if_splits)
  then show ?thesis
  proof cases
    case 2
    then show ?thesis using release_held_eff(3) [OF 2] by (simp add: v_config_def)
  qed simp
next
  case due: True
  obtain v2 d3 v3 where e2: "v_routing v2 = v_routing v" "v_held v2 = v_held v" "v_self v2 = v_self v" "v_pending v2 = []" "v_last_token_at v2 = v_last_token_at v"
    and v3: "settle_rooms (v_pending v) ([], v2) = (d3, v3)" and e3: "settling (v_pending v) v2 d3 v3"
    and rel: "v_isolated v3 = None \<longrightarrow> (\<exists>r. release_held v3 = (r, v') \<and> st_dropped s = d3 @ r)" "v_isolated v3 \<noteq> None \<longrightarrow> v' = v3 \<and> st_dropped s = d3"
    by (rule settle_batch [OF assms(1) due])
  have c3: "v_config v3 = v_config v2" using e3 by (simp add: settling_def)
  have iso3: "v_isolated v3 = None" using assms(2) rel(2) by auto
  then obtain r where r: "release_held v3 = (r, v')" "st_dropped s = d3 @ r" using rel(1) by blast
  have "q \<in> set d3" if "gone v q l" for q l
    using that settle_rooms_complete [OF v3, of q "lc_node l" "lc_inst l"] iso3 c3 e2 by (auto simp: gone_def v_config_def)
  then show ?thesis using release_held_eff(3) [OF r(1)] c3 e2 r(2) by (auto simp: v_config_def)
qed

text \<open>
  The routes of a gateway that was never isolated are current (C17): a room is routed only to a node whose token for it stands,
  as the bus said last, or whose deletion is still waiting for the bus to be quiet.
\<close>

theorem view_routes_current:
  assumes "\<forall>n \<le> length es. v_isolated (view_run node inst grace (take n es)) = None"
    "bt_get (v_routing (view_run node inst grace es)) r = Some l"
  shows "last_word r l es = Some True \<or> RoomDel r (lc_node l) (lc_inst l) \<in> set (v_pending (view_run node inst grace es))"
proof -
  let ?run = "view_run node inst grace"
  have "v_held (?run es) = [] \<and> (\<forall>r l. bt_get (v_routing (?run es)) r = Some l \<longrightarrow>
      last_word r l es = Some True \<or> RoomDel r (lc_node l) (lc_inst l) \<in> set (v_pending (?run es)))"
    using assms(1)
  proof (induction es rule: rev_induct)
    case Nil
    show ?case by (simp add: view_run_def view_new_def)
  next
    case (snoc e es)
    have "\<forall>n \<le> length es. v_isolated (?run (take n es)) = None"
      using snoc.prems by (metis append_Nil2 diff_is_0_eq' le_SucI length_append_singleton take0 take_append)
    then have ih: "v_held (?run es) = []" "bt_get (v_routing (?run es)) r = Some l \<Longrightarrow>
        last_word r l es = Some True \<or> RoomDel r (lc_node l) (lc_inst l) \<in> set (v_pending (?run es))" for r l
      using snoc.IH by auto
    have run: "?run (es @ [e]) = view_step (?run es) e" by (simp add: view_run_def)
    have iso: "v_isolated (?run (es @ [e])) = None" using snoc.prems by (metis order_refl take_all)
    show ?case
    proof (cases e)
      case (VToken ev now)
      then show ?thesis
        using ih unfolding run by (cases ev) (auto simp: on_token_def Let_def last_word_snoc loc_eq bs_remove_def split: if_splits)
    next
      case (VSettle now)
      obtain s v' where s: "settle now (?run es) = (s, v')" by (metis prod.exhaust)
      have v': "?run (es @ [e]) = v'" using run VSettle s by simp
      note sp = settle_eff [OF s, unfolded settle_spec_def]
      have held: "v_held v' = []" using sp iso ih(1) v' by (metis empty_iff list.set(1) list.set_intros(1) neq_Nil_conv)
      have "last_word r l es = Some True \<or> RoomDel r (lc_node l) (lc_inst l) \<in> set (v_pending v')" if "bt_get (v_routing v') r = Some l" for r l
      proof -
        have at: "bt_get (v_routing (?run es)) r = Some l" "r \<notin> set (st_dropped s)" using sp that by (auto split: if_splits)
        then show ?thesis using settle_flushes [OF s] iso v' ih(2) [OF at(1)] unfolding gone_def by auto
      qed
      then show ?thesis using held VSettle v' by (auto simp: last_word_snoc)
    next
      case VDeclare
      then show ?thesis using ih unfolding run by (auto simp: declare_self_def last_word_snoc)
    qed
  qed
  then show ?thesis using assms(2) by blast
qed

theorem view_routes_current_witness:
  "last_word ''r'' \<lparr>lc_node = ''b'', lc_inst = ''b1''\<rparr> (take 2 demo_bus) = Some True \<or>
   RoomDel ''r'' ''b'' ''b1'' \<in> set (v_pending (view_run ''a'' ''a1'' 30000 (take 2 demo_bus)))"
proof -
  have es: "take 2 demo_bus = [VToken (NodePut ''b'' ''b1'') 0, VToken (RoomPut ''r'' ''b'' ''b1'') 0]" by (simp add: demo_bus_def)
  have "\<forall>n \<le> length (take 2 demo_bus). v_isolated (view_run ''a'' ''a1'' 30000 (take n (take 2 demo_bus))) = None"
    unfolding es by (auto simp: view_run_def view_new_def on_token_def Let_def le_Suc_eq)
  moreover have "bt_get (v_routing (view_run ''a'' ''a1'' 30000 (take 2 demo_bus))) ''r'' = Some \<lparr>lc_node = ''b'', lc_inst = ''b1''\<rparr>"
    unfolding es by (simp add: view_run_def view_new_def on_token_def Let_def bt_get_def)
  ultimately show ?thesis
    using view_routes_current [of "take 2 demo_bus" "''a''" "''a1''" 30000 "''r''" "\<lparr>lc_node = ''b'', lc_inst = ''b1''\<rparr>"] by simp
qed

section \<open>A route that outlives its room\<close>

text \<open>
  After an isolation a held room whose node is back keeps its route even if its token is not declared again; the bus
  will not announce its deletion a second time. The route stays when the node is gone for good, and a
  room of this name can no longer be placed.
\<close>

definition lost_room :: "view_event list" where
  "lost_room = [VToken (NodePut ''b'' ''b1'') 0, VToken (RoomPut ''r'' ''b'' ''b1'') 0,
     VToken (RoomDel ''r'' ''b'' ''b1'') 10, VToken (NodeDel ''b'' ''b1'') 10, VSettle 1010,
     VToken (NodePut ''b'' ''b1'') 5000, VSettle 6000, VToken (NodeDel ''b'' ''b1'') 7000, VSettle 8000]"

theorem route_outlives_room:
  "room_node ''r'' (view_run ''a'' ''a1'' 30000 lost_room) = Some \<lparr>lc_node = ''b'', lc_inst = ''b1''\<rparr> \<and>
   v_pending (view_run ''a'' ''a1'' 30000 lost_room) = [] \<and> v_held (view_run ''a'' ''a1'' 30000 lost_room) = [] \<and>
   \<not> node_live ''b'' (view_run ''a'' ''a1'' 30000 lost_room)"
  by (simp add: lost_room_def view_run_def on_token_def view_new_def settle_def settle_due_def SETTLE_MS_def others_live_def release_held_def Let_def
      bt_get_def bs_remove_def bt_remove_def room_node_def node_live_def held_alive_def)

end
