(* ===== verification/Ws_Conn.thy ===== *)
theory Ws_Conn
  imports Sig_Frame Sig_Codes
begin

text \<open>
  A client connection of the gateway (\<open>oxhubd/src/ses/conn.rs\<close>). The writer task puts replies on the socket at
  once and notices through four lanes under a window of unacknowledged notices; the reader task binds a
  session first, answers heartbeats at once and hands the other requests on in order. The text of JSON
  bodies and the outcome of a send are parameters.
\<close>

definition T_ACK :: nat where "T_ACK = 30000"
definition QUEUE_MAX :: nat where "QUEUE_MAX = 1000"

datatype out =
    OReply u8 u16 u32 "u8 list"
  | ONotice op "u8 list"
  | OAck u32
  | OLeave code
  | OClose

datatype ws_out = WsFrame "u8 list" | WsClose

definition reply_ok :: "u16 \<Rightarrow> u32 \<Rightarrow> u8 \<Rightarrow> u8 list \<Rightarrow> out" where
  "reply_ok op pid req_flags body = OReply ((req_flags AND NOT KIND_MASK) OR kind_bits KOk) op pid body"

definition reply_fail :: "u16 \<Rightarrow> u32 \<Rightarrow> u8 \<Rightarrow> u8 list \<Rightarrow> out" where
  "reply_fail op pid req_flags body = OReply ((req_flags AND NOT KIND_MASK) OR kind_bits KFail) op pid body"

section \<open>The writer\<close>

fun lane_no :: "lane \<Rightarrow> nat" where
  "lane_no LaneRecovery = 0"
| "lane_no LaneSession = 1"
| "lane_no LaneData = 2"
| "lane_no LaneDiagnostic = 3"

record writer =
  w_lanes :: "(op \<times> u8 list) list list"
  w_inflight :: "(u32 \<times> nat) list"
  w_next_pid :: u32
  w_window :: nat

definition writer_new :: "nat \<Rightarrow> writer" where
  "writer_new window = \<lparr>w_lanes = [[], [], [], []], w_inflight = [], w_next_pid = 1, w_window = max 1 (min 10 window)\<rparr>"

definition queued :: "writer \<Rightarrow> nat" where
  "queued w = sum_list (map length (w_lanes w))"

fun pop_first :: "'a list list \<Rightarrow> ('a \<times> 'a list list) option" where
  "pop_first [] = None"
| "pop_first ([] # ls) = map_option (\<lambda>(x, ls'). (x, [] # ls')) (pop_first ls)"
| "pop_first ((x # l) # ls) = Some (x, l # ls)"

definition writer_next :: "writer \<Rightarrow> ((op \<times> u8 list) \<times> writer) option" where
  "writer_next w =
     (if w_window w \<le> length (w_inflight w) then None
      else map_option (\<lambda>(x, ls). (x, w\<lparr>w_lanes := ls\<rparr>)) (pop_first (w_lanes w)))"

definition writer_pid :: "writer \<Rightarrow> u32 \<times> writer" where
  "writer_pid w = (w_next_pid w, w\<lparr>w_next_pid := w_next_pid w + 1\<rparr>)"

definition put_inflight :: "u32 \<Rightarrow> nat \<Rightarrow> writer \<Rightarrow> writer" where
  "put_inflight pid now w = w\<lparr>w_inflight := (pid, now) # filter (\<lambda>e. fst e \<noteq> pid) (w_inflight w)\<rparr>"

lemma pop_first_shorter: "pop_first ls = Some (x, ls') \<Longrightarrow> sum_list (map length ls) = Suc (sum_list (map length ls'))"
  by (induction ls arbitrary: ls' rule: pop_first.induct) auto

text \<open>Sending while the window has room; a failed send ends the task.\<close>

function flush :: "(u8 list \<Rightarrow> bool) \<Rightarrow> nat \<Rightarrow> writer \<Rightarrow> ws_out list \<times> bool \<times> writer" where
  "flush ok now w =
     (case writer_next w of
        None \<Rightarrow> ([], True, w)
      | Some ((p, body), w1) \<Rightarrow>
          (let (pid, w2) = writer_pid w1;
               w3 = put_inflight pid now w2;
               f = frame_encode KRequest (op_as_u16 p) pid body
           in if ok f then (case flush ok now w3 of (fs, alive, w') \<Rightarrow> (WsFrame f # fs, alive, w')) else ([], False, w3)))"
  by pat_completeness auto
termination
  by (relation "measure (\<lambda>(ok, now, w). queued w)")
    (auto simp: writer_next_def writer_pid_def put_inflight_def queued_def dest!: pop_first_shorter split: if_splits)

declare flush.simps [simp del]

record conn_st =
  c_w :: writer
  c_open :: bool
  c_code :: "code option"
  c_sent :: "ws_out list"

definition conn_new :: "nat \<Rightarrow> conn_st" where
  "conn_new window = \<lparr>c_w = writer_new window, c_open = True, c_code = None, c_sent = []\<rparr>"

definition send_leave :: "(code \<Rightarrow> u8 list) \<Rightarrow> (u8 list \<Rightarrow> bool) \<Rightarrow> code \<Rightarrow> conn_st \<Rightarrow> conn_st" where
  "send_leave leave_json ok cd c =
     (let (pid, w) = writer_pid (c_w c);
          f = frame_encode KRequest (op_as_u16 OpLeave) pid (leave_json cd)
      in c\<lparr>c_w := w, c_sent := c_sent c @ (if ok f then [WsFrame f, WsClose] else [])\<rparr>)"

definition flush_conn :: "(u8 list \<Rightarrow> bool) \<Rightarrow> nat \<Rightarrow> conn_st \<Rightarrow> conn_st" where
  "flush_conn ok now c = (case flush ok now (c_w c) of (fs, alive, w) \<Rightarrow> c\<lparr>c_w := w, c_open := alive, c_sent := c_sent c @ fs\<rparr>)"

definition push_lane :: "op \<Rightarrow> u8 list \<Rightarrow> writer \<Rightarrow> writer" where
  "push_lane p body w = (let i = lane_no (op_lane p) in w\<lparr>w_lanes := (w_lanes w)[i := w_lanes w ! i @ [(p, body)]]\<rparr>)"

fun writer_out :: "(code \<Rightarrow> u8 list) \<Rightarrow> (u8 list \<Rightarrow> bool) \<Rightarrow> nat \<Rightarrow> out \<Rightarrow> conn_st \<Rightarrow> conn_st" where
  "writer_out leave_json ok now (OReply flags opn pid body) c =
     (let f = encode_flags flags opn pid body in
      if ok f then flush_conn ok now (c\<lparr>c_sent := c_sent c @ [WsFrame f]\<rparr>) else c\<lparr>c_open := False\<rparr>)"
| "writer_out leave_json ok now (ONotice p body) c =
     (let c1 = c\<lparr>c_w := push_lane p body (c_w c)\<rparr> in
      if QUEUE_MAX < queued (c_w c1)
      then (send_leave leave_json ok FlowOverflow c1)\<lparr>c_open := False, c_code := Some FlowOverflow\<rparr>
      else flush_conn ok now c1)"
| "writer_out leave_json ok now (OAck pid) c =
     flush_conn ok now (c\<lparr>c_w := (c_w c)\<lparr>w_inflight := filter (\<lambda>e. fst e \<noteq> pid) (w_inflight (c_w c))\<rparr>\<rparr>)"
| "writer_out leave_json ok now (OLeave cd) c =
     (send_leave leave_json ok cd c)\<lparr>c_open := False, c_code := (case c_code c of None \<Rightarrow> Some cd | Some x \<Rightarrow> Some x)\<rparr>"
| "writer_out leave_json ok now OClose c = c\<lparr>c_open := False, c_sent := c_sent c @ [WsClose]\<rparr>"

datatype writer_event = WOut out nat | WTick nat

fun writer_step :: "(code \<Rightarrow> u8 list) \<Rightarrow> (u8 list \<Rightarrow> bool) \<Rightarrow> conn_st \<Rightarrow> writer_event \<Rightarrow> conn_st" where
  "writer_step leave_json ok c (WOut x now) = (if c_open c then writer_out leave_json ok now x c else c)"
| "writer_step leave_json ok c (WTick now) =
     (if c_open c \<and> list_ex (\<lambda>e. T_ACK < now - snd e) (w_inflight (c_w c)) then writer_out leave_json ok now (OLeave FlowTimeout) c else c)"

section \<open>The reader\<close>

datatype ws_msg = MBinary "u8 list" | MText | MClose | MOther
datatype read_event = RMsg ws_msg | RTimeout | REnd

record request =
  rq_op :: op
  rq_num :: u16
  rq_pid :: u32
  rq_flags :: u8
  rq_body :: "u8 list"

text \<open>What a turn of the read loop does: what it gives to the writer, the request it hands on, whether the client left, and whether it goes on.\<close>

datatype turn = Turn "out list" "request option" bool bool

definition stop_with :: "code \<Rightarrow> turn" where
  "stop_with cd = Turn [OLeave cd] None False False"

text \<open>Messages that arrive while the binding is judged: the first one that is not a control message ends the connection.\<close>

fun bind_wait :: "ws_msg list \<Rightarrow> out list \<times> bool" where
  "bind_wait [] = ([], False)"
| "bind_wait (MBinary b # ms) = ([OLeave NotBound], True)"
| "bind_wait (MText # ms) = ([OLeave NotBound], True)"
| "bind_wait (MClose # ms) = ([], True)"
| "bind_wait (MOther # ms) = bind_wait ms"

record 's reader_env =
  re_json :: "u8 list \<Rightarrow> bool"
  re_failure :: "code \<Rightarrow> u8 list"
  re_bind :: "header \<Rightarrow> u8 list \<Rightarrow> 's option \<times> out list"

definition read_bound :: "'s reader_env \<Rightarrow> header \<Rightarrow> u8 list \<Rightarrow> turn" where
  "read_bound env h body =
     (case op_from_u16 (h_op h) of
        None \<Rightarrow> Turn [reply_fail (h_op h) (h_pid h) (h_flags h) (re_failure env UnknownOp)] None False True
      | Some p \<Rightarrow>
          if p = OpHeartbeat then Turn [reply_ok (h_op h) (h_pid h) (h_flags h) []] None False True
          else if p = OpBind then
            Turn [reply_fail (h_op h) (h_pid h) (h_flags h) (re_failure env ProtocolError), OLeave ProtocolError] None False False
          else if p = OpLeave then Turn [OClose] None True False
          else Turn [] (Some \<lparr>rq_op = p, rq_num = h_op h, rq_pid = h_pid h, rq_flags = h_flags h, rq_body = body\<rparr>) False True)"

definition read_unbound :: "'s reader_env \<Rightarrow> ws_msg list \<Rightarrow> header \<Rightarrow> u8 list \<Rightarrow> turn \<times> 's option" where
  "read_unbound env early h body =
     (if op_from_u16 (h_op h) = Some OpBind
      then (let (got, outs) = re_bind env h body; (more, ended) = bind_wait early in (Turn (outs @ more) None False (\<not> ended), got))
      else (stop_with NotBound, None))"

fun turn_left :: "turn \<Rightarrow> bool" where
  "turn_left (Turn outs rq lft go) = lft"

definition read_client :: "'s reader_env \<Rightarrow> ws_msg list \<Rightarrow> 's option \<Rightarrow> frame \<Rightarrow> turn \<times> 's option" where
  "read_client env early sess f =
     (let h = f_header f; body = f_body f in
      if header_kind h \<noteq> KRequest then (Turn [OAck (h_pid h)] None False True, sess)
      else if body \<noteq> [] \<and> \<not> re_json env body
      then (Turn [reply_fail (h_op h) (h_pid h) (h_flags h) (re_failure env ProtocolError), OLeave ProtocolError] None False False, sess)
      else (case sess of
              None \<Rightarrow> read_unbound env early h body
            | Some s \<Rightarrow> (let t = read_bound env h body in (t, if turn_left t then None else Some s))))"

fun read_turn :: "'s reader_env \<Rightarrow> ws_msg list \<Rightarrow> 's option \<Rightarrow> read_event \<Rightarrow> turn \<times> 's option" where
  "read_turn env early sess RTimeout = (stop_with HeartbeatTimeout, sess)"
| "read_turn env early sess REnd = (Turn [] None False False, sess)"
| "read_turn env early sess (RMsg MClose) = (Turn [] None False False, sess)"
| "read_turn env early sess (RMsg MText) = (stop_with ProtocolError, sess)"
| "read_turn env early sess (RMsg MOther) = (Turn [] None False True, sess)"
| "read_turn env early sess (RMsg (MBinary b)) =
     (case frame_decode b of Inl _ \<Rightarrow> (stop_with ProtocolError, sess) | Inr f \<Rightarrow> read_client env early sess f)"

text \<open>The loop over what arrives; each event comes with what arrives while a binding is judged.\<close>

fun read_loop_conn :: "'s reader_env \<Rightarrow> (read_event \<times> ws_msg list) list \<Rightarrow> 's option \<Rightarrow> out list \<times> request list \<times> 's option" where
  "read_loop_conn env [] sess = ([], [], sess)"
| "read_loop_conn env ((e, early) # es) sess =
     (case read_turn env early sess e of
        (Turn outs rq lft go, sess') \<Rightarrow>
          (case (if go then read_loop_conn env es sess' else ([], [], sess')) of
             (outs', rqs, sess'') \<Rightarrow> (outs @ outs', (case rq of Some r \<Rightarrow> [r] | None \<Rightarrow> []) @ rqs, sess'')))"

end
