(* ===== verification/Ws_Props.thy ===== *)
theory Ws_Props
  imports Ws_Conn
begin

text \<open>
  Properties of a client connection: the window and the queue are respected and never idle, every notice reaches
  the client once and in the order of its lane, and nothing but a binding is served before a session is bound.
\<close>

section \<open>Sending\<close>

lemma pop_firstD:
  "pop_first ls = Some (x, ls') \<Longrightarrow>
   length ls' = length ls \<and> (\<exists>i < length ls. ls ! i = x # ls' ! i \<and> (\<forall>j. j \<noteq> i \<longrightarrow> j < length ls \<longrightarrow> ls' ! j = ls ! j) \<and> (\<forall>j < i. ls ! j = []))"
proof (induction ls arbitrary: ls' rule: pop_first.induct)
  case (2 ls)
  then obtain ls1 where p: "pop_first ls = Some (x, ls1)" "ls' = [] # ls1" by auto
  obtain i where i: "length ls1 = length ls" "i < length ls" "ls ! i = x # ls1 ! i" "\<forall>j. j \<noteq> i \<longrightarrow> j < length ls \<longrightarrow> ls1 ! j = ls ! j" "\<forall>j < i. ls ! j = []"
    using 2(1) [OF p(1)] by blast
  then show ?case by (auto simp: p(2) nth_Cons' intro!: exI [of _ "Suc i"])
next
  case (3 y l ls)
  then show ?case by (auto simp: nth_Cons' intro!: exI [of _ 0])
qed simp

lemma pop_first_None: "pop_first ls = None \<longleftrightarrow> (\<forall>l \<in> set ls. l = [])"
  by (induction ls rule: pop_first.induct) auto

definition room_kept :: "writer \<Rightarrow> bool" where
  "room_kept w \<longleftrightarrow> length (w_inflight w) \<le> w_window w \<and> distinct (map fst (w_inflight w)) \<and> length (w_lanes w) = 4"

lemma writer_nextD:
  assumes "writer_next w = Some (x, w1)"
  shows "length (w_inflight w) < w_window w" "pop_first (w_lanes w) = Some (x, w_lanes w1)" "w1 = w\<lparr>w_lanes := w_lanes w1\<rparr>" "queued w = Suc (queued w1)"
  using assms by (auto simp: writer_next_def queued_def split: if_splits dest: pop_first_shorter)

definition one_sent :: "nat \<Rightarrow> writer \<Rightarrow> writer" where
  "one_sent now w1 = put_inflight (w_next_pid w1) now (w1\<lparr>w_next_pid := w_next_pid w1 + 1\<rparr>)"

lemma flush_unfold:
  "flush ok now w =
     (case writer_next w of
        None \<Rightarrow> ([], True, w)
      | Some ((p, body), w1) \<Rightarrow>
          (let f = frame_encode KRequest (op_as_u16 p) (w_next_pid w1) body
           in if ok f then (case flush ok now (one_sent now w1) of (fs, alive, w') \<Rightarrow> (WsFrame f # fs, alive, w')) else ([], False, one_sent now w1)))"
  by (subst flush.simps) (simp add: writer_pid_def one_sent_def Let_def split: option.split prod.split)

lemma flush_induct [case_names flush]:
  assumes "\<And>w. (\<And>x w1. writer_next w = Some (x, w1) \<Longrightarrow> P (one_sent now w1)) \<Longrightarrow> P w"
  shows "P w"
proof (induction "queued w" arbitrary: w rule: less_induct)
  case less
  show ?case
    by (rule assms, rule less) (auto dest!: writer_nextD(4) simp: one_sent_def put_inflight_def queued_def)
qed

lemma one_sent_kept:
  assumes "writer_next w = Some (x, w1)" "room_kept w"
  shows "room_kept (one_sent now w1)" "w_window (one_sent now w1) = w_window w" "queued (one_sent now w1) < queued w"
proof -
  note d = writer_nextD [OF assms(1)]
  have "length (filter (\<lambda>e. fst e \<noteq> p) (w_inflight w)) < w_window w" for p using d(1) length_filter_le le_less_trans by blast
  moreover have "distinct (map fst (filter (\<lambda>e. fst e \<noteq> p) (w_inflight w)))" for p using assms(2) by (simp add: room_kept_def distinct_map_filter)
  moreover have eqs: "w_inflight w1 = w_inflight w" "w_window w1 = w_window w" using d(3) by (metis writer.simps(2) writer.surjective writer.update_convs(1) writer.simps(4))+
  ultimately show "room_kept (one_sent now w1)" "w_window (one_sent now w1) = w_window w" "queued (one_sent now w1) < queued w"
    using d assms(2) pop_firstD [OF d(2)] by (auto simp: room_kept_def one_sent_def put_inflight_def queued_def le_less_trans less_eq_Suc_le)
qed

lemma flush_kept:
  "room_kept w \<Longrightarrow> flush ok now w = (fs, alive, w') \<Longrightarrow>
   room_kept w' \<and> w_window w' = w_window w \<and> queued w' \<le> queued w \<and> (alive \<longrightarrow> writer_next w' = None)"
proof (induction w arbitrary: fs rule: flush_induct [where now = now])
  case (flush w)
  show ?case
  proof (cases "writer_next w")
    case None
    then show ?thesis using flush.prems by (simp add: flush_unfold [of ok now w])
  next
    case (Some y)
    then obtain p body w1 where y: "writer_next w = Some ((p, body), w1)" by (metis surj_pair)
    note k = one_sent_kept [OF y flush.prems(1), of now]
    show ?thesis
      using flush.IH [OF y k(1)] flush.prems(2) k by (fastforce simp: flush_unfold [of ok now w] y Let_def split: if_splits prod.splits)
  qed
qed

section \<open>The window and the queue\<close>

definition conn_ok :: "conn_st \<Rightarrow> bool" where
  "conn_ok c \<longleftrightarrow> (c_open c \<longrightarrow> room_kept (c_w c) \<and> 1 \<le> w_window (c_w c) \<and> w_window (c_w c) \<le> 10 \<and> queued (c_w c) \<le> QUEUE_MAX \<and> writer_next (c_w c) = None)"

lemma flush_conn_ok:
  assumes "room_kept (c_w c)" "1 \<le> w_window (c_w c)" "w_window (c_w c) \<le> 10" "queued (c_w c) \<le> QUEUE_MAX"
  shows "conn_ok (flush_conn ok now c)"
proof -
  obtain fs alive w where f: "flush ok now (c_w c) = (fs, alive, w)" by (metis prod.exhaust)
  then show ?thesis using flush_kept [OF assms(1) f] assms(2-4) by (simp add: flush_conn_def conn_ok_def)
qed

lemma push_lane_kept: "room_kept w \<Longrightarrow> room_kept (push_lane p body w) \<and> w_window (push_lane p body w) = w_window w"
  by (simp add: room_kept_def push_lane_def Let_def)

lemma ack_kept: "room_kept w \<Longrightarrow> room_kept (w\<lparr>w_inflight := filter p (w_inflight w)\<rparr>)"
  by (simp add: room_kept_def distinct_map_filter le_trans [OF length_filter_le])

lemma writer_out_ok: "conn_ok c \<Longrightarrow> c_open c \<Longrightarrow> conn_ok (writer_out leave_json ok now x c)"
proof (cases x)
  case (OReply flags opn pid body)
  moreover assume "conn_ok c" "c_open c"
  ultimately show ?thesis
    using flush_conn_ok [of "c\<lparr>c_sent := c_sent c @ [WsFrame (encode_flags flags opn pid body)]\<rparr>" ok now]
    by (simp add: Let_def) (simp add: conn_ok_def)
next
  case (ONotice p body)
  moreover assume "conn_ok c" "c_open c"
  ultimately show ?thesis
    using flush_conn_ok [of "c\<lparr>c_w := push_lane p body (c_w c)\<rparr>" ok now] push_lane_kept [of "c_w c" p body]
    by (simp add: Let_def) (simp add: conn_ok_def)
next
  case (OAck pid)
  moreover assume "conn_ok c" "c_open c"
  ultimately show ?thesis
    using flush_conn_ok [of "c\<lparr>c_w := (c_w c)\<lparr>w_inflight := filter (\<lambda>e. fst e \<noteq> pid) (w_inflight (c_w c))\<rparr>\<rparr>" ok now] ack_kept [of "c_w c"]
    by (simp add: conn_ok_def queued_def)
qed (simp_all add: conn_ok_def)

interpretation ws: machine "conn_new window" "writer_step leave_json ok" conn_ok
  for window leave_json ok
proof
  show "conn_ok (conn_new window)" by (simp add: conn_ok_def conn_new_def writer_new_def room_kept_def queued_def writer_next_def)
  show "conn_ok (writer_step leave_json ok s e)" if "conn_ok s" for s e
  proof (cases e)
    case (WTick now)
    then show ?thesis using that writer_out_ok [OF that, of leave_json ok now "OLeave FlowTimeout"] by simp
  qed (use that writer_out_ok in auto)
qed

text \<open>
  Flow control (C21): while a connection is open, at most the window of notices, between 1 and 10, is waiting for an
  acknowledgement, under different numbers; at most 1000 are queued; and none is queued while the window has room.
\<close>

theorem ws_flow_control:
  assumes "c = run_from (writer_step leave_json ok) (conn_new window) es" "c_open c"
  shows "length (w_inflight (c_w c)) \<le> w_window (c_w c) \<and> 1 \<le> w_window (c_w c) \<and> w_window (c_w c) \<le> 10 \<and>
    distinct (map fst (w_inflight (c_w c))) \<and> queued (c_w c) \<le> 1000 \<and>
    (length (w_inflight (c_w c)) < w_window (c_w c) \<longrightarrow> queued (c_w c) = 0)"
  using ws.inv_run [of leave_json ok window es] assms
  by (auto simp: conn_ok_def room_kept_def QUEUE_MAX_def writer_next_def pop_first_None queued_def split: if_splits)

section \<open>What the client receives\<close>

fun notice_of :: "ws_out \<Rightarrow> (op \<times> u8 list) option" where
  "notice_of WsClose = None"
| "notice_of (WsFrame b) =
     (case frame_decode b of
        Inl _ \<Rightarrow> None
      | Inr f \<Rightarrow> if header_kind (f_header f) = KRequest then map_option (\<lambda>p. (p, f_body f)) (op_from_u16 (h_op (f_header f))) else None)"

definition received :: "ws_out list \<Rightarrow> (op \<times> u8 list) list" where
  "received xs = List.map_filter notice_of xs"

definition of_lane :: "nat \<Rightarrow> (op \<times> u8 list) list \<Rightarrow> (op \<times> u8 list) list" where
  "of_lane i ns = filter (\<lambda>n. lane_no (op_lane (fst n)) = i) ns"

lemma received_simps [simp]:
  "received [] = []" "received (x # xs) = (case notice_of x of Some n \<Rightarrow> [n] | None \<Rightarrow> []) @ received xs" "received (xs @ ys) = received xs @ received ys"
  by (simp_all add: received_def map_filter_simps List.map_filter_def split: option.split)

lemma of_lane_simps [simp]:
  "of_lane i [] = []" "of_lane i (n # ns) = (if lane_no (op_lane (fst n)) = i then n # of_lane i ns else of_lane i ns)" "of_lane i (ns @ ms) = of_lane i ns @ of_lane i ms"
  by (simp_all add: of_lane_def)

lemma op_from_as [simp]: "op_from_u16 (op_as_u16 p) = Some p"
  unfolding op_from_u16_def by (simp add: find_key_iff [OF op_as_u16_distinct ALL_ops_complete])

lemma decode_request:
  "length body \<le> 1048568 \<Longrightarrow>
   frame_decode (frame_encode KRequest n pid body) = Inr \<lparr>f_header = \<lparr>h_flags = 0, h_op = n, h_pid = pid\<rparr>, f_body = body\<rparr>"
  using frame_decode_encode [of "\<lparr>f_header = \<lparr>h_flags = 0, h_op = n, h_pid = pid\<rparr>, f_body = body\<rparr>"]
  by (simp add: frame_encode_def kind_bits_def)

lemma notice_of_frame:
  assumes "length body \<le> 1048568"
  shows "notice_of (WsFrame (frame_encode KRequest (op_as_u16 p) pid body)) = Some (p, body)"
  using decode_request [OF assms] by (simp add: header_kind_def KIND_MASK_def)

lemma notice_of_reply:
  assumes "flags AND 3 = 1 \<or> flags AND 3 = 2"
  shows "notice_of (WsFrame (encode_flags flags opn pid body)) = None"
proof (cases "frame_decode (encode_flags flags opn pid body)")
  case (Inr f)
  moreover have "frame_decode (encode_flags flags opn pid body) = Inr f \<Longrightarrow> h_flags (f_header f) = flags"
    by (auto simp: frame_decode_def encode_flags_def Let_def be16_def be32_def split: if_splits)
  ultimately show ?thesis using assms by (auto simp: header_kind_def KIND_MASK_def)
qed simp

definition lanes_ok :: "writer \<Rightarrow> bool" where
  "lanes_ok w \<longleftrightarrow> length (w_lanes w) = 4 \<and> (\<forall>i < 4. \<forall>n \<in> set (w_lanes w ! i). lane_no (op_lane (fst n)) = i \<and> length (snd n) \<le> 1048568)"

lemma one_sent_lanes: "w_lanes (one_sent now w) = w_lanes w"
  by (simp add: one_sent_def put_inflight_def)

lemma flush_delivers:
  "lanes_ok w \<Longrightarrow> flush ok now w = (fs, True, w') \<Longrightarrow> lanes_ok w' \<and> (\<forall>i < 4. of_lane i (received fs) @ w_lanes w' ! i = w_lanes w ! i)"
proof (induction w arbitrary: fs rule: flush_induct [where now = now])
  case (flush w)
  show ?case
  proof (cases "writer_next w")
    case None
    then show ?thesis using flush.prems by (simp add: flush_unfold [of ok now w])
  next
    case (Some y)
    then obtain p body w1 where y: "writer_next w = Some ((p, body), w1)" by (metis surj_pair)
    let ?f = "frame_encode KRequest (op_as_u16 p) (w_next_pid w1) body"
    obtain gs where gs: "flush ok now (one_sent now w1) = (gs, True, w')" "fs = WsFrame ?f # gs"
      using flush.prems(2) by (auto simp: flush_unfold [of ok now w] y Let_def split: if_splits prod.splits)
    obtain i where i: "length (w_lanes w1) = length (w_lanes w)" "i < length (w_lanes w)" "w_lanes w ! i = (p, body) # w_lanes w1 ! i"
        "\<forall>j. j \<noteq> i \<longrightarrow> j < length (w_lanes w) \<longrightarrow> w_lanes w1 ! j = w_lanes w ! j"
      using pop_firstD [OF writer_nextD(2) [OF y]] by blast
    have n: "lane_no (op_lane p) = i" "length body \<le> 1048568" using flush.prems(1) i by (auto simp: lanes_ok_def)
    have "lanes_ok (one_sent now w1)"
      using flush.prems(1) i by (simp add: lanes_ok_def one_sent_lanes) (metis list.set_intros(2))
    then have ih: "lanes_ok w'" "\<forall>j < 4. of_lane j (received gs) @ w_lanes w' ! j = w_lanes w1 ! j"
      using flush.IH [OF y _ gs(1)] by (auto simp: one_sent_lanes)
    show ?thesis
      using ih i n flush.prems(1) notice_of_frame [OF n(2), of p "w_next_pid w1"] by (auto simp: gs(2) lanes_ok_def)
  qed
qed

text \<open>Replies carry the bits of a reply, and notices fit into a frame.\<close>

fun good_event :: "writer_event \<Rightarrow> bool" where
  "good_event (WOut (OReply flags opn pid body) now) = (flags AND 3 = 1 \<or> flags AND 3 = 2)"
| "good_event (WOut (ONotice p body) now) = (length body \<le> 1048568)"
| "good_event _ = True"

fun accepted_notice :: "writer_event \<Rightarrow> (op \<times> u8 list) list" where
  "accepted_notice (WOut (ONotice p body) now) = [(p, body)]"
| "accepted_notice _ = []"

definition delivered :: "(op \<times> u8 list) list \<Rightarrow> conn_st \<Rightarrow> bool" where
  "delivered ns c \<longleftrightarrow> lanes_ok (c_w c) \<and> (\<forall>i < 4. of_lane i (received (c_sent c)) @ w_lanes (c_w c) ! i = of_lane i ns)"

lemma flush_conn_delivered:
  assumes "delivered ns c" "c_open (flush_conn ok now c)"
  shows "delivered ns (flush_conn ok now c)"
proof -
  obtain fs w where f: "flush ok now (c_w c) = (fs, True, w)"
    using assms(2) by (cases "flush ok now (c_w c)") (auto simp: flush_conn_def)
  then show ?thesis using flush_delivers [OF _ f] assms(1) by (auto simp: flush_conn_def delivered_def)
qed

lemma push_delivered:
  assumes "delivered ns c" "length body \<le> 1048568"
  shows "delivered (ns @ [(p, body)]) (c\<lparr>c_w := push_lane p body (c_w c)\<rparr>)"
proof -
  have "lane_no (op_lane p) < 4" by (cases "op_lane p") simp_all
  then show ?thesis using assms by (auto simp: delivered_def lanes_ok_def push_lane_def Let_def nth_list_update)
qed

lemma step_delivered:
  assumes "c_open c \<longrightarrow> delivered ns c" "good_event e" "c_open (writer_step leave_json ok c e)"
  shows "delivered (ns @ accepted_notice e) (writer_step leave_json ok c e)"
proof (cases e)
  case (WTick now)
  then show ?thesis using assms by (auto split: if_splits)
next
  case (WOut x now)
  have op: "c_open c" "delivered ns c" using assms(1,3) WOut by (auto split: if_splits)
  show ?thesis
  proof (cases x)
    case (OReply flags opn pid body)
    let ?c = "c\<lparr>c_sent := c_sent c @ [WsFrame (encode_flags flags opn pid body)]\<rparr>"
    have "delivered ns ?c" using op(2) notice_of_reply [of flags opn pid body] assms(2) by (simp add: delivered_def WOut OReply)
    then show ?thesis using assms(3) op flush_conn_delivered [of ns ?c ok now] by (auto simp: WOut OReply Let_def split: if_splits)
  next
    case (ONotice p body)
    let ?c = "c\<lparr>c_w := push_lane p body (c_w c)\<rparr>"
    have "delivered (ns @ [(p, body)]) ?c" using push_delivered [OF op(2), of body p] assms(2) by (simp add: WOut ONotice)
    then show ?thesis using assms(3) op flush_conn_delivered [of _ ?c ok now] by (auto simp: WOut ONotice Let_def split: if_splits)
  next
    case (OAck pid)
    let ?c = "c\<lparr>c_w := (c_w c)\<lparr>w_inflight := filter (\<lambda>e. fst e \<noteq> pid) (w_inflight (c_w c))\<rparr>\<rparr>"
    have "delivered ns ?c" using op(2) by (simp add: delivered_def lanes_ok_def)
    then show ?thesis using assms(3) op flush_conn_delivered [of ns ?c ok now] by (simp add: WOut OAck)
  qed (use assms(3) WOut op in auto)
qed

text \<open>
  Notices arrive once and in order (C22): what the client decodes from an open connection, followed by what is still
  queued, is for every lane exactly the notices given to the connection, in their order.
\<close>

theorem ws_notices_in_order:
  assumes "list_all good_event es" "c = run_from (writer_step leave_json ok) (conn_new window) es" "c_open c" "i < 4"
  shows "of_lane i (received (c_sent c)) @ w_lanes (c_w c) ! i = of_lane i (concat (map accepted_notice es))"
proof -
  have "c_open (run_from (writer_step leave_json ok) (conn_new window) es) \<longrightarrow>
      delivered (concat (map accepted_notice es)) (run_from (writer_step leave_json ok) (conn_new window) es)"
    using assms(1)
  proof (induction es rule: rev_induct)
    case Nil
    have "[[], [], [], []] ! i = ([] :: (op \<times> u8 list) list)" if "i < 4" for i :: nat using that by (auto simp: nth_Cons')
    then show ?case by (simp add: delivered_def lanes_ok_def conn_new_def writer_new_def)
  next
    case (snoc e es)
    then show ?case using step_delivered [of "run_from (writer_step leave_json ok) (conn_new window) es" "concat (map accepted_notice es)" e leave_json ok]
      by (auto simp: run_from_snoc)
  qed
  then show ?thesis using assms(2-4) by (auto simp: delivered_def)
qed

definition demo_ws :: "writer_event list" where
  "demo_ws = [WOut (ONotice OpMessage [1]) 0, WOut (ONotice OpRoomEvent [2]) 1, WOut (OAck 1) 2]"

lemma demo_ws_open: "c_open (run_from (writer_step (\<lambda>_. []) (\<lambda>_. True)) (conn_new 1) demo_ws)"
  by code_simp

theorem ws_flow_control_witness:
  "length (w_inflight (c_w (run_from (writer_step (\<lambda>_. []) (\<lambda>_. True)) (conn_new 1) demo_ws))) \<le> 10"
  using ws_flow_control [OF refl demo_ws_open] by simp

theorem ws_notices_in_order_witness:
  "of_lane 1 (received (c_sent (run_from (writer_step (\<lambda>_. []) (\<lambda>_. True)) (conn_new 1) demo_ws))) @
     w_lanes (c_w (run_from (writer_step (\<lambda>_. []) (\<lambda>_. True)) (conn_new 1) demo_ws)) ! 1 = [(OpRoomEvent, [2])]"
proof -
  have "list_all good_event demo_ws" by (simp add: demo_ws_def)
  from ws_notices_in_order [OF this refl demo_ws_open, of 1] show ?thesis by (simp add: demo_ws_def op_lane_def)
qed

section \<open>Reading\<close>

text \<open>The frames that ask for a binding and get a session.\<close>

definition binds :: "'s reader_env \<Rightarrow> read_event \<Rightarrow> bool" where
  "binds env e \<longleftrightarrow> (case e of RMsg (MBinary b) \<Rightarrow> (case frame_decode b of
       Inr f \<Rightarrow> op_from_u16 (h_op (f_header f)) = Some OpBind \<and> fst (re_bind env (f_header f) (f_body f)) \<noteq> None | Inl _ \<Rightarrow> False) | _ \<Rightarrow> False)"

lemma unbound_turn:
  assumes "\<not> binds env e" "read_turn env early None e = (Turn outs rq lft go, sess)"
  shows "rq = None \<and> sess = None"
proof (cases e)
  case (RMsg m)
  then show ?thesis
    using assms
    by (cases m) (auto simp: binds_def stop_with_def read_client_def read_unbound_def Let_def split: sum.splits prod.splits if_splits)
qed (use assms in \<open>auto simp: stop_with_def\<close>)

lemma unbound_loop: "list_all (\<lambda>x. \<not> binds env (fst x)) es \<Longrightarrow> read_loop_conn env es None = (outs, rqs, sess) \<Longrightarrow> rqs = [] \<and> sess = None"
proof (induction es arbitrary: outs rqs)
  case (Cons x es)
  obtain e early where x: "x = (e, early)" by (cases x)
  obtain o1 rq lft go s1 where t: "read_turn env early None e = (Turn o1 rq lft go, s1)" by (metis prod.exhaust turn.exhaust)
  have "rq = None" "s1 = None" using unbound_turn [OF _ t] Cons.prems(1) by (auto simp: x)
  then show ?case using Cons t by (cases go) (auto simp: x split: prod.splits)
qed simp

text \<open>
  Nothing is served before a session is bound: if a connection has handed a request on, or has a session at the end, one of
  its messages was a bind request that was given a session.
\<close>

theorem ws_binds_first:
  assumes "read_loop_conn env es None = (outs, rqs, sess)" "rqs \<noteq> [] \<or> sess \<noteq> None"
  shows "\<exists>x \<in> set es. binds env (fst x)"
  using unbound_loop [OF _ assms(1)] assms(2) by (auto simp: list_all_iff)

definition demo_reader :: "nat reader_env" where
  "demo_reader = \<lparr>re_json = \<lambda>_. True, re_failure = \<lambda>_. [], re_bind = \<lambda>h body. (Some 7, [])\<rparr>"

definition demo_reads :: "(read_event \<times> ws_msg list) list" where
  "demo_reads = [(RMsg (MBinary (frame_encode KRequest (op_as_u16 OpBind) 1 [])), []), (RMsg (MBinary (frame_encode KRequest (op_as_u16 OpRoomJoin) 2 [])), [])]"

lemma demo_reads_served: "map rq_pid (fst (snd (read_loop_conn demo_reader demo_reads None))) = [2]"
  by (simp add: demo_reads_def demo_reader_def decode_request read_client_def read_unbound_def read_bound_def header_kind_def KIND_MASK_def del: op_as_u16.simps)

theorem ws_binds_first_witness: "\<exists>x \<in> set demo_reads. binds demo_reader (fst x)"
proof -
  obtain outs rqs sess where r: "read_loop_conn demo_reader demo_reads None = (outs, rqs, sess)" by (metis prod.exhaust)
  then show ?thesis using ws_binds_first [OF r] demo_reads_served by auto
qed

end
