(* ===== verification/Room.thy ===== *)
theory Room
  imports Trk
begin

text \<open>
  A room of the media server (\<open>oxsfud/src/room/mod.rs\<close>): roster, permissions, version and lifetime. Every method runs
  under the lock of the room; a change of the roster and the notice about it carry one version number.
  The room parts of joining and leaving (\<open>ops/rooms.rs\<close>, \<open>gc/mod.rs\<close>) are the handlers below.
\<close>

definition PERMANENT :: nat where "PERMANENT = 2 ^ 32 - 1"

record permission =
  p_audio :: bool
  p_video :: bool
  p_screen :: bool
  p_floor :: bool

definition permission_all :: permission where
  "permission_all = \<lparr>p_audio = True, p_video = True, p_screen = True, p_floor = True\<rparr>"

record 'j member =
  m_user :: string
  m_role :: "u8 option"
  m_select :: bool
  m_type :: u8
  m_hidden :: bool
  m_metadata :: "'j option"
  m_permission :: permission

record 'j member_info =
  mi_user :: string
  mi_role :: "u8 option"
  mi_select :: bool
  mi_type :: u8
  mi_metadata :: "'j option"
  mi_permission :: "permission option"

definition info_of :: "'j member \<Rightarrow> 'j member_info" where
  "info_of m = \<lparr>mi_user = m_user m, mi_role = m_role m, mi_select = m_select m, mi_type = m_type m, mi_metadata = m_metadata m,
     mi_permission = (if m_permission m = permission_all then None else Some (m_permission m))\<rparr>"

definition member_me :: "'j member \<Rightarrow> 'j member_info" where
  "member_me m = (info_of m)\<lparr>mi_permission := Some (m_permission m)\<rparr>"

record 'j room =
  rm_id :: string
  rm_name :: string
  rm_capacity :: nat
  rm_created_at :: nat
  rm_unused_ttl :: nat
  rm_departure_ttl :: nat
  rm_epoch :: string
  rm_members :: "(string, 'j member) btree"
  rm_seq :: nat
  rm_overrides :: "string \<Rightarrow> permission option"
  rm_empty_since :: nat
  rm_ever_joined :: bool
  rm_empty_seen :: bool
  rm_closed :: bool

definition room_new :: "string \<Rightarrow> string \<Rightarrow> nat \<Rightarrow> nat \<Rightarrow> nat \<Rightarrow> string \<Rightarrow> nat \<Rightarrow> 'j room" where
  "room_new rid name cap unused departure epoch now = \<lparr>rm_id = rid, rm_name = name, rm_capacity = cap, rm_created_at = now,
     rm_unused_ttl = unused, rm_departure_ttl = departure, rm_epoch = epoch, rm_members = [], rm_seq = 0, rm_overrides = Map.empty,
     rm_empty_since = now, rm_ever_joined = False, rm_empty_seen = False, rm_closed = False\<rparr>"

datatype participant_event = PJoined | PLeft

record 'j participant_notice =
  pn_type :: participant_event
  pn_room :: string
  pn_user :: string
  pn_info :: "'j member_info option"
  pn_version :: "string \<times> nat"
  pn_exclude :: "string list"

section \<open>The methods\<close>

definition room_remove :: "string \<Rightarrow> 'j room \<Rightarrow> 'j member option \<times> 'j room" where
  "room_remove u r = (bt_get (rm_members r) u, r\<lparr>rm_members := bt_remove u (rm_members r)\<rparr>)"

definition bump_and_send :: "(string \<times> nat \<Rightarrow> 'n option) \<Rightarrow> 'j room \<Rightarrow> (nat \<times> 'n list) \<times> 'j room" where
  "bump_and_send f r =
     (let r1 = r\<lparr>rm_seq := rm_seq r + 1\<rparr>
      in ((rm_seq r1, case f (rm_epoch r1, rm_seq r1) of Some n \<Rightarrow> [n] | None \<Rightarrow> []), r1))"

definition announce_left :: "string \<Rightarrow> 'j room \<Rightarrow> (nat \<times> 'j participant_notice list) \<times> 'j room" where
  "announce_left u r =
     bump_and_send (\<lambda>v. Some \<lparr>pn_type = PLeft, pn_room = rm_id r, pn_user = u, pn_info = None, pn_version = v, pn_exclude = [u]\<rparr>) r"

definition room_close :: "'j room \<Rightarrow> 'j room" where
  "room_close r = r\<lparr>rm_closed := True\<rparr>"

definition room_version :: "'j room \<Rightarrow> string \<times> nat" where
  "room_version r = (rm_epoch r, rm_seq r)"

definition room_member :: "'j room \<Rightarrow> string \<Rightarrow> 'j member option" where
  "room_member r u = bt_get (rm_members r) u"

definition room_has :: "'j room \<Rightarrow> string \<Rightarrow> bool" where
  "room_has r u \<longleftrightarrow> bt_get (rm_members r) u \<noteq> None"

definition registered :: "'j room \<Rightarrow> nat" where
  "registered r = length (rm_members r)"

definition visible :: "'j room \<Rightarrow> 'j member list" where
  "visible r = filter (\<lambda>m. \<not> m_hidden m) (map snd (rm_members r))"

definition user_count :: "'j room \<Rightarrow> nat" where
  "user_count r = length (visible r)"

definition hidden_count :: "'j room \<Rightarrow> nat" where
  "hidden_count r = length (filter m_hidden (map snd (rm_members r)))"

definition room_rec :: "'j room \<Rightarrow> bool" where
  "room_rec r \<longleftrightarrow> list_ex (\<lambda>m. m_type m = 1) (map snd (rm_members r))"

definition participants :: "'j room \<Rightarrow> 'j member_info list" where
  "participants r = map info_of (visible r)"

definition room_users :: "'j room \<Rightarrow> string list" where
  "room_users r = bt_keys (rm_members r)"

definition permission_for :: "string \<Rightarrow> permission option \<Rightarrow> 'j room \<Rightarrow> permission" where
  "permission_for u tok r = (case rm_overrides r u of Some p \<Rightarrow> p | None \<Rightarrow> (case tok of Some p \<Rightarrow> p | None \<Rightarrow> permission_all))"

definition full_for :: "bool \<Rightarrow> 'j room \<Rightarrow> bool" where
  "full_for hidden r \<longleftrightarrow> \<not> hidden \<and> rm_capacity r \<le> user_count r"

definition room_join :: "'j member \<Rightarrow> bool \<Rightarrow> permission option \<Rightarrow> 'j room \<Rightarrow> (nat \<times> 'j participant_notice list) \<times> 'j room" where
  "room_join m0 rejoin tok r =
     (let m = m0\<lparr>m_permission := permission_for (m_user m0) tok r\<rparr>;
          r1 = r\<lparr>rm_ever_joined := True, rm_empty_since := 0, rm_empty_seen := False, rm_members := bt_insert (m_user m) m (rm_members r)\<rparr>
      in if \<not> rejoin \<and> \<not> m_hidden m
         then (let r2 = r1\<lparr>rm_seq := rm_seq r1 + 1\<rparr>
               in ((rm_seq r2, [\<lparr>pn_type = PJoined, pn_room = rm_id r2, pn_user = m_user m, pn_info = Some (info_of m),
                     pn_version = (rm_epoch r2, rm_seq r2), pn_exclude = [m_user m]\<rparr>]), r2))
         else ((rm_seq r1, []), r1))"

definition set_permission :: "string \<Rightarrow> permission \<Rightarrow> 'j room \<Rightarrow> (permission \<times> permission \<times> bool) option \<times> 'j room" where
  "set_permission u p r =
     (case bt_get (rm_members r) u of
        None \<Rightarrow> (None, r)
      | Some m \<Rightarrow>
          (Some (m_permission m, p, m_hidden m),
           if m_permission m = p then r
           else r\<lparr>rm_members := bt_insert u (m\<lparr>m_permission := p\<rparr>) (rm_members r),
                  rm_overrides := (rm_overrides r)(u := if p = permission_all then None else Some p)\<rparr>))"

definition ttl_due :: "nat \<Rightarrow> 'j room \<Rightarrow> bool \<times> 'j room" where
  "ttl_due now r =
     (if rm_members r \<noteq> [] then (False, r\<lparr>rm_empty_since := 0, rm_empty_seen := False\<rparr>)
      else if rm_ever_joined r \<and> rm_empty_since r = 0 then (False, r\<lparr>rm_empty_since := now, rm_empty_seen := True\<rparr>)
      else
        (let ttl = (if rm_ever_joined r then rm_departure_ttl r else rm_unused_ttl r)
         in (ttl \<noteq> PERMANENT \<and> ttl * 1000 \<le> now - rm_empty_since r, r)))"

section \<open>Joining and leaving\<close>

text \<open>The room's part of a leave.\<close>

definition leave_handler :: "string \<Rightarrow> 'j room \<Rightarrow> 'j participant_notice list option \<times> 'j room" where
  "leave_handler u r =
     (case room_remove u r of
        (None, r') \<Rightarrow> (None, r')
      | (Some m, r') \<Rightarrow> if m_hidden m then (Some [], r') else (case announce_left u r' of ((_, ns), r'') \<Rightarrow> (Some ns, r'')))"

text \<open>A member that came again and finds no free lines loses its place.\<close>

definition join_undone :: "string \<Rightarrow> bool \<Rightarrow> 'j room \<Rightarrow> 'j participant_notice list \<times> 'j room" where
  "join_undone u rejoin r =
     (if \<not> rejoin then ([], r)
      else case room_remove u r of
             (None, r') \<Rightarrow> ([], r')
           | (Some m, r') \<Rightarrow> (case announce_left u r' of ((_, ns), r'') \<Rightarrow> (ns, r'')))"

text \<open>
  A join as the room sees it: who joins, whether an earlier connection of the user is in the room (\<open>old.in_room\<close>),
  whether it is the same session with another join number (\<open>join_same\<close>), whether the node sheds load, whether the
  join fails between the check of the capacity and the table of lines (too many rooms, no connection, no table) and
  whether the table then has no free lines.
\<close>

record 'j join_req =
  jq_member :: "'j member"
  jq_token :: "permission option"
  jq_old_in_room :: bool
  jq_same :: bool
  jq_over :: bool
  jq_refused :: bool
  jq_mid_limit :: bool

text \<open>
  The room's part of a join. The earlier connection is evicted and keeps its entry in the roster, so that a member
  that comes again keeps its place; anyone else needs room.
\<close>

definition join_handler :: "'j join_req \<Rightarrow> 'j room \<Rightarrow> 'j participant_notice list \<times> 'j room" where
  "join_handler q r =
     (let m = jq_member q; u = m_user m; rejoin = (jq_old_in_room q \<and> room_has r u)
      in if jq_over q \<and> \<not> room_has r u then ([], r)
         else if jq_old_in_room q \<and> jq_same q then ([], r)
         else if \<not> rejoin \<and> full_for (m_hidden m) r then ([], r)
         else if jq_refused q then ([], r)
         else if jq_mid_limit q then join_undone u rejoin r
         else (case room_join m rejoin (jq_token q) r of ((_, ns), r') \<Rightarrow> (ns, r')))"

text \<open>
  The roster and the version of a snapshot or of the answer to a join are read one after the other under the room's
  lock, the roster first: \<open>r\<close> is the room at the first reading, \<open>r'\<close> at the second.
\<close>

definition room_snapshot :: "'j room \<Rightarrow> 'j room \<Rightarrow> 'j member_info list \<times> (string \<times> nat)" where
  "room_snapshot r r' = (participants r, room_version r')"

end
