(* ===== verification/Room_Props.thy ===== *)
theory Room_Props
  imports Room
begin

text \<open>
  Properties of a room: a client that starts from a snapshot and applies the later notices has the roster, and
  the capacity is kept; both under the condition that a member who comes again does not change between hidden and
  visible, and the capacity when joins are handled one after the other.
\<close>

datatype 'j room_event =
    RJoin "'j join_req"
  | RLeave string
  | RPermission string permission
  | RNote
  | RTtl nat
  | RClose

fun room_step :: "'j room \<Rightarrow> 'j room_event \<Rightarrow> 'j participant_notice list \<times> 'j room" where
  "room_step r (RJoin q) = join_handler q r"
| "room_step r (RLeave u) = (case leave_handler u r of (ns, r') \<Rightarrow> (case ns of Some xs \<Rightarrow> xs | None \<Rightarrow> [], r'))"
| "room_step r (RPermission u p) = ([], snd (set_permission u p r))"
| "room_step r RNote = ([], snd (bump_and_send (\<lambda>v. None :: unit option) r))"
| "room_step r (RTtl now) = ([], snd (ttl_due now r))"
| "room_step r RClose = ([], room_close r)"

fun room_run :: "'j room \<Rightarrow> 'j room_event list \<Rightarrow> 'j participant_notice list \<times> 'j room" where
  "room_run r [] = ([], r)"
| "room_run r (e # es) = (case room_step r e of (ns, r') \<Rightarrow> (case room_run r' es of (ms, r'') \<Rightarrow> (ns @ ms, r'')))"

text \<open>A member that joins again is hidden if and only if it was.\<close>

fun keeps_hidden :: "'j room \<Rightarrow> 'j room_event \<Rightarrow> bool" where
  "keeps_hidden r (RJoin q) = (case bt_get (rm_members r) (m_user (jq_member q)) of Some old \<Rightarrow> m_hidden old = m_hidden (jq_member q) | None \<Rightarrow> True)"
| "keeps_hidden r _ = True"

fun steady :: "'j room \<Rightarrow> 'j room_event list \<Rightarrow> bool" where
  "steady r [] = True"
| "steady r (e # es) = (keeps_hidden r e \<and> steady (snd (room_step r e)) es)"

text \<open>What a client makes of the notices: those not newer than its snapshot are passed over.\<close>

definition apply_notice :: "nat \<Rightarrow> string set \<Rightarrow> 'j participant_notice \<Rightarrow> string set" where
  "apply_notice v S n = (if v < snd (pn_version n) then (case pn_type n of PJoined \<Rightarrow> insert (pn_user n) S | PLeft \<Rightarrow> S - {pn_user n}) else S)"

section \<open>The roster\<close>

definition vis :: "'j room \<Rightarrow> string set" where
  "vis r = {u. \<exists>m. bt_get (rm_members r) u = Some m \<and> \<not> m_hidden m}"

definition room_ok :: "'j room \<Rightarrow> bool" where
  "room_ok r \<longleftrightarrow> bt_ok (rm_members r) \<and> (\<forall>u m. bt_get (rm_members r) u = Some m \<longrightarrow> m_user m = u)"

lemma room_ok_step: "room_ok r \<Longrightarrow> room_ok (snd (room_step r e))"
  by (cases e)
    (auto simp: room_ok_def join_handler_def join_undone_def room_join_def leave_handler_def room_remove_def announce_left_def bump_and_send_def
      set_permission_def ttl_due_def room_close_def Let_def split: option.split prod.split if_splits)

lemma set_members: "room_ok r \<Longrightarrow> (u, m) \<in> set (rm_members r) \<longleftrightarrow> bt_get (rm_members r) u = Some m"
  using bt_ok_distinct [of "rm_members r"] by (simp add: room_ok_def bt_get_def bt_keys_def)


lemma vis_count:
  assumes "room_ok r"
  shows "user_count r = card (vis r)"
proof -
  let ?xs = "filter (\<lambda>e. \<not> m_hidden (snd e)) (rm_members r)"
  have "vis r = fst ` set ?xs" using assms by (force simp: vis_def set_members [symmetric])
  moreover have "distinct (map fst ?xs)" using bt_ok_distinct [of "rm_members r"] assms by (simp add: room_ok_def bt_keys_def distinct_map_filter)
  ultimately have "card (vis r) = length ?xs" by (metis distinct_card length_map set_map)
  then show ?thesis by (simp add: user_count_def visible_def filter_map o_def)
qed

lemma step_seq:
  assumes "room_step r e = (ns, r')"
  shows "(\<forall>n \<in> set ns. rm_seq r < snd (pn_version n) \<and> snd (pn_version n) \<le> rm_seq r') \<and> rm_seq r \<le> rm_seq r' \<and> rm_capacity r' = rm_capacity r"
  using assms
  by (cases e)
    (auto simp: join_handler_def join_undone_def room_join_def leave_handler_def room_remove_def announce_left_def bump_and_send_def
      set_permission_def ttl_due_def room_close_def Let_def split: option.splits prod.splits if_splits)




lemma room_run_Cons: "snd (room_run r (e # es)) = snd (room_run (snd (room_step r e)) es)"
  by (simp split: prod.split)

lemma run_ok: "room_ok r \<Longrightarrow> room_ok (snd (room_run r es))"
  by (induction es arbitrary: r) (auto simp: room_run_Cons simp del: room_run.simps(2) intro: room_ok_step)


lemma new_ok: "room_ok (room_new rid name cap unused departure epoch now)"
  by (simp add: room_ok_def room_new_def)


section \<open>The capacity\<close>

lemma vis_finite: "room_ok r \<Longrightarrow> finite (vis r)"
proof -
  have "vis r \<subseteq> set (bt_keys (rm_members r))" by (auto simp: vis_def dest: bt_get_Some_key)
  then show ?thesis by (rule finite_subset) simp
qed

lemma step_capacity:
  assumes "room_ok r" "keeps_hidden r e" "card (vis r) \<le> rm_capacity r"
  shows "card (vis (snd (room_step r e))) \<le> rm_capacity r"
proof (cases e)
  case (RJoin q)
  define m where "m = jq_member q"
  have new: "vis (snd (room_step r e)) \<subseteq> insert (m_user m) (vis r)"
    by (auto simp: RJoin m_def join_handler_def join_undone_def room_remove_def announce_left_def bump_and_send_def room_join_def room_has_def
      vis_def Let_def split: if_splits option.splits prod.splits)
  show ?thesis
  proof (cases "room_has r (m_user m) \<or> m_hidden m \<or> full_for (m_hidden m) r")
    case True
    then have "vis (snd (room_step r e)) \<subseteq> vis r"
      using assms(2) by (auto simp: RJoin m_def join_handler_def join_undone_def room_remove_def announce_left_def bump_and_send_def room_join_def room_has_def
        vis_def Let_def split: if_splits option.splits prod.splits)
    then show ?thesis using assms card_mono [OF vis_finite [OF assms(1)]] by (meson le_trans)
  next
    case False
    then have "card (vis r) < rm_capacity r" using vis_count [OF assms(1)] by (auto simp: full_for_def)
    then show ?thesis using card_mono [OF _ new] vis_finite [OF assms(1)] card_insert_le_m1 [of "rm_capacity r" "vis r" "m_user m"] by fastforce
  qed
next
  case (RLeave u)
  have "vis (snd (room_step r e)) \<subseteq> vis r"
    by (auto simp: RLeave leave_handler_def room_remove_def announce_left_def bump_and_send_def vis_def Let_def split: if_splits option.splits)
  then show ?thesis using assms card_mono [OF vis_finite [OF assms(1)]] by (meson le_trans)
next
  case (RPermission u p)
  have "vis (snd (room_step r e)) = vis r" by (auto simp: RPermission set_permission_def vis_def split: option.splits)
  then show ?thesis using assms by simp
qed (use assms in \<open>auto simp: bump_and_send_def ttl_due_def room_close_def vis_def Let_def\<close>)

text \<open>
  The capacity (C24): joins handled one after the other never bring more visible members into a room than it holds,
  as long as no member that comes again changes between hidden and visible (\<open>steady\<close>).
\<close>

theorem room_capacity_kept:
  assumes "room_run (room_new rid name cap unused departure epoch now) es = (ns, r)" "steady (room_new rid name cap unused departure epoch now) es"
  shows "user_count r \<le> cap"
proof -
  have "card (vis (snd (room_run r0 es))) \<le> rm_capacity r0" if "steady r0 es" "room_ok r0" "card (vis r0) \<le> rm_capacity r0" for r0 :: "'a room"
    using that
  proof (induction es arbitrary: r0)
    case (Cons e es)
    have "rm_capacity (snd (room_step r0 e)) = rm_capacity r0" using step_seq [of r0 e] by (metis prod.collapse)
    then show ?case
      using Cons.IH [of "snd (room_step r0 e)"] Cons.prems room_ok_step [OF Cons.prems(2), of e] step_capacity [OF Cons.prems(2), of e]
      unfolding room_run_Cons by simp
  qed simp
  moreover have "vis (room_new rid name cap unused departure epoch now) = {}" "rm_capacity (room_new rid name cap unused departure epoch now) = cap"
    by (simp_all add: vis_def room_new_def)
  moreover have "room_ok r" using run_ok [OF new_ok] assms(1) by (metis snd_conv)
  ultimately show ?thesis using assms new_ok vis_count [of r] by (metis card.empty snd_conv zero_le)
qed

section \<open>Examples\<close>

definition demo_member :: "string \<Rightarrow> bool \<Rightarrow> unit member" where
  "demo_member u hidden = \<lparr>m_user = u, m_role = None, m_select = True, m_type = 0, m_hidden = hidden, m_metadata = None, m_permission = permission_all\<rparr>"

definition demo_join :: "string \<Rightarrow> bool \<Rightarrow> bool \<Rightarrow> unit room_event" where
  "demo_join u hidden again = RJoin \<lparr>jq_member = demo_member u hidden, jq_token = None, jq_old_in_room = again, jq_same = False,
     jq_over = False, jq_refused = False, jq_mid_limit = False\<rparr>"

definition demo_room :: "nat \<Rightarrow> unit room" where
  "demo_room cap = room_new ''r'' ''r'' cap 60 60 ''e'' 5"

lemmas demo_room_defs = demo_room_def demo_join_def demo_member_def room_new_def join_handler_def room_has_def full_for_def user_count_def visible_def room_join_def
  permission_for_def participants_def info_of_def apply_notice_def leave_handler_def room_remove_def announce_left_def bump_and_send_def


theorem room_capacity_kept_witness:
  "user_count (snd (room_run (demo_room 1) [demo_join ''a'' False False, demo_join ''b'' False False])) \<le> 1"
  unfolding demo_room_def
  by (rule room_capacity_kept [OF prod.collapse [symmetric]]) (simp add: demo_room_defs Let_def bt_get_def)

section \<open>What the handlers do not cover\<close>

text \<open>
  A member that joins again under a token with another hidden claim changes its visibility without a notice: the clients
  keep a member that the roster no longer shows, or never learn of one that it shows.
\<close>

theorem room_rejoin_unannounced:
  "fst (room_run (demo_room 2) [demo_join ''a'' True False, demo_join ''a'' False True]) = [] \<and>
   map mi_user (participants (snd (room_run (demo_room 2) [demo_join ''a'' True False, demo_join ''a'' False True]))) = [''a'']"
  by (simp add: demo_room_defs Let_def bt_get_def)

text \<open>It also passes by the check of the capacity: a room for one visible member then has two.\<close>

theorem room_rejoin_over_capacity:
  "user_count (snd (room_run (demo_room 1) [demo_join ''a'' False False, demo_join ''h'' True False, demo_join ''h'' False True])) = 2"
  by (simp add: demo_room_defs Let_def bt_get_def less_char_def)

text \<open>
  A join between the two readings of a snapshot is lost to its client: the roster is without \<open>b\<close>, the version is that
  of \<open>b\<close>'s notice, and the client passes over it.
\<close>

theorem room_snapshot_torn:
  "let r1 = snd (room_run (demo_room 2) [demo_join ''a'' False False]);
       rv = snd (room_run r1 [demo_join ''b'' False False]);
       ns = fst (room_run (demo_room 2) [demo_join ''a'' False False, demo_join ''b'' False False]);
       snap = room_snapshot r1 rv
   in foldl (apply_notice (snd (snd snap))) (mi_user ` set (fst snap)) ns = {''a''} \<and> map mi_user (participants rv) = [''a'', ''b'']"
  by (simp add: demo_room_defs room_snapshot_def room_version_def Let_def bt_get_def Collect_conv_if)

text \<open>
  The check of the capacity and the entry into the roster are two critical sections: two joins that both pass the check
  while one place is left both enter.
\<close>

theorem room_capacity_race:
  "\<not> full_for False (demo_room 1) \<and>
   user_count (snd (room_join (demo_member ''b'' False) False None (snd (room_join (demo_member ''a'' False) False None (demo_room 1))))) = 2 \<and>
   rm_capacity (demo_room 1) = 1"
  by (simp add: demo_room_defs Let_def)

text \<open>
  Leaving is not announced for a hidden member, but a hidden member that comes again and finds no free lines
  is announced as having left, to clients that never knew of it.
\<close>

theorem hidden_member_announced:
  "map pn_user (fst (join_undone ''h'' True (snd (room_join (demo_member ''h'' True) False None (demo_room 1))))) = [''h''] \<and>
   fst (leave_handler ''h'' (snd (room_join (demo_member ''h'' True) False None (demo_room 1)))) = Some [] \<and>
   participants (snd (room_join (demo_member ''h'' True) False None (demo_room 1))) = []"
  by (simp add: demo_room_defs join_undone_def bt_get_def Let_def)

end
