(* ===== verification/Hub_Ses.thy ===== *)
theory Hub_Ses
  imports Sig_Codes
begin

text \<open>
  The sessions of a gateway (\<open>oxhubd/src/ses/mod.rs\<close>) with the interest it keeps on the bus (\<open>bus/mod.rs\<close>): binding,
  resuming, taking over from another gateway, dropping, the rooms of a session per media server, and the
  delivery of notices. A handler is one step; what the bus answers is an argument of it.
\<close>

record session =
  sn_sid :: string
  sn_user :: string
  sn_bound :: bool
  sn_resumed :: bool
  sn_live :: bool
  sn_conn :: "nat option"
  sn_dropped_at :: "nat option"
  sn_servers :: "(string, string btset) btree"
  sn_epochs :: "(string, string) btree"
  sn_touched :: "string btset"

record hub =
  hb_node :: string
  hb_by_sid :: "(string, session) btree"
  hb_by_user :: "string \<Rightarrow> string option"
  hb_room_subs :: "string \<Rightarrow> nat"
  hb_user_subs :: "string \<Rightarrow> nat"
  hb_tokens :: "string set"

datatype hub_out =
    HLeave nat code
  | HGone string string
  | HNotice nat

definition hub_new :: "string \<Rightarrow> hub" where
  "hub_new node = \<lparr>hb_node = node, hb_by_sid = [], hb_by_user = Map.empty, hb_room_subs = (\<lambda>_. 0), hb_user_subs = (\<lambda>_. 0), hb_tokens = {}\<rparr>"

section \<open>Interest\<close>

text \<open>
  A subscription stands while its count is positive; a count that is not there is zero. The first interest subscribes;
  when that fails the entry is taken out with all that was counted in it meanwhile (\<open>interest_failed\<close>). The
  operations below are those of a gateway whose subscriptions succeed.
\<close>

definition interest_up :: "string \<Rightarrow> (string \<Rightarrow> nat) \<Rightarrow> string \<Rightarrow> nat" where
  "interest_up k m = m(k := m k + 1)"

definition interest_down :: "string \<Rightarrow> (string \<Rightarrow> nat) \<Rightarrow> string \<Rightarrow> nat" where
  "interest_down k m = m(k := m k - 1)"

definition interest_failed :: "string \<Rightarrow> (string \<Rightarrow> nat) \<Rightarrow> string \<Rightarrow> nat" where
  "interest_failed k m = m(k := 0)"

definition session_rooms :: "session \<Rightarrow> (string \<times> string) list" where
  "session_rooms s = concat (map (\<lambda>(n, rs). map (\<lambda>r. (n, r)) rs) (sn_servers s))"

definition ses_in_room :: "string \<Rightarrow> session \<Rightarrow> bool" where
  "ses_in_room room s \<longleftrightarrow> list_ex (\<lambda>(_, rs). room \<in> set rs) (sn_servers s)"

definition session_of_user :: "hub \<Rightarrow> string \<Rightarrow> session option" where
  "session_of_user h u = (case hb_by_user h u of None \<Rightarrow> None | Some sid \<Rightarrow> bt_get (hb_by_sid h) sid)"

section \<open>Registering\<close>

definition ses_register :: "session \<Rightarrow> hub \<Rightarrow> hub" where
  "ses_register s h = h\<lparr>hb_user_subs := interest_up (sn_user s) (hb_user_subs h), hb_tokens := insert (sn_sid s) (hb_tokens h),
     hb_by_sid := bt_insert (sn_sid s) s (hb_by_sid h), hb_by_user := (hb_by_user h)(sn_user s \<mapsto> sn_sid s)\<rparr>"

definition ses_unregister :: "session \<Rightarrow> hub \<Rightarrow> hub" where
  "ses_unregister s h =
     (if bt_get (hb_by_sid h) (sn_sid s) = None then h
      else h\<lparr>hb_by_sid := bt_remove (sn_sid s) (hb_by_sid h),
             hb_by_user := (if hb_by_user h (sn_user s) = Some (sn_sid s) then (hb_by_user h)(sn_user s := None) else hb_by_user h),
             hb_tokens := hb_tokens h - {sn_sid s},
             hb_user_subs := interest_down (sn_user s) (hb_user_subs h),
             hb_room_subs := foldl (\<lambda>m r. interest_down r m) (hb_room_subs h) (map snd (session_rooms s))\<rparr>)"

definition dispose :: "session \<Rightarrow> hub \<Rightarrow> hub_out list \<times> hub" where
  "dispose s h = (map (\<lambda>n. HGone n (sn_sid s)) (sn_touched s), ses_unregister s h)"

definition leave_conn :: "session \<Rightarrow> code \<Rightarrow> hub_out list" where
  "leave_conn s cd = (case sn_conn s of Some c \<Rightarrow> [HLeave c cd] | None \<Rightarrow> [])"

section \<open>Binding\<close>

definition session_fresh :: "string \<Rightarrow> string \<Rightarrow> nat \<Rightarrow> session" where
  "session_fresh sid u conn = \<lparr>sn_sid = sid, sn_user = u, sn_bound = True, sn_resumed = False, sn_live = True, sn_conn = Some conn,
     sn_dropped_at = None, sn_servers = [], sn_epochs = [], sn_touched = []\<rparr>"

definition over_quota :: "nat \<Rightarrow> string \<Rightarrow> nat \<Rightarrow> hub \<Rightarrow> bool" where
  "over_quota max_sessions u deploy h \<longleftrightarrow>
     0 < max_sessions \<and> max_sessions \<le> max (length (filter (\<lambda>(_, s). sn_user s \<noteq> u) (hb_by_sid h))) deploy"

definition bind_new :: "nat \<Rightarrow> string \<Rightarrow> string \<Rightarrow> nat \<Rightarrow> nat \<Rightarrow> hub \<Rightarrow> (code + hub_out list) \<times> hub" where
  "bind_new max_sessions sid u conn deploy h =
     (if over_quota max_sessions u deploy h then (Inl QuotaExceeded, h)
      else
        (let (outs, h1) = (case session_of_user h u of
               None \<Rightarrow> ([], h)
             | Some old \<Rightarrow> (case dispose old h of (os, h') \<Rightarrow> (leave_conn old DuplicateSession @ os, h')))
         in (Inr outs, ses_register (session_fresh sid u conn) h1)))"

definition bind_resume :: "string \<Rightarrow> nat \<Rightarrow> hub \<Rightarrow> hub_out list \<times> hub" where
  "bind_resume sid conn h =
     (case bt_get (hb_by_sid h) sid of
        None \<Rightarrow> ([], h)
      | Some s \<Rightarrow>
          ((case sn_conn s of Some c \<Rightarrow> if c \<noteq> conn then [HLeave c DuplicateSession] else [] | None \<Rightarrow> []),
           h\<lparr>hb_by_sid := bt_insert sid (s\<lparr>sn_conn := Some conn, sn_bound := True, sn_resumed := True, sn_live := True, sn_dropped_at := None\<rparr>) (hb_by_sid h)\<rparr>))"

text \<open>The session of another gateway, as it was handed over.\<close>

definition take_over :: "session \<Rightarrow> hub \<Rightarrow> hub" where
  "take_over d h =
     (let s = d\<lparr>sn_bound := False, sn_resumed := False, sn_live := False, sn_conn := None, sn_dropped_at := None\<rparr>;
          h1 = ses_register s h
      in h1\<lparr>hb_room_subs := foldl (\<lambda>m r. interest_up r m) (hb_room_subs h1) (map snd (session_rooms s))\<rparr>)"

definition hand_over :: "string \<Rightarrow> hub \<Rightarrow> session option \<times> hub_out list \<times> hub" where
  "hand_over sid h =
     (case bt_get (hb_by_sid h) sid of
        None \<Rightarrow> (None, [], h)
      | Some s \<Rightarrow> (Some s, leave_conn s DuplicateSession, ses_unregister s h))"

section \<open>Ending\<close>

text \<open>The session of the connection, which another bind may have ended already.\<close>

definition client_leave :: "session \<Rightarrow> hub \<Rightarrow> hub_out list \<times> hub" where
  "client_leave s h = dispose s h"

definition evict_sid :: "string \<Rightarrow> hub \<Rightarrow> hub_out list \<times> hub" where
  "evict_sid sid h =
     (case bt_get (hb_by_sid h) sid of
        None \<Rightarrow> ([], h)
      | Some s \<Rightarrow> (case dispose s h of (os, h') \<Rightarrow> (leave_conn s DuplicateSession @ os, h')))"

definition cut_user :: "string \<Rightarrow> hub \<Rightarrow> hub_out list \<times> hub" where
  "cut_user u h =
     (case session_of_user h u of
        None \<Rightarrow> ([], h)
      | Some s \<Rightarrow> (case dispose s h of (os, h') \<Rightarrow> (leave_conn s SessionRevoked @ os, h')))"

definition socket_dropped :: "string \<Rightarrow> nat \<Rightarrow> code option \<Rightarrow> nat \<Rightarrow> hub \<Rightarrow> hub_out list \<times> hub" where
  "socket_dropped sid conn cd now h =
     (case bt_get (hb_by_sid h) sid of
        None \<Rightarrow> ([], h)
      | Some s \<Rightarrow>
          if sn_conn s \<noteq> Some conn then ([], h)
          else if (case cd of Some c \<Rightarrow> code_num c = 2009 \<or> code_num c = 5004 | None \<Rightarrow> False) then dispose s h
          else ([], h\<lparr>hb_by_sid := bt_insert sid (s\<lparr>sn_bound := False, sn_conn := None, sn_dropped_at := Some now\<rparr>) (hb_by_sid h)\<rparr>))"

definition sweep_due :: "nat \<Rightarrow> nat \<Rightarrow> session \<Rightarrow> bool" where
  "sweep_due win now s \<longleftrightarrow> \<not> sn_bound s \<and> (case sn_dropped_at s of Some d \<Rightarrow> d + win \<le> now | None \<Rightarrow> False)"

definition sweep :: "nat \<Rightarrow> nat \<Rightarrow> hub \<Rightarrow> hub_out list \<times> hub" where
  "sweep win now h =
     foldl (\<lambda>(os, h) s. case dispose s h of (os', h') \<Rightarrow> (os @ os', h')) ([], h) (filter (sweep_due win now) (map snd (hb_by_sid h)))"

definition shutdown_all :: "hub \<Rightarrow> hub_out list" where
  "shutdown_all h = concat (map (\<lambda>(_, s). leave_conn s ServerShutdown) (hb_by_sid h))"

section \<open>Rooms\<close>

text \<open>
  A handler holds a session by reference: what it changes is seen in the registry as long as the session is registered,
  and changes nothing there afterwards. The handlers below take the session as it is and return it changed.
\<close>

definition put_session :: "session \<Rightarrow> hub \<Rightarrow> hub" where
  "put_session s h = (if bt_get (hb_by_sid h) (sn_sid s) = None then h else h\<lparr>hb_by_sid := bt_insert (sn_sid s) s (hb_by_sid h)\<rparr>)"

definition rooms_at :: "session \<Rightarrow> string \<Rightarrow> string btset" where
  "rooms_at s node = (case bt_get (sn_servers s) node of Some rs \<Rightarrow> rs | None \<Rightarrow> [])"

definition set_rooms :: "session \<Rightarrow> string \<Rightarrow> string list \<Rightarrow> hub \<Rightarrow> session \<times> hub" where
  "set_rooms s node rooms h =
     (let new = foldl (\<lambda>m r. bs_insert r m) [] rooms;
          old = rooms_at s node;
          s' = s\<lparr>sn_servers := bt_insert node new (sn_servers s)\<rparr>;
          up = foldl (\<lambda>m r. interest_up r m) (hb_room_subs h) (filter (\<lambda>r. r \<notin> set old) new);
          down = foldl (\<lambda>m r. interest_down r m) up (filter (\<lambda>r. r \<notin> set new) old)
      in (s', put_session s' (h\<lparr>hb_room_subs := down\<rparr>)))"

definition touch_node :: "session \<Rightarrow> string \<Rightarrow> hub \<Rightarrow> session \<times> hub" where
  "touch_node s node h = (let s' = s\<lparr>sn_touched := bs_insert node (sn_touched s)\<rparr> in (s', put_session s' h))"

definition put_epoch :: "session \<Rightarrow> string \<Rightarrow> string \<Rightarrow> hub \<Rightarrow> session \<times> hub" where
  "put_epoch s node epoch h = (let s' = s\<lparr>sn_epochs := bt_insert node epoch (sn_epochs s)\<rparr> in (s', put_session s' h))"

text \<open>The rate of joins: beyond the limit of a second the media server is told to put the client off.\<close>

definition admit :: "nat \<Rightarrow> nat \<Rightarrow> nat \<Rightarrow> nat \<Rightarrow> nat \<times> nat \<Rightarrow> nat option \<times> (nat \<times> nat)" where
  "admit lim base rnd now_ms g =
     (if lim = 0 then (None, g)
      else
        (let sec = now_ms div 1000;
             n = (if fst g \<noteq> sec then 0 else snd g) + 1
         in (if n \<le> lim then None else Some (base + rnd mod max base 1), (sec, n))))"

text \<open>
  A join that is routed to a node: the call, during which the gateway is interested in the room already, and what is done with the answer,
  which is the epoch of the media server and the rooms the client has there, or a failure.
\<close>

definition join_call :: "session \<Rightarrow> string \<Rightarrow> string \<Rightarrow> hub \<Rightarrow> session \<times> hub" where
  "join_call s room node h = touch_node s node (h\<lparr>hb_room_subs := interest_up room (hb_room_subs h)\<rparr>)"

definition join_answer :: "session \<Rightarrow> string \<Rightarrow> string \<Rightarrow> (string \<times> string list) option \<Rightarrow> hub \<Rightarrow> session \<times> hub" where
  "join_answer s room node reply h =
     (let (s', h') =
        (case reply of
           Some (epoch, rooms) \<Rightarrow> (case put_epoch s node epoch h of (s1, h1) \<Rightarrow> set_rooms s1 node rooms h1)
         | None \<Rightarrow> (s, h))
      in (s', h'\<lparr>hb_room_subs := interest_down room (hb_room_subs h')\<rparr>))"

definition route_join :: "session \<Rightarrow> string \<Rightarrow> string \<Rightarrow> (string \<times> string list) option \<Rightarrow> hub \<Rightarrow> session \<times> hub" where
  "route_join s room node reply h = (case join_call s room node h of (s1, h1) \<Rightarrow> join_answer s1 room node reply h1)"

definition route_rooms :: "session \<Rightarrow> string \<Rightarrow> string list option \<Rightarrow> hub \<Rightarrow> session \<times> hub" where
  "route_rooms s node reply h =
     (case touch_node s node h of (s1, h1) \<Rightarrow> (case reply of Some rooms \<Rightarrow> set_rooms s1 node rooms h1 | None \<Rightarrow> (s1, h1)))"

text \<open>Collecting a resume from the nodes the session has rooms on; the first that fails ends it.\<close>

fun resume_nodes :: "(string \<Rightarrow> string list option) \<Rightarrow> string list \<Rightarrow> session \<Rightarrow> hub \<Rightarrow> bool \<times> session \<times> hub" where
  "resume_nodes reply [] s h = (True, s, h)"
| "resume_nodes reply (n # ns) s h =
     (case reply n of
        None \<Rightarrow> (False, s, h)
      | Some rooms \<Rightarrow> (case set_rooms s n rooms h of (s', h') \<Rightarrow> resume_nodes reply ns s' h'))"

definition ses_resume :: "(string \<Rightarrow> string list option) \<Rightarrow> session \<Rightarrow> hub \<Rightarrow> code option \<times> session \<times> hub" where
  "ses_resume reply s h =
     (if \<not> (sn_bound s \<and> sn_live s \<and> sn_resumed s) then (Some SessionNotFound, s, h)
      else (case resume_nodes reply (map fst (filter (\<lambda>(_, rs). rs \<noteq> []) (sn_servers s))) s h of
              (True, s', h') \<Rightarrow> (None, s', h')
            | (False, s', h') \<Rightarrow> (Some SfuError, s', h')))"

definition apply_affiliation :: "(string \<Rightarrow> string option) \<Rightarrow> session \<Rightarrow> string option \<Rightarrow> string option \<Rightarrow> string list \<Rightarrow> hub \<Rightarrow> session \<times> hub" where
  "apply_affiliation node_of_epoch s sfu room rooms h =
     (let by_epoch = (case sfu of Some e \<Rightarrow> map_option fst (find (\<lambda>(_, v). v = e) (sn_epochs s)) | None \<Rightarrow> None);
          by_bus = (case sfu of Some e \<Rightarrow> node_of_epoch e | None \<Rightarrow> None);
          by_room = (case room of Some r \<Rightarrow> map_option fst (find (\<lambda>(_, rr). rr = r) (session_rooms s)) | None \<Rightarrow> None);
          node = (case by_epoch of Some n \<Rightarrow> Some n | None \<Rightarrow> (case by_bus of Some n \<Rightarrow> Some n | None \<Rightarrow> by_room))
      in case node of Some n \<Rightarrow> set_rooms s n rooms h | None \<Rightarrow> (s, h))"

definition drop_room :: "string \<Rightarrow> session \<Rightarrow> hub \<Rightarrow> hub" where
  "drop_room room s h =
     (if ses_in_room room s
      then put_session (s\<lparr>sn_servers := map (\<lambda>(n, rs). (n, bs_remove room rs)) (sn_servers s)\<rparr>)
             (h\<lparr>hb_room_subs := interest_down room (hb_room_subs h)\<rparr>)
      else h)"

definition room_dropped :: "string \<Rightarrow> hub \<Rightarrow> hub" where
  "room_dropped room h = foldl (\<lambda>h s. drop_room room s h) h (map snd (hb_by_sid h))"

section \<open>Notices\<close>

definition push_notice :: "session \<Rightarrow> hub_out list" where
  "push_notice s = (case sn_conn s of Some c \<Rightarrow> [HNotice c] | None \<Rightarrow> [])"

definition deliver_room :: "string \<Rightarrow> string list \<Rightarrow> hub \<Rightarrow> hub_out list" where
  "deliver_room room exclude h =
     concat (map (\<lambda>(_, s). if \<not> ses_in_room room s \<or> sn_user s \<in> set exclude then [] else push_notice s) (hb_by_sid h))"

definition deliver_user ::
  "(string \<Rightarrow> string option) \<Rightarrow> string \<Rightarrow> (string option \<times> string option \<times> string list) option \<Rightarrow> hub \<Rightarrow> hub_out list \<times> hub" where
  "deliver_user node_of_epoch u aff h =
     (case session_of_user h u of
        None \<Rightarrow> ([], h)
      | Some s \<Rightarrow>
          (push_notice s, case aff of Some (sfu, room, rooms) \<Rightarrow> snd (apply_affiliation node_of_epoch s sfu room rooms h) | None \<Rightarrow> h))"

end
