(* ===== verification/Hub_Ses_Props.thy ===== *)
theory Hub_Ses_Props
  imports Hub_Ses
begin

text \<open>
  The registry of sessions and the interest on the bus agree: a gateway is subscribed to the notices of exactly the
  rooms and users of its sessions, and every user has at most one session. A handler is one step here; what two handlers
  can do to each other while one waits for the bus is shown by the examples at the end.
\<close>

section \<open>Sums over a tree\<close>

definition tsum :: "('v \<Rightarrow> nat) \<Rightarrow> ('k, 'v) btree \<Rightarrow> nat" where
  "tsum f t = sum_list (map (\<lambda>e. f (snd e)) t)"

definition at_key :: "('v \<Rightarrow> nat) \<Rightarrow> ('k, 'v) btree \<Rightarrow> 'k \<Rightarrow> nat" where
  "at_key f t k = (case bt_get t k of Some v \<Rightarrow> f v | None \<Rightarrow> 0)"

lemma tsum_insert: "bt_ok t \<Longrightarrow> tsum f (bt_insert k v t) + at_key f t k = tsum f t + f v"
proof (induction k v t rule: bt_insert.induct)
  case (2 k v k' v' t)
  then have "k < k' \<Longrightarrow> bt_get t k = None"
    by (auto simp: bt_ok_def bt_get_def map_of_eq_None_iff)
  then show ?case using 2 by (auto simp: tsum_def at_key_def bt_get_def bt_ok_def)
qed (simp add: tsum_def at_key_def)

lemma tsum_remove: "bt_ok t \<Longrightarrow> tsum f (bt_remove k t) + at_key f t k = tsum f t"
proof (induction t)
  case (Cons e t)
  have "filter (\<lambda>e. fst e \<noteq> k) t = t" if "fst e = k"
    using Cons.prems that by (auto simp: bt_ok_def filter_id_conv)
  then show ?case using Cons by (auto simp: tsum_def at_key_def bt_get_def bt_remove_def bt_ok_def)
qed (simp add: tsum_def at_key_def bt_remove_def)

lemma tsum_member: "bt_ok t \<Longrightarrow> at_key f t k \<le> tsum f t"
  using tsum_remove [of t f k] by linarith

lemma tsum_zero: "(tsum f t = 0) = (\<forall>e \<in> set t. f (snd e) = 0)"
  by (auto simp: tsum_def)

section \<open>Counting\<close>

lemma interest_ups: "foldl (\<lambda>m r. interest_up r m) m xs = (\<lambda>r. m r + count_list xs r)"
  by (induction xs arbitrary: m) (auto simp: interest_up_def fun_eq_iff)

lemma interest_downs: "foldl (\<lambda>m r. interest_down r m) m xs = (\<lambda>r. m r - count_list xs r)"
  by (induction xs arbitrary: m) (auto simp: interest_down_def fun_eq_iff)

definition room_uses :: "string \<Rightarrow> session \<Rightarrow> nat" where
  "room_uses r s = count_list (map snd (session_rooms s)) r"

lemma count_map_pair: "count_list (map (snd \<circ> Pair n) rs) r = count_list rs r"
  by (induction rs) auto

lemma room_uses_sum: "room_uses r s = tsum (\<lambda>rs. count_list rs r) (sn_servers s)"
proof -
  have "count_list (map snd (concat (map (\<lambda>(n, rs). map (\<lambda>r. (n, r)) rs) t))) r = tsum (\<lambda>rs. count_list rs r) t" for t :: "(string, string list) btree"
    by (induction t) (auto simp: tsum_def count_map_pair comp_def)
  then show ?thesis by (simp add: room_uses_def session_rooms_def)
qed

lemma room_uses_pos: "(0 < room_uses r s) = ses_in_room r s"
proof -
  have "(room_uses r s = 0) = (\<not> ses_in_room r s)"
    by (auto simp: room_uses_sum tsum_zero ses_in_room_def list_ex_iff count_list_0_iff split: prod.splits)
  then show ?thesis by auto
qed

lemma count_distinct: "distinct xs \<Longrightarrow> count_list xs r = of_bool (r \<in> set xs)"
  by (induction xs) auto

section \<open>The invariant\<close>

definition ses_shape :: "session \<Rightarrow> bool" where
  "ses_shape s \<longleftrightarrow> bt_ok (sn_servers s) \<and> (\<forall>e \<in> set (sn_servers s). sorted_wrt (<) (snd e))"

text \<open>The tables by session and by user.\<close>

definition paired :: "(string \<Rightarrow> session option) \<Rightarrow> (string \<Rightarrow> string option) \<Rightarrow> bool" where
  "paired g u \<longleftrightarrow> (\<forall>sid s. g sid = Some s \<longrightarrow> sn_sid s = sid \<and> ses_shape s \<and> u (sn_user s) = Some sid) \<and>
     (\<forall>x sid. u x = Some sid \<longrightarrow> (\<exists>s. g sid = Some s \<and> sn_user s = x))"

lemma pairedD: "paired g u \<Longrightarrow> g sid = Some s \<Longrightarrow> sn_sid s = sid \<and> ses_shape s \<and> u (sn_user s) = Some sid"
  by (simp add: paired_def)

lemma pairedD_user: "paired g u \<Longrightarrow> u x = Some sid \<Longrightarrow> \<exists>s. g sid = Some s \<and> sn_user s = x"
  by (simp add: paired_def)

lemma paired_add:
  assumes "paired g u" "g (sn_sid s) = None" "u (sn_user s) = None" "ses_shape s"
  shows "paired (g(sn_sid s \<mapsto> s)) (u(sn_user s \<mapsto> sn_sid s))"
proof -
  have "sn_user s' \<noteq> sn_user s" if "g sid = Some s'" for sid s' using pairedD [OF assms(1) that] assms(3) by auto
  moreover have "sid \<noteq> sn_sid s" if "u x = Some sid" for x sid using pairedD_user [OF assms(1) that] assms(2) by auto
  ultimately show ?thesis using assms by (auto simp: paired_def)
qed

lemma paired_drop:
  assumes "paired g u" "g (sn_sid s) = Some s"
  shows "paired (g(sn_sid s := None)) (u(sn_user s := None))"
  unfolding paired_def
proof (intro conjI allI impI)
  fix sid s' assume "(g(sn_sid s := None)) sid = Some s'"
  then have s': "g sid = Some s'" "sid \<noteq> sn_sid s" by (auto split: if_splits)
  then show "sn_sid s' = sid" "ses_shape s'" "(u(sn_user s := None)) (sn_user s') = Some sid"
    using pairedD [OF assms(1) s'(1)] pairedD [OF assms] by auto
next
  fix x sid assume "(u(sn_user s := None)) x = Some sid"
  then have x: "u x = Some sid" "x \<noteq> sn_user s" by (auto split: if_splits)
  then show "\<exists>s'. (g(sn_sid s := None)) sid = Some s' \<and> sn_user s' = x"
    using pairedD_user [OF assms(1) x(1)] assms(2) by auto
qed

lemma paired_change:
  assumes "paired g u" "g (sn_sid s) = Some s" "sn_sid s' = sn_sid s" "sn_user s' = sn_user s" "ses_shape s'"
  shows "paired (g(sn_sid s \<mapsto> s')) u"
  unfolding paired_def
proof (intro conjI allI impI)
  fix sid x assume "(g(sn_sid s \<mapsto> s')) sid = Some x"
  then have x: "sid = sn_sid s \<and> x = s' \<or> g sid = Some x" by (auto split: if_splits)
  then show "sn_sid x = sid" "ses_shape x" "u (sn_user x) = Some sid"
    using pairedD [OF assms(1), of sid x] pairedD [OF assms(1,2)] assms(3-5) by auto
next
  fix x sid assume "u x = Some sid"
  then obtain y where y: "g sid = Some y" "sn_user y = x" using pairedD_user [OF assms(1)] by blast
  then show "\<exists>y. (g(sn_sid s \<mapsto> s')) sid = Some y \<and> sn_user y = x"
    using assms(2,4) by (cases "sid = sn_sid s") auto
qed

text \<open>\<open>e\<close> is the interest of the calls under way.\<close>

definition hub_ok :: "(string \<Rightarrow> nat) \<Rightarrow> hub \<Rightarrow> bool" where
  "hub_ok e h \<longleftrightarrow> bt_ok (hb_by_sid h) \<and> paired (bt_get (hb_by_sid h)) (hb_by_user h) \<and>
     hb_room_subs h = (\<lambda>r. tsum (room_uses r) (hb_by_sid h) + e r) \<and>
     hb_user_subs h = (\<lambda>u. of_bool (hb_by_user h u \<noteq> None)) \<and>
     hb_tokens h = set (bt_keys (hb_by_sid h))"

lemma hub_ok_new: "hub_ok (\<lambda>_. 0) (hub_new node)"
  by (simp add: hub_ok_def paired_def hub_new_def tsum_def bt_keys_def fun_eq_iff)

lemmas hub_okD = hub_ok_def [THEN iffD1, THEN conjunct1] hub_ok_def [THEN iffD1, THEN conjunct2, THEN conjunct1]

lemma bt_keys_insert: "set (bt_keys (bt_insert k v t)) = insert k (set (bt_keys t))"
  by (simp add: bt_keys_def)

lemma bt_keys_remove: "set (bt_keys (bt_remove k t)) = set (bt_keys t) - {k}"
  by (auto simp: bt_keys_def bt_remove_def)

text \<open>A session that comes, goes or changes, with the interest that goes with it.\<close>

lemma register_ok:
  assumes "hub_ok e h" "bt_get (hb_by_sid h) (sn_sid s) = None" "hb_by_user h (sn_user s) = None" "ses_shape s"
    "\<And>r. m r = hb_room_subs h r + room_uses r s"
  shows "hub_ok e ((ses_register s h)\<lparr>hb_room_subs := m\<rparr>)"
proof -
  have "m = (\<lambda>r. tsum (room_uses r) (bt_insert (sn_sid s) s (hb_by_sid h)) + e r)"
  proof
    fix r show "m r = tsum (room_uses r) (bt_insert (sn_sid s) s (hb_by_sid h)) + e r"
      using tsum_insert [of "hb_by_sid h" "room_uses r" "sn_sid s" s] assms(1,2) assms(5) [of r] by (simp add: hub_ok_def at_key_def)
  qed
  then show ?thesis
    using assms(1) paired_add [OF hub_okD(2) [OF assms(1)] assms(2-4)] assms(3) unfolding hub_ok_def
    by (simp add: ses_register_def interest_up_def bt_keys_insert fun_eq_iff)
qed

lemma unregister_ok:
  assumes "hub_ok e h" "bt_get (hb_by_sid h) (sn_sid s) = Some s"
  shows "hub_ok e (ses_unregister s h)" "hb_by_user (ses_unregister s h) = (hb_by_user h)(sn_user s := None)"
    "bt_get (hb_by_sid (ses_unregister s h)) = (bt_get (hb_by_sid h))(sn_sid s := None)"
proof -
  have u: "hb_by_user h (sn_user s) = Some (sn_sid s)" using pairedD [OF hub_okD(2) [OF assms(1)] assms(2)] by simp
  have "tsum (room_uses r) (bt_remove (sn_sid s) (hb_by_sid h)) + e r + room_uses r s = hb_room_subs h r" for r
    using tsum_remove [of "hb_by_sid h" "room_uses r" "sn_sid s"] assms by (simp add: hub_ok_def at_key_def)
  then have tot: "hb_room_subs h r - count_list (map snd (session_rooms s)) r = tsum (room_uses r) (bt_remove (sn_sid s) (hb_by_sid h)) + e r" for r
    by (metis diff_add_inverse2 room_uses_def)
  have un: "ses_unregister s h = h\<lparr>hb_by_sid := bt_remove (sn_sid s) (hb_by_sid h), hb_by_user := (hb_by_user h)(sn_user s := None),
      hb_tokens := hb_tokens h - {sn_sid s}, hb_user_subs := interest_down (sn_user s) (hb_user_subs h),
      hb_room_subs := (\<lambda>r. tsum (room_uses r) (bt_remove (sn_sid s) (hb_by_sid h)) + e r)\<rparr>"
    unfolding ses_unregister_def interest_downs tot using assms(2) u by simp
  show "hub_ok e (ses_unregister s h)"
    using assms(1) paired_drop [OF hub_okD(2) [OF assms(1)] assms(2)] u unfolding hub_ok_def un
    by (simp add: bt_keys_remove interest_down_def fun_eq_iff)
  show "hb_by_user (ses_unregister s h) = (hb_by_user h)(sn_user s := None)"
    "bt_get (hb_by_sid (ses_unregister s h)) = (bt_get (hb_by_sid h))(sn_sid s := None)"
    unfolding un by simp_all
qed

lemma change_ok:
  assumes "hub_ok e h" "bt_get (hb_by_sid h) (sn_sid s) = Some s" "sn_sid s' = sn_sid s" "sn_user s' = sn_user s" "ses_shape s'"
    "\<And>r. m r + room_uses r s = hb_room_subs h r + room_uses r s'"
  shows "hub_ok e (h\<lparr>hb_by_sid := bt_insert (sn_sid s) s' (hb_by_sid h), hb_room_subs := m\<rparr>)"
proof -
  have "m = (\<lambda>r. tsum (room_uses r) (bt_insert (sn_sid s) s' (hb_by_sid h)) + e r)"
  proof
    fix r show "m r = tsum (room_uses r) (bt_insert (sn_sid s) s' (hb_by_sid h)) + e r"
      using tsum_insert [of "hb_by_sid h" "room_uses r" "sn_sid s" s'] assms(1,2) assms(6) [of r] by (simp add: hub_ok_def at_key_def)
  qed
  moreover have "sn_sid s \<in> set (bt_keys (hb_by_sid h))" using assms(2) by (simp add: bt_keys_iff)
  ultimately show ?thesis
    using assms(1) paired_change [OF hub_okD(2) [OF assms(1)] assms(2-5)] unfolding hub_ok_def
    by (simp add: bt_keys_insert insert_absorb)
qed

text \<open>A change that leaves the rooms alone.\<close>

lemma change_keep:
  assumes "hub_ok e h" "bt_get (hb_by_sid h) (sn_sid s) = Some s" "sn_sid s' = sn_sid s" "sn_user s' = sn_user s" "sn_servers s' = sn_servers s"
  shows "hub_ok e (h\<lparr>hb_by_sid := bt_insert (sn_sid s) s' (hb_by_sid h)\<rparr>)"
proof -
  have "ses_shape s'" "room_uses r s' = room_uses r s" for r
    using pairedD [OF hub_okD(2) [OF assms(1)] assms(2)] assms(5) by (simp_all add: ses_shape_def room_uses_def session_rooms_def)
  then show ?thesis using change_ok [OF assms(1-4), of "hb_room_subs h"] by simp
qed

section \<open>The operations\<close>

abbreviation registered_in :: "session \<Rightarrow> hub \<Rightarrow> bool" where
  "registered_in s h \<equiv> bt_get (hb_by_sid h) (sn_sid s) = Some s"

lemma dispose_ok: "hub_ok e h \<Longrightarrow> registered_in s h \<or> bt_get (hb_by_sid h) (sn_sid s) = None \<Longrightarrow> hub_ok e (snd (dispose s h))"
  by (auto simp: dispose_def unregister_ok(1)) (simp add: ses_unregister_def)

lemma found_registered: "hub_ok e h \<Longrightarrow> bt_get (hb_by_sid h) sid = Some s \<Longrightarrow> registered_in s h"
  using pairedD [OF hub_okD(2)] by metis

lemma user_registered: "hub_ok e h \<Longrightarrow> session_of_user h u = Some s \<Longrightarrow> registered_in s h \<and> sn_user s = u"
  using found_registered pairedD_user [OF hub_okD(2)] by (fastforce simp: session_of_user_def split: option.splits)

lemma user_absent: "hub_ok e h \<Longrightarrow> session_of_user h u = None \<Longrightarrow> hb_by_user h u = None"
  using pairedD_user [OF hub_okD(2), of e h u] by (auto simp: session_of_user_def split: option.splits)

text \<open>Several sessions treated one after the other, each as it was when the list was taken.\<close>

lemma fold_sessions:
  assumes "\<And>h s. hub_ok e h \<Longrightarrow> registered_in s h \<Longrightarrow> s \<in> set xs \<Longrightarrow>
      hub_ok e (f s h) \<and> (\<forall>k. k \<noteq> sn_sid s \<longrightarrow> bt_get (hb_by_sid (f s h)) k = bt_get (hb_by_sid h) k)"
  shows "hub_ok e h \<Longrightarrow> distinct (map sn_sid xs) \<Longrightarrow> \<forall>s \<in> set xs. registered_in s h \<Longrightarrow> hub_ok e (foldl (\<lambda>h s. f s h) h xs)"
  using assms
proof (induction xs arbitrary: h)
  case (Cons s xs)
  have f: "hub_ok e (f s h)" "\<And>k. k \<noteq> sn_sid s \<Longrightarrow> bt_get (hb_by_sid (f s h)) k = bt_get (hb_by_sid h) k"
    using Cons.prems(4) [of h s] Cons.prems(1,3) by auto
  have "hub_ok e (foldl (\<lambda>h s. f s h) (f s h) xs)"
  proof (rule Cons.IH [OF f(1)])
    have "sn_sid x \<noteq> sn_sid s" if "x \<in> set xs" for x using Cons.prems(2) imageI [OF that, of sn_sid] by auto
    then show "\<forall>x \<in> set xs. registered_in x (f s h)" using Cons.prems(3) f(2) by simp
  qed (use Cons.prems(2,4) in auto)
  then show ?case by simp
qed simp

lemma all_registered:
  assumes "hub_ok e h"
  shows "\<forall>s \<in> snd ` set (hb_by_sid h). registered_in s h" "map (sn_sid \<circ> snd) (hb_by_sid h) = bt_keys (hb_by_sid h)"
    "distinct (map sn_sid (map snd (filter p (hb_by_sid h))))"
proof -
  have d: "distinct (map fst (hb_by_sid h))" using bt_ok_distinct [OF hub_okD(1) [OF assms]] by (simp add: bt_keys_def)
  have g: "bt_get (hb_by_sid h) k = Some s" if "(k, s) \<in> set (hb_by_sid h)" for k s
    using d that by (simp add: bt_get_def)
  have sid: "sn_sid (snd x) = fst x" if "x \<in> set (hb_by_sid h)" for x
    using that pairedD [OF hub_okD(2) [OF assms] g [of "fst x" "snd x"]] by simp
  show "\<forall>s \<in> snd ` set (hb_by_sid h). registered_in s h" using g found_registered [OF assms] by fastforce
  show "map (sn_sid \<circ> snd) (hb_by_sid h) = bt_keys (hb_by_sid h)" using sid by (simp add: bt_keys_def)
  have "map (sn_sid \<circ> snd) (filter p (hb_by_sid h)) = map fst (filter p (hb_by_sid h))" using sid by simp
  then show "distinct (map sn_sid (map snd (filter p (hb_by_sid h))))" using distinct_map_filter [OF d, of p] by (simp only: map_map)
qed

lemma bind_new_ok:
  assumes "hub_ok e h" "bt_get (hb_by_sid h) sid = None"
  shows "hub_ok e (snd (bind_new max_sessions sid u conn deploy h))"
proof -
  let ?s = "session_fresh sid u conn"
  have fresh: "ses_shape ?s" "room_uses r ?s = 0" "sn_sid ?s = sid" "sn_user ?s = u" for r
    by (simp_all add: session_fresh_def ses_shape_def room_uses_def session_rooms_def)
  have reg: "hub_ok e (ses_register ?s h1)" if "hub_ok e h1" "bt_get (hb_by_sid h1) sid = None" "hb_by_user h1 u = None" for h1
    using register_ok [OF that(1), of ?s "hb_room_subs h1"] that fresh by (simp add: ses_register_def)
  show ?thesis
  proof (cases "session_of_user h u")
    case None
    then show ?thesis using reg [OF assms user_absent [OF assms(1) None]] assms by (simp add: bind_new_def)
  next
    case (Some s)
    have s: "registered_in s h" "sn_user s = u" using user_registered [OF assms(1) Some] by auto
    note un = unregister_ok [OF assms(1) s(1)]
    have "hub_ok e (ses_register ?s (ses_unregister s h))" using reg [OF un(1)] un(2,3) s(2) assms(2) by auto
    then show ?thesis using Some assms(1) by (simp add: bind_new_def dispose_def)
  qed
qed

lemma take_over_ok:
  assumes "hub_ok e h" "bt_get (hb_by_sid h) (sn_sid d) = None" "hb_by_user h (sn_user d) = None" "ses_shape d"
  shows "hub_ok e (take_over d h)"
proof -
  let ?s = "d\<lparr>sn_bound := False, sn_resumed := False, sn_live := False, sn_conn := None, sn_dropped_at := None\<rparr>"
  have "hub_ok e ((ses_register ?s h)\<lparr>hb_room_subs := \<lambda>r. hb_room_subs h r + room_uses r ?s\<rparr>)"
    using assms by (intro register_ok) (auto simp: ses_shape_def)
  then show ?thesis by (simp add: take_over_def interest_ups room_uses_def Let_def ses_register_def)
qed

lemma sweep_ok:
  assumes "hub_ok e h"
  shows "hub_ok e (snd (sweep win now h))"
proof -
  let ?due = "filter (sweep_due win now) (map snd (hb_by_sid h))"
  have fst_out: "snd (foldl (\<lambda>(os, h) s. case dispose s h of (os', h') \<Rightarrow> (os @ os', h')) (os, h) xs) = foldl (\<lambda>h s. ses_unregister s h) h xs" for os h xs
    by (induction xs arbitrary: os h) (auto simp: dispose_def)
  have "distinct (map sn_sid ?due)" using all_registered(3) [OF assms, of "sweep_due win now \<circ> snd"] by (simp add: filter_map comp_def)
  moreover have "\<forall>s \<in> set ?due. registered_in s h" using all_registered(1) [OF assms] by auto
  ultimately have "hub_ok e (foldl (\<lambda>h s. ses_unregister s h) h ?due)"
    by (intro fold_sessions [OF _ assms]) (auto simp: unregister_ok)
  then show ?thesis by (simp add: sweep_def fst_out)
qed

lemma socket_dropped_ok:
  assumes "hub_ok e h"
  shows "hub_ok e (snd (socket_dropped sid conn cd now h))"
proof (cases "bt_get (hb_by_sid h) sid")
  case (Some s)
  have s: "registered_in s h" "sn_sid s = sid" using found_registered [OF assms Some] pairedD [OF hub_okD(2) [OF assms] Some] by auto
  show ?thesis
    using dispose_ok [OF assms, of s] change_keep [OF assms s(1), of "s\<lparr>sn_bound := False, sn_conn := None, sn_dropped_at := Some now\<rparr>"] s assms
    by (simp add: socket_dropped_def Some)
qed (simp add: socket_dropped_def assms)

lemma bind_resume_ok:
  assumes "hub_ok e h"
  shows "hub_ok e (snd (bind_resume sid conn h))"
proof (cases "bt_get (hb_by_sid h) sid")
  case (Some s)
  have s: "registered_in s h" "sn_sid s = sid" using found_registered [OF assms Some] pairedD [OF hub_okD(2) [OF assms] Some] by auto
  show ?thesis
    using change_keep [OF assms s(1), of "s\<lparr>sn_conn := Some conn, sn_bound := True, sn_resumed := True, sn_live := True, sn_dropped_at := None\<rparr>"] s
    by (simp add: bind_resume_def Some)
qed (simp add: bind_resume_def assms)

section \<open>The rooms of a session\<close>

lemma new_set: "sorted_wrt (<) (foldl (\<lambda>m r. bs_insert r m) acc xs)" "set (foldl (\<lambda>m r. bs_insert r m) acc xs) = set acc \<union> set xs"
  if "sorted_wrt (<) (acc :: string list)"
  using that by (induction xs arbitrary: acc) auto

lemma bt_insert_entries: "set (bt_insert k v t) \<subseteq> insert (k, v) (set t)"
  by (induction k v t rule: bt_insert.induct) auto

lemma rooms_at_shape: "ses_shape s \<Longrightarrow> sorted_wrt (<) (rooms_at s node)"
  by (auto simp: rooms_at_def ses_shape_def bt_get_def split: option.splits dest!: map_of_SomeD)

definition carried :: "(string \<Rightarrow> nat) \<Rightarrow> session \<Rightarrow> session \<times> hub \<Rightarrow> bool" where
  "carried e s x \<longleftrightarrow> hub_ok e (snd x) \<and> registered_in (fst x) (snd x) \<and> sn_sid (fst x) = sn_sid s \<and> sn_user (fst x) = sn_user s"

lemma set_rooms_ok:
  assumes "hub_ok e h" "registered_in s h"
  shows "carried e s (set_rooms s node rooms h)"
proof -
  define new where "new = foldl (\<lambda>m r. bs_insert r m) [] rooms"
  define old where "old = rooms_at s node"
  define s' where "s' = s\<lparr>sn_servers := bt_insert node new (sn_servers s)\<rparr>"
  define m where "m = (\<lambda>r. hb_room_subs h r + count_list (filter (\<lambda>r. r \<notin> set old) new) r - count_list (filter (\<lambda>r. r \<notin> set new) old) r)"
  have shape: "ses_shape s" using pairedD [OF hub_okD(2) [OF assms(1)] assms(2)] by simp
  have new: "sorted_wrt (<) new" "distinct new" using new_set(1) [of "[]" rooms] by (auto simp: new_def strict_sorted_iff)
  have old: "distinct old" using rooms_at_shape [OF shape, of node] by (simp add: old_def strict_sorted_iff)
  have e: "set_rooms s node rooms h = (s', h\<lparr>hb_by_sid := bt_insert (sn_sid s) s' (hb_by_sid h), hb_room_subs := m\<rparr>)"
    using assms(2) unfolding set_rooms_def Let_def interest_ups interest_downs new_def [symmetric] old_def [symmetric]
    by (simp add: put_session_def s'_def m_def)
  have "ses_shape s'" using shape new(1) bt_insert_entries [of node new "sn_servers s"] by (auto simp: ses_shape_def s'_def)
  moreover have "m r + room_uses r s = hb_room_subs h r + room_uses r s'" for r
  proof -
    have "at_key (\<lambda>rs. count_list rs r) (sn_servers s) node = count_list old r"
      by (auto simp: at_key_def old_def rooms_at_def split: option.splits)
    then have "room_uses r s' + count_list old r = room_uses r s + count_list new r"
      using tsum_insert [of "sn_servers s" "\<lambda>rs. count_list rs r" node new] shape by (simp add: room_uses_sum s'_def ses_shape_def)
    moreover have "room_uses r s \<le> hb_room_subs h r"
      using tsum_member [OF hub_okD(1) [OF assms(1)], of "room_uses r" "sn_sid s"] assms by (simp add: hub_ok_def at_key_def)
    moreover have "count_list (filter (\<lambda>r. r \<notin> set old) new) r = of_bool (r \<in> set new \<and> r \<notin> set old)"
      "count_list (filter (\<lambda>r. r \<notin> set new) old) r = of_bool (r \<in> set old \<and> r \<notin> set new)"
      using new(2) old by (simp_all add: count_distinct)
    ultimately show ?thesis unfolding m_def using count_distinct [OF new(2), of r] count_distinct [OF old, of r]
      by (cases "r \<in> set new"; cases "r \<in> set old") auto
  qed
  ultimately show ?thesis unfolding e carried_def using change_ok [OF assms, of s' m] by (simp add: s'_def)
qed

lemma touch_ok: "hub_ok e h \<Longrightarrow> registered_in s h \<Longrightarrow> carried e s (touch_node s node h)"
  using change_keep [of e h s "s\<lparr>sn_touched := bs_insert node (sn_touched s)\<rparr>"] by (simp add: touch_node_def put_session_def carried_def Let_def)

lemma epoch_ok: "hub_ok e h \<Longrightarrow> registered_in s h \<Longrightarrow> carried e s (put_epoch s node epoch h)"
  using change_keep [of e h s "s\<lparr>sn_epochs := bt_insert node epoch (sn_epochs s)\<rparr>"] by (simp add: put_epoch_def put_session_def carried_def Let_def)

lemma hub_ok_up: "hub_ok e h \<Longrightarrow> hub_ok (e(room := e room + 1)) (h\<lparr>hb_room_subs := interest_up room (hb_room_subs h)\<rparr>)"
  by (simp add: hub_ok_def interest_up_def fun_eq_iff)

lemma hub_ok_down: "hub_ok e h \<Longrightarrow> 0 < e room \<Longrightarrow> hub_ok (e(room := e room - 1)) (h\<lparr>hb_room_subs := interest_down room (hb_room_subs h)\<rparr>)"
  by (simp add: hub_ok_def interest_down_def fun_eq_iff)

lemma carried_bind:
  assumes "carried e s x" "\<And>s' h'. hub_ok e h' \<Longrightarrow> registered_in s' h' \<Longrightarrow> carried e s' (f s' h')"
  shows "carried e s (case x of (s', h') \<Rightarrow> f s' h')"
  using assms(1) assms(2) [of "snd x" "fst x"] by (auto simp: carried_def split: prod.splits)

lemma carried_refl: "hub_ok e h \<Longrightarrow> registered_in s h \<Longrightarrow> carried e s (s, h)"
  by (simp add: carried_def)

lemma join_call_ok: "hub_ok e h \<Longrightarrow> registered_in s h \<Longrightarrow> hub_ok (e(room := e room + 1)) (snd (join_call s room node h))"
  using touch_ok [OF hub_ok_up, of e h room s node] by (simp add: join_call_def carried_def)

lemma join_answer_ok:
  assumes "hub_ok e h" "0 < e room" "registered_in s h \<or> reply = None"
  shows "hub_ok (e(room := e room - 1)) (snd (join_answer s room node reply h))"
proof (cases reply)
  case None
  then show ?thesis using hub_ok_down [OF assms(1,2)] by (simp add: join_answer_def)
next
  case (Some r)
  then have "carried e s (case put_epoch s node (fst r) h of (s1, h1) \<Rightarrow> set_rooms s1 node (snd r) h1)"
    using assms by (intro carried_bind [OF epoch_ok] set_rooms_ok) auto
  then show ?thesis
    using Some hub_ok_down [of e "snd (case put_epoch s node (fst r) h of (s1, h1) \<Rightarrow> set_rooms s1 node (snd r) h1)" room] assms(2)
    by (auto simp: join_answer_def carried_def split: prod.splits)
qed

lemma route_rooms_ok: "hub_ok e h \<Longrightarrow> registered_in s h \<Longrightarrow> carried e s (route_rooms s node reply h)"
  unfolding route_rooms_def by (intro carried_bind [OF touch_ok]) (auto intro: set_rooms_ok carried_refl split: option.splits)

lemma resume_nodes_ok: "hub_ok e h \<Longrightarrow> registered_in s h \<Longrightarrow> hub_ok e (snd (snd (resume_nodes reply ns s h)))"
proof (induction ns arbitrary: s h)
  case (Cons n ns)
  show ?case
  proof (cases "reply n")
    case (Some rooms)
    obtain s' h' where x: "set_rooms s n rooms h = (s', h')" by fastforce
    then have "hub_ok e h'" "registered_in s' h'" using set_rooms_ok [OF Cons.prems, of n rooms] by (auto simp: carried_def)
    then show ?thesis using Cons.IH [of h' s'] by (simp add: Some x)
  qed (simp add: Cons.prems)
qed simp

lemma ses_resume_ok: "hub_ok e h \<Longrightarrow> registered_in s h \<Longrightarrow> hub_ok e (snd (snd (ses_resume reply s h)))"
  using resume_nodes_ok [of e h s reply "map fst (filter (\<lambda>(_, rs). rs \<noteq> []) (sn_servers s))"]
  by (auto simp: ses_resume_def split: prod.splits bool.splits)

lemma affiliation_ok: "hub_ok e h \<Longrightarrow> registered_in s h \<Longrightarrow> hub_ok e (snd (apply_affiliation noe s sfu room rooms h))"
  using set_rooms_ok [of e h s] by (simp add: apply_affiliation_def Let_def carried_def split: option.splits)

lemma deliver_user_ok: "hub_ok e h \<Longrightarrow> hub_ok e (snd (deliver_user noe u aff h))"
  using affiliation_ok user_registered by (auto simp: deliver_user_def split: option.splits prod.splits)

lemma drop_room_ok:
  assumes "hub_ok e h" "registered_in s h" "room_uses room s \<le> 1"
  shows "hub_ok e (drop_room room s h) \<and> (\<forall>k. k \<noteq> sn_sid s \<longrightarrow> bt_get (hb_by_sid (drop_room room s h)) k = bt_get (hb_by_sid h) k)"
proof (cases "ses_in_room room s")
  case True
  define s' where "s' = s\<lparr>sn_servers := map (\<lambda>(n, rs). (n, bs_remove room rs)) (sn_servers s)\<rparr>"
  define m where "m = interest_down room (hb_room_subs h)"
  have shape: "ses_shape s" using pairedD [OF hub_okD(2) [OF assms(1)] assms(2)] by simp
  have "ses_shape s'"
    using shape by (auto simp: ses_shape_def s'_def bt_ok_def comp_def case_prod_beta)
  moreover have one: "room_uses room s = 1" using room_uses_pos [of room s] True assms(3) by linarith
  have cnt: "count_list (bs_remove room rs) r = (if r = room then 0 else count_list rs r)" for r and rs :: "string list"
    by (induction rs) (auto simp: bs_remove_def)
  have uses: "room_uses r s' = (if r = room then 0 else room_uses r s)" for r
    by (auto simp: room_uses_sum s'_def tsum_def comp_def case_prod_beta cnt)
  have "1 \<le> hb_room_subs h room"
    using tsum_member [OF hub_okD(1) [OF assms(1)], of "room_uses room" "sn_sid s"] assms(1,2) one by (simp add: hub_ok_def at_key_def)
  then have "m r + room_uses r s = hb_room_subs h r + room_uses r s'" for r
    using one by (simp add: m_def interest_down_def uses)
  ultimately have "hub_ok e (h\<lparr>hb_by_sid := bt_insert (sn_sid s) s' (hb_by_sid h), hb_room_subs := m\<rparr>)"
    using change_ok [OF assms(1,2), of s' m] by (simp add: s'_def)
  moreover have "drop_room room s h = h\<lparr>hb_by_sid := bt_insert (sn_sid s) s' (hb_by_sid h), hb_room_subs := m\<rparr>"
    using True assms(2) by (simp add: drop_room_def put_session_def s'_def m_def)
  ultimately show ?thesis by simp
qed (use assms in \<open>simp add: drop_room_def\<close>)

lemma room_dropped_ok:
  assumes "hub_ok e h" "\<forall>x \<in> set (hb_by_sid h). room_uses room (snd x) \<le> 1"
  shows "hub_ok e (room_dropped room h)"
  unfolding room_dropped_def
proof (rule fold_sessions [OF drop_room_ok])
  show "distinct (map sn_sid (map snd (hb_by_sid h)))" using all_registered(3) [OF assms(1), of "\<lambda>_. True"] by simp
  show "\<forall>s \<in> set (map snd (hb_by_sid h)). registered_in s h" using all_registered(1) [OF assms(1)] by simp
qed (use assms in auto)

section \<open>All histories\<close>

text \<open>A gateway and the joins it is waiting for: the session, the room and the node of each.\<close>

record hub_run =
  hr_hub :: hub
  hr_calls :: "(session \<times> string \<times> string) list"

datatype hub_event =
    HBind nat string string nat nat
  | HResume string nat
  | HTake session
  | HHand string
  | HClientLeave session
  | HEvict string
  | HCut string
  | HDropped string nat "code option" nat
  | HSweep nat nat
  | HJoinCall string string string
  | HJoinAnswer nat "(string \<times> string list) option"
  | HRooms string string "string list option"
  | HCollect string "string \<Rightarrow> string list option"
  | HUser "string \<Rightarrow> string option" string "(string option \<times> string option \<times> string list) option"
  | HRoomGone string

definition on_hub :: "(hub \<Rightarrow> hub) \<Rightarrow> hub_run \<Rightarrow> hub_run" where
  "on_hub f x = x\<lparr>hr_hub := f (hr_hub x)\<rparr>"

definition on_session :: "string \<Rightarrow> (session \<Rightarrow> hub \<Rightarrow> hub) \<Rightarrow> hub_run \<Rightarrow> hub_run" where
  "on_session sid f x = (case bt_get (hb_by_sid (hr_hub x)) sid of Some s \<Rightarrow> on_hub (f s) x | None \<Rightarrow> x)"

definition as_known :: "session \<Rightarrow> hub \<Rightarrow> session" where
  "as_known s h = (case bt_get (hb_by_sid h) (sn_sid s) of Some s' \<Rightarrow> s' | None \<Rightarrow> s)"

fun hub_step :: "hub_run \<Rightarrow> hub_event \<Rightarrow> hub_run" where
  "hub_step x (HBind mx sid u conn deploy) = on_hub (snd \<circ> bind_new mx sid u conn deploy) x"
| "hub_step x (HResume sid conn) = on_hub (snd \<circ> bind_resume sid conn) x"
| "hub_step x (HTake d) = on_hub (take_over d) x"
| "hub_step x (HHand sid) = on_hub (snd \<circ> snd \<circ> hand_over sid) x"
| "hub_step x (HClientLeave s) = on_hub (snd \<circ> client_leave s) x"
| "hub_step x (HEvict sid) = on_hub (snd \<circ> evict_sid sid) x"
| "hub_step x (HCut u) = on_hub (snd \<circ> cut_user u) x"
| "hub_step x (HDropped sid conn cd now) = on_hub (snd \<circ> socket_dropped sid conn cd now) x"
| "hub_step x (HSweep win now) = on_hub (snd \<circ> sweep win now) x"
| "hub_step x (HJoinCall sid room node) =
     (case bt_get (hb_by_sid (hr_hub x)) sid of
        None \<Rightarrow> x
      | Some s \<Rightarrow> (case join_call s room node (hr_hub x) of (s', h') \<Rightarrow> \<lparr>hr_hub = h', hr_calls = hr_calls x @ [(s', room, node)]\<rparr>))"
| "hub_step x (HJoinAnswer i reply) =
     (if i < length (hr_calls x)
      then (case hr_calls x ! i of
              (s, room, node) \<Rightarrow>
                \<lparr>hr_hub = snd (join_answer (as_known s (hr_hub x)) room node reply (hr_hub x)),
                 hr_calls = take i (hr_calls x) @ drop (Suc i) (hr_calls x)\<rparr>)
      else x)"
| "hub_step x (HRooms sid node reply) = on_session sid (\<lambda>s. snd \<circ> route_rooms s node reply) x"
| "hub_step x (HCollect sid reply) = on_session sid (\<lambda>s. snd \<circ> snd \<circ> ses_resume reply s) x"
| "hub_step x (HUser noe u aff) = on_hub (snd \<circ> deliver_user noe u aff) x"
| "hub_step x (HRoomGone room) = on_hub (room_dropped room) x"

definition hub_start :: "string \<Rightarrow> hub_run" where
  "hub_start node = \<lparr>hr_hub = hub_new node, hr_calls = []\<rparr>"

text \<open>
  What is asked of the events: a new session has a new number, and one taken over is not here already, nor another of its user;
  a session that leaves is as the registry has it; a join is answered with rooms only while its session is
  registered; and a room that is dropped is listed under one node only.
\<close>

fun hub_guard :: "hub_run \<Rightarrow> hub_event \<Rightarrow> bool" where
  "hub_guard x (HBind mx sid u conn deploy) = (bt_get (hb_by_sid (hr_hub x)) sid = None \<and> list_all (\<lambda>c. sn_sid (fst c) \<noteq> sid) (hr_calls x))"
| "hub_guard x (HTake d) =
     (bt_get (hb_by_sid (hr_hub x)) (sn_sid d) = None \<and> hb_by_user (hr_hub x) (sn_user d) = None \<and> ses_shape d \<and>
      list_all (\<lambda>c. sn_sid (fst c) \<noteq> sn_sid d) (hr_calls x))"
| "hub_guard x (HClientLeave s) = (as_known s (hr_hub x) = s)"
| "hub_guard x (HJoinAnswer i reply) =
     (i < length (hr_calls x) \<longrightarrow> bt_get (hb_by_sid (hr_hub x)) (sn_sid (fst (hr_calls x ! i))) \<noteq> None \<or> reply = None)"
| "hub_guard x (HRoomGone room) = list_all (\<lambda>e. room_uses room (snd e) \<le> 1) (hb_by_sid (hr_hub x))"
| "hub_guard x _ = True"

definition called :: "hub_run \<Rightarrow> string \<Rightarrow> nat" where
  "called x r = count_list (map (fst \<circ> snd) (hr_calls x)) r"

definition hub_strict :: "hub_run \<Rightarrow> bool" where
  "hub_strict x \<longleftrightarrow> hub_ok (called x) (hr_hub x)"

lemma called_hub [simp]: "called (x\<lparr>hr_hub := h\<rparr>) = called x"
  by (simp add: called_def fun_eq_iff)

lemma called_none: "called \<lparr>hr_hub = h, hr_calls = []\<rparr> = (\<lambda>_. 0)"
  by (simp add: called_def fun_eq_iff)

lemma on_hub_strict: "hub_strict x \<Longrightarrow> hub_ok (called x) (f (hr_hub x)) \<Longrightarrow> hub_strict (on_hub f x)"
  by (simp add: hub_strict_def on_hub_def)

lemma on_session_strict:
  assumes "hub_strict x" "\<And>s. registered_in s (hr_hub x) \<Longrightarrow> hub_ok (called x) (f s (hr_hub x))"
  shows "hub_strict (on_session sid f x)"
  using assms found_registered [of "called x" "hr_hub x" sid]
  by (auto simp: on_session_def hub_strict_def on_hub_def split: option.splits)

lemma ending_ok:
  assumes "hub_ok e h"
  shows "hub_ok e (snd (snd (hand_over sid h)))" "hub_ok e (snd (evict_sid sid h))" "hub_ok e (snd (cut_user u h))"
    "as_known s h = s \<Longrightarrow> hub_ok e (snd (client_leave s h))"
  using assms dispose_ok [OF assms] found_registered [OF assms] user_registered [OF assms] unregister_ok(1) [OF assms]
  by (auto simp: hand_over_def evict_sid_def cut_user_def client_leave_def as_known_def split: option.splits prod.splits)
    (metis snd_conv)+

lemma count_drop_nth:
  assumes "i < length xs"
  shows "count_list (map f (take i xs @ drop (Suc i) xs)) = (count_list (map f xs))(f (xs ! i) := count_list (map f xs) (f (xs ! i)) - 1)"
    and "0 < count_list (map f xs) (f (xs ! i))"
proof -
  have "map f xs = map f (take i xs) @ f (xs ! i) # map f (drop (Suc i) xs)" using id_take_nth_drop [OF assms] by (metis list.simps(9) map_append)
  then show "count_list (map f (take i xs @ drop (Suc i) xs)) = (count_list (map f xs))(f (xs ! i) := count_list (map f xs) (f (xs ! i)) - 1)"
    "0 < count_list (map f xs) (f (xs ! i))"
    by (auto simp: fun_eq_iff)
qed

lemma call_strict:
  assumes "hub_strict x"
  shows "hub_strict (hub_step x (HJoinCall sid room node))"
proof (cases "bt_get (hb_by_sid (hr_hub x)) sid")
  case (Some s)
  have "called \<lparr>hr_hub = h', hr_calls = hr_calls x @ [(s', room, node)]\<rparr> = (called x)(room := called x room + 1)" for h' s'
    by (auto simp: called_def fun_eq_iff)
  then show ?thesis
    using join_call_ok [of "called x" "hr_hub x" s room node] assms found_registered [of "called x" "hr_hub x" sid s] Some
    by (auto simp: hub_strict_def split: prod.splits)
qed (use assms in simp)

lemma answer_strict:
  assumes "hub_strict x" "hub_guard x (HJoinAnswer i reply)"
  shows "hub_strict (hub_step x (HJoinAnswer i reply))"
proof (cases "i < length (hr_calls x)")
  case True
  obtain s room node where c: "hr_calls x ! i = (s, room, node)" by (metis prod_cases3)
  let ?h = "hr_hub x"
  have reg: "registered_in (as_known s ?h) ?h \<or> reply = None"
    using assms(2) True c found_registered [OF assms(1) [unfolded hub_strict_def], of "sn_sid s"] by (cases reply) (auto simp: as_known_def)
  have k: "called \<lparr>hr_hub = h', hr_calls = take i (hr_calls x) @ drop (Suc i) (hr_calls x)\<rparr> = (called x)(room := called x room - 1)" for h'
    using count_drop_nth(1) [OF True, of "fst \<circ> snd"] by (simp add: called_def fun_eq_iff c)
  have "0 < called x room" using count_drop_nth(2) [OF True, of "fst \<circ> snd"] by (simp add: called_def c)
  then have "hub_ok ((called x)(room := called x room - 1)) (snd (join_answer (as_known s ?h) room node reply ?h))"
    using join_answer_ok [OF _ _ reg] assms(1) by (simp add: hub_strict_def)
  then show ?thesis using True by (simp add: hub_strict_def k c)
qed (use assms in simp)

lemma hub_strict_step:
  assumes "hub_strict x" "hub_guard x ev"
  shows "hub_strict (hub_step x ev)"
proof (cases ev)
  case (HJoinCall sid room node)
  then show ?thesis using call_strict [OF assms(1)] by blast
next
  case (HJoinAnswer i reply)
  then show ?thesis using answer_strict [OF assms(1)] assms(2) by blast
next
  case (HRooms sid node reply)
  then show ?thesis
    using on_session_strict [OF assms(1), of "\<lambda>s. snd \<circ> route_rooms s node reply"] route_rooms_ok [of "called x" "hr_hub x"] assms(1)
    by (simp add: carried_def hub_strict_def)
next
  case (HCollect sid reply)
  then show ?thesis
    using on_session_strict [OF assms(1), of "\<lambda>s. snd \<circ> snd \<circ> ses_resume reply s"] ses_resume_ok [of "called x" "hr_hub x"] assms(1)
    by (simp add: hub_strict_def)
qed (use assms in \<open>simp_all add: on_hub_strict hub_strict_def [of x] bind_new_ok bind_resume_ok take_over_ok ending_ok socket_dropped_ok sweep_ok
      deliver_user_ok room_dropped_ok list_all_iff\<close>)

interpretation hub: guarded_machine "hub_start node" hub_step "\<lambda>_. True" hub_guard hub_strict for node
  by unfold_locales (simp_all add: hub_strict_step, simp add: hub_strict_def hub_start_def called_none hub_ok_new)

abbreviation sessions :: "hub_run \<Rightarrow> session list" where
  "sessions x \<equiv> map snd (hb_by_sid (hr_hub x))"

lemma sessions_of_user:
  assumes "hub_ok e (hr_hub x)"
  shows "session_of_user (hr_hub x) u = Some s \<longleftrightarrow> s \<in> set (sessions x) \<and> sn_user s = u"
proof
  assume "session_of_user (hr_hub x) u = Some s"
  then have "registered_in s (hr_hub x)" "sn_user s = u" using user_registered [OF assms] by auto
  then show "s \<in> set (sessions x) \<and> sn_user s = u" by (force simp: bt_get_def dest: map_of_SomeD)
next
  assume s: "s \<in> set (sessions x) \<and> sn_user s = u"
  then have "registered_in s (hr_hub x)" using all_registered(1) [OF assms] by auto
  then show "session_of_user (hr_hub x) u = Some s" using pairedD [OF hub_okD(2) [OF assms], of "sn_sid s" s] s by (auto simp: session_of_user_def)
qed

text \<open>
  The interest is exact (C18): in every admitted history of a gateway whose subscriptions succeed, the gateway counts for a room the times its sessions list it and the joins under way to it,
  so that it receives the notices of a room exactly while one of these is there; it receives those of a user exactly while the user has a session, which is
  the only one; and it has declared exactly its sessions.
\<close>

theorem hub_interest_exact:
  assumes "admits hub_step hub_guard (hub_start node) es" "x = run_from hub_step (hub_start node) es"
  shows "(\<forall>r. hb_room_subs (hr_hub x) r = sum_list (map (room_uses r) (sessions x)) + called x r) \<and>
    (\<forall>r. 0 < hb_room_subs (hr_hub x) r \<longleftrightarrow> list_ex (ses_in_room r) (sessions x) \<or> r \<in> set (map (fst \<circ> snd) (hr_calls x))) \<and>
    (\<forall>u. hb_user_subs (hr_hub x) u = (if list_ex (\<lambda>s. sn_user s = u) (sessions x) then 1 else 0)) \<and>
    (\<forall>u s. session_of_user (hr_hub x) u = Some s \<longleftrightarrow> s \<in> set (sessions x) \<and> sn_user s = u) \<and>
    hb_tokens (hr_hub x) = set (map sn_sid (sessions x))"
proof -
  let ?h = "hr_hub x"
  have ok: "hub_ok (called x) ?h" using hub.strict_run [OF assms(1)] assms(2) by (simp add: hub_strict_def)
  have cnt: "hb_room_subs ?h r = sum_list (map (room_uses r) (sessions x)) + called x r" for r
    using ok by (simp add: hub_ok_def tsum_def comp_def)
  have "(sum_list (map (room_uses r) (sessions x)) = 0) = (\<not> list_ex (ses_in_room r) (sessions x))" for r
    by (auto simp: list_ex_iff room_uses_pos [symmetric])
  moreover have "(called x r = 0) = (r \<notin> set (map (fst \<circ> snd) (hr_calls x)))" for r by (simp add: called_def count_list_0_iff)
  ultimately have "0 < hb_room_subs ?h r \<longleftrightarrow> list_ex (ses_in_room r) (sessions x) \<or> r \<in> set (map (fst \<circ> snd) (hr_calls x))" for r
    using cnt [of r] by (metis add_is_0 neq0_conv)
  moreover have "hb_user_subs ?h u = (if list_ex (\<lambda>s. sn_user s = u) (sessions x) then 1 else 0)" for u
  proof -
    have "hb_by_user ?h u = None \<longleftrightarrow> session_of_user ?h u = None"
      by (rule iffI) (simp add: session_of_user_def, rule user_absent [OF ok])
    then have "(hb_by_user ?h u \<noteq> None) = list_ex (\<lambda>s. sn_user s = u) (sessions x)"
      unfolding list_ex_iff using sessions_of_user [OF ok, of u] by (metis not_None_eq)
    then show ?thesis using ok by (simp add: hub_ok_def)
  qed
  moreover have "hb_tokens ?h = set (map sn_sid (sessions x))" using ok all_registered(2) [OF ok] by (simp add: hub_ok_def)
  ultimately show ?thesis using cnt sessions_of_user [OF ok] by blast
qed

section \<open>Examples\<close>

definition demo_hub :: "hub_event list" where
  "demo_hub = [HBind 0 ''s'' ''u'' 1 0, HJoinCall ''s'' ''r'' ''n'', HJoinAnswer 0 (Some (''e'', [''r''])), HJoinCall ''s'' ''q'' ''n'']"

theorem hub_interest_exact_witness:
  "hb_room_subs (hr_hub (run_from hub_step (hub_start ''a'') demo_hub)) ''q'' = 1 \<and>
   map (room_uses ''r'') (sessions (run_from hub_step (hub_start ''a'') demo_hub)) = [1] \<and>
   session_of_user (hr_hub (run_from hub_step (hub_start ''a'') demo_hub)) ''u'' \<noteq> None"
proof -
  let ?x = "run_from hub_step (hub_start ''a'') demo_hub"
  have adm: "admits hub_step hub_guard (hub_start ''a'') demo_hub" by code_simp
  have ev: "map sn_user (sessions ?x) = [''u'']" "map (room_uses ''r'') (sessions ?x) = [1]" "map (room_uses ''q'') (sessions ?x) = [0]" "called ?x ''q'' = 1"
    by code_simp+
  have u: "''u'' \<in> sn_user ` set (sessions ?x)" using ev(1) by (metis list.set_intros(1) set_map)
  note t = hub_interest_exact [OF adm refl]
  obtain s where s: "s \<in> set (sessions ?x)" "''u'' = sn_user s" by (rule imageE [OF u])
  have "session_of_user (hr_hub ?x) ''u'' = Some s"
    using t [THEN conjunct2, THEN conjunct2, THEN conjunct2, THEN conjunct1, THEN spec, THEN spec, of "''u''" s] s(1) s(2) [symmetric] by (simp only: simp_thms)
  then have "session_of_user (hr_hub ?x) ''u'' \<noteq> None" by simp
  moreover have "hb_room_subs (hr_hub ?x) ''q'' = 1" using t [THEN conjunct1] ev(3,4) by simp
  ultimately show ?thesis using ev(2) by (simp only: simp_thms)
qed

text \<open>
  A room that moved to another node can be listed under both by a session that joined it again; when it is dropped, the
  interest is taken back once for the session and not for each node, and the gateway stays subscribed to a room no session is in.
\<close>

theorem dropped_room_leaks:
  "hb_room_subs (hr_hub (run_from hub_step (hub_start ''a'')
     [HBind 0 ''s'' ''u'' 1 0, HRooms ''s'' ''n'' (Some [''r'']), HRooms ''s'' ''m'' (Some [''r'']), HRoomGone ''r'', HEvict ''s''])) ''r'' = 1"
  by code_simp

text \<open>
  A join that is answered after its session has ended enters the rooms in the session all the same; the interest in them is
  never taken back.
\<close>

theorem late_answer_leaks:
  "hb_room_subs (hr_hub (run_from hub_step (hub_start ''a'')
     [HBind 0 ''s'' ''u'' 1 0, HJoinCall ''s'' ''r'' ''n'', HEvict ''s'', HJoinAnswer 0 (Some (''e'', [''r'']))])) ''r'' = 1 \<and>
   sessions (run_from hub_step (hub_start ''a'')
     [HBind 0 ''s'' ''u'' 1 0, HJoinCall ''s'' ''r'' ''n'', HEvict ''s'', HJoinAnswer 0 (Some (''e'', [''r'']))]) = []"
  by code_simp

text \<open>
  When the subscription for the first session of a room fails, the interest of that session is forgotten; a second
  session then subscribes, and when the first leaves, the subscription goes although the second is in the room.
\<close>

theorem failed_subscription_deafens:
  "(let one = interest_failed ''r'' (interest_up ''r'' (\<lambda>_. 0)); two = interest_up ''r'' one
    in one ''r'' = 0 \<and> two ''r'' = 1 \<and> interest_down ''r'' two ''r'' = 0)"
  by (simp add: interest_up_def interest_down_def interest_failed_def Let_def)

end
