(* ===== verification/Gateway.thy ===== *)
theory Gateway
  imports Hub_View_Props Hub_Ses_Props
begin

text \<open>
  The event loop of a gateway (\<open>oxhubd/src/ops/mod.rs\<close> and the ticking task of \<open>bus/mod.rs\<close>): the view of the bus
  settles every 200 ms, the rooms it drops are taken from the sessions, and notices are passed on to the sessions in the room.
\<close>

datatype bus_event =
    RoomNotice string "string list"
  | UserNotice string "(string option \<times> string option \<times> string list) option"
  | RoomDropped string

definition bus_tick :: "nat \<Rightarrow> view \<Rightarrow> bus_event list \<times> view" where
  "bus_tick now v = (case settle now v of (s, v') \<Rightarrow> (map RoomDropped (st_dropped s), v'\<lparr>v_recovered := False\<rparr>))"

fun dispatch_one :: "(string \<Rightarrow> string option) \<Rightarrow> bus_event \<Rightarrow> hub \<Rightarrow> hub_out list \<times> hub" where
  "dispatch_one noe (RoomNotice room exclude) h = (deliver_room room exclude h, h)"
| "dispatch_one noe (UserNotice u aff) h = deliver_user noe u aff h"
| "dispatch_one noe (RoomDropped room) h = ([], room_dropped room h)"

fun dispatch :: "(string \<Rightarrow> string option) \<Rightarrow> bus_event list \<Rightarrow> hub \<Rightarrow> hub_out list \<times> hub" where
  "dispatch noe [] h = ([], h)"
| "dispatch noe (ev # evs) h =
     (case dispatch_one noe ev h of (os, h') \<Rightarrow> (case dispatch noe evs h' of (os', h'') \<Rightarrow> (os @ os', h'')))"

section \<open>A room is taken from the sessions\<close>

definition wipe :: "string \<Rightarrow> session \<Rightarrow> session" where
  "wipe room s = (if ses_in_room room s then s\<lparr>sn_servers := map (\<lambda>(n, rs). (n, bs_remove room rs)) (sn_servers s)\<rparr> else s)"

lemma wipe_same [simp]: "sn_sid (wipe room s) = sn_sid s" "sn_user (wipe room s) = sn_user s" "sn_conn (wipe room s) = sn_conn s"
  by (simp_all add: wipe_def)

lemma wipe_in_room: "ses_in_room r (wipe room s) \<longleftrightarrow> r \<noteq> room \<and> ses_in_room r s"
  by (auto simp: wipe_def ses_in_room_def list_ex_iff split: prod.splits) blast+

lemma bt_insert_at: "bt_ok (a @ (k, v) # b) \<Longrightarrow> bt_insert k v' (a @ (k, v) # b) = a @ (k, v') # b"
  by (induction a) (auto simp: bt_ok_def)

definition hub_sound :: "(string, session) btree \<Rightarrow> bool" where
  "hub_sound t \<longleftrightarrow> bt_ok t \<and> (\<forall>e \<in> set t. sn_sid (snd e) = fst e)"

lemma hub_ok_sound: "hub_ok e h \<Longrightarrow> hub_sound (hb_by_sid h)"
  using all_registered(2) [of e h] hub_okD(1) [of e h] by (simp add: hub_sound_def bt_keys_def)

lemma hub_sound_wipe: "hub_sound t \<Longrightarrow> hub_sound (map (apsnd (wipe room)) t)"
  by (auto simp: hub_sound_def bt_ok_def comp_def)

lemma drop_sessions:
  "hub_sound (hb_by_sid h) \<Longrightarrow> hb_by_sid h = a @ b \<Longrightarrow>
   hb_by_sid (foldl (\<lambda>h s. drop_room room s h) h (map snd b)) = a @ map (apsnd (wipe room)) b"
proof (induction b arbitrary: h a)
  case (Cons x b)
  obtain k s where x: "x = (k, s)" by fastforce
  have k: "sn_sid s = k" "bt_ok (a @ (k, s) # b)" using Cons.prems x by (auto simp: hub_sound_def)
  have "bt_get (hb_by_sid h) k \<noteq> None" unfolding bt_keys_iff [symmetric] using Cons.prems(2) by (simp add: x bt_keys_def)
  then have d: "hb_by_sid (drop_room room s h) = (a @ [(k, wipe room s)]) @ b"
    using Cons.prems(2) k bt_insert_at [OF k(2)] by (auto simp: drop_room_def put_session_def wipe_def x)
  have "hub_sound ((a @ [(k, wipe room s)]) @ b)" using Cons.prems x k(1) by (simp add: hub_sound_def bt_ok_def)
  then show ?case using Cons.IH [OF _ d] d x by simp
qed simp

lemma room_dropped_sessions:
  "hub_sound (hb_by_sid h) \<Longrightarrow> hb_by_sid (room_dropped room h) = map (apsnd (wipe room)) (hb_by_sid h)"
  using drop_sessions [of h "[]" "hb_by_sid h" room] by (simp add: room_dropped_def)

lemma deliver_dropped:
  assumes "hub_sound (hb_by_sid h)"
  shows "deliver_room r exclude (room_dropped room h) = (if r = room then [] else deliver_room r exclude h)"
proof -
  have "deliver_room r exclude (room_dropped room h) =
      concat (map (\<lambda>(_, s). if \<not> (r \<noteq> room \<and> ses_in_room r s) \<or> sn_user s \<in> set exclude then [] else push_notice s) (hb_by_sid h))"
    unfolding deliver_room_def room_dropped_sessions [OF assms] map_map
    by (intro arg_cong [where f = concat] map_cong) (auto simp: wipe_in_room push_notice_def)
  then show ?thesis by (simp add: deliver_room_def)
qed

lemma dispatch_drops:
  "hub_sound (hb_by_sid h) \<Longrightarrow>
   deliver_room r exclude (snd (dispatch noe (map RoomDropped rs) h)) = (if r \<in> set rs then [] else deliver_room r exclude h)"
proof (induction rs arbitrary: h)
  case (Cons room rs)
  have "hub_sound (hb_by_sid (room_dropped room h))"
    using Cons.prems by (simp add: room_dropped_sessions hub_sound_wipe)
  then show ?case using Cons.IH deliver_dropped [OF Cons.prems] by (auto split: prod.splits)
qed simp

text \<open>
  Dropping is consistent across the gateway (C19): after a tick and the events it sends, a room that was dropped has no
  route and its notices reach nobody; every other room has the route and the receivers it had before.
\<close>

theorem gateway_drops_consistently:
  assumes "admits hub_step hub_guard (hub_start node) es" "h = hr_hub (run_from hub_step (hub_start node) es)"
    "bus_tick now (view_run node inst grace vs) = (evs, v')" "h' = snd (dispatch noe evs h)"
  shows "(RoomDropped r \<in> set evs \<longrightarrow> room_node r v' = None \<and> deliver_room r exclude h' = []) \<and>
    (RoomDropped r \<notin> set evs \<longrightarrow> room_node r v' = room_node r (view_run node inst grace vs) \<and> deliver_room r exclude h' = deliver_room r exclude h)"
proof -
  let ?v = "view_run node inst grace vs"
  obtain s v'' where s: "settle now ?v = (s, v'')" by fastforce
  then have e: "evs = map RoomDropped (st_dropped s)" "v' = v''\<lparr>v_recovered := False\<rparr>" using assms(3) by (auto simp: bus_tick_def)
  have route: "bt_get (v_routing v'') q = (if q \<in> set (st_dropped s) then None else bt_get (v_routing ?v) q)" for q
    using settle_eff [OF s] unfolding settle_spec_def by blast
  have "hub_ok (called (run_from hub_step (hub_start node) es)) h" using hub.strict_run [OF assms(1)] assms(2) by (simp add: hub_strict_def)
  then show ?thesis
    using dispatch_drops [OF hub_ok_sound, of _ h r exclude noe "st_dropped s"] assms(4) route [of r] by (auto simp: e room_node_def)
qed

definition demo_gateway :: hub where
  "demo_gateway = hr_hub (run_from hub_step (hub_start ''a'') [HBind 0 ''s'' ''u'' 1 0, HRooms ''s'' ''b'' (Some [''r''])])"

theorem gateway_drops_consistently_witness:
  "fst (bus_tick 6000 (view_run ''a'' ''ai'' 30000 [VToken (RoomPut ''r'' ''b'' ''bi'') 1, VToken (RoomDel ''r'' ''b'' ''bi'') 2])) = [RoomDropped ''r''] \<and>
   deliver_room ''r'' [] demo_gateway = [HNotice 1] \<and>
   deliver_room ''r'' [] (snd (dispatch Map.empty [RoomDropped ''r''] demo_gateway)) = []"
proof -
  let ?v = "view_run ''a'' ''ai'' 30000 [VToken (RoomPut ''r'' ''b'' ''bi'') 1, VToken (RoomDel ''r'' ''b'' ''bi'') 2]"
  have evs: "fst (bus_tick 6000 ?v) = [RoomDropped ''r'']"
    by (simp add: view_run_def bus_tick_def settle_def settle_due_def SETTLE_MS_def on_token_def view_new_def bt_get_def others_live_def release_held_def bt_remove_def bs_remove_def)
  then obtain v' where v': "bus_tick 6000 ?v = ([RoomDropped ''r''], v')" by (metis prod.collapse)
  have adm: "admits hub_step hub_guard (hub_start ''a'') [HBind 0 ''s'' ''u'' 1 0, HRooms ''s'' ''b'' (Some [''r''])]" by code_simp
  have "deliver_room ''r'' [] demo_gateway = [HNotice 1]" by code_simp
  then show ?thesis using evs gateway_drops_consistently [OF adm demo_gateway_def v' refl, of "''r''" "[]" Map.empty] by simp
qed

end
