(* ===== verification/Gateway_Rooms.thy ===== *)
theory Gateway_Rooms
  imports Gateway
begin

text \<open>
  Rooms as a gateway serves them (\<open>oxhubd/src/room/mod.rs\<close>, and the routing of requests in \<open>ses/mod.rs\<close>): what is checked of
  a request, where a new room is created, where the requests of a room go, and the list of all rooms. A JSON body
  is the kinds of its fields; what the nodes answer is a parameter.
\<close>

definition PERMANENT_TTL :: nat where "PERMANENT_TTL = 2 ^ 32 - 1"
definition MAX_CAPACITY :: nat where "MAX_CAPACITY = 1000"

datatype json_value = JNull | JText string | JNumber int | JAny

definition valid_room_id :: "string \<Rightarrow> bool" where
  "valid_room_id r \<longleftrightarrow> r \<noteq> [] \<and> length r \<le> 255 \<and> valid_piece r"

definition u32_field :: "json_value option \<Rightarrow> code + nat option" where
  "u32_field f =
     (case f of
        None \<Rightarrow> Inr None
      | Some JNull \<Rightarrow> Inr None
      | Some (JNumber n) \<Rightarrow> if 0 \<le> n \<and> n < 2 ^ 32 then Inr (Some (nat n)) else Inl InvalidPayload
      | Some _ \<Rightarrow> Inl InvalidPayload)"

section \<open>Creating\<close>

record create_req =
  cr_name :: "json_value option"
  cr_room :: "json_value option"
  cr_capacity :: "json_value option"
  cr_unused_ttl :: "json_value option"
  cr_departure_ttl :: "json_value option"

definition create_check :: "string \<Rightarrow> create_req \<Rightarrow> code + string" where
  "create_check fresh q =
     (case cr_name q of
        None \<Rightarrow> Inl MissingField
      | Some JNull \<Rightarrow> Inl MissingField
      | Some (JText n) \<Rightarrow>
          if n = [] then Inl MissingField
          else
            (case (case cr_room q of
                     Some (JText r) \<Rightarrow> Inr (if r = [] then fresh else r)
                   | None \<Rightarrow> Inr fresh
                   | Some JNull \<Rightarrow> Inr fresh
                   | Some _ \<Rightarrow> Inl InvalidPayload) of
               Inl cd \<Rightarrow> Inl cd
             | Inr room \<Rightarrow>
                 (case u32_field (cr_capacity q) of
                    Inl cd \<Rightarrow> Inl cd
                  | Inr cap \<Rightarrow>
                      if (case cap of Some n \<Rightarrow> MAX_CAPACITY < n | None \<Rightarrow> False) then Inl InvalidPayload
                      else if valid_room_id room then Inr room else Inl InvalidPayload))
      | Some _ \<Rightarrow> Inl InvalidPayload)"

definition ttl_or :: "nat \<Rightarrow> json_value option \<Rightarrow> json_value option" where
  "ttl_or v f = (if f = None \<or> f = Some JNull then Some (JNumber (int (if v = 0 then PERMANENT_TTL else v))) else f)"

definition create_defaults :: "nat \<Rightarrow> nat \<Rightarrow> string \<Rightarrow> create_req \<Rightarrow> create_req" where
  "create_defaults unused departure room q = q\<lparr>cr_room := Some (JText room), cr_unused_ttl := ttl_or unused (cr_unused_ttl q),
     cr_departure_ttl := ttl_or departure (cr_departure_ttl q)\<rparr>"

definition create_target :: "nat \<Rightarrow> string \<Rightarrow> nat \<Rightarrow> view \<Rightarrow> code + string" where
  "create_target max_rooms room now v =
     (if 0 < max_rooms \<and> max_rooms \<le> length (v_routing v) \<and> room_node room v = None then Inl QuotaExceeded
      else
        (case room_node room v of
           Some l \<Rightarrow> Inr (lc_node l)
         | None \<Rightarrow> (case place room now v of None \<Rightarrow> Inl SfuUnavailable | Some (node, live) \<Rightarrow> if live then Inr node else Inl SfuUnavailable)))"

definition room_create :: "nat \<Rightarrow> nat \<Rightarrow> nat \<Rightarrow> string \<Rightarrow> create_req option \<Rightarrow> nat \<Rightarrow> view \<Rightarrow> code + create_req \<times> string" where
  "room_create max_rooms unused departure fresh body now v =
     (case body of
        None \<Rightarrow> Inl InvalidPayload
      | Some q \<Rightarrow>
          (case create_check fresh q of
             Inl cd \<Rightarrow> Inl cd
           | Inr room \<Rightarrow>
               (case create_target max_rooms room now v of
                  Inl cd \<Rightarrow> Inl cd
                | Inr node \<Rightarrow> Inr (create_defaults unused departure room q, node))))"

section \<open>Requests of a room\<close>

definition room_of :: "json_value option \<Rightarrow> code + string" where
  "room_of f = (case f of None \<Rightarrow> Inl MissingField | Some JNull \<Rightarrow> Inl MissingField | Some (JText r) \<Rightarrow> Inr r | Some _ \<Rightarrow> Inl InvalidPayload)"

definition room_target :: "json_value option \<Rightarrow> view \<Rightarrow> code + string \<times> loc" where
  "room_target f v =
     (case room_of f of
        Inl cd \<Rightarrow> Inl cd
      | Inr room \<Rightarrow>
          if \<not> valid_room_id room then Inl InvalidPayload
          else (case room_node room v of None \<Rightarrow> Inl RoomNotFound | Some l \<Rightarrow> Inr (room, l)))"

text \<open>A client with one peer connection brings its codecs and extensions along, one with two does not.\<close>

definition join_body_check :: "bool \<Rightarrow> bool \<Rightarrow> bool \<Rightarrow> code option" where
  "join_body_check one_pc extmap codecs =
     (if one_pc \<and> \<not> extmap then Some MissingField
      else if one_pc \<and> \<not> codecs then Some MissingField
      else if \<not> one_pc \<and> (extmap \<or> codecs) then Some InvalidPayload
      else None)"

definition get_room :: "string \<Rightarrow> view \<Rightarrow> code + string" where
  "get_room room v =
     (if \<not> valid_room_id room then Inl InvalidPayload
      else (case room_node room v of None \<Rightarrow> Inl RoomNotFound | Some l \<Rightarrow> Inr (lc_node l)))"

text \<open>The rooms of all live nodes by identifier; a node that does not answer is passed over.\<close>

definition list_rooms :: "(string \<Rightarrow> (string \<times> 'a) list option) \<Rightarrow> view \<Rightarrow> (string \<times> 'a) list" where
  "list_rooms answer v =
     sort_key fst (concat (map (\<lambda>(n, _). case answer n of Some rs \<Rightarrow> rs | None \<Rightarrow> []) (live_nodes v)))"

section \<open>Where a room is\<close>

lemma create_check_valid: "create_check fresh q = Inr room \<Longrightarrow> valid_room_id room"
  by (auto simp: create_check_def split: option.splits json_value.splits sum.splits if_splits)

lemma create_target_new:
  "create_target max_rooms room now v = Inr n \<Longrightarrow> room_node room v = None \<Longrightarrow>
   pick (candidates now v) room = Some n \<and> node_live n v \<and> (max_rooms = 0 \<or> length (v_routing v) < max_rooms)"
  by (auto simp: create_target_def place_def split: if_splits option.splits)

lemma pick_same_set: "set ns = set ms \<Longrightarrow> pick ns room = pick ms room"
  using pick_Some_iff [of ns room] pick_Some_iff [of ms room] by (metis option.exhaust)

text \<open>
  One place for a room (C20): an accepted request has a valid identifier; a room that is known is created where it is, so that
  it does not come to be twice; a new one goes to a live node, within the quota, and every other gateway that sees the same nodes
  and creates it as well sends it to the same one.
\<close>

theorem room_created_in_one_place:
  assumes "room_create max_rooms unused departure fresh (Some q) now v = Inr (q', n)"
  shows "\<exists>room. cr_room q' = Some (JText room) \<and> valid_room_id room \<and>
    (case room_node room v of
       Some l \<Rightarrow> n = lc_node l
     | None \<Rightarrow> node_live n v \<and> (max_rooms = 0 \<or> length (v_routing v) < max_rooms) \<and>
         (\<forall>w now' max' n'. room_node room w = None \<and> set (candidates now' w) = set (candidates now v) \<and>
            create_target max' room now' w = Inr n' \<longrightarrow> n' = n))"
proof -
  obtain room where r: "create_check fresh q = Inr room" "create_target max_rooms room now v = Inr n" "q' = create_defaults unused departure room q"
    using assms by (auto simp: room_create_def split: sum.splits)
  have q': "cr_room q' = Some (JText room)" "valid_room_id room" using r create_check_valid by (auto simp: create_defaults_def)
  show ?thesis
  proof (cases "room_node room v")
    case None
    have "n' = n" if "room_node room w = None" "set (candidates now' w) = set (candidates now v)" "create_target max' room now' w = Inr n'"
      for w now' max' n'
      using create_target_new [OF that(3,1)] create_target_new [OF r(2) None] pick_same_set [OF that(2), of room] by simp
    then show ?thesis using q' create_target_new [OF r(2) None] None by (intro exI [of _ room]) auto
  next
    case (Some l)
    then show ?thesis using q' r(2) by (intro exI [of _ room]) (simp add: create_target_def)
  qed
qed

definition demo_create :: create_req where
  "demo_create = \<lparr>cr_name = Some (JText ''Room''), cr_room = Some (JText ''r1''), cr_capacity = Some (JNumber 20), cr_unused_ttl = None, cr_departure_ttl = None\<rparr>"

definition demo_view :: view where
  "demo_view = on_token (RoomPut ''r1'' ''b'' ''b1'') 5 (declare_self (view_new ''a'' ''a1'' 30000))"

theorem room_created_in_one_place_witness:
  "room_create 1 0 60 ''x'' (Some demo_create) 9 demo_view = Inr (create_defaults 0 60 ''r1'' demo_create, ''b'') \<and>
   valid_room_id ''r1'' \<and> map_option lc_node (room_node ''r1'' demo_view) = Some ''b''"
proof -
  have vp: "valid_piece ''r1''" by (simp add: valid_piece_def PIECE_FORBIDDEN_def)
  have c: "create_check ''x'' demo_create = Inr ''r1''"
    using vp by (simp add: create_check_def demo_create_def u32_field_def MAX_CAPACITY_def valid_room_id_def)
  have t: "create_target 1 ''r1'' 9 demo_view = Inr ''b''"
    by (simp add: create_target_def demo_view_def on_token_def room_node_def bt_get_def declare_self_def view_new_def)
  have e: "room_create 1 0 60 ''x'' (Some demo_create) 9 demo_view = Inr (create_defaults 0 60 ''r1'' demo_create, ''b'')"
    using c t by (simp add: room_create_def)
  have "cr_room (create_defaults 0 60 ''r1'' demo_create) = Some (JText ''r1'')" "room_node ''r1'' demo_view = Some \<lparr>lc_node = ''b'', lc_inst = ''b1''\<rparr>"
    by (simp_all add: create_defaults_def demo_view_def on_token_def room_node_def bt_get_def declare_self_def view_new_def)
  then show ?thesis using e room_created_in_one_place [OF e] by simp
qed

end
