(* ===== verification/Spec2Isabelle.thy ===== *)
theory Spec2Isabelle
  imports Sig_Frame Sig_Codes Mbcp Floor_Exec Floor_News Mesh_Props Mesh_Delivery Fwd_Core Rtcp_Twcc Rtcp_Stats Placement Keyspace Rtp Pub_Track
    Demux Worker_Queue Egress_Rtx Trk_Props Sub_Props Hub_View_Props Ws_Props Room_Props Gateway_Rooms
begin

text \<open>
  OxLens SFU, a media server for push-to-talk and conferencing, as a library of Isabelle theories.

  \<^bold>\<open>The program.\<close> Clients speak to a gateway (\<open>oxhubd\<close>) in binary frames with JSON bodies (\<open>oxsig\<close>), and
  to a media server (\<open>oxsfud\<close>) over RTP, RTCP and a data channel. The data channel carries the floor
  messages of push-to-talk rooms; the floor arbiter of a room decides who speaks, its execution
  layer runs the timers and applies the decisions to the room's media slot, and the forwarder rewrites
  the packets of changing speakers into one stream. A receiving connection has a table of lines that says
  which track each of its streams carries; workers take packets from rings and send them. Gateways and media
  servers of all nodes are joined by a message bus (\<open>oxmesh\<close>): routers in a direct mesh, sessions with four
  lanes, declarations (subscriptions, queryables, tokens), puts and queries. A gateway keeps the sessions of
  its clients and a view of the bus, from which it knows the node of every room.

  \<^bold>\<open>Theories.\<close>

  \<^item> \<open>Prelude\<close>: bytes and machine integers with Rust's wrap-around and casts, big-endian readers,
    insertion-ordered tables (\<open>bt_get\<close>, \<open>bt_remove\<close>, \<open>hm_put\<close>) for the program's maps, and the locales
    \<open>machine\<close> and \<open>guarded_machine\<close>: a step function with an invariant every (admitted) step keeps.
  \<^item> \<open>Codec\<close>: the contract of an encoder and its decoder as locales, with the lemmas on sequences of
    encoded items that every format below uses.
  \<^item> \<open>Sig_Frame\<close> (\<open>oxsig/src/frame.rs\<close>, \<open>dc.rs\<close>), \<open>Sig_Codes\<close> (\<open>code.rs\<close>, \<open>op.rs\<close>) and \<open>Mbcp\<close>
    (\<open>floor.rs\<close>): the client frame, the data-channel frame, error codes and operation numbers, and the
    floor messages with their TLV fields. Round trips, exact acceptance, and the composition of a
    floor request inside a data-channel frame.
  \<^item> \<open>Floor_Core\<close> (\<open>oxsfud/src/flr/core.rs\<close>): the floor arbiter, one function per method of \<open>Floor\<close>,
    on a record of the same fields, each returning the messages and media effects of the step.
    \<open>Floor_Frame\<close>: what each operation leaves alone. \<open>Floor_Inv\<close>: the invariant. \<open>Floor_Clean\<close>: the
    stronger invariant of runs in which no waiting participant sends media. \<open>Floor_Props\<close>: the properties.
    \<open>Floor_News\<close>: the messages sent to each member, and that the last of them is right about the floor.
  \<^item> \<open>Floor_Bind\<close> (\<open>flr/bind.rs\<close>) and \<open>Floor_Exec\<close> (\<open>ops/floor.rs\<close>): the media slot with its numbered
    effects, the decision under the room's lock, timers, message conversion and execution; the
    refinement from the floor holder to the slot's speaker.
  \<^item> \<open>Fwd_Core\<close> (\<open>fwd/core.rs\<close>): the egress rewriter at 16 and 32 bits.
  \<^item> \<open>Mesh_Wire\<close>, \<open>Mesh_Keyexpr\<close>, \<open>Mesh_Session\<close> (\<open>oxmesh/src/wire.rs\<close>, \<open>keyexpr.rs\<close>, \<open>session.rs\<close>): message
    format, fragmentation and reassembly; matching of key expressions against a reference semantics;
    the outbox of a session and the read loop. \<open>Mesh_Delivery\<close>: the write loop, and a session from push to delivery
    over any mixture of the frames of its four lanes.
  \<^item> \<open>Mesh_Core\<close> (\<open>oxmesh/src/core.rs\<close>): the core task of a mesh node, every handler on the whole state.
    \<open>Mesh_Ledger\<close>: the state without outboxes and emitted effects, on which the bookkeeping of each
    handler is computed once. \<open>Mesh_Subs\<close>: the subscription index. \<open>Mesh_Inv\<close> and \<open>Mesh_Node\<close>: the
    invariant and its preservation by every event. \<open>Mesh_Props\<close>: the properties.
  \<^item> \<open>Rtp\<close> (\<open>fwd/mod.rs\<close>, \<open>sub/ext.rs\<close>): headers and their extensions. \<open>Rtcp_Core\<close> (\<open>rtcp/core.rs\<close>), \<open>Rtcp_Pkt\<close>
    (\<open>rtcp/mod.rs\<close>), \<open>Rtcp_Nack\<close>, \<open>Rtcp_Twcc\<close>, \<open>Rtcp_Stats\<close>: compound packets, loss requests, transport feedback that is
    read back to within its time unit, receiver statistics across wraps. \<open>Pub_Track\<close> (\<open>pub/mod.rs\<close>): the
    loss requests and picture requests of a publication.
  \<^item> \<open>Link\<close> and \<open>Stun\<close> (\<open>link/\<close>), \<open>Demux\<close> (\<open>fwd/rt.rs\<close>): framing over TCP, credentials and paths, connectivity checks, and which
    datagram may reach which connection. \<open>Worker_Queue\<close> (\<open>fwd/rt.rs\<close>): the rings of a worker and its parking as a step
    relation over all interleavings. \<open>Egress\<close> and \<open>Egress_Rtx\<close> (\<open>fwd/mod.rs\<close>, \<open>rtcp/mod.rs\<close>): the packet that is sent on a
    line and its retransmission.
  \<^item> \<open>Trk\<close> and \<open>Trk_Props\<close> (\<open>trk/mod.rs\<close>): codecs, profiles, key frames.
  \<^item> \<open>Sub_Table\<close> (\<open>sub/mod.rs\<close>): the table of lines. \<open>Sub_Act\<close>: every operation as a sequence of elementary acts, with
    what each keeps. \<open>Sub_Sync\<close>: synchronisation in stages. \<open>Sub_Props\<close>: numbers, limits, distinct stream
    identities, what a client was shown, all or nothing.
  \<^item> \<open>Room\<close> and \<open>Room_Props\<close> (\<open>room/mod.rs\<close>, the room parts of \<open>ops/rooms.rs\<close> and \<open>gc/mod.rs\<close>): roster, permissions, versions and lifetime;
    a client that applies the notices has the roster of the room. A join is one step with what the registries of the
    node answer as parameters (\<open>join_req\<close>); a snapshot reads roster and version in two states (\<open>room_snapshot\<close>).
  \<^item> \<open>Keyspace\<close> (\<open>common/src/keyspace.rs\<close>) and \<open>Placement\<close> (\<open>oxhubd/src/bus/placement.rs\<close>): the keys of the bus and the choice of a node.
  \<^item> \<open>Hub_View\<close> and \<open>Hub_View_Props\<close> (\<open>bus/view.rs\<close>): tokens, settling, isolation, routes. \<open>Hub_Ses\<close> and \<open>Hub_Ses_Props\<close>
    (\<open>ses/mod.rs\<close>): the registry of sessions and the counted interest in rooms and users, with joins that wait for their
    answer. \<open>Ws_Conn\<close> and \<open>Ws_Props\<close> (\<open>ses/conn.rs\<close>): the writer with its lanes and window, and the reader. \<open>Gateway\<close> and
    \<open>Gateway_Rooms\<close> (\<open>ops/mod.rs\<close>, \<open>oxhubd/src/room/mod.rs\<close>): the event loop over view and sessions, the creation of rooms and
    the routing of requests.

  \<^bold>\<open>Conventions.\<close> A struct is a record, an enum a datatype, a method a function that returns the new
  state. Bytes are 8-bit words; counters whose wrap-around matters are words of the source's width;
  lengths and times are natural numbers (times are milliseconds of the process clock; Rust's saturating
  subtraction is subtraction on naturals). Rust's ordered maps are tables whose order is the iteration
  order; hash maps are tables as well, and no theorem depends on their order. Errors are values of
  sum or option types.

  \<^bold>\<open>Parameters.\<close> The JSON reader and the text of JSON bodies, the clock, what arrives from sockets, whether a send succeeds,
  HMAC-SHA1 and CRC-32 of connectivity checks, SRTP protection, the draw of a random stream identity, and
  the answers of other nodes are arguments of the definitions.

  \<^bold>\<open>Hypotheses.\<close> The mesh properties are about runs admitted by \<open>well_behaved\<close>: a peer does not declare a number again
  for another expression while the first declaration stands. The floor properties that need it say that
  no waiting participant sends media. The draw of a stream identity gives a free one (\<open>fresh_pick\<close>) while
  uplinks and lines leave any free. The roster of a replica and the capacity are about rooms whose members do not change
  their hidden claim when they join again (\<open>steady\<close>), and a replica starts from a snapshot between whose two
  readings the visible users stayed the same; delivery on a session is about one that is not closed, with a reader that is
  neither stopped nor fenced (\<open>calm\<close>); current routes are about a gateway that was never isolated;
  exact interest about histories in which subscriptions succeed, a join is answered while its session stands and a room
  that is dropped is listed under one node (\<open>hub_guard\<close>). For those of rooms, floor and gateway an example shows what
  happens otherwise.
  The handlers of a room and of the session registry are single steps, except that a join of a gateway is a call and
  an answer with anything in between.

  \<^bold>\<open>Bounds.\<close> Every function is total. The key-expression matchers recurse on the lengths of their
  arguments, the decoders on the bytes left, the read loops on the frames of their input, and the writer of a
  connection on the notices queued.

  \<^bold>\<open>Not modelled.\<close> Sockets, TLS and DTLS, the asynchronous tasks and their scheduling (but for the worker queue), JSON
  text, token signatures, logging, configuration files, HTTP handlers and the process supervisor: they are input and output, or
  third-party code the sources only call. Simulcast layer control estimates in floating point. Of the
  request handlers of the media server the room, floor and subscription parts are modelled where they are
  called, not the handlers as a whole, which join them over shared registries.
\<close>

end
